(* ===== verification/Prelude.thy ===== *)
theory Prelude
  imports Main "HOL-Library.Word"
begin

text \<open>
  Shared ground of the development: byte strings and the big-endian integer
  encodings the wire formats use, an io.Reader as the tape of bytes it will
  still deliver, results that are an error or a value, and the list facts
  (last n elements, extraction of the first match) that several components
  need. The collections below are filled by the components' theories.
\<close>

named_theorems byte_simps \<open>lengths and round trips of byte encodings\<close>
named_theorems wf_intros \<open>well-formedness is kept by the operations\<close>

unbundle bit_operations_syntax

type_synonym byte = "8 word"
type_synonym bytes = "8 word list"
type_synonym u32 = "32 word"
type_synonym u64 = "64 word"

section \<open>Results\<close>

text \<open>A Go pair (value, error) is a sum: \<open>Inl\<close> the error, \<open>Inr\<close> the value.\<close>

fun bindR :: "'e + 'a \<Rightarrow> ('a \<Rightarrow> 'e + 'b) \<Rightarrow> 'e + 'b" where
  "bindR (Inl e) f = Inl e"
| "bindR (Inr x) f = f x"

fun of_opt :: "'e \<Rightarrow> 'a option \<Rightarrow> 'e + 'a" where
  "of_opt e None = Inl e"
| "of_opt e (Some x) = Inr x"

fun is_ok :: "'e + 'a \<Rightarrow> bool" where
  "is_ok (Inl e) = False"
| "is_ok (Inr x) = True"

fun map_err :: "('e \<Rightarrow> 'f) \<Rightarrow> 'e + 'a \<Rightarrow> 'f + 'a" where
  "map_err f (Inl e) = Inl (f e)"
| "map_err f (Inr x) = Inr x"

lemma map_err_Inr_iff [simp]: "map_err f r = Inr x \<longleftrightarrow> r = Inr x"
  by (cases r) simp_all

lemma map_err_Inl_iff: "map_err f r = Inl e \<longleftrightarrow> (\<exists>e'. r = Inl e' \<and> e = f e')"
  by (cases r) auto

lemma bindR_Inr [simp]: "bindR r Inr = r"
  by (cases r) simp_all

lemma bindR_Inr_iff: "bindR r f = Inr y \<longleftrightarrow> (\<exists>x. r = Inr x \<and> f x = Inr y)"
  by (cases r) simp_all

lemma bindR_Inl_iff: "bindR r f = Inl e \<longleftrightarrow> r = Inl e \<or> (\<exists>x. r = Inr x \<and> f x = Inl e)"
  by (cases r) simp_all

lemma of_opt_Inr_iff [simp]: "of_opt e r = Inr y \<longleftrightarrow> r = Some y"
  by (cases r) simp_all

lemma of_opt_Inl_iff [simp]: "of_opt e r = Inl e' \<longleftrightarrow> r = None \<and> e' = e"
  by (cases r) auto

lemma guards_Inr:
  "(if A then Inl e else r) = Inr y \<longleftrightarrow> \<not> A \<and> r = Inr y"
  by simp

lemma is_ok_iff: "is_ok r \<longleftrightarrow> (\<exists>x. r = Inr x)"
  by (cases r) simp_all

section \<open>Readers\<close>

text \<open>
  An io.Reader is the tape of the bytes it will still return; io.ReadFull
  takes exactly \<open>n\<close> of them or fails when the tape is shorter.
\<close>

type_synonym reader = bytes

definition read_full :: "nat \<Rightarrow> reader \<Rightarrow> (bytes \<times> reader) option" where
  "read_full n r = (if n \<le> length r then Some (take n r, drop n r) else None)"

lemma read_full_length: "read_full n r = Some (b, r') \<Longrightarrow> length b = n"
  by (auto simp: read_full_def split: if_splits)

section \<open>Big-endian encodings\<close>

definition be32 :: "u32 \<Rightarrow> bytes" where
  "be32 w = [ucast (drop_bit 24 w), ucast (drop_bit 16 w), ucast (drop_bit 8 w), ucast w]"

definition be64 :: "u64 \<Rightarrow> bytes" where
  "be64 w = [ucast (drop_bit 56 w), ucast (drop_bit 48 w), ucast (drop_bit 40 w),
     ucast (drop_bit 32 w), ucast (drop_bit 24 w), ucast (drop_bit 16 w),
     ucast (drop_bit 8 w), ucast w]"

text \<open>binary.BigEndian.Uint32 and Uint64 read the first four (eight) bytes.\<close>

definition un_be32 :: "bytes \<Rightarrow> u32" where
  "un_be32 b = push_bit 24 (ucast (b ! 0)) OR push_bit 16 (ucast (b ! 1))
     OR push_bit 8 (ucast (b ! 2)) OR ucast (b ! 3)"

definition un_be64 :: "bytes \<Rightarrow> u64" where
  "un_be64 b = fold (\<lambda>x acc. push_bit 8 acc OR ucast x) (take 8 b) 0"

lemma length_be32 [simp, byte_simps]: "length (be32 w) = 4"
  by (simp add: be32_def)

lemma length_be64 [simp, byte_simps]: "length (be64 w) = 8"
  by (simp add: be64_def)

lemma byte_slice: "bit (push_bit k (ucast (ucast (drop_bit k w) :: byte) :: 'a::len word)) n
    \<longleftrightarrow> k \<le> n \<and> n < k + 8 \<and> bit (w :: 'a word) n"
  by (auto simp: bit_simps dest: bit_imp_le_length)

lemma byte_slice0: "bit (ucast (ucast w :: byte) :: 'a::len word) n \<longleftrightarrow> n < 8 \<and> bit (w :: 'a word) n"
  by (auto simp: bit_simps dest: bit_imp_le_length)

lemma un_be32_be32 [simp, byte_simps]: "un_be32 (be32 w @ r) = w"
  unfolding un_be32_def be32_def
  by (rule bit_word_eqI) (auto simp: bit_or_iff byte_slice byte_slice0)

lemma un_be64_be64 [simp, byte_simps]: "un_be64 (be64 w @ r) = w"
proof -
  have "un_be64 (be64 w @ r) = push_bit 56 (ucast (ucast (drop_bit 56 w) :: byte))
      OR push_bit 48 (ucast (ucast (drop_bit 48 w) :: byte))
      OR push_bit 40 (ucast (ucast (drop_bit 40 w) :: byte))
      OR push_bit 32 (ucast (ucast (drop_bit 32 w) :: byte))
      OR push_bit 24 (ucast (ucast (drop_bit 24 w) :: byte))
      OR push_bit 16 (ucast (ucast (drop_bit 16 w) :: byte))
      OR push_bit 8 (ucast (ucast (drop_bit 8 w) :: byte)) OR ucast (ucast w :: byte)"
    by (simp add: un_be64_def be64_def or.assoc)
  also have "\<dots> = w"
    by (rule bit_word_eqI) (auto simp: bit_or_iff byte_slice byte_slice0)
  finally show ?thesis .
qed

lemma un_be32_be32_all [simp, byte_simps]: "un_be32 (be32 w) = w"
  using un_be32_be32 [of w "[]"] by simp

lemma un_be64_be64_all [simp, byte_simps]: "un_be64 (be64 w) = w"
  using un_be64_be64 [of w "[]"] by simp

lemma be32_inj: "be32 a = be32 b \<longleftrightarrow> a = b"
  by (metis un_be32_be32)

lemma be64_inj: "be64 a = be64 b \<longleftrightarrow> a = b"
  by (metis un_be64_be64)

lemma length_4_iff: "length xs = 4 \<longleftrightarrow> (\<exists>a b c d. xs = [a, b, c, d])"
  by (auto simp: length_Suc_conv eval_nat_numeral)

lemma be32_un_be32: "length b = 4 \<Longrightarrow> be32 (un_be32 b) = b"
  unfolding length_4_iff be32_def un_be32_def
  by (clarsimp, intro conjI; rule bit_word_eqI; auto simp: bit_simps dest: bit_imp_le_length)

section \<open>Strings\<close>

text \<open>[]byte(s) of an ASCII string.\<close>

definition str_bytes :: "string \<Rightarrow> bytes" where
  "str_bytes s = map of_char s"

lemma length_str_bytes [simp, byte_simps]: "length (str_bytes s) = length s"
  by (simp add: str_bytes_def)

section \<open>Fixed-width slices\<close>

text \<open>A field of known width at the front of a record splits off by its length.\<close>

lemma take_field [simp]: "length a = n \<Longrightarrow> take n (a @ b) = a"
  by simp

lemma drop_field [simp]: "length a = n \<Longrightarrow> drop n (a @ b) = b"
  by simp

section \<open>The last n elements\<close>

text \<open>
  Both ratchets append a skipped key and drop the oldest one once the list is
  longer than the cap: over a run of appends this keeps the last \<open>cap\<close>.
\<close>

definition last_n :: "nat \<Rightarrow> 'a list \<Rightarrow> 'a list" where
  "last_n n xs = drop (length xs - n) xs"

lemma length_last_n [simp]: "length (last_n n xs) = min n (length xs)"
  by (auto simp: last_n_def)

lemma last_n_all: "length xs \<le> n \<Longrightarrow> last_n n xs = xs"
  by (simp add: last_n_def)

lemma set_last_n: "set (last_n n xs) \<subseteq> set xs"
  by (auto simp: last_n_def dest: in_set_dropD)

lemma last_n_append: "last_n n (xs @ ys) = last_n (n - length ys) xs @ last_n n ys"
  by (cases "n \<le> length ys") (auto simp: last_n_def)

lemma last_n_last_n_append: "last_n n (last_n n xs @ ys) = last_n n (xs @ ys)"
proof (cases "length xs \<le> n")
  case True
  then show ?thesis by (simp add: last_n_all)
next
  case False
  then have "length (drop (length xs - n) xs @ ys) - n = length ys" by auto
  with False show ?thesis
    by (auto simp: last_n_def add.commute)
qed

lemma last_n_keeps_suffix: "length ys \<le> n \<Longrightarrow> \<exists>zs. last_n n (xs @ ys) = zs @ ys"
  by (simp add: last_n_append last_n_all)

lemma last_n_snoc: "length xs \<le> n \<Longrightarrow> 0 < n \<Longrightarrow>
    (if n < length (xs @ [x]) then tl (xs @ [x]) else xs @ [x]) = last_n n (xs @ [x])"
  by (cases xs) (auto simp: last_n_def Suc_diff_le)

lemma distinct_last_n: "distinct xs \<Longrightarrow> distinct (last_n n xs)"
  by (simp add: last_n_def)

section \<open>Extracting the first match\<close>

fun pluck :: "('a \<Rightarrow> bool) \<Rightarrow> 'a list \<Rightarrow> ('a \<times> 'a list) option" where
  "pluck P [] = None"
| "pluck P (x # xs) =
     (if P x then Some (x, xs)
      else (case pluck P xs of None \<Rightarrow> None | Some (y, ys) \<Rightarrow> Some (y, x # ys)))"

lemma pluck_None_iff: "pluck P xs = None \<longleftrightarrow> (\<forall>x \<in> set xs. \<not> P x)"
  by (induction xs) (auto split: option.splits)

lemma pluck_Some:
  "pluck P xs = Some (y, ys) \<Longrightarrow> P y \<and> y \<in> set xs \<and> set ys \<subseteq> set xs
     \<and> length xs = Suc (length ys) \<and> set xs = insert y (set ys)"
  by (induction xs arbitrary: y ys) (auto split: if_splits option.splits)

lemma pluck_distinct:
  assumes "pluck P xs = Some (y, ys)" and "distinct (map f xs)"
  shows "distinct (map f ys) \<and> f y \<notin> f ` set ys"
  using assms
proof (induction xs arbitrary: y ys)
  case (Cons x xs)
  show ?case
  proof (cases "P x")
    case False
    with Cons.prems obtain zs where *: "pluck P xs = Some (y, zs)" "ys = x # zs"
      by (auto split: option.splits)
    with Cons.IH [of y zs] Cons.prems(2) have "distinct (map f zs) \<and> f y \<notin> f ` set zs" by simp
    with * Cons.prems(2) pluck_Some [OF *(1)] show ?thesis by auto
  qed (use Cons.prems in auto)
qed simp

lemma pluck_map:
  "pluck P (map f xs) = map_option (\<lambda>(y, ys). (f y, map f ys)) (pluck (\<lambda>x. P (f x)) xs)"
  by (induction xs) (auto split: option.splits)

section \<open>Counting on machine words\<close>

lemma unat_add_of_nat:
  "unat (w :: 'a::len word) + k < 2 ^ LENGTH('a) \<Longrightarrow> unat (w + of_nat k) = unat w + k"
  by (simp add: unat_word_ariths unat_of_nat)

lemma of_nat_add_unat: "(w :: 'a::len word) + of_nat k = of_nat (unat w + k)"
  by simp

lemma u32_lt: "unat (w :: u32) < 2 ^ 32"
  using unsigned_less [of w, where ?'a = nat] by simp

lemma unat_of_nat_u32: "i < 2 ^ 32 \<Longrightarrow> unat (of_nat i :: u32) = i"
  by (simp add: unat_of_nat take_bit_nat_eq_self)

lemma of_nat_u32_inj: "i < 2 ^ 32 \<Longrightarrow> j < 2 ^ 32 \<Longrightarrow> (of_nat i :: u32) = of_nat j \<Longrightarrow> i = j"
  by (metis unat_of_nat_u32)

text \<open>A loop that counts a word up to a limit, one step of \<open>f\<close> per turn.\<close>

lemma unat_Suc_less: "(a :: 'a::len word) < b \<Longrightarrow> unat (a + 1) = Suc (unat a)"
proof -
  assume "a < b"
  then have "Suc (unat a) \<le> unat b" by (simp add: word_less_nat_alt)
  also have "\<dots> < 2 ^ LENGTH('a)" by (rule unsigned_less)
  finally show ?thesis by (simp add: unat_word_ariths)
qed

lemma count_up_less: "(a :: 'a::len word) < b \<Longrightarrow> unat b - unat (a + 1) < unat b - unat a"
  by (simp add: unat_Suc_less word_less_nat_alt)

lemma count_up_loop:
  fixes c :: "'s \<Rightarrow> 'a::len word"
  assumes unfold: "\<And>s. L s = (if c s < b then L (f s) else s)" and step: "\<And>s. c (f s) = c s + 1"
  shows "L s = (f ^^ (unat b - unat (c s))) s"
proof (induction "unat b - unat (c s)" arbitrary: s)
  case 0
  then have "\<not> c s < b" by (simp add: word_less_nat_alt)
  with 0 unfold [of s] show ?case by simp
next
  case (Suc k)
  then have lt: "c s < b" by (simp add: word_less_nat_alt)
  have "k = unat b - unat (c (f s))" using Suc.hyps(2) lt by (simp add: step unat_Suc_less)
  from Suc.hyps(1) [OF this] this lt unfold [of s] have "L s = (f ^^ k) (f s)" by simp
  also have "\<dots> = (f ^^ Suc k) s" by (simp add: funpow_swap1)
  finally show ?case by (simp only: Suc.hyps(2))
qed

end
