(* ===== verification/CryptoIface.thy ===== *)
theory CryptoIface
  imports Prelude
begin

text \<open>
  The cryptographic primitives the program calls (HKDF, X25519,
  ChaCha20-Poly1305, BLAKE2b, SHA-256, Ed25519) and the protobuf runtime are
  libraries outside the repository: they are arguments of the model, collected
  in two records. The laws the code relies on are the predicates below; every
  theorem that needs one names it as a hypothesis. \<open>demo_crypto\<close> satisfies all
  of them and serves the witnesses.
\<close>

record crypto =
  c_hkdf :: "bytes \<Rightarrow> bytes \<Rightarrow> string \<Rightarrow> nat \<Rightarrow> bytes" \<comment> \<open>secret, salt, info, length\<close>
  c_pub :: "bytes \<Rightarrow> bytes" \<comment> \<open>X25519 public key of a private key\<close>
  c_dh :: "bytes \<Rightarrow> bytes \<Rightarrow> bytes option" \<comment> \<open>private, public; None on a low-order point\<close>
  c_gen :: "reader \<Rightarrow> (bytes \<times> reader) option" \<comment> \<open>X25519 GenerateKey\<close>
  c_seal :: "bytes \<Rightarrow> bytes \<Rightarrow> bytes \<Rightarrow> bytes \<Rightarrow> bytes" \<comment> \<open>key, nonce, plaintext, aad\<close>
  c_open :: "bytes \<Rightarrow> bytes \<Rightarrow> bytes \<Rightarrow> bytes \<Rightarrow> bytes option" \<comment> \<open>key, nonce, ciphertext, aad\<close>
  c_blake :: "bytes \<Rightarrow> bytes" \<comment> \<open>BLAKE2b-256\<close>
  c_sha :: "bytes \<Rightarrow> bytes" \<comment> \<open>SHA-256\<close>
  c_edpub :: "bytes \<Rightarrow> bytes"
  c_sign :: "bytes \<Rightarrow> bytes \<Rightarrow> bytes"
  c_verify :: "bytes \<Rightarrow> bytes \<Rightarrow> bytes \<Rightarrow> bool" \<comment> \<open>public key, message, signature\<close>
  c_edgen :: "reader \<Rightarrow> (bytes \<times> reader) option"
  c_xseal :: "bytes \<Rightarrow> bytes \<Rightarrow> bytes \<Rightarrow> bytes \<Rightarrow> bytes" \<comment> \<open>XChaCha20-Poly1305: key, nonce, plaintext, aad\<close>
  c_xopen :: "bytes \<Rightarrow> bytes \<Rightarrow> bytes \<Rightarrow> bytes \<Rightarrow> bytes option"

definition dh_commutes :: "crypto \<Rightarrow> bool" where
  "dh_commutes C \<longleftrightarrow> (\<forall>a b. c_dh C a (c_pub C b) = c_dh C b (c_pub C a))"

definition aead_correct :: "crypto \<Rightarrow> bool" where
  "aead_correct C \<longleftrightarrow> (\<forall>k n p a. c_open C k n (c_seal C k n p a) a = Some p)"

definition xaead_correct :: "crypto \<Rightarrow> bool" where
  "xaead_correct C \<longleftrightarrow> (\<forall>k n p a. c_xopen C k n (c_xseal C k n p a) a = Some p
     \<and> length (c_xseal C k n p a) = length p + 16)"

definition sign_correct :: "crypto \<Rightarrow> bool" where
  "sign_correct C \<longleftrightarrow> (\<forall>k m. c_verify C (c_edpub C k) m (c_sign C k m))"

definition key_lengths :: "crypto \<Rightarrow> bool" where
  "key_lengths C \<longleftrightarrow> (\<forall>s t i n. length (c_hkdf C s t i n) = n)
     \<and> (\<forall>k. length (c_pub C k) = 32) \<and> (\<forall>k. length (c_edpub C k) = 32)
     \<and> (\<forall>r k r'. c_gen C r = Some (k, r') \<longrightarrow> length k = 32)
     \<and> (\<forall>r k r'. c_edgen C r = Some (k, r') \<longrightarrow> length k = 64)
     \<and> (\<forall>m. length (c_blake C m) = 32) \<and> (\<forall>m. length (c_sha C m) = 32)
     \<and> (\<forall>k m. length (c_sign C k m) = 64)"

lemma dh_commutesD: "dh_commutes C \<Longrightarrow> c_dh C a (c_pub C b) = c_dh C b (c_pub C a)"
  by (simp add: dh_commutes_def)

lemma aead_correctD: "aead_correct C \<Longrightarrow> c_open C k n (c_seal C k n p a) a = Some p"
  by (simp add: aead_correct_def)

lemma xaead_correctD:
  "xaead_correct C \<Longrightarrow> c_xopen C k n (c_xseal C k n p a) a = Some p"
  "xaead_correct C \<Longrightarrow> length (c_xseal C k n p a) = length p + 16"
  by (simp_all add: xaead_correct_def)

lemma sign_correctD: "sign_correct C \<Longrightarrow> c_verify C (c_edpub C k) m (c_sign C k m)"
  by (simp add: sign_correct_def)

lemma key_lengthsD:
  assumes "key_lengths C"
  shows "length (c_hkdf C s t i n) = n" "length (c_pub C k) = 32" "length (c_edpub C k) = 32"
    "c_gen C r = Some (k, r') \<Longrightarrow> length k = 32" "c_edgen C r = Some (k, r') \<Longrightarrow> length k = 64"
    "length (c_blake C m) = 32" "length (c_sha C m) = 32" "length (c_sign C k m) = 64"
  using assms unfolding key_lengths_def by blast+

text \<open>The nonce of a one-time key is all zero bytes (12 of them).\<close>

definition zero_nonce :: bytes where "zero_nonce = replicate 12 0"

section \<open>The protobuf runtime\<close>

text \<open>
  proto.Marshal fails on a string field that is not UTF-8; proto.Unmarshal
  fails on bytes that are not a message. The documented law, stated at the one
  message a theorem is about: what was marshalled unmarshals to itself.
\<close>

record 'm pb =
  marshal :: "'m \<Rightarrow> bytes option"
  unmarshal :: "bytes \<Rightarrow> 'm option"

definition pb_roundtrip :: "'m pb \<Rightarrow> 'm \<Rightarrow> bool" where
  "pb_roundtrip P m \<longleftrightarrow> (case marshal P m of None \<Rightarrow> True | Some b \<Rightarrow> unmarshal P b = Some m)"

lemma pb_roundtripD: "pb_roundtrip P m \<Longrightarrow> marshal P m = Some b \<Longrightarrow> unmarshal P b = Some m"
  by (simp add: pb_roundtrip_def)

text \<open>A codec good for one message, for the witnesses.\<close>

definition one_pb :: "bytes \<Rightarrow> 'm \<Rightarrow> 'm pb" where
  "one_pb b m = \<lparr>marshal = (\<lambda>_. Some b), unmarshal = (\<lambda>_. Some m)\<rparr>"

lemma one_pb_simps [simp]:
  "marshal (one_pb b m) x = Some b" "unmarshal (one_pb b m) y = Some m"
  by (simp_all add: one_pb_def)

lemma one_pb_roundtrip [simp]: "pb_roundtrip (one_pb b m) m"
  by (simp add: pb_roundtrip_def)

section \<open>An instance of the laws\<close>

definition demo_mix :: "string \<Rightarrow> byte" where
  "demo_mix s = fold (+) (str_bytes s) 0"

definition demo_tag :: "bytes \<Rightarrow> bytes \<Rightarrow> bytes \<Rightarrow> bytes" where
  "demo_tag k n a = take 16 (map2 (+) k (n @ replicate 16 (of_nat (length a))) @ replicate 16 0)"

definition demo_pad :: "bytes \<Rightarrow> bytes" where
  "demo_pad k = take 32 (k @ replicate 32 0)"

definition demo_crypto :: crypto where
  "demo_crypto = \<lparr>
     c_hkdf = (\<lambda>s t i n. take n (map (\<lambda>b. b + demo_mix i) (s @ t) @ replicate n 0)),
     c_pub = demo_pad,
     c_dh = (\<lambda>a b. Some (map2 (+) (demo_pad a) (demo_pad b))),
     c_gen = read_full 32,
     c_seal = (\<lambda>k n p a. p @ demo_tag k n a),
     c_open = (\<lambda>k n c a. if 16 \<le> length c \<and> drop (length c - 16) c = demo_tag k n a
        then Some (take (length c - 16) c) else None),
     c_blake = demo_pad,
     c_sha = demo_pad,
     c_edpub = demo_pad,
     c_sign = (\<lambda>k m. take 64 (demo_pad k @ m @ replicate 64 0)),
     c_verify = (\<lambda>p m s. s = take 64 (p @ m @ replicate 64 0)),
     c_edgen = read_full 64,
     c_xseal = (\<lambda>k n p a. p @ demo_tag k n a),
     c_xopen = (\<lambda>k n c a. if 16 \<le> length c \<and> drop (length c - 16) c = demo_tag k n a
        then Some (take (length c - 16) c) else None)\<rparr>"

lemma length_demo_tag: "length (demo_tag k n a) = 16"
  by (simp add: demo_tag_def)

lemma length_demo_pad [simp]: "length (demo_pad k) = 32"
  by (simp add: demo_pad_def)

lemma demo_pad_idem [simp]: "demo_pad (demo_pad k) = demo_pad k"
  by (simp add: demo_pad_def)

lemma demo_dh_commutes: "dh_commutes demo_crypto"
proof -
  have swap: "map2 (+) xs ys = map2 (+) ys xs" for xs ys :: bytes
    by (induction xs arbitrary: ys; case_tac ys) (simp_all add: add.commute)
  show ?thesis
    by (simp add: dh_commutes_def demo_crypto_def) (auto intro: swap)
qed

lemma demo_aead_correct: "aead_correct demo_crypto"
  by (simp add: aead_correct_def demo_crypto_def length_demo_tag)

lemma demo_xaead_correct: "xaead_correct demo_crypto"
  by (simp add: xaead_correct_def demo_crypto_def length_demo_tag)

lemma demo_sign_correct: "sign_correct demo_crypto"
  by (simp add: sign_correct_def demo_crypto_def)

lemma demo_key_lengths: "key_lengths demo_crypto"
  by (auto simp: key_lengths_def demo_crypto_def read_full_def split: if_splits)

lemmas demo_laws = demo_dh_commutes demo_aead_correct demo_sign_correct demo_key_lengths
  demo_xaead_correct

end
