(* ===== verification/Envelope.thy ===== *)
theory Envelope
  imports CryptoIface
begin

text \<open>
  envelope/envelope.go: the unit the nodes exchange. The type is the source's
  uint8 with its named values; the protobuf runtime carries it as an enum
  number (an int), which is why Decode checks the range before it narrows.
\<close>

definition MsgIDLen :: nat where "MsgIDLen = 16"
definition MaxPayload :: nat where "MaxPayload = 63 * 1024"

datatype envelope_err = EErrMalformed | EErrBadMsgID | EErrBadType | EErrTooLarge | EErrRand

type_synonym msg_id = bytes

definition new_msg_id :: "reader \<Rightarrow> envelope_err + (msg_id \<times> reader)" where
  "new_msg_id r = of_opt EErrRand (read_full MsgIDLen r)"

type_synonym etype = "8 word"

definition TypeAck :: etype where "TypeAck = 1"
definition TypeProbe :: etype where "TypeProbe = 2"
definition TypePong :: etype where "TypePong = 3"
definition TypeContactRequest :: etype where "TypeContactRequest = 4"
definition TypeContactAccept :: etype where "TypeContactAccept = 5"
definition TypeSessionInit :: etype where "TypeSessionInit = 6"
definition TypeSessionInitAck :: etype where "TypeSessionInitAck = 7"
definition TypeChat :: etype where "TypeChat = 8"
definition TypeGroup :: etype where "TypeGroup = 9"
definition TypeFileManifest :: etype where "TypeFileManifest = 10"
definition TypeFileChunkReq :: etype where "TypeFileChunkReq = 11"
definition TypeFileChunk :: etype where "TypeFileChunk = 12"
definition TypeGroupWelcome :: etype where "TypeGroupWelcome = 13"
definition TypeGroupUpdate :: etype where "TypeGroupUpdate = 14"
definition TypeGroupKey :: etype where "TypeGroupKey = 15"
definition TypeCallOffer :: etype where "TypeCallOffer = 16"
definition TypeCallAnswer :: etype where "TypeCallAnswer = 17"
definition TypeCallHangup :: etype where "TypeCallHangup = 18"
definition maxType :: etype where "maxType = TypeCallHangup"

lemmas type_defs = TypeAck_def TypeProbe_def TypePong_def TypeContactRequest_def
  TypeContactAccept_def TypeSessionInit_def TypeSessionInitAck_def TypeChat_def TypeGroup_def
  TypeFileManifest_def TypeFileChunkReq_def TypeFileChunk_def TypeGroupWelcome_def
  TypeGroupUpdate_def TypeGroupKey_def TypeCallOffer_def TypeCallAnswer_def TypeCallHangup_def
  maxType_def

record envelope =
  e_id :: msg_id
  e_type :: etype
  e_seq :: u64
  e_lamport :: u64
  e_payload :: bytes

record pb_envelope =
  pe_id :: bytes
  pe_type :: int
  pe_seq :: u64
  pe_lamport :: u64
  pe_payload :: bytes

definition validate_env :: "etype \<Rightarrow> nat \<Rightarrow> envelope_err option" where
  "validate_env t len =
     (if t < TypeAck \<or> maxType < t then Some EErrBadType
      else if MaxPayload < len then Some EErrTooLarge
      else None)"

definition env_to_pb :: "envelope \<Rightarrow> pb_envelope" where
  "env_to_pb e = \<lparr>pe_id = e_id e, pe_type = uint (e_type e), pe_seq = e_seq e,
     pe_lamport = e_lamport e, pe_payload = e_payload e\<rparr>"

definition encode_env :: "pb_envelope pb \<Rightarrow> envelope \<Rightarrow> envelope_err + bytes" where
  "encode_env P e =
     (case validate_env (e_type e) (length (e_payload e)) of
        Some err \<Rightarrow> Inl err
      | None \<Rightarrow> of_opt EErrMalformed (marshal P (env_to_pb e)))"

definition decode_env :: "pb_envelope pb \<Rightarrow> bytes \<Rightarrow> envelope_err + envelope" where
  "decode_env P b =
     bindR (of_opt EErrMalformed (unmarshal P b)) (\<lambda>q.
     if length (pe_id q) \<noteq> MsgIDLen then Inl EErrBadMsgID
     else if pe_type q < 0 \<or> uint maxType < pe_type q then Inl EErrBadType
     else case validate_env (word_of_int (pe_type q)) (length (pe_payload q)) of
        Some err \<Rightarrow> Inl err
      | None \<Rightarrow> Inr \<lparr>e_id = pe_id q, e_type = word_of_int (pe_type q), e_seq = pe_seq q,
          e_lamport = pe_lamport q, e_payload = pe_payload q\<rparr>)"

text \<open>What every accepted envelope satisfies, whatever bytes came in.\<close>

definition wf_envelope :: "envelope \<Rightarrow> bool" where
  "wf_envelope e \<longleftrightarrow> length (e_id e) = MsgIDLen \<and> TypeAck \<le> e_type e \<and> e_type e \<le> maxType
     \<and> length (e_payload e) \<le> MaxPayload"

lemma validate_env_None:
  "validate_env t n = None \<longleftrightarrow> TypeAck \<le> t \<and> t \<le> maxType \<and> n \<le> MaxPayload"
  by (auto simp: validate_env_def not_less)

lemma encode_env_Inr:
  "encode_env P e = Inr b \<longleftrightarrow> TypeAck \<le> e_type e \<and> e_type e \<le> maxType
     \<and> length (e_payload e) \<le> MaxPayload \<and> marshal P (env_to_pb e) = Some b"
  using validate_env_None [of "e_type e" "length (e_payload e)"]
  by (auto simp: encode_env_def split: option.splits)

lemma decode_env_wf [wf_intros]: "decode_env P b = Inr e \<Longrightarrow> wf_envelope e"
  by (auto simp: decode_env_def bindR_Inr_iff wf_envelope_def validate_env_None
      split: if_splits option.splits)

text \<open>
  C7. Decode accepts exactly well-formed envelopes, whatever bytes arrive: the
  id has 16 bytes, the type is one of the eighteen, the payload is within the
  limit, and the narrowing of the enum number to a byte loses nothing.
\<close>

theorem decode_env_sound:
  "decode_env P b = Inr e \<longleftrightarrow>
    (\<exists>q. unmarshal P b = Some q \<and> wf_envelope e \<and> q = env_to_pb e)"
proof
  assume d: "decode_env P b = Inr e"
  then obtain q where q: "unmarshal P b = Some q" "\<not> (pe_type q < 0 \<or> uint maxType < pe_type q)"
    and e: "e = \<lparr>e_id = pe_id q, e_type = word_of_int (pe_type q), e_seq = pe_seq q,
          e_lamport = pe_lamport q, e_payload = pe_payload q\<rparr>"
    by (auto simp: decode_env_def bindR_Inr_iff split: if_splits option.splits)
  from q(2) have "0 \<le> pe_type q" "pe_type q < 256" by (simp_all add: type_defs)
  then have "uint (word_of_int (pe_type q) :: etype) = pe_type q"
    by (simp add: uint_word_of_int)
  then have "q = env_to_pb e" by (simp add: e env_to_pb_def)
  with q(1) decode_env_wf [OF d] show "\<exists>q. unmarshal P b = Some q \<and> wf_envelope e \<and> q = env_to_pb e"
    by blast
next
  assume "\<exists>q. unmarshal P b = Some q \<and> wf_envelope e \<and> q = env_to_pb e"
  then have u: "unmarshal P b = Some (env_to_pb e)" and wf: "wf_envelope e" by auto
  have "uint (e_type e) \<le> uint maxType" using wf by (simp add: wf_envelope_def word_le_def)
  moreover have "validate_env (e_type e) (length (e_payload e)) = None"
    using wf by (simp add: validate_env_None wf_envelope_def)
  ultimately show "decode_env P b = Inr e"
    using u wf by (simp add: decode_env_def env_to_pb_def wf_envelope_def)
qed

text \<open>
  What Encode produces for an envelope with a 16-byte id, Decode reads back
  unchanged; Encode itself refuses a type outside the table and a payload over
  the limit.
\<close>

theorem envelope_roundtrip:
  assumes "encode_env P e = Inr b" and "length (e_id e) = MsgIDLen"
    and "pb_roundtrip P (env_to_pb e)"
  shows "decode_env P b = Inr e \<and> TypeAck \<le> e_type e \<and> e_type e \<le> maxType
    \<and> length (e_payload e) \<le> MaxPayload"
proof -
  from assms(1) have e: "TypeAck \<le> e_type e" "e_type e \<le> maxType"
    "length (e_payload e) \<le> MaxPayload" "marshal P (env_to_pb e) = Some b"
    by (simp_all add: encode_env_Inr)
  from pb_roundtripD [OF assms(3) e(4)] have u: "unmarshal P b = Some (env_to_pb e)" .
  have "uint (e_type e) \<le> uint maxType" using e(2) by (simp add: word_le_def)
  moreover have "validate_env (e_type e) (length (e_payload e)) = None"
    using e by (simp add: validate_env_None)
  ultimately have "decode_env P b = Inr e"
    using u assms(2) by (simp add: decode_env_def env_to_pb_def)
  with e show ?thesis by simp
qed

theorem envelope_roundtrip_witness:
  "decode_env (one_pb [9] (env_to_pb \<lparr>e_id = replicate 16 1, e_type = TypeChat, e_seq = 5,
      e_lamport = 0, e_payload = [1, 2]\<rparr>)) [9]
    = Inr \<lparr>e_id = replicate 16 1, e_type = TypeChat, e_seq = 5, e_lamport = 0, e_payload = [1, 2]\<rparr>"
proof -
  let ?e = "\<lparr>e_id = replicate 16 1, e_type = TypeChat, e_seq = 5, e_lamport = 0,
    e_payload = [1, 2]\<rparr> :: envelope"
  have "encode_env (one_pb [9] (env_to_pb ?e)) ?e = Inr [9]"
    by (simp add: encode_env_Inr type_defs MaxPayload_def)
  from envelope_roundtrip [OF this] show ?thesis by (simp add: MsgIDLen_def)
qed

end
