(* ===== verification/Peer.thy ===== *)
theory Peer
  imports Prelude "HOL-Library.List_Lexorder"
begin

text \<open>
  Package peer: the user's identifier (32 bytes, the hash of an Ed25519 key),
  its hexadecimal rendering, and the byte order on identifiers that the dialog
  and call layers use to break ties. Identifiers form a linear order, so the
  library's \<open>sort\<close> and \<open>sorted\<close> apply to member lists.
\<close>

datatype peer_id = PeerID (id_bytes: bytes)

definition IDLen :: nat where "IDLen = 32"

definition wf_peer :: "peer_id \<Rightarrow> bool" where
  "wf_peer p \<longleftrightarrow> length (id_bytes p) = IDLen"

instantiation peer_id :: linorder
begin

definition less_eq_peer_id :: "peer_id \<Rightarrow> peer_id \<Rightarrow> bool" where
  "less_eq_peer_id a b \<longleftrightarrow> id_bytes a \<le> id_bytes b"

definition less_peer_id :: "peer_id \<Rightarrow> peer_id \<Rightarrow> bool" where
  "less_peer_id a b \<longleftrightarrow> id_bytes a < id_bytes b"

instance
  by standard (auto simp: less_eq_peer_id_def less_peer_id_def intro: peer_id.expand)

end

section \<open>Hexadecimal rendering\<close>

definition hex_digits :: string where "hex_digits = ''0123456789abcdef''"

definition hex_byte :: "byte \<Rightarrow> string" where
  "hex_byte b = [hex_digits ! unat (drop_bit 4 b), hex_digits ! unat (b AND 15)]"

fun hex_encode :: "bytes \<Rightarrow> string" where
  "hex_encode [] = []"
| "hex_encode (b # bs) = hex_byte b @ hex_encode bs"

definition peer_string :: "peer_id \<Rightarrow> string" where
  "peer_string p = hex_encode (id_bytes p)"

definition peer_short :: "peer_id \<Rightarrow> string" where
  "peer_short p = hex_encode (take 4 (id_bytes p))"

lemma length_hex_encode [simp, byte_simps]: "length (hex_encode bs) = 2 * length bs"
  by (induction bs) (simp_all add: hex_byte_def)

lemma hex_digits_inj: "i < 16 \<Longrightarrow> j < 16 \<Longrightarrow> hex_digits ! i = hex_digits ! j \<Longrightarrow> i = j"
proof -
  have "distinct hex_digits" "length hex_digits = 16" by (simp_all add: hex_digits_def)
  then show "i < 16 \<Longrightarrow> j < 16 \<Longrightarrow> hex_digits ! i = hex_digits ! j \<Longrightarrow> i = j"
    by (simp add: nth_eq_iff_index_eq)
qed

lemma nibbles_lt: "unat (drop_bit 4 (b :: byte)) < 16" "unat (b AND 15) < 16"
proof -
  show "unat (drop_bit 4 b) < 16"
    using unsigned_less [of b, where ?'a = nat] by (simp add: drop_bit_eq_div unat_div)
  have "unat (b AND 15) \<le> unat (15 :: byte)"
    by (rule word_and_le1 [THEN word_le_nat_alt [THEN iffD1]])
  then show "unat (b AND 15) < 16" by simp
qed

lemma byte_nibbles: "push_bit 4 (drop_bit 4 b) OR (b AND 15) = (b :: byte)"
proof -
  have "b AND 15 = take_bit 4 b" by (simp add: take_bit_eq_mask mask_eq_exp_minus_1)
  then show ?thesis by (simp, intro bit_word_eqI) (auto simp: bit_simps)
qed

lemma unat_eq_D: "unat (a :: byte) = unat b \<Longrightarrow> a = b"
  by (simp add: word_unat_eq_iff)

lemma hex_byte_inj: "hex_byte a = hex_byte b \<longleftrightarrow> a = b"
proof
  assume "hex_byte a = hex_byte b"
  then have *: "hex_digits ! unat (drop_bit 4 a) = hex_digits ! unat (drop_bit 4 b)"
    "hex_digits ! unat (a AND 15) = hex_digits ! unat (b AND 15)"
    by (simp_all only: hex_byte_def list.inject)
  have "drop_bit 4 a = drop_bit 4 b"
    by (rule unat_eq_D, rule hex_digits_inj [OF _ _ *(1)]) (rule nibbles_lt)+
  moreover have "a AND 15 = b AND 15"
    by (rule unat_eq_D, rule hex_digits_inj [OF _ _ *(2)]) (rule nibbles_lt)+
  ultimately have "push_bit 4 (drop_bit 4 a) OR (a AND 15) = push_bit 4 (drop_bit 4 b) OR (b AND 15)"
    by (simp only:)
  then show "a = b" by (simp only: byte_nibbles)
qed simp

lemma hex_encode_inj: "hex_encode as = hex_encode bs \<longleftrightarrow> as = bs"
proof (induction as arbitrary: bs)
  case Nil
  then show ?case by (cases bs) (simp_all add: hex_byte_def)
next
  case (Cons a as)
  note IH = Cons.IH
  show ?case
  proof (cases bs)
    case (Cons b bs')
    have "length (hex_byte a) = length (hex_byte b)" by (simp add: hex_byte_def)
    with Cons IH show ?thesis by (simp add: hex_byte_inj)
  qed (simp add: hex_byte_def)
qed

lemma peer_string_inj: "peer_string p = peer_string q \<longleftrightarrow> p = q"
  by (cases p; cases q) (simp add: peer_string_def hex_encode_inj)

section \<open>Tie breaking\<close>

text \<open>
  Both ends of a collision apply the same strict order to the same two
  identifiers; what a client needs of it is that exactly one side wins.
\<close>

locale tie_break =
  fixes lt :: "'p \<Rightarrow> 'p \<Rightarrow> bool" and valid :: "'p \<Rightarrow> bool"
  assumes lt_irrefl: "\<not> lt p p"
    and lt_asym: "lt p q \<Longrightarrow> \<not> lt q p"
    and lt_total: "valid p \<Longrightarrow> valid q \<Longrightarrow> p \<noteq> q \<Longrightarrow> lt p q \<or> lt q p"
begin

lemma one_winner: "valid p \<Longrightarrow> valid q \<Longrightarrow> p \<noteq> q \<Longrightarrow> lt p q \<longleftrightarrow> \<not> lt q p"
  using lt_asym lt_total by blast

lemma winner_differs: "lt p q \<Longrightarrow> p \<noteq> q"
  using lt_irrefl by blast

end

text \<open>The comparison loop of chat's \<open>less\<close>: the first differing byte decides.\<close>

fun less_bytes :: "bytes \<Rightarrow> bytes \<Rightarrow> bool" where
  "less_bytes (a # as) (b # bs) = (if a \<noteq> b then a < b else less_bytes as bs)"
| "less_bytes as bs = False"

definition chat_less :: "peer_id \<Rightarrow> peer_id \<Rightarrow> bool" where
  "chat_less a b = less_bytes (id_bytes a) (id_bytes b)"

lemma less_bytes_lex: "length as = length bs \<Longrightarrow> less_bytes as bs \<longleftrightarrow> as < bs"
  by (induction as bs rule: less_bytes.induct) auto

lemma less_bytes_irrefl: "\<not> less_bytes as as"
  by (induction as) auto

lemma less_bytes_asym: "less_bytes as bs \<Longrightarrow> \<not> less_bytes bs as"
  by (induction as bs rule: less_bytes.induct) (auto split: if_splits)

lemma chat_less_iff: "wf_peer a \<Longrightarrow> wf_peer b \<Longrightarrow> chat_less a b \<longleftrightarrow> a < b"
  by (simp add: chat_less_def wf_peer_def less_peer_id_def less_bytes_lex)

interpretation chat_order: tie_break chat_less wf_peer
proof unfold_locales
  show "\<not> chat_less p p" for p by (simp add: chat_less_def less_bytes_irrefl)
  show "chat_less p q \<Longrightarrow> \<not> chat_less q p" for p q
    by (simp add: chat_less_def less_bytes_asym)
  show "wf_peer p \<Longrightarrow> wf_peer q \<Longrightarrow> p \<noteq> q \<Longrightarrow> chat_less p q \<or> chat_less q p" for p q
    by (auto simp: chat_less_iff)
qed

end
