(* ===== verification/RatchetKeys.thy ===== *)
theory RatchetKeys
  imports CryptoIface Peer
begin

text \<open>
  ratchet/keys.go: key derivation of the Double Ratchet (labels, the root and
  chain steps, the session transcript), sealing with one-time message keys and
  the authenticated header. Errors of the package are values of
  \<open>ratchet_err\<close>; an error wrapped with more text is the error it wraps.
\<close>

datatype ratchet_err =
  RErrMalformed | RErrDecrypt | RErrTooManySkipped | RErrNoSendingChain | RErrSIDMismatch | RErrRand

definition labelIdentity :: string where "labelIdentity = ''molva/ratchet/identity/v1''"
definition labelSK :: string where "labelSK = ''molva/dr/sk/v1''"
definition labelRoot :: string where "labelRoot = ''molva/dr/root/v1''"
definition labelMsgKey :: string where "labelMsgKey = ''molva/dr/mk/v1''"
definition labelChainKey :: string where "labelChainKey = ''molva/dr/ck/v1''"
definition labelTranscript :: string where "labelTranscript = ''molva/dr/transcript/v1''"

text \<open>A private key is its 32 bytes; NewPrivateKey and NewPublicKey check that length.\<close>

definition new_key :: "bytes \<Rightarrow> bytes option" where
  "new_key b = (if length b = 32 then Some b else None)"

definition identity_from_seed :: "crypto \<Rightarrow> bytes \<Rightarrow> bytes" where
  "identity_from_seed C seed = c_hkdf C seed [] labelIdentity 32"

definition derive_sk :: "crypto \<Rightarrow> bytes \<Rightarrow> bytes \<Rightarrow> bytes \<Rightarrow> bytes \<Rightarrow> bytes" where
  "derive_sk C dh1 dh2 dh3 tr = c_hkdf C (dh1 @ dh2 @ dh3) tr labelSK 32"

definition kdf_root :: "crypto \<Rightarrow> bytes \<Rightarrow> bytes \<Rightarrow> bytes \<times> bytes" where
  "kdf_root C rk dh_out =
     (let b = c_hkdf C dh_out rk labelRoot 64 in (take 32 b, drop 32 b))"

definition kdf_chain :: "crypto \<Rightarrow> bytes \<Rightarrow> bytes \<times> bytes" where
  "kdf_chain C ck = (c_hkdf C ck [] labelMsgKey 32, c_hkdf C ck [] labelChainKey 32)"

definition transcript :: "crypto \<Rightarrow> peer_id \<Rightarrow> peer_id \<Rightarrow> bytes \<Rightarrow> bytes \<Rightarrow> bytes \<Rightarrow> bytes \<Rightarrow> bytes \<Rightarrow> bytes" where
  "transcript C initiator responder ikI ikR ephI ephR sid =
     c_blake C (str_bytes labelTranscript @ id_bytes initiator @ id_bytes responder
       @ ikI @ ikR @ ephI @ ephR @ sid)"

definition seal_mk :: "crypto \<Rightarrow> bytes \<Rightarrow> bytes \<Rightarrow> bytes \<Rightarrow> bytes" where
  "seal_mk C mk plaintext aad = c_seal C mk zero_nonce plaintext aad"

definition open_mk :: "crypto \<Rightarrow> bytes \<Rightarrow> bytes \<Rightarrow> bytes \<Rightarrow> ratchet_err + bytes" where
  "open_mk C mk ciphertext aad = of_opt RErrDecrypt (c_open C mk zero_nonce ciphertext aad)"

definition header_aad :: "bytes \<Rightarrow> bytes \<Rightarrow> u32 \<Rightarrow> u32 \<Rightarrow> bytes" where
  "header_aad ad dh_pub pn n = ad @ dh_pub @ be32 pn @ be32 n"

definition generate_key :: "crypto \<Rightarrow> reader \<Rightarrow> ratchet_err + (bytes \<times> reader)" where
  "generate_key C r = of_opt RErrRand (c_gen C r)"

lemma open_seal_mk [simp]:
  "aead_correct C \<Longrightarrow> open_mk C mk (seal_mk C mk p aad) aad = Inr p"
  by (simp add: open_mk_def seal_mk_def aead_correctD)

lemma kdf_lengths:
  assumes "key_lengths C"
  shows "length (fst (kdf_chain C ck)) = 32" "length (snd (kdf_chain C ck)) = 32"
    "length (fst (kdf_root C rk d)) = 32" "length (snd (kdf_root C rk d)) = 32"
    "length (derive_sk C a b c tr) = 32"
  by (simp_all add: kdf_chain_def kdf_root_def derive_sk_def Let_def key_lengthsD [OF assms])

text \<open>
  The header binds its fields: with session data of one length, two equal
  headers carry the same ratchet key, chain length and number.
\<close>

lemma header_aad_inj:
  assumes "header_aad ad dh pn n = header_aad ad' dh' pn' n'"
    and "length ad = length ad'" and "length dh = length dh'"
  shows "ad = ad' \<and> dh = dh' \<and> pn = pn' \<and> n = n'"
  using assms by (simp add: header_aad_def be32_inj)

end
