(* ===== verification/SkipChain.thy ===== *)
theory SkipChain
  imports Prelude
begin

text \<open>
  The contract both ratchets keep for messages that arrive out of order: a
  symmetric chain that only moves forward, a bounded store of the message keys
  it skipped, and a receive operation that takes a key from the store or
  advances the chain. The clients' guarantee is proved once here: any
  selection of messages out of a window of at most \<open>cap\<close> consecutive numbers
  is served with the right keys, in whatever order the messages arrive.
\<close>

text \<open>The chain key after \<open>j\<close> steps, and the message key of the next step there.\<close>

definition adv :: "('ck \<Rightarrow> 'mk \<times> 'ck) \<Rightarrow> nat \<Rightarrow> 'ck \<Rightarrow> 'ck" where
  "adv kdf j ck = ((\<lambda>c. snd (kdf c)) ^^ j) ck"

definition mk_at :: "('ck \<Rightarrow> 'mk \<times> 'ck) \<Rightarrow> 'ck \<Rightarrow> nat \<Rightarrow> 'mk" where
  "mk_at kdf ck j = fst (kdf (adv kdf j ck))"

lemma adv_0 [simp]: "adv kdf 0 ck = ck"
  by (simp add: adv_def)

lemma adv_Suc: "adv kdf (Suc j) ck = snd (kdf (adv kdf j ck))"
  by (simp add: adv_def)

lemma adv_step: "adv kdf j (snd (kdf ck)) = adv kdf (Suc j) ck"
  using funpow_swap1 [of "\<lambda>c. snd (kdf c)" j ck] by (simp add: adv_def)

lemma adv_adv: "adv kdf i (adv kdf j ck) = adv kdf (i + j) ck"
  by (simp add: adv_def funpow_add)

lemma mk_at_adv: "mk_at kdf (adv kdf j ck) i = mk_at kdf ck (i + j)"
  by (simp add: mk_at_def adv_adv)

text \<open>Receiving a list of message numbers, one after the other.\<close>

fun recv_all :: "('st \<Rightarrow> nat \<Rightarrow> ('mk \<times> 'st) option) \<Rightarrow> 'st \<Rightarrow> nat list \<Rightarrow> ('mk list \<times> 'st) option" where
  "recv_all rcv s [] = Some ([], s)"
| "recv_all rcv s (i # is) =
     (case rcv s i of None \<Rightarrow> None
      | Some (k, s') \<Rightarrow> (case recv_all rcv s' is of None \<Rightarrow> None
          | Some (ks, s'') \<Rightarrow> Some (k # ks, s'')))"

lemma pluck_window:
  assumes "distinct xs" and "i \<in> set xs" and "\<forall>e \<in> set old. fst e \<noteq> key i"
    and inj: "\<And>j. j \<in> set xs \<Longrightarrow> key j = key i \<Longrightarrow> j = i"
  shows "pluck (\<lambda>e. fst e = key i) (old @ map (\<lambda>j. (key j, f j)) xs)
    = Some ((key i, f i), old @ map (\<lambda>j. (key j, f j)) (filter (\<lambda>j. j \<noteq> i) xs))"
proof -
  have "pluck (\<lambda>e. fst e = key i) (map (\<lambda>j. (key j, f j)) xs)
      = Some ((key i, f i), map (\<lambda>j. (key j, f j)) (filter (\<lambda>j. j \<noteq> i) xs))"
    using assms(1,2) inj
  proof (induction xs)
    case (Cons x xs)
    show ?case
    proof (cases "x = i")
      case True
      with Cons.prems have "filter (\<lambda>j. j \<noteq> i) xs = xs" by (auto simp: filter_id_conv)
      with True show ?thesis by simp
    next
      case False
      with Cons.prems(3) [of x] have "key x \<noteq> key i" by auto
      with False Cons show ?thesis by auto
    qed
  qed simp
  with assms(3) show ?thesis
    by (induction old) (auto split: option.splits)
qed

locale skip_chain =
  fixes kdf :: "'ck \<Rightarrow> 'mk \<times> 'ck"
    and num :: "'st \<Rightarrow> nat"
    and chain :: "'st \<Rightarrow> 'ck"
    and stash :: "'st \<Rightarrow> ('k \<times> 'mk) list"
    and key :: "'st \<Rightarrow> nat \<Rightarrow> 'k"
    and rcv :: "'st \<Rightarrow> nat \<Rightarrow> ('mk \<times> 'st) option"
    and ok :: "'st \<Rightarrow> bool"
    and cap lim :: nat
  assumes key_inj: "i < lim \<Longrightarrow> j < lim \<Longrightarrow> key s i = key s j \<Longrightarrow> i = j"
    and rcv_old: "ok s \<Longrightarrow> i < num s \<Longrightarrow> i < lim \<Longrightarrow>
      pluck (\<lambda>e. fst e = key s i) (stash s) = Some (e, rest) \<Longrightarrow>
      \<exists>s'. rcv s i = Some (snd e, s') \<and> ok s' \<and> num s' = num s \<and> chain s' = chain s
        \<and> stash s' = rest \<and> key s' = key s"
    and rcv_new: "ok s \<Longrightarrow> num s \<le> i \<Longrightarrow> Suc i < lim \<Longrightarrow> i - num s \<le> cap \<Longrightarrow>
      \<forall>e \<in> set (stash s). fst e \<noteq> key s i \<Longrightarrow>
      \<exists>s'. rcv s i = Some (mk_at kdf (chain s) (i - num s), s') \<and> ok s' \<and> num s' = Suc i
        \<and> chain s' = adv kdf (Suc (i - num s)) (chain s)
        \<and> stash s' = last_n cap (stash s
            @ map (\<lambda>j. (key s j, mk_at kdf (chain s) (j - num s))) [num s..<i])
        \<and> key s' = key s"
    and rcv_gap: "ok s \<Longrightarrow> num s \<le> i \<Longrightarrow> i < lim \<Longrightarrow> cap < i - num s \<Longrightarrow>
      \<forall>e \<in> set (stash s). fst e \<noteq> key s i \<Longrightarrow> rcv s i = None"
begin

lemma window_step:
  assumes ok: "ok s" and key: "key s = ky" and num: "base \<le> num s" "num s \<le> base + w"
    and lim: "Suc (base + w) < lim" and w: "w \<le> cap"
    and chain: "chain s = adv kdf (num s - base) c0"
    and stash: "stash s = old @ map (\<lambda>j. (ky j, mk_at kdf c0 (j - base)))
        (filter (\<lambda>j. j \<notin> got) [base..<num s])"
    and old: "\<forall>e \<in> set old. \<forall>j. base \<le> j \<and> j < lim \<longrightarrow> fst e \<noteq> ky j"
    and i: "base \<le> i" "i < base + w" "i \<notin> got" and got: "\<forall>j \<in> got. j < num s"
  shows "\<exists>s' old'. rcv s i = Some (mk_at kdf c0 (i - base), s') \<and> ok s' \<and> key s' = ky
    \<and> base \<le> num s' \<and> num s' \<le> base + w \<and> chain s' = adv kdf (num s' - base) c0
    \<and> stash s' = old' @ map (\<lambda>j. (ky j, mk_at kdf c0 (j - base)))
        (filter (\<lambda>j. j \<notin> insert i got) [base..<num s'])
    \<and> (\<forall>e \<in> set old'. \<forall>j. base \<le> j \<and> j < lim \<longrightarrow> fst e \<noteq> ky j)
    \<and> (\<forall>j \<in> insert i got. j < num s')"
proof (cases "i < num s")
  case True
  have "pluck (\<lambda>e. fst e = ky i) (stash s) = Some ((ky i, mk_at kdf c0 (i - base)),
      old @ map (\<lambda>j. (ky j, mk_at kdf c0 (j - base)))
        (filter (\<lambda>j. j \<noteq> i) (filter (\<lambda>j. j \<notin> got) [base..<num s])))"
    unfolding stash
  proof (rule pluck_window)
    show "\<forall>e \<in> set old. fst e \<noteq> ky i" using old i lim by auto
    show "j = i" if "j \<in> set (filter (\<lambda>j. j \<notin> got) [base..<num s])" "ky j = ky i" for j
      using that key_inj [of j i s] key i lim num by auto
  qed (use True i in auto)
  from rcv_old [OF ok True _ this [folded key]] lim i obtain s' where
    s': "rcv s i = Some (mk_at kdf c0 (i - base), s')" "ok s'" "num s' = num s" "chain s' = chain s"
    "stash s' = old @ map (\<lambda>j. (ky j, mk_at kdf c0 (j - base)))
        (filter (\<lambda>j. j \<noteq> i) (filter (\<lambda>j. j \<notin> got) [base..<num s]))" "key s' = ky"
    using key by auto
  have "filter (\<lambda>j. j \<noteq> i) (filter (\<lambda>j. j \<notin> got) [base..<num s])
      = filter (\<lambda>j. j \<notin> insert i got) [base..<num s]"
    by (simp add: conj_commute)
  with s' num chain old got True show ?thesis by auto
next
  case False
  then have le: "num s \<le> i" by simp
  have fresh: "\<forall>e \<in> set (stash s). fst e \<noteq> key s i"
  proof
    fix e assume "e \<in> set (stash s)"
    then consider "e \<in> set old" | j where "e = (ky j, mk_at kdf c0 (j - base))" "j < num s"
      unfolding stash by auto
    then show "fst e \<noteq> key s i"
    proof cases
      case 1
      with old i lim key show ?thesis by auto
    next
      case 2
      with key_inj [of j i s] key i lim le show ?thesis by auto
    qed
  qed
  have gap: "i - num s \<le> cap" using i num w by linarith
  from rcv_new [OF ok le _ gap fresh] lim i obtain s' where
    s': "rcv s i = Some (mk_at kdf (chain s) (i - num s), s')" "ok s'" "num s' = Suc i"
    "chain s' = adv kdf (Suc (i - num s)) (chain s)"
    "stash s' = last_n cap (stash s
        @ map (\<lambda>j. (key s j, mk_at kdf (chain s) (j - num s))) [num s..<i])" "key s' = key s"
    by auto
  let ?f = "\<lambda>j. (ky j, mk_at kdf c0 (j - base))"
  have ext: "map (\<lambda>j. (key s j, mk_at kdf (chain s) (j - num s))) [num s..<i] = map ?f [num s..<i]"
    using num by (auto simp: key chain mk_at_adv)
  have upto: "[base..<i] = [base..<num s] @ [num s..<i]"
    using num le by (metis le_Suc_ex upt_add_eq_append)
  have "filter (\<lambda>j. j \<notin> got) [num s..<i] = [num s..<i]"
    using got by (auto simp: filter_id_conv)
  then have keep: "map ?f (filter (\<lambda>j. j \<notin> got) [base..<num s]) @ map ?f [num s..<i]
      = map ?f (filter (\<lambda>j. j \<notin> got) [base..<i])"
    using upto by simp
  have win: "filter (\<lambda>j. j \<notin> got) [base..<i] = filter (\<lambda>j. j \<notin> insert i got) [base..<Suc i]"
    using i by (auto intro: filter_cong)
  have "length (map ?f (filter (\<lambda>j. j \<notin> got) [base..<i])) \<le> length [base..<i]"
    by (simp only: length_map length_filter_le)
  also have "\<dots> \<le> cap" using i w by simp
  finally have len: "length (map ?f (filter (\<lambda>j. j \<notin> got) [base..<i])) \<le> cap" .
  have "stash s' = last_n cap (old @ map ?f (filter (\<lambda>j. j \<notin> got) [base..<i]))"
    using s'(5) ext stash keep by simp
  also have "\<dots> = last_n (cap - length (map ?f (filter (\<lambda>j. j \<notin> got) [base..<i]))) old
      @ map ?f (filter (\<lambda>j. j \<notin> got) [base..<i])"
    using len by (simp add: last_n_append last_n_all)
  finally have st: "stash s' = last_n (cap - length (map ?f (filter (\<lambda>j. j \<notin> got) [base..<i]))) old
      @ map ?f (filter (\<lambda>j. j \<notin> insert i got) [base..<num s'])"
    by (simp only: win s'(3))
  define old' where "old' = last_n (cap - length (map ?f (filter (\<lambda>j. j \<notin> got) [base..<i]))) old"
  have old': "set old' \<subseteq> set old"
    "stash s' = old' @ map ?f (filter (\<lambda>j. j \<notin> insert i got) [base..<num s'])"
    using st set_last_n [of _ old] by (simp_all only: old'_def)
  have "mk_at kdf (chain s) (i - num s) = mk_at kdf c0 (i - base)"
    "chain s' = adv kdf (num s' - base) c0"
    using num le i s'(3,4) by (simp_all add: chain mk_at_adv adv_adv Suc_diff_le)
  with s' old' key num i le got old show ?thesis
    by (intro exI [of _ s'] exI [of _ old']) auto
qed

lemma any_order_gen:
  assumes "ok s" "key s = ky" "base \<le> num s" "num s \<le> base + w" "Suc (base + w) < lim" "w \<le> cap"
    "chain s = adv kdf (num s - base) c0"
    "stash s = old @ map (\<lambda>j. (ky j, mk_at kdf c0 (j - base))) (filter (\<lambda>j. j \<notin> got) [base..<num s])"
    "\<forall>e \<in> set old. \<forall>j. base \<le> j \<and> j < lim \<longrightarrow> fst e \<noteq> ky j"
    "\<forall>j \<in> got. j < num s"
    "distinct is" "\<forall>i \<in> set is. base \<le> i \<and> i < base + w \<and> i \<notin> got"
  shows "\<exists>s'. recv_all rcv s is = Some (map (\<lambda>i. mk_at kdf c0 (i - base)) is, s')"
  using assms
proof (induction "is" arbitrary: s old got)
  case (Cons i "is")
  from Cons.prems(12) have i: "base \<le> i" "i < base + w" "i \<notin> got" by auto
  from window_step [OF Cons.prems(1-9) i Cons.prems(10)] obtain s' old' where
    step: "rcv s i = Some (mk_at kdf c0 (i - base), s')" and
    inv: "ok s'" "key s' = ky" "base \<le> num s'" "num s' \<le> base + w"
      "chain s' = adv kdf (num s' - base) c0"
      "stash s' = old' @ map (\<lambda>j. (ky j, mk_at kdf c0 (j - base)))
        (filter (\<lambda>j. j \<notin> insert i got) [base..<num s'])"
      "\<forall>e \<in> set old'. \<forall>j. base \<le> j \<and> j < lim \<longrightarrow> fst e \<noteq> ky j"
      "\<forall>j \<in> insert i got. j < num s'"
    by blast
  have rest: "distinct is" "\<forall>j \<in> set is. base \<le> j \<and> j < base + w \<and> j \<notin> insert i got"
    using Cons.prems(11,12) by auto
  from Cons.IH [OF inv(1-4) Cons.prems(5,6) inv(5-8) rest] step show ?case by auto
qed simp

text \<open>The client's guarantee, from a state that holds no key of the window yet.\<close>

lemma any_order:
  assumes "ok s" and "w \<le> cap" and "Suc (num s + w) < lim"
    and "\<forall>e \<in> set (stash s). \<forall>j. num s \<le> j \<and> j < lim \<longrightarrow> fst e \<noteq> key s j"
    and "distinct is" and "\<forall>i \<in> set is. num s \<le> i \<and> i < num s + w"
  shows "\<exists>s'. recv_all rcv s is = Some (map (\<lambda>i. mk_at kdf (chain s) (i - num s)) is, s')"
  by (rule any_order_gen [of s "key s" "num s" w "chain s" "stash s" "{}"]) (use assms in auto)

end

end
