(* ===== verification/RatchetState.thy ===== *)
theory RatchetState
  imports RatchetKeys SkipChain
begin

text \<open>
  ratchet/state.go: the state of one Double Ratchet session and its
  operations. An operation that fails returns no state: the source requires
  the caller to throw the object away then and reload it.
\<close>

definition MaxSkip :: nat where "MaxSkip = 512"

record skipped_entry =
  se_dh :: bytes
  se_n :: u32
  se_mk :: bytes

record ratchet =
  rk :: bytes
  dhs :: bytes
  dhr :: "bytes option"
  cks :: bytes
  ckr :: bytes
  has_cks :: bool
  has_ckr :: bool
  ns :: u32
  nr :: u32
  pn :: u32
  ad :: bytes
  skipped :: "skipped_entry list"

record message =
  m_dh :: bytes
  m_pn :: u32
  m_n :: u32
  m_ct :: bytes

definition encrypt :: "crypto \<Rightarrow> ratchet \<Rightarrow> bytes \<Rightarrow> ratchet_err + (message \<times> ratchet)" where
  "encrypt C s plaintext =
     (if \<not> has_cks s then Inl RErrNoSendingChain
      else let mk = fst (kdf_chain C (cks s)); next = snd (kdf_chain C (cks s));
               pub = c_pub C (dhs s);
               m = \<lparr>m_dh = pub, m_pn = pn s, m_n = ns s,
                    m_ct = seal_mk C mk plaintext (header_aad (ad s) pub (pn s) (ns s))\<rparr>
           in Inr (m, s\<lparr>cks := next, ns := ns s + 1\<rparr>))"

definition take_skipped :: "ratchet \<Rightarrow> bytes \<Rightarrow> u32 \<Rightarrow> (bytes \<times> ratchet) option" where
  "take_skipped s dh n =
     (case pluck (\<lambda>e. se_dh e = dh \<and> se_n e = n) (skipped s) of
        None \<Rightarrow> None
      | Some (e, rest) \<Rightarrow> Some (se_mk e, s\<lparr>skipped := rest\<rparr>))"

text \<open>One turn of the skipping loop: store the key, drop the oldest past the cap, advance.\<close>

definition skip_one :: "crypto \<Rightarrow> bytes \<Rightarrow> ratchet \<Rightarrow> ratchet" where
  "skip_one C dh s =
     (let mk = fst (kdf_chain C (ckr s)); next = snd (kdf_chain C (ckr s));
          sk = skipped s @ [\<lparr>se_dh = dh, se_n = nr s, se_mk = mk\<rparr>]
      in s\<lparr>skipped := (if MaxSkip < length sk then tl sk else sk), ckr := next, nr := nr s + 1\<rparr>)"

lemma nr_skip_one [simp]: "nr (skip_one C dh s) = nr s + 1"
  by (simp add: skip_one_def Let_def)

function skip_loop :: "crypto \<Rightarrow> bytes \<Rightarrow> u32 \<Rightarrow> ratchet \<Rightarrow> ratchet" where
  "skip_loop C dh until s = (if nr s < until then skip_loop C dh until (skip_one C dh s) else s)"
  by pat_completeness auto
termination
proof (relation "measure (\<lambda>(C, dh, until, s). unat until - unat (nr s))")
  fix C :: crypto and dh :: bytes and until :: u32 and s :: ratchet
  assume "nr s < until"
  then show "((C, dh, until, skip_one C dh s), C, dh, until, s)
      \<in> measure (\<lambda>(C, dh, until, s). unat until - unat (nr s))"
    by (simp add: count_up_less)
qed simp

declare skip_loop.simps [simp del]

definition skip_to :: "crypto \<Rightarrow> ratchet \<Rightarrow> u32 \<Rightarrow> ratchet_err + ratchet" where
  "skip_to C s until =
     (if \<not> has_ckr s then Inr s
      else if nr s < until \<and> MaxSkip < unat (until - nr s) then Inl RErrTooManySkipped
      else Inr (skip_loop C (case dhr s of None \<Rightarrow> replicate 32 0 | Some d \<Rightarrow> d) until s))"

definition dh_ratchet :: "crypto \<Rightarrow> reader \<Rightarrow> ratchet \<Rightarrow> bytes \<Rightarrow> ratchet_err + (ratchet \<times> reader)" where
  "dh_ratchet C r s new_dhr =
     bindR (of_opt RErrMalformed (new_key new_dhr)) (\<lambda>pub.
     let s1 = s\<lparr>pn := ns s, ns := 0, nr := 0, dhr := Some new_dhr\<rparr> in
     bindR (of_opt RErrMalformed (c_dh C (dhs s1) pub)) (\<lambda>dh_out.
     let s2 = s1\<lparr>rk := fst (kdf_root C (rk s1) dh_out), ckr := snd (kdf_root C (rk s1) dh_out),
                 has_ckr := True\<rparr> in
     bindR (generate_key C r) (\<lambda>(k, r').
     bindR (of_opt RErrMalformed (c_dh C k pub)) (\<lambda>dh_out2.
     Inr (s2\<lparr>dhs := k, rk := fst (kdf_root C (rk s2) dh_out2),
             cks := snd (kdf_root C (rk s2) dh_out2), has_cks := True\<rparr>, r')))))"

definition decrypt :: "crypto \<Rightarrow> reader \<Rightarrow> ratchet \<Rightarrow> message \<Rightarrow> ratchet_err + (bytes \<times> ratchet \<times> reader)" where
  "decrypt C r s m =
     (case take_skipped s (m_dh m) (m_n m) of
        Some (mk, s') \<Rightarrow>
          bindR (open_mk C mk (m_ct m) (header_aad (ad s') (m_dh m) (m_pn m) (m_n m)))
            (\<lambda>plain. Inr (plain, s', r))
      | None \<Rightarrow>
          bindR (if dhr s \<noteq> Some (m_dh m)
                 then bindR (if has_ckr s then skip_to C s (m_pn m) else Inr s)
                        (\<lambda>s1. dh_ratchet C r s1 (m_dh m))
                 else Inr (s, r)) (\<lambda>(s2, r2).
          bindR (skip_to C s2 (m_n m)) (\<lambda>s3.
          let mk = fst (kdf_chain C (ckr s3)); next = snd (kdf_chain C (ckr s3)) in
          bindR (open_mk C mk (m_ct m) (header_aad (ad s3) (m_dh m) (m_pn m) (m_n m)))
            (\<lambda>plain. Inr (plain, s3\<lparr>ckr := next, nr := nr s3 + 1\<rparr>, r2)))))"

definition can_send :: "ratchet \<Rightarrow> bool" where
  "can_send s = has_cks s"

end
