(* ===== verification/RatchetProps.thy ===== *)
theory RatchetProps
  imports RatchetState
begin

text \<open>
  What the session operations do: the skipping loop in closed form, the bound
  on the skipped keys, and the interpretation of the skipping-chain contract.
\<close>

definition entry_of :: "bytes \<Rightarrow> u32 \<Rightarrow> bytes \<Rightarrow> skipped_entry" where
  "entry_of dh n mk = \<lparr>se_dh = dh, se_n = n, se_mk = mk\<rparr>"

lemma MaxSkip_pos: "0 < MaxSkip"
  by (simp add: MaxSkip_def)

lemma skip_one_eq:
  assumes "length (skipped s) \<le> MaxSkip"
  shows "skip_one C dh s = s\<lparr>skipped := last_n MaxSkip
      (skipped s @ [entry_of dh (nr s) (fst (kdf_chain C (ckr s)))]),
    ckr := snd (kdf_chain C (ckr s)), nr := nr s + 1\<rparr>"
  unfolding skip_one_def Let_def
  using last_n_snoc [OF assms MaxSkip_pos, of "entry_of dh (nr s) (fst (kdf_chain C (ckr s)))"]
  by (simp only: entry_of_def)

lemma skip_iter:
  assumes "length (skipped s) \<le> MaxSkip"
  shows "(skip_one C dh ^^ k) s = s\<lparr>skipped := last_n MaxSkip
      (skipped s @ map (\<lambda>j. entry_of dh (nr s + of_nat j) (mk_at (kdf_chain C) (ckr s) j)) [0..<k]),
    ckr := adv (kdf_chain C) k (ckr s), nr := nr s + of_nat k\<rparr>"
proof (induction k)
  case 0
  from assms show ?case by (simp add: last_n_all)
next
  case (Suc k)
  let ?s = "(skip_one C dh ^^ k) s"
  have "length (skipped ?s) \<le> MaxSkip" by (simp add: Suc.IH)
  from skip_one_eq [OF this] have "skip_one C dh ?s = ?s\<lparr>skipped := last_n MaxSkip
      (skipped ?s @ [entry_of dh (nr ?s) (fst (kdf_chain C (ckr ?s)))]),
    ckr := snd (kdf_chain C (ckr ?s)), nr := nr ?s + 1\<rparr>" .
  then show ?case
    by (simp add: Suc.IH adv_Suc mk_at_def last_n_last_n_append add.assoc add.commute [of 1])
qed

lemma skip_loop_iter:
  "skip_loop C dh until s = (skip_one C dh ^^ (unat until - unat (nr s))) s"
  by (rule count_up_loop [of "skip_loop C dh until"]) (rule skip_loop.simps, simp)

lemma skip_loop_eq:
  assumes "length (skipped s) \<le> MaxSkip" and "k = unat until - unat (nr s)"
  shows "skip_loop C dh until s = s\<lparr>skipped := last_n MaxSkip
      (skipped s @ map (\<lambda>j. entry_of dh (nr s + of_nat j) (mk_at (kdf_chain C) (ckr s) j)) [0..<k]),
    ckr := adv (kdf_chain C) k (ckr s), nr := nr s + of_nat k\<rparr>"
  unfolding skip_loop_iter assms(2) by (rule skip_iter [OF assms(1)])

text \<open>The bound on stored keys is an invariant of every operation.\<close>

lemma skip_to_bound [wf_intros]:
  "length (skipped s) \<le> MaxSkip \<Longrightarrow> skip_to C s n = Inr s' \<Longrightarrow> length (skipped s') \<le> MaxSkip"
  by (auto simp: skip_to_def skip_loop_eq [OF _ refl] split: if_splits)

lemma take_skipped_bound [wf_intros]:
  "take_skipped s dh n = Some (mk, s') \<Longrightarrow> length (skipped s) = Suc (length (skipped s'))"
  by (auto simp: take_skipped_def split: option.splits dest!: pluck_Some)

lemma dh_ratchet_skipped [wf_intros]:
  "dh_ratchet C r s d = Inr (s', r') \<Longrightarrow> skipped s' = skipped s"
  by (auto simp: dh_ratchet_def bindR_Inr_iff Let_def)

lemma encrypt_skipped [wf_intros]: "encrypt C s p = Inr (m, s') \<Longrightarrow> skipped s' = skipped s"
  by (auto simp: encrypt_def Let_def split: if_splits)

lemma decrypt_bound [wf_intros]:
  assumes "length (skipped s) \<le> MaxSkip" and "decrypt C r s m = Inr (p, s', r')"
  shows "length (skipped s') \<le> MaxSkip"
proof (cases "take_skipped s (m_dh m) (m_n m)")
  case (Some x)
  with assms(2) have "length (skipped s) = Suc (length (skipped s'))"
    by (cases x) (auto simp: decrypt_def bindR_Inr_iff dest: take_skipped_bound)
  with assms(1) show ?thesis by simp
next
  case None
  with assms(2) obtain s2 r2 s3 where
    s2: "(if dhr s \<noteq> Some (m_dh m)
          then bindR (if has_ckr s then skip_to C s (m_pn m) else Inr s) (\<lambda>s1. dh_ratchet C r s1 (m_dh m))
          else Inr (s, r)) = Inr (s2, r2)"
    and s3: "skip_to C s2 (m_n m) = Inr s3" "skipped s' = skipped s3"
    by (fastforce simp: decrypt_def bindR_Inr_iff Let_def)
  from s2 assms(1) have "length (skipped s2) \<le> MaxSkip"
    by (auto simp: bindR_Inr_iff dh_ratchet_skipped split: if_splits dest: skip_to_bound)
  with s3 show ?thesis using skip_to_bound by metis
qed

section \<open>Receiving within one chain\<close>

text \<open>
  The message key decrypt uses for number n of the current receiving chain,
  and the state it leaves when the ciphertext opens.
\<close>

definition cur_dh :: "ratchet \<Rightarrow> bytes" where
  "cur_dh s = (case dhr s of None \<Rightarrow> replicate 32 0 | Some d \<Rightarrow> d)"

lemma cur_dh_cong: "dhr s' = dhr s \<Longrightarrow> cur_dh s' = cur_dh s"
  by (simp add: cur_dh_def)

definition recv_key :: "crypto \<Rightarrow> ratchet \<Rightarrow> u32 \<Rightarrow> (bytes \<times> ratchet) option" where
  "recv_key C s n =
     (case take_skipped s (cur_dh s) n of
        Some (mk, s') \<Rightarrow> Some (mk, s')
      | None \<Rightarrow> (case skip_to C s n of
          Inl e \<Rightarrow> None
        | Inr s3 \<Rightarrow> Some (fst (kdf_chain C (ckr s3)),
            s3\<lparr>ckr := snd (kdf_chain C (ckr s3)), nr := nr s3 + 1\<rparr>)))"

lemma skip_iter_ad: "ad ((skip_one C dh ^^ k) s) = ad s"
  by (induction k) (simp_all add: skip_one_def Let_def)

lemma skip_to_ad: "skip_to C s n = Inr s' \<Longrightarrow> ad s' = ad s"
  by (auto simp: skip_to_def skip_loop_iter skip_iter_ad split: if_splits)

lemma decrypt_same_chain:
  assumes "dhr s = Some (m_dh m)"
  shows "decrypt C r s m =
    (case recv_key C s (m_n m) of
       None \<Rightarrow> Inl RErrTooManySkipped
     | Some (mk, s') \<Rightarrow>
         bindR (open_mk C mk (m_ct m) (header_aad (ad s) (m_dh m) (m_pn m) (m_n m)))
           (\<lambda>plain. Inr (plain, s', r)))"
proof (cases "take_skipped s (m_dh m) (m_n m)")
  case None
  show ?thesis
  proof (cases "skip_to C s (m_n m)")
    case (Inl e)
    then have "e = RErrTooManySkipped" by (auto simp: skip_to_def split: if_splits)
    with Inl None assms show ?thesis by (simp add: decrypt_def recv_key_def cur_dh_def)
  next
    case (Inr s3)
    then have "ad s3 = ad s" by (rule skip_to_ad)
    with Inr None assms show ?thesis
      by (simp add: decrypt_def recv_key_def cur_dh_def)
  qed
next
  case (Some x)
  then have "ad (snd x) = ad s" by (auto simp: take_skipped_def split: option.splits)
  with Some assms show ?thesis
    by (cases x) (simp add: decrypt_def recv_key_def cur_dh_def)
qed

definition dr_stash :: "ratchet \<Rightarrow> ((bytes \<times> u32) \<times> bytes) list" where
  "dr_stash s = map (\<lambda>e. ((se_dh e, se_n e), se_mk e)) (skipped s)"

definition dr_ok :: "ratchet \<Rightarrow> bool" where
  "dr_ok s \<longleftrightarrow> has_ckr s \<and> length (skipped s) \<le> MaxSkip"

definition dr_key :: "ratchet \<Rightarrow> nat \<Rightarrow> bytes \<times> u32" where
  "dr_key s i = (cur_dh s, of_nat i)"

lemma take_skipped_stash:
  "take_skipped s dh n = (case pluck (\<lambda>e. fst e = (dh, n)) (dr_stash s) of None \<Rightarrow> None
     | Some (e, rest) \<Rightarrow> Some (snd e, s\<lparr>skipped := snd (the (pluck (\<lambda>e. se_dh e = dh \<and> se_n e = n) (skipped s)))\<rparr>))"
  by (auto simp: take_skipped_def dr_stash_def pluck_map split: option.splits)

interpretation dr: skip_chain "kdf_chain C" "\<lambda>s. unat (nr s)" ckr dr_stash dr_key
  "\<lambda>s i. recv_key C s (of_nat i)" dr_ok MaxSkip "2 ^ 32" for C
proof unfold_locales
  show "i < 2 ^ 32 \<Longrightarrow> j < 2 ^ 32 \<Longrightarrow> dr_key s i = dr_key s j \<Longrightarrow> i = j" for i j s
    by (auto simp: dr_key_def intro: of_nat_u32_inj)
next
  fix s i e rest
  assume ok: "dr_ok s" and "pluck (\<lambda>e. fst e = dr_key s i) (dr_stash s) = Some (e, rest)"
  then obtain x xs where x: "pluck (\<lambda>e. se_dh e = cur_dh s \<and> se_n e = of_nat i) (skipped s) = Some (x, xs)"
    and e: "e = ((se_dh x, se_n x), se_mk x)" "rest = map (\<lambda>e. ((se_dh e, se_n e), se_mk e)) xs"
    by (auto simp: dr_stash_def dr_key_def pluck_map)
  from pluck_Some [OF x] have "length (skipped s) = Suc (length xs)" by simp
  with ok x e show "\<exists>s'. recv_key C s (of_nat i) = Some (snd e, s') \<and> dr_ok s'
      \<and> unat (nr s') = unat (nr s) \<and> ckr s' = ckr s \<and> dr_stash s' = rest \<and> dr_key s' = dr_key s"
    by (intro exI [of _ "s\<lparr>skipped := xs\<rparr>"])
      (auto simp: recv_key_def take_skipped_def dr_ok_def dr_stash_def dr_key_def cur_dh_def fun_eq_iff)
next
  fix s i
  assume ok: "dr_ok s" and le: "unat (nr s) \<le> i" "Suc i < 2 ^ 32" and gap: "i - unat (nr s) \<le> MaxSkip"
    and fresh: "\<forall>e \<in> set (dr_stash s). fst e \<noteq> dr_key s i"
  have i: "unat (of_nat i :: u32) = i" using le by (simp add: unat_of_nat_u32)
  have "pluck (\<lambda>e. se_dh e = cur_dh s \<and> se_n e = of_nat i) (skipped s) = None"
    using fresh by (auto simp: pluck_None_iff dr_stash_def dr_key_def)
  then have none: "take_skipped s (cur_dh s) (of_nat i) = None" by (simp add: take_skipped_def)
  have nle: "nr s \<le> of_nat i" using le i by (simp add: word_le_nat_alt)
  have diff: "unat (of_nat i - nr s :: u32) = i - unat (nr s)"
    using nle i by (simp add: unat_sub)
  let ?k = "i - unat (nr s)"
  let ?s3 = "skip_loop C (cur_dh s) (of_nat i) s"
  have s3: "skip_to C s (of_nat i) = Inr ?s3"
    using ok gap diff by (auto simp: skip_to_def dr_ok_def cur_dh_def)
  have eq: "?s3 = s\<lparr>skipped := last_n MaxSkip (skipped s
      @ map (\<lambda>j. entry_of (cur_dh s) (nr s + of_nat j) (mk_at (kdf_chain C) (ckr s) j)) [0..<?k]),
    ckr := adv (kdf_chain C) ?k (ckr s), nr := nr s + of_nat ?k\<rparr>"
    using ok i by (intro skip_loop_eq) (simp_all add: dr_ok_def)
  have nr3: "unat (nr s + of_nat ?k + 1) = Suc i"
  proof -
    have "nr s + of_nat ?k = of_nat i" using le by (simp add: of_nat_add_unat del: of_nat_diff)
    moreover have "unat (of_nat i + 1 :: u32) = Suc i"
      using le i by (simp add: unat_word_ariths)
    ultimately show ?thesis by simp
  qed
  have f3: "ckr ?s3 = adv (kdf_chain C) ?k (ckr s)" "nr ?s3 = nr s + of_nat ?k" "has_ckr ?s3" "dhr ?s3 = dhr s"
    "skipped ?s3 = last_n MaxSkip (skipped s
      @ map (\<lambda>j. entry_of (cur_dh s) (nr s + of_nat j) (mk_at (kdf_chain C) (ckr s) j)) [0..<?k])"
    using ok by (simp_all add: eq dr_ok_def)
  have upt: "map (\<lambda>j. ((cur_dh s, of_nat j :: u32), mk_at (kdf_chain C) (ckr s) (j - unat (nr s)))) [unat (nr s)..<i]
      = map (\<lambda>j. ((cur_dh s, nr s + of_nat j), mk_at (kdf_chain C) (ckr s) j)) [0..<?k]"
    by (rule nth_equalityI) simp_all
  let ?s' = "?s3\<lparr>ckr := snd (kdf_chain C (ckr ?s3)), nr := nr ?s3 + 1\<rparr>"
  have "recv_key C s (of_nat i) = Some (mk_at (kdf_chain C) (ckr s) ?k, ?s')"
    by (simp add: recv_key_def none s3 f3(1) mk_at_def)
  moreover have "dr_ok ?s'" by (simp add: dr_ok_def f3)
  moreover have "unat (nr ?s') = Suc i" using nr3 by (simp add: f3)
  moreover have "ckr ?s' = adv (kdf_chain C) (Suc ?k) (ckr s)" by (simp add: f3 adv_Suc)
  moreover have "dr_stash ?s' = last_n MaxSkip (dr_stash s
          @ map (\<lambda>j. (dr_key s j, mk_at (kdf_chain C) (ckr s) (j - unat (nr s)))) [unat (nr s)..<i])"
    by (simp only: dr_stash_def f3 dr_key_def upt)
      (simp add: f3 last_n_def drop_map comp_def entry_of_def)
  moreover have "cur_dh ?s' = cur_dh s" by (rule cur_dh_cong) (simp add: f3(4))
  then have "dr_key ?s' = dr_key s" by (simp add: dr_key_def fun_eq_iff)
  ultimately show "\<exists>s'. recv_key C s (of_nat i) = Some (mk_at (kdf_chain C) (ckr s) ?k, s') \<and> dr_ok s'
      \<and> unat (nr s') = Suc i \<and> ckr s' = adv (kdf_chain C) (Suc ?k) (ckr s)
      \<and> dr_stash s' = last_n MaxSkip (dr_stash s
          @ map (\<lambda>j. (dr_key s j, mk_at (kdf_chain C) (ckr s) (j - unat (nr s)))) [unat (nr s)..<i])
      \<and> dr_key s' = dr_key s"
    by blast
next
  fix s i
  assume ok: "dr_ok s" and le: "unat (nr s) \<le> i" "i < 2 ^ 32" and gap: "MaxSkip < i - unat (nr s)"
    and fresh: "\<forall>e \<in> set (dr_stash s). fst e \<noteq> dr_key s i"
  have i: "unat (of_nat i :: u32) = i" using le by (simp add: unat_of_nat_u32)
  have "pluck (\<lambda>e. se_dh e = cur_dh s \<and> se_n e = of_nat i) (skipped s) = None"
    using fresh by (auto simp: pluck_None_iff dr_stash_def dr_key_def)
  then have none: "take_skipped s (cur_dh s) (of_nat i) = None" by (simp add: take_skipped_def)
  have nlt: "nr s < of_nat i" using gap i by (simp add: word_less_nat_alt)
  then have "unat (of_nat i - nr s :: u32) = i - unat (nr s)"
    using i by (simp add: unat_sub)
  with ok gap nlt none show "recv_key C s (of_nat i) = None"
    by (simp add: recv_key_def skip_to_def dr_ok_def)
qed

end
