(* ===== verification/RatchetHandshake.thy ===== *)
theory RatchetHandshake
  imports RatchetProps
begin

text \<open>
  ratchet/handshake.go: the interactive handshake that starts a session. The
  initiator keeps its identity key, an ephemeral key and a session id between
  the two halves; the responder builds its state at once.
\<close>

record handshake =
  hs_ik :: bytes
  hs_eph :: bytes
  hs_sid :: bytes

record init_msg =
  i_ik :: bytes
  i_eph :: bytes
  i_sid :: bytes

record init_ack =
  a_ik :: bytes
  a_eph :: bytes
  a_sid :: bytes

definition SIDLen :: nat where "SIDLen = 16"

definition new_handshake :: "crypto \<Rightarrow> reader \<Rightarrow> bytes \<Rightarrow> ratchet_err + (handshake \<times> reader)" where
  "new_handshake C r ik =
     bindR (generate_key C r) (\<lambda>(eph, r1).
     bindR (of_opt RErrRand (read_full SIDLen r1)) (\<lambda>(sid, r2).
     Inr (\<lparr>hs_ik = ik, hs_eph = eph, hs_sid = sid\<rparr>, r2)))"

definition hs_init :: "crypto \<Rightarrow> handshake \<Rightarrow> init_msg" where
  "hs_init C h = \<lparr>i_ik = c_pub C (hs_ik h), i_eph = c_pub C (hs_eph h), i_sid = hs_sid h\<rparr>"

text \<open>The state a fresh session starts from: no chain, no counter, nothing skipped.\<close>

definition blank_state :: ratchet where
  "blank_state = \<lparr>rk = replicate 32 0, dhs = [], dhr = None, cks = replicate 32 0,
     ckr = replicate 32 0, has_cks = False, has_ckr = False, ns = 0, nr = 0, pn = 0,
     ad = [], skipped = []\<rparr>"

definition hs_finish :: "crypto \<Rightarrow> reader \<Rightarrow> handshake \<Rightarrow> init_ack \<Rightarrow> peer_id \<Rightarrow> peer_id
    \<Rightarrow> ratchet_err + (ratchet \<times> reader)" where
  "hs_finish C r h ack self responder =
     (if a_sid ack \<noteq> hs_sid h then Inl RErrSIDMismatch
      else
      bindR (of_opt RErrMalformed (new_key (a_ik ack))) (\<lambda>ikR.
      bindR (of_opt RErrMalformed (new_key (a_eph ack))) (\<lambda>ephR.
      bindR (of_opt RErrMalformed (c_dh C (hs_ik h) ephR)) (\<lambda>dh1.
      bindR (of_opt RErrMalformed (c_dh C (hs_eph h) ikR)) (\<lambda>dh2.
      bindR (of_opt RErrMalformed (c_dh C (hs_eph h) ephR)) (\<lambda>dh3.
      let init = hs_init C h;
          tr = transcript C self responder (i_ik init) (a_ik ack) (i_eph init) (a_eph ack) (hs_sid h);
          sk = derive_sk C dh1 dh2 dh3 tr in
      bindR (generate_key C r) (\<lambda>(k, r').
      bindR (of_opt RErrMalformed (c_dh C k ephR)) (\<lambda>dh_out.
      Inr (blank_state\<lparr>rk := fst (kdf_root C sk dh_out), dhs := k, dhr := Some (a_eph ack),
             cks := snd (kdf_root C sk dh_out), has_cks := True, ad := tr\<rparr>, r')))))))))"

definition hs_marshal :: "handshake \<Rightarrow> bytes" where
  "hs_marshal h = hs_eph h @ hs_sid h"

definition hs_unmarshal :: "bytes \<Rightarrow> bytes \<Rightarrow> ratchet_err + handshake" where
  "hs_unmarshal b ik =
     (if length b \<noteq> 32 + SIDLen then Inl RErrMalformed
      else bindR (of_opt RErrMalformed (new_key (take 32 b))) (\<lambda>eph.
           Inr \<lparr>hs_ik = ik, hs_eph = eph, hs_sid = drop 32 b\<rparr>))"

definition accept_handshake :: "crypto \<Rightarrow> reader \<Rightarrow> bytes \<Rightarrow> init_msg \<Rightarrow> peer_id \<Rightarrow> peer_id
    \<Rightarrow> ratchet_err + (ratchet \<times> init_ack \<times> reader)" where
  "accept_handshake C r ik init initiator self =
     bindR (of_opt RErrMalformed (new_key (i_ik init))) (\<lambda>ikI.
     bindR (of_opt RErrMalformed (new_key (i_eph init))) (\<lambda>ephI.
     bindR (generate_key C r) (\<lambda>(eph, r').
     bindR (of_opt RErrMalformed (c_dh C eph ikI)) (\<lambda>dh1.
     bindR (of_opt RErrMalformed (c_dh C ik ephI)) (\<lambda>dh2.
     bindR (of_opt RErrMalformed (c_dh C eph ephI)) (\<lambda>dh3.
     let ack = \<lparr>a_ik = c_pub C ik, a_eph = c_pub C eph, a_sid = i_sid init\<rparr>;
         tr = transcript C initiator self (i_ik init) (a_ik ack) (i_eph init) (a_eph ack) (i_sid init);
         sk = derive_sk C dh1 dh2 dh3 tr in
     Inr (blank_state\<lparr>rk := sk, dhs := eph, ad := tr\<rparr>, ack, r')))))))"

section \<open>Persisting a handshake\<close>

definition wf_handshake :: "handshake \<Rightarrow> bool" where
  "wf_handshake h \<longleftrightarrow> length (hs_eph h) = 32 \<and> length (hs_sid h) = SIDLen"

lemma hs_unmarshal_marshal: "wf_handshake h \<Longrightarrow> hs_unmarshal (hs_marshal h) (hs_ik h) = Inr h"
  by (simp add: wf_handshake_def hs_unmarshal_def hs_marshal_def new_key_def)

lemma new_handshake_wf [wf_intros]:
  "key_lengths C \<Longrightarrow> new_handshake C r ik = Inr (h, r') \<Longrightarrow> wf_handshake h"
  by (auto simp: new_handshake_def wf_handshake_def bindR_Inr_iff generate_key_def
      dest: key_lengthsD(4) read_full_length)

section \<open>The two ends of a session\<close>

text \<open>
  \<open>pending C X Y\<close>: X holds a sending chain that Y has not opened yet. Y's next
  Diffie-Hellman step, on the key X announces, derives X's chain: the root key
  X reached is the one Y reaches, and X's chain key is the start of that chain
  advanced by the messages X has sent.
\<close>

definition pending :: "crypto \<Rightarrow> ratchet \<Rightarrow> ratchet \<Rightarrow> bool" where
  "pending C X Y \<longleftrightarrow> has_cks X \<and> dhr X = Some (c_pub C (dhs Y)) \<and> ad X = ad Y
     \<and> dhr Y \<noteq> Some (c_pub C (dhs X))
     \<and> (\<exists>d. c_dh C (dhs X) (c_pub C (dhs Y)) = Some d
          \<and> rk X = fst (kdf_root C (rk Y) d)
          \<and> cks X = adv (kdf_chain C) (unat (ns X)) (snd (kdf_root C (rk Y) d)))"

text \<open>
  \<open>linked C X Y base\<close>: Y has opened X's sending chain; number \<open>nr Y\<close> of it is
  derived from Y's chain key, and X is at number \<open>ns X\<close> of the same chain.
\<close>

definition linked :: "crypto \<Rightarrow> ratchet \<Rightarrow> ratchet \<Rightarrow> bool" where
  "linked C X Y \<longleftrightarrow> has_cks X \<and> has_ckr Y \<and> dhr Y = Some (c_pub C (dhs X)) \<and> ad X = ad Y
     \<and> unat (nr Y) \<le> unat (ns X)
     \<and> cks X = adv (kdf_chain C) (unat (ns X) - unat (nr Y)) (ckr Y)"

text \<open>
  The handshake agrees: whatever the initiator and the responder compute from
  each other's half leaves the initiator with a sending chain the responder
  will derive.
\<close>

lemma handshake_agrees:
  assumes dh: "dh_commutes C" and len: "key_lengths C"
    and acc: "accept_handshake C rB ikB (hs_init C h) A B = Inr (stB, ack, rB')"
    and fin: "hs_finish C rA h ack A B = Inr (stA, rA')"
  shows "pending C stA stB \<and> \<not> has_cks stB \<and> \<not> has_ckr stB \<and> dhr stB = None \<and> skipped stB = []
    \<and> ns stA = 0 \<and> pn stA = 0 \<and> dhr stA = Some (c_pub C (dhs stB))"
proof -
  from acc obtain eph dh1 dh2 dh3 where B: "c_dh C eph (c_pub C (hs_ik h)) = Some dh1"
    "c_dh C ikB (c_pub C (hs_eph h)) = Some dh2" "c_dh C eph (c_pub C (hs_eph h)) = Some dh3"
    and ack: "ack = \<lparr>a_ik = c_pub C ikB, a_eph = c_pub C eph, a_sid = hs_sid h\<rparr>"
    and stB: "stB = blank_state\<lparr>
        rk := derive_sk C dh1 dh2 dh3 (transcript C A B (c_pub C (hs_ik h)) (c_pub C ikB)
          (c_pub C (hs_eph h)) (c_pub C eph) (hs_sid h)),
        dhs := eph,
        ad := transcript C A B (c_pub C (hs_ik h)) (c_pub C ikB)
          (c_pub C (hs_eph h)) (c_pub C eph) (hs_sid h)\<rparr>"
    by (auto simp: accept_handshake_def bindR_Inr_iff Let_def hs_init_def new_key_def
        key_lengthsD(2) [OF len])
  have A: "c_dh C (hs_ik h) (c_pub C eph) = Some dh1" "c_dh C (hs_eph h) (c_pub C ikB) = Some dh2"
    "c_dh C (hs_eph h) (c_pub C eph) = Some dh3"
    using B dh_commutesD [OF dh] by metis+
  from fin obtain k d where "c_dh C k (c_pub C eph) = Some d"
    "stA = blank_state\<lparr>rk := fst (kdf_root C (rk stB) d), dhs := k, dhr := Some (c_pub C eph),
       cks := snd (kdf_root C (rk stB) d), has_cks := True, ad := ad stB\<rparr>"
    by (auto simp: hs_finish_def bindR_Inr_iff Let_def hs_init_def new_key_def ack A stB
        key_lengthsD(2) [OF len] split: if_splits)
  then show ?thesis
    by (auto simp: pending_def stB blank_state_def)
qed

end
