(* ===== verification/RatchetConv.thy ===== *)
theory RatchetConv
  imports RatchetHandshake
begin

text \<open>
  A conversation of two ratchet sessions as a step relation: the handshake,
  then any interleaving of messages that are delivered at once and messages
  that are lost. \<open>conv C X Y\<close>: X is the end that holds the newest sending
  chain (the other end has not opened it yet), Y the other one.
\<close>

section \<open>What the operations leave alone\<close>

lemma skip_one_fields:
  "rk (skip_one C dh s) = rk s" "dhs (skip_one C dh s) = dhs s" "dhr (skip_one C dh s) = dhr s"
  "cks (skip_one C dh s) = cks s" "has_cks (skip_one C dh s) = has_cks s"
  "has_ckr (skip_one C dh s) = has_ckr s" "ns (skip_one C dh s) = ns s"
  "pn (skip_one C dh s) = pn s" "ad (skip_one C dh s) = ad s"
  by (simp_all add: skip_one_def Let_def)

lemma iter_field: "(\<And>s. f (g s) = f s) \<Longrightarrow> f ((g ^^ k) s) = f s"
  by (induction k) simp_all

lemma skip_to_fields:
  assumes "skip_to C s n = Inr s'"
  shows "rk s' = rk s" "dhs s' = dhs s" "dhr s' = dhr s" "cks s' = cks s" "has_cks s' = has_cks s"
    "has_ckr s' = has_ckr s" "ns s' = ns s" "pn s' = pn s" "ad s' = ad s"
  using assms unfolding skip_to_def skip_loop_iter
  by (auto simp: skip_one_fields iter_field split: if_splits)

text \<open>A successful skip ends at the wanted number with the chain key of that number.\<close>

lemma skip_to_result:
  assumes "has_ckr s" "length (skipped s) \<le> MaxSkip" "nr s \<le> n"
    and "unat n - unat (nr s) \<le> MaxSkip"
  shows "skip_to C s n = Inr (s\<lparr>skipped := last_n MaxSkip (skipped s
        @ map (\<lambda>j. entry_of (cur_dh s) (nr s + of_nat j) (mk_at (kdf_chain C) (ckr s) j))
            [0..<unat n - unat (nr s)]),
      ckr := adv (kdf_chain C) (unat n - unat (nr s)) (ckr s), nr := n\<rparr>)"
proof -
  have "nr s + of_nat (unat n - unat (nr s)) = n"
    using assms(3) by (simp add: word_le_nat_alt)
  moreover have "unat (n - nr s) = unat n - unat (nr s)"
    using assms(3) by (simp add: unat_sub)
  ultimately show ?thesis
    using assms skip_loop_eq [OF assms(2) refl, of C "cur_dh s" n]
    by (simp add: skip_to_def cur_dh_def)
qed

lemma encryptD:
  assumes "encrypt C s p = Inr (m, s')"
  shows "has_cks s" "m_dh m = c_pub C (dhs s)" "m_pn m = pn s" "m_n m = ns s"
    "m_ct m = seal_mk C (fst (kdf_chain C (cks s))) p (header_aad (ad s) (c_pub C (dhs s)) (pn s) (ns s))"
    "s' = s\<lparr>cks := snd (kdf_chain C (cks s)), ns := ns s + 1\<rparr>"
  using assms by (auto simp: encrypt_def Let_def split: if_splits)

lemma encrypt_some: "has_cks s \<Longrightarrow> \<exists>m s'. encrypt C s p = Inr (m, s')"
  by (simp add: encrypt_def Let_def)

section \<open>The invariant\<close>

text \<open>
  What a receiver may hold of the sender's current chain: nothing when the
  chain is unopened, only numbers it has passed when it is open.
\<close>

definition no_key_of :: "bytes \<Rightarrow> ratchet \<Rightarrow> bool" where
  "no_key_of dh s \<longleftrightarrow> (\<forall>e \<in> set (skipped s). se_dh e \<noteq> dh)"

definition passed_keys :: "bytes \<Rightarrow> ratchet \<Rightarrow> bool" where
  "passed_keys dh s \<longleftrightarrow> (\<forall>e \<in> set (skipped s). se_dh e = dh \<longrightarrow> unat (se_n e) < unat (nr s))"

definition sane :: "ratchet \<Rightarrow> bool" where
  "sane s \<longleftrightarrow> length (skipped s) \<le> MaxSkip \<and> (has_ckr s \<longrightarrow> dhr s \<noteq> None)"

definition conv_inv :: "crypto \<Rightarrow> ratchet \<Rightarrow> ratchet \<Rightarrow> bool" where
  "conv_inv C X Y \<longleftrightarrow> pending C X Y \<and> no_key_of (c_pub C (dhs X)) Y \<and> sane X \<and> sane Y
     \<and> (has_cks Y \<longrightarrow> linked C Y X \<and> passed_keys (c_pub C (dhs Y)) X)"

text \<open>A key pair is new to a peer that has neither seen nor stored its public half.\<close>

definition new_to :: "crypto \<Rightarrow> bytes \<Rightarrow> ratchet \<Rightarrow> bool" where
  "new_to C k s \<longleftrightarrow> dhr s \<noteq> Some (c_pub C k) \<and> no_key_of (c_pub C k) s"

lemma take_skipped_none_no_key: "no_key_of dh s \<Longrightarrow> take_skipped s dh n = None"
  by (auto simp: no_key_of_def take_skipped_def pluck_None_iff split: option.splits
      dest!: pluck_Some)

lemma take_skipped_none_passed:
  assumes "passed_keys dh s" "nr s \<le> n"
  shows "take_skipped s dh n = None"
proof -
  have "pluck (\<lambda>e. se_dh e = dh \<and> se_n e = n) (skipped s) = None"
    using assms by (force simp: pluck_None_iff passed_keys_def word_le_nat_alt)
  then show ?thesis by (simp add: take_skipped_def)
qed

section \<open>Opening the peer's new chain\<close>

lemma turn:
  assumes laws: "dh_commutes C" "aead_correct C" "key_lengths C"
    and pend: "pending C X Y" and nk: "no_key_of (c_pub C (dhs X)) Y"
    and sane: "sane Y" and enc: "encrypt C X p = Inr (m, X')"
    and gap: "unat (ns X) \<le> MaxSkip"
    and pgap: "has_ckr Y \<and> nr Y < pn X \<longrightarrow> unat (pn X - nr Y) \<le> MaxSkip"
    and gen: "c_gen C r = Some (k, r')" and dh2: "c_dh C k (c_pub C (dhs X)) = Some d2"
    and fresh: "new_to C k X" and wrap: "unat (ns X) + 1 < 2 ^ 32" and saneX: "sane X"
  shows "\<exists>Y'. decrypt C r Y m = Inr (p, Y', r') \<and> dhs Y' = k \<and> conv_inv C Y' X'"
proof -
  note encE = encryptD [OF enc]
  let ?pub = "c_pub C (dhs X)"
  from pend obtain d where P: "has_cks X" "dhr X = Some (c_pub C (dhs Y))" "ad X = ad Y"
    "dhr Y \<noteq> Some ?pub" and d: "c_dh C (dhs X) (c_pub C (dhs Y)) = Some d"
    and rk: "rk X = fst (kdf_root C (rk Y) d)"
    and ck: "cks X = adv (kdf_chain C) (unat (ns X)) (snd (kdf_root C (rk Y) d))"
    by (auto simp: pending_def)
  have dY: "c_dh C (dhs Y) ?pub = Some d" using d dh_commutesD [OF laws(1)] by metis
  have tk: "take_skipped Y (m_dh m) (m_n m) = None"
    using nk encE(2) by (simp add: take_skipped_none_no_key)
  obtain s1 where s1: "(if has_ckr Y then skip_to C Y (m_pn m) else Inr Y) = Inr s1"
    using pgap encE(3) by (cases "has_ckr Y"; cases "nr Y < pn X"; auto simp: skip_to_def)
  have s1f: "rk s1 = rk Y" "dhs s1 = dhs Y" "ad s1 = ad Y"
    using s1 by (auto split: if_splits dest: skip_to_fields)
  have len1: "length (skipped s1) \<le> MaxSkip"
    using s1 sane by (auto simp: sane_def split: if_splits dest: skip_to_bound)
  have nk1: "no_key_of ?pub s1"
  proof (cases "has_ckr Y \<and> nr Y < m_pn m")
    case True
    then have le: "nr Y \<le> m_pn m" "unat (m_pn m) - unat (nr Y) \<le> MaxSkip"
      using pgap encE(3) by (auto simp: unat_sub)
    have ne: "cur_dh Y \<noteq> ?pub" using True sane P(4) by (auto simp: sane_def cur_dh_def)
    have "skipped s1 = last_n MaxSkip (skipped Y @ map (\<lambda>j. entry_of (cur_dh Y) (nr Y + of_nat j)
        (mk_at (kdf_chain C) (ckr Y) j)) [0..<unat (m_pn m) - unat (nr Y)])"
      using skip_to_result [of Y "m_pn m" C] True le sane s1 by (auto simp: sane_def)
    with ne nk set_last_n show ?thesis by (fastforce simp: no_key_of_def entry_of_def)
  next
    case False
    then have "s1 = Y" using s1 by (auto simp: skip_to_def skip_loop.simps split: if_splits)
    with nk show ?thesis by simp
  qed
  define s2 where "s2 = s1\<lparr>pn := ns s1, ns := 0, nr := 0, dhr := Some ?pub,
    rk := fst (kdf_root C (rk X) d2), ckr := snd (kdf_root C (rk Y) d), has_ckr := True,
    dhs := k, cks := snd (kdf_root C (rk X) d2), has_cks := True\<rparr>"
  have ratchet: "dh_ratchet C r s1 ?pub = Inr (s2, r')"
    by (simp add: dh_ratchet_def new_key_def key_lengthsD(2) [OF laws(3)] dY s1f Let_def
        generate_key_def gen dh2 s2_def rk)
  let ?n = "unat (ns X)"
  have s2f: "has_ckr s2" "length (skipped s2) \<le> MaxSkip" "nr s2 = 0" "cur_dh s2 = ?pub"
    "skipped s2 = skipped s1" "ckr s2 = snd (kdf_root C (rk Y) d)" "ad s2 = ad X"
    using len1 by (simp_all add: s2_def cur_dh_def s1f P(3))
  define s3 where "s3 = s2\<lparr>skipped := last_n MaxSkip (skipped s1
      @ map (\<lambda>j. entry_of ?pub (of_nat j) (mk_at (kdf_chain C) (ckr s2) j)) [0..<?n]),
    ckr := adv (kdf_chain C) ?n (ckr s2), nr := ns X\<rparr>"
  have s3: "skip_to C s2 (m_n m) = Inr s3"
    using skip_to_result [OF s2f(1,2), of "m_n m" C] gap encE(4) s2f by (simp add: s3_def)
  have key: "ckr s3 = cks X" "ad s3 = ad X" by (simp_all add: s3_def ck s2f)
  define Y' where "Y' = s3\<lparr>ckr := snd (kdf_chain C (cks X)), nr := ns X + 1\<rparr>"
  have dec: "decrypt C r Y m = Inr (p, Y', r')"
    using tk P(4) s1 ratchet s3 key encE laws(2)
    by (simp add: decrypt_def Y'_def s3_def)
  have nr': "unat (ns X + 1) = Suc ?n" using wrap by (simp add: unat_word_ariths)
  have f: "dhs Y' = k" "dhr Y' = Some ?pub" "has_cks Y'" "has_ckr Y'" "ad Y' = ad X" "ns Y' = 0"
    "rk Y' = fst (kdf_root C (rk X) d2)" "cks Y' = snd (kdf_root C (rk X) d2)"
    "ckr Y' = snd (kdf_chain C (cks X))" "nr Y' = ns X + 1" "skipped Y' = skipped s3"
    by (simp_all add: Y'_def s3_def s2_def s1f P(3))
  have "pending C Y' X'"
    using fresh dh2 by (simp add: pending_def f encE(6) new_to_def)
  moreover have "linked C X' Y'"
    by (simp add: linked_def f encE(1,6))
  moreover have "passed_keys ?pub Y'"
  proof -
    have "unat (se_n e) < ?n" if "e \<in> set (skipped s3)" "se_dh e = ?pub" for e
    proof -
      from that nk1 have "e \<in> set (map (\<lambda>j. entry_of ?pub (of_nat j) (mk_at (kdf_chain C) (ckr s2) j)) [0..<?n])"
        using set_last_n [of MaxSkip] by (fastforce simp: s3_def no_key_of_def)
      then obtain j where "j < ?n" "e = entry_of ?pub (of_nat j) (mk_at (kdf_chain C) (ckr s2) j)" by auto
      moreover from this have "unat (of_nat j :: u32) = j"
        using u32_lt [of "ns X"] by (simp add: unat_of_nat_u32)
      ultimately show ?thesis by (simp add: entry_of_def)
    qed
    then show ?thesis by (fastforce simp: passed_keys_def f nr')
  qed
  moreover have "no_key_of (c_pub C k) X'" using fresh by (simp add: new_to_def no_key_of_def encE(6))
  moreover have "sane X'" "sane Y'"
    using saneX by (simp_all add: sane_def encE(6) f) (simp add: s3_def)
  ultimately show ?thesis using dec f by (simp add: conv_inv_def encE(6))
qed

section \<open>Receiving on an open chain\<close>

lemma same_chain:
  assumes aead: "aead_correct C" and link: "linked C Y X" and old: "passed_keys (c_pub C (dhs Y)) X"
    and sane: "sane X" and enc: "encrypt C Y p = Inr (m, Y')"
    and gap: "unat (ns Y) - unat (nr X) \<le> MaxSkip" and wrap: "unat (ns Y) + 1 < 2 ^ 32"
  shows "\<exists>X'. decrypt C r X m = Inr (p, X', r) \<and> linked C Y' X' \<and> passed_keys (c_pub C (dhs Y)) X'
    \<and> sane X' \<and> rk X' = rk X \<and> dhs X' = dhs X \<and> dhr X' = dhr X \<and> ad X' = ad X
    \<and> has_cks X' = has_cks X \<and> cks X' = cks X \<and> ns X' = ns X \<and> (\<forall>e \<in> set (skipped X'). e \<in> set (skipped X) \<or> se_dh e = c_pub C (dhs Y))"
proof -
  note encE = encryptD [OF enc]
  let ?pub = "c_pub C (dhs Y)"
  let ?k = "unat (ns Y) - unat (nr X)"
  from link have L: "has_cks Y" "has_ckr X" "dhr X = Some ?pub" "ad Y = ad X"
    "unat (nr X) \<le> unat (ns Y)" "cks Y = adv (kdf_chain C) ?k (ckr X)"
    by (auto simp: linked_def)
  have le: "nr X \<le> ns Y" using L(5) by (simp add: word_le_nat_alt)
  have cd: "cur_dh X = ?pub" by (simp add: cur_dh_def L(3))
  have tk: "take_skipped X ?pub (ns Y) = None" using take_skipped_none_passed [OF old le] .
  define s3 where "s3 = X\<lparr>skipped := last_n MaxSkip (skipped X
      @ map (\<lambda>j. entry_of ?pub (nr X + of_nat j) (mk_at (kdf_chain C) (ckr X) j)) [0..<?k]),
    ckr := cks Y, nr := ns Y\<rparr>"
  have s3: "skip_to C X (ns Y) = Inr s3"
    using skip_to_result [of X "ns Y" C] L sane le gap by (simp add: s3_def cd sane_def)
  define X' where "X' = s3\<lparr>ckr := snd (kdf_chain C (cks Y)), nr := ns Y + 1\<rparr>"
  have dec: "decrypt C r X m = Inr (p, X', r)"
    using tk s3 L encE aead by (simp add: decrypt_def X'_def s3_def)
  have nr': "unat (ns Y + 1) = Suc (unat (ns Y))" using wrap by (simp add: unat_word_ariths)
  have mem: "e \<in> set (skipped X) \<or> (\<exists>j<?k. e = entry_of ?pub (nr X + of_nat j) (mk_at (kdf_chain C) (ckr X) j))"
    if "e \<in> set (skipped s3)" for e
    using that set_last_n [of MaxSkip] by (fastforce simp: s3_def)
  have "passed_keys ?pub X'"
  proof -
    have "unat (se_n e) < Suc (unat (ns Y))" if e: "e \<in> set (skipped s3)" "se_dh e = ?pub" for e
      using mem [OF e(1)]
    proof
      assume "e \<in> set (skipped X)"
      with e(2) old L(5) show ?thesis by (fastforce simp: passed_keys_def)
    next
      assume "\<exists>j<?k. e = entry_of ?pub (nr X + of_nat j) (mk_at (kdf_chain C) (ckr X) j)"
      then obtain j where j: "j < ?k" "se_n e = nr X + of_nat j" by (auto simp: entry_of_def)
      then have "unat (nr X + of_nat j) = unat (nr X) + j"
        using u32_lt [of "ns Y"] by (intro unat_add_of_nat) simp
      with j show ?thesis by simp
    qed
    then show ?thesis by (fastforce simp: passed_keys_def X'_def nr')
  qed
  moreover have "linked C Y' X'"
    using L by (simp add: linked_def encE(6) X'_def s3_def)
  moreover have "sane X'" using sane by (simp add: sane_def X'_def s3_def)
  moreover have "\<forall>e \<in> set (skipped X'). e \<in> set (skipped X) \<or> se_dh e = ?pub"
    using mem by (fastforce simp: X'_def entry_of_def)
  ultimately show ?thesis using dec by (simp add: X'_def s3_def)
qed

section \<open>Conversations\<close>

text \<open>
  A sequence number must stay below the top of its 32 bits: the source lets it
  wrap, and a chain of four billion messages without an answer is outside the
  relation. A lost message is one that was encrypted and never arrives.
\<close>

definition room :: "ratchet \<Rightarrow> bool" where
  "room s \<longleftrightarrow> unat (ns s) + 1 < 2 ^ 32"

inductive conv :: "crypto \<Rightarrow> ratchet \<Rightarrow> ratchet \<Rightarrow> bool" for C where
  handshake: "accept_handshake C rB ikB (hs_init C h) A B = Inr (Y, ack, rB') \<Longrightarrow>
    hs_finish C rA h ack A B = Inr (X, rA') \<Longrightarrow> conv C X Y"
| ahead_delivers: "conv C X Y \<Longrightarrow> room X \<Longrightarrow> encrypt C X p = Inr (m, X') \<Longrightarrow>
    decrypt C r Y m = Inr (q, Y', r') \<Longrightarrow> new_to C (dhs Y') X \<Longrightarrow> conv C Y' X'"
| behind_delivers: "conv C X Y \<Longrightarrow> room Y \<Longrightarrow> encrypt C Y p = Inr (m, Y') \<Longrightarrow>
    decrypt C r X m = Inr (q, X', r') \<Longrightarrow> conv C X' Y'"
| ahead_loses: "conv C X Y \<Longrightarrow> room X \<Longrightarrow> encrypt C X p = Inr (m, X') \<Longrightarrow> conv C X' Y"
| behind_loses: "conv C X Y \<Longrightarrow> room Y \<Longrightarrow> encrypt C Y p = Inr (m, Y') \<Longrightarrow> conv C X Y'"

text \<open>A delivery that succeeded met the conditions of the two lemmas above.\<close>

lemma turn_conditions:
  assumes "decrypt C r Y m = Inr (q, Y', r')" and "take_skipped Y (m_dh m) (m_n m) = None"
    and "dhr Y \<noteq> Some (m_dh m)"
  shows "\<exists>d2. unat (m_n m) \<le> MaxSkip
    \<and> (has_ckr Y \<and> nr Y < m_pn m \<longrightarrow> unat (m_pn m - nr Y) \<le> MaxSkip)
    \<and> c_gen C r = Some (dhs Y', r') \<and> c_dh C (dhs Y') (m_dh m) = Some d2"
proof -
  from assms obtain s1 s2 s3 where
    s1: "(if has_ckr Y then skip_to C Y (m_pn m) else Inr Y) = Inr s1"
    and s2: "dh_ratchet C r s1 (m_dh m) = Inr (s2, r')"
    and s3: "skip_to C s2 (m_n m) = Inr s3"
    and Y': "Y' = s3\<lparr>ckr := snd (kdf_chain C (ckr s3)), nr := nr s3 + 1\<rparr>"
    by (auto simp: decrypt_def bindR_Inr_iff Let_def)
  from s2 have "has_ckr s2" "nr s2 = 0" and gen: "c_gen C r = Some (dhs s2, r')"
    and d2: "\<exists>d2. c_dh C (dhs s2) (m_dh m) = Some d2"
    by (auto simp: dh_ratchet_def bindR_Inr_iff Let_def generate_key_def new_key_def split: if_splits)
  with s3 have "unat (m_n m) \<le> MaxSkip"
    by (auto simp: skip_to_def word_gt_0 split: if_splits)
  moreover have "has_ckr Y \<and> nr Y < m_pn m \<longrightarrow> unat (m_pn m - nr Y) \<le> MaxSkip"
    using s1 by (auto simp: skip_to_def split: if_splits)
  moreover have "dhs Y' = dhs s2" using skip_to_fields [OF s3] by (simp add: Y')
  ultimately show ?thesis using gen d2 by auto
qed

lemma same_chain_conditions:
  assumes "decrypt C r X m = Inr (q, X', r')" and "take_skipped X (m_dh m) (m_n m) = None"
    and "dhr X = Some (m_dh m)" and "has_ckr X" and "nr X \<le> m_n m"
  shows "unat (m_n m) - unat (nr X) \<le> MaxSkip \<and> r' = r"
proof -
  from assms obtain s3 where "skip_to C X (m_n m) = Inr s3" and "r' = r"
    by (auto simp: decrypt_def bindR_Inr_iff Let_def)
  with assms(4,5) show ?thesis
    by (cases "nr X < m_n m") (auto simp: skip_to_def unat_sub split: if_splits)
qed

lemma pending_encrypt:
  assumes "pending C X Y" "encrypt C X p = Inr (m, X')" "room X"
  shows "pending C X' Y"
proof -
  have "unat (ns X + 1) = Suc (unat (ns X))"
    using assms(3) by (simp add: room_def unat_word_ariths)
  with assms(1) encryptD [OF assms(2)] show ?thesis
    by (auto simp: pending_def adv_Suc)
qed

lemma linked_encrypt:
  assumes "linked C X Y" "encrypt C X p = Inr (m, X')" "room X"
  shows "linked C X' Y"
proof -
  have "unat (ns X + 1) = Suc (unat (ns X))"
    using assms(3) by (simp add: room_def unat_word_ariths)
  with assms(1) encryptD [OF assms(2)] show ?thesis
    by (auto simp: linked_def adv_Suc Suc_diff_le)
qed

lemma pending_cong:
  assumes "pending C X Y" "rk Y' = rk Y" "dhs Y' = dhs Y" "dhr Y' = dhr Y" "ad Y' = ad Y"
    "rk X' = rk X" "dhs X' = dhs X" "dhr X' = dhr X" "ad X' = ad X" "cks X' = cks X"
    "has_cks X' = has_cks X" "ns X' = ns X"
  shows "pending C X' Y'"
  using assms by (simp add: pending_def)

lemma linked_cong:
  assumes "linked C Y X" "has_ckr X' = has_ckr X" "dhr X' = dhr X" "ad X' = ad X" "nr X' = nr X" "ckr X' = ckr X"
  shows "linked C Y X'"
  using assms by (simp add: linked_def)

lemma conv_invD:
  assumes "conv_inv C X Y"
  shows "pending C X Y" "no_key_of (c_pub C (dhs X)) Y" "sane X" "sane Y"
    "has_cks Y \<Longrightarrow> linked C Y X" "has_cks Y \<Longrightarrow> passed_keys (c_pub C (dhs Y)) X"
  using assms by (simp_all add: conv_inv_def)

lemma inv_ahead_delivers:
  assumes laws: "dh_commutes C" "aead_correct C" "key_lengths C" and inv: "conv_inv C X Y"
    and room: "room X" and enc: "encrypt C X p = Inr (m, X')"
    and dec: "decrypt C r Y m = Inr (q, Y', r')" and new: "new_to C (dhs Y') X"
  shows "q = p \<and> conv_inv C Y' X'"
proof -
  note I = conv_invD [OF inv] and E = encryptD [OF enc]
  have tk: "take_skipped Y (m_dh m) (m_n m) = None" using I(2) E(2) by (simp add: take_skipped_none_no_key)
  have ne: "dhr Y \<noteq> Some (m_dh m)" using I(1) E(2) by (simp add: pending_def)
  from turn_conditions [OF dec tk ne] E obtain d2 where
    c: "unat (ns X) \<le> MaxSkip" "has_ckr Y \<and> nr Y < pn X \<longrightarrow> unat (pn X - nr Y) \<le> MaxSkip"
    "c_gen C r = Some (dhs Y', r')" "c_dh C (dhs Y') (c_pub C (dhs X)) = Some d2"
    by auto
  from turn [OF laws I(1,2,4) enc c new _ I(3)] room dec show ?thesis
    by (auto simp: room_def)
qed

lemma inv_behind_delivers:
  assumes aead: "aead_correct C" and inv: "conv_inv C X Y"
    and room: "room Y" and enc: "encrypt C Y p = Inr (m, Y')"
    and dec: "decrypt C r X m = Inr (q, X', r')"
  shows "q = p \<and> conv_inv C X' Y'"
proof -
  note I = conv_invD [OF inv] and E = encryptD [OF enc]
  note L = I(5,6) [OF E(1)]
  have le: "nr X \<le> m_n m" using L(1) E(4) by (simp add: linked_def word_le_nat_alt)
  have tk: "take_skipped X (m_dh m) (m_n m) = None"
    using take_skipped_none_passed [OF L(2)] le E(2) by simp
  have "unat (ns Y) - unat (nr X) \<le> MaxSkip"
    using same_chain_conditions [OF dec tk] L(1) le E(2,4) by (simp add: linked_def)
  from same_chain [OF aead L I(3) enc this] room obtain X'' where X'':
    "decrypt C r X m = Inr (p, X'', r)" "linked C Y' X''" "passed_keys (c_pub C (dhs Y)) X''"
    "sane X''" "rk X'' = rk X" "dhs X'' = dhs X" "dhr X'' = dhr X" "ad X'' = ad X"
    "has_cks X'' = has_cks X" "cks X'' = cks X" "ns X'' = ns X"
    by (auto simp: room_def)
  with dec have eq: "q = p" "X' = X''" by simp_all
  have "pending C X'' Y'" by (rule pending_cong [OF I(1)]) (simp_all add: E(6) X'')
  moreover have "no_key_of (c_pub C (dhs X'')) Y'" "sane Y'"
    using I(2,4) by (simp_all add: no_key_of_def sane_def E(6) X'')
  ultimately show ?thesis using X'' eq by (simp add: conv_inv_def E(6))
qed

lemma inv_ahead_loses:
  assumes inv: "conv_inv C X Y" and room: "room X" and enc: "encrypt C X p = Inr (m, X')"
  shows "conv_inv C X' Y"
proof -
  note I = conv_invD [OF inv] and E = encryptD [OF enc]
  have "linked C Y X'" if "has_cks Y"
    by (rule linked_cong [OF I(5) [OF that]]) (simp_all add: E(6))
  moreover have "sane X'" using I(3) by (simp add: sane_def E(6))
  ultimately show ?thesis
    using pending_encrypt [OF I(1) enc room] I by (simp add: conv_inv_def E(6) passed_keys_def)
qed

lemma inv_behind_loses:
  assumes inv: "conv_inv C X Y" and room: "room Y" and enc: "encrypt C Y p = Inr (m, Y')"
  shows "conv_inv C X Y'"
proof -
  note I = conv_invD [OF inv] and E = encryptD [OF enc]
  have "pending C X Y'" by (rule pending_cong [OF I(1)]) (simp_all add: E(6))
  moreover have "sane Y'" using I(4) by (simp add: sane_def E(6))
  ultimately show ?thesis
    using linked_encrypt [OF I(5) [OF E(1)] enc room] I E(1)
    by (simp add: conv_inv_def E(6) no_key_of_def)
qed

lemma conv_invariant:
  assumes laws: "dh_commutes C" "aead_correct C" "key_lengths C" and "conv C X Y"
  shows "conv_inv C X Y"
  using assms(4)
proof (induction rule: conv.induct)
  case (handshake rB ikB h A B Y ack rB' rA X rA')
  note H = handshake_agrees [OF laws(1,3) handshake]
  from handshake(2) have "skipped X = []" "\<not> has_ckr X"
    by (auto simp: hs_finish_def bindR_Inr_iff Let_def blank_state_def split: if_splits)
  with H show ?case by (simp add: conv_inv_def no_key_of_def sane_def)
next
  case (ahead_delivers X Y p m X' r q Y' r')
  then show ?case using inv_ahead_delivers [OF laws] by blast
next
  case (behind_delivers X Y p m Y' r q X' r')
  then show ?case using inv_behind_delivers [OF laws(2)] by blast
qed (blast intro: inv_ahead_loses inv_behind_loses)+

end
