(* ===== verification/RatchetWire.thy ===== *)
theory RatchetWire
  imports RatchetConv
begin

text \<open>
  ratchet/wire.go and the serialisation of ratchet/state.go: the protobuf
  messages of the ratchet and their validation. A protobuf bytes field that is
  absent is \<open>None\<close> where the source distinguishes nil from a value.
\<close>

definition maxCiphertext :: nat where "maxCiphertext = 63 * 1024"

record pb_message =
  pm_dh :: bytes
  pm_pn :: u32
  pm_n :: u32
  pm_ct :: bytes

record pb_init =
  pi_ik :: bytes
  pi_eph :: bytes
  pi_sid :: bytes

record pb_skipped =
  ps_dh :: bytes
  ps_n :: u32
  ps_mk :: bytes

record pb_state =
  pt_rk :: bytes
  pt_dhs :: bytes
  pt_dhr :: "bytes option"
  pt_cks :: "bytes option"
  pt_ckr :: "bytes option"
  pt_ns :: u32
  pt_nr :: u32
  pt_pn :: u32
  pt_ad :: bytes
  pt_skipped :: "pb_skipped list"

section \<open>Messages\<close>

text \<open>proto.Marshal's own failure is the second \<open>RErrMalformed\<close>: the caller gets an error either way.\<close>

definition encode_message :: "pb_message pb \<Rightarrow> message \<Rightarrow> ratchet_err + bytes" where
  "encode_message P m =
     (if maxCiphertext < length (m_ct m) then Inl RErrMalformed
      else of_opt RErrMalformed (marshal P
        \<lparr>pm_dh = m_dh m, pm_pn = m_pn m, pm_n = m_n m, pm_ct = m_ct m\<rparr>))"

definition decode_message :: "pb_message pb \<Rightarrow> bytes \<Rightarrow> ratchet_err + message" where
  "decode_message P b =
     bindR (of_opt RErrMalformed (unmarshal P b)) (\<lambda>q.
     if length (pm_dh q) \<noteq> 32 \<or> maxCiphertext < length (pm_ct q) then Inl RErrMalformed
     else Inr \<lparr>m_dh = pm_dh q, m_pn = pm_pn q, m_n = pm_n q, m_ct = pm_ct q\<rparr>)"

definition encode_init :: "pb_init pb \<Rightarrow> init_msg \<Rightarrow> ratchet_err + bytes" where
  "encode_init P i = of_opt RErrMalformed (marshal P
     \<lparr>pi_ik = i_ik i, pi_eph = i_eph i, pi_sid = i_sid i\<rparr>)"

definition decode_init :: "pb_init pb \<Rightarrow> bytes \<Rightarrow> ratchet_err + init_msg" where
  "decode_init P b =
     bindR (of_opt RErrMalformed (unmarshal P b)) (\<lambda>q.
     if length (pi_ik q) \<noteq> 32 \<or> length (pi_eph q) \<noteq> 32 \<or> length (pi_sid q) \<noteq> SIDLen
     then Inl RErrMalformed
     else Inr \<lparr>i_ik = pi_ik q, i_eph = pi_eph q, i_sid = pi_sid q\<rparr>)"

definition encode_init_ack :: "pb_init pb \<Rightarrow> init_ack \<Rightarrow> ratchet_err + bytes" where
  "encode_init_ack P a = of_opt RErrMalformed (marshal P
     \<lparr>pi_ik = a_ik a, pi_eph = a_eph a, pi_sid = a_sid a\<rparr>)"

definition decode_init_ack :: "pb_init pb \<Rightarrow> bytes \<Rightarrow> ratchet_err + init_ack" where
  "decode_init_ack P b =
     bindR (of_opt RErrMalformed (unmarshal P b)) (\<lambda>q.
     if length (pi_ik q) \<noteq> 32 \<or> length (pi_eph q) \<noteq> 32 \<or> length (pi_sid q) \<noteq> SIDLen
     then Inl RErrMalformed
     else Inr \<lparr>a_ik = pi_ik q, a_eph = pi_eph q, a_sid = pi_sid q\<rparr>)"

definition wf_message :: "message \<Rightarrow> bool" where
  "wf_message m \<longleftrightarrow> length (m_dh m) = 32 \<and> length (m_ct m) \<le> maxCiphertext"

lemma decode_encode_message:
  assumes "encode_message P m = Inr b" and "length (m_dh m) = 32"
    and "pb_roundtrip P \<lparr>pm_dh = m_dh m, pm_pn = m_pn m, pm_n = m_n m, pm_ct = m_ct m\<rparr>"
  shows "decode_message P b = Inr m"
  using assms by (auto simp: encode_message_def decode_message_def pb_roundtripD split: if_splits)

lemma decode_message_wf: "decode_message P b = Inr m \<Longrightarrow> wf_message m"
  by (auto simp: decode_message_def bindR_Inr_iff wf_message_def split: if_splits)

lemma decode_encode_init:
  assumes "encode_init P i = Inr b" and "length (i_ik i) = 32" "length (i_eph i) = 32" "length (i_sid i) = SIDLen"
    and "pb_roundtrip P \<lparr>pi_ik = i_ik i, pi_eph = i_eph i, pi_sid = i_sid i\<rparr>"
  shows "decode_init P b = Inr i"
  using assms by (auto simp: encode_init_def decode_init_def pb_roundtripD)

lemma decode_encode_init_ack:
  assumes "encode_init_ack P a = Inr b" and "length (a_ik a) = 32" "length (a_eph a) = 32" "length (a_sid a) = SIDLen"
    and "pb_roundtrip P \<lparr>pi_ik = a_ik a, pi_eph = a_eph a, pi_sid = a_sid a\<rparr>"
  shows "decode_init_ack P b = Inr a"
  using assms by (auto simp: encode_init_ack_def decode_init_ack_def pb_roundtripD)

section \<open>The state\<close>

definition state_to_pb :: "ratchet \<Rightarrow> pb_state" where
  "state_to_pb s = \<lparr>pt_rk = rk s, pt_dhs = dhs s, pt_dhr = dhr s,
     pt_cks = (if has_cks s then Some (cks s) else None),
     pt_ckr = (if has_ckr s then Some (ckr s) else None),
     pt_ns = ns s, pt_nr = nr s, pt_pn = pn s, pt_ad = ad s,
     pt_skipped = map (\<lambda>e. \<lparr>ps_dh = se_dh e, ps_n = se_n e, ps_mk = se_mk e\<rparr>) (skipped s)\<rparr>"

definition state_marshal :: "pb_state pb \<Rightarrow> ratchet \<Rightarrow> bytes option" where
  "state_marshal P s = marshal P (state_to_pb s)"

definition state_unmarshal :: "pb_state pb \<Rightarrow> bytes \<Rightarrow> ratchet_err + ratchet" where
  "state_unmarshal P b =
     bindR (of_opt RErrMalformed (unmarshal P b)) (\<lambda>q.
     if length (pt_rk q) \<noteq> 32 \<or> length (pt_dhs q) \<noteq> 32 then Inl RErrMalformed
     else if (case pt_dhr q of None \<Rightarrow> False | Some d \<Rightarrow> length d \<noteq> 32) then Inl RErrMalformed
     else if (case pt_cks q of None \<Rightarrow> False | Some d \<Rightarrow> length d \<noteq> 32)
       \<or> (case pt_ckr q of None \<Rightarrow> False | Some d \<Rightarrow> length d \<noteq> 32) then Inl RErrMalformed
     else bindR (of_opt RErrMalformed (new_key (pt_dhs q))) (\<lambda>priv.
     if MaxSkip < length (pt_skipped q) then Inl RErrMalformed
     else if list_ex (\<lambda>e. length (ps_dh e) \<noteq> 32 \<or> length (ps_mk e) \<noteq> 32) (pt_skipped q)
       then Inl RErrMalformed
     else Inr \<lparr>rk = pt_rk q, dhs = priv, dhr = pt_dhr q,
       cks = (case pt_cks q of None \<Rightarrow> replicate 32 0 | Some k \<Rightarrow> k),
       ckr = (case pt_ckr q of None \<Rightarrow> replicate 32 0 | Some k \<Rightarrow> k),
       has_cks = (pt_cks q \<noteq> None), has_ckr = (pt_ckr q \<noteq> None),
       ns = pt_ns q, nr = pt_nr q, pn = pt_pn q, ad = pt_ad q,
       skipped = map (\<lambda>e. \<lparr>se_dh = ps_dh e, se_n = ps_n e, se_mk = ps_mk e\<rparr>) (pt_skipped q)\<rparr>))"

text \<open>What every state of a session satisfies: key sizes, unset chains zero, a bounded store.\<close>

definition wf_ratchet :: "ratchet \<Rightarrow> bool" where
  "wf_ratchet s \<longleftrightarrow> length (rk s) = 32 \<and> length (dhs s) = 32
     \<and> (\<forall>d. dhr s = Some d \<longrightarrow> length d = 32)
     \<and> length (cks s) = 32 \<and> (\<not> has_cks s \<longrightarrow> cks s = replicate 32 0)
     \<and> length (ckr s) = 32 \<and> (\<not> has_ckr s \<longrightarrow> ckr s = replicate 32 0)
     \<and> length (skipped s) \<le> MaxSkip
     \<and> (\<forall>e \<in> set (skipped s). length (se_dh e) = 32 \<and> length (se_mk e) = 32)"

lemma state_unmarshal_marshal:
  assumes "wf_ratchet s" and "pb_roundtrip P (state_to_pb s)" and "state_marshal P s = Some b"
  shows "state_unmarshal P b = Inr s"
proof -
  have q: "unmarshal P b = Some (state_to_pb s)"
    using assms(2,3) by (simp add: state_marshal_def pb_roundtripD)
  have sk: "map (\<lambda>e. \<lparr>se_dh = ps_dh e, se_n = ps_n e, se_mk = ps_mk e\<rparr>)
      (map (\<lambda>e. \<lparr>ps_dh = se_dh e, ps_n = se_n e, ps_mk = se_mk e\<rparr>) (skipped s)) = skipped s"
    by (simp add: comp_def) (simp add: map_idI)
  show ?thesis
    using assms(1) sk
    by (auto simp: state_unmarshal_def q state_to_pb_def wf_ratchet_def new_key_def list_ex_iff
        split: option.splits)
qed

text \<open>An accepted serialisation is a well-formed state.\<close>

lemma state_unmarshal_wf [wf_intros]: "state_unmarshal P b = Inr s \<Longrightarrow> wf_ratchet s"
  by (auto simp: state_unmarshal_def bindR_Inr_iff wf_ratchet_def new_key_def list_ex_iff
      split: if_splits option.splits)

section \<open>Well-formedness is kept\<close>

lemma wf_skip_one:
  assumes "key_lengths C" "length dh = 32" "wf_ratchet s" "has_ckr s"
  shows "wf_ratchet (skip_one C dh s)"
proof -
  have b: "length (skipped s) \<le> MaxSkip" using assms(3) by (simp add: wf_ratchet_def)
  show ?thesis
    using assms set_last_n [of MaxSkip "skipped s @ [entry_of dh (nr s) (fst (kdf_chain C (ckr s)))]"]
    by (auto simp: skip_one_eq [OF b] wf_ratchet_def kdf_lengths entry_of_def)
qed

lemma wf_skip_to [wf_intros]:
  assumes len: "key_lengths C" and wf: "wf_ratchet s" and skip: "skip_to C s n = Inr s'"
  shows "wf_ratchet s'"
proof -
  have dh: "length (case dhr s of None \<Rightarrow> replicate 32 0 | Some d \<Rightarrow> d) = 32"
    using wf by (auto simp: wf_ratchet_def split: option.split)
  have "wf_ratchet ((skip_one C d ^^ k) s) \<and> has_ckr ((skip_one C d ^^ k) s)"
    if "has_ckr s" "length d = 32" for k d
    by (induction k) (simp_all add: that wf wf_skip_one [OF len] skip_one_fields)
  with dh skip wf show ?thesis
    unfolding skip_to_def skip_loop_iter by (auto split: if_splits)
qed

lemma wf_encrypt [wf_intros]:
  "key_lengths C \<Longrightarrow> wf_ratchet s \<Longrightarrow> encrypt C s p = Inr (m, s') \<Longrightarrow> wf_ratchet s'"
  using encryptD(1,6) [of C s p m s'] by (auto simp: wf_ratchet_def kdf_lengths)

lemma encrypt_dh_length: "key_lengths C \<Longrightarrow> encrypt C s p = Inr (m, s') \<Longrightarrow> length (m_dh m) = 32"
  by (drule encryptD(2)) (simp add: key_lengthsD)

lemma wf_dh_ratchet [wf_intros]:
  assumes "key_lengths C" "wf_ratchet s" "dh_ratchet C r s d = Inr (s', r')"
  shows "wf_ratchet s'"
  using assms
  by (auto simp: dh_ratchet_def bindR_Inr_iff Let_def wf_ratchet_def kdf_lengths new_key_def
      generate_key_def key_lengthsD(4) split: if_splits)

lemma wf_take_skipped [wf_intros]:
  assumes "wf_ratchet s" "take_skipped s dh n = Some (mk, s')"
  shows "wf_ratchet s'"
  using assms by (auto simp: take_skipped_def wf_ratchet_def split: option.splits dest!: pluck_Some)

text \<open>
  Decrypt needs the receiving chain to be open when the announced key is the
  one already known: the source does not check it (see \<open>zero_chain_forgery\<close>).
\<close>

lemma wf_decrypt [wf_intros]:
  assumes len: "key_lengths C" and wf: "wf_ratchet s" and dec: "decrypt C r s m = Inr (p, s', r')"
    and chain: "dhr s = Some (m_dh m) \<Longrightarrow> has_ckr s"
  shows "wf_ratchet s'"
proof (cases "take_skipped s (m_dh m) (m_n m)")
  case (Some x)
  with dec wf show ?thesis
    by (cases x) (auto simp: decrypt_def bindR_Inr_iff dest: wf_take_skipped)
next
  case None
  with dec obtain s2 r2 s3 where
    s2: "(if dhr s \<noteq> Some (m_dh m)
          then bindR (if has_ckr s then skip_to C s (m_pn m) else Inr s) (\<lambda>s1. dh_ratchet C r s1 (m_dh m))
          else Inr (s, r)) = Inr (s2, r2)"
    and s3: "skip_to C s2 (m_n m) = Inr s3"
    and s': "s' = s3\<lparr>ckr := snd (kdf_chain C (ckr s3)), nr := nr s3 + 1\<rparr>"
    by (fastforce simp: decrypt_def bindR_Inr_iff Let_def)
  have "wf_ratchet s2"
    using s2 wf by (auto simp: bindR_Inr_iff split: if_splits
        intro: wf_dh_ratchet [OF len] wf_skip_to [OF len])
  then have wf3: "wf_ratchet s3" by (rule wf_skip_to [OF len _ s3])
  have "has_ckr s2"
    using s2 chain by (auto simp: bindR_Inr_iff dh_ratchet_def Let_def split: if_splits)
  then have "has_ckr s3" using skip_to_fields [OF s3] by simp
  with wf3 show ?thesis by (auto simp: s' wf_ratchet_def kdf_lengths [OF len])
qed

lemma wf_hs_finish [wf_intros]:
  "key_lengths C \<Longrightarrow> hs_finish C r h ack A B = Inr (s, r') \<Longrightarrow> wf_ratchet s"
  by (auto simp: hs_finish_def bindR_Inr_iff Let_def blank_state_def wf_ratchet_def kdf_lengths
      generate_key_def key_lengthsD(4) new_key_def split: if_splits)

lemma wf_accept [wf_intros]:
  "key_lengths C \<Longrightarrow> accept_handshake C r ik i A B = Inr (s, ack, r') \<Longrightarrow> wf_ratchet s"
  by (auto simp: accept_handshake_def bindR_Inr_iff Let_def blank_state_def wf_ratchet_def
      kdf_lengths generate_key_def key_lengthsD(4) split: if_splits)

lemma conv_wf:
  assumes laws: "dh_commutes C" "aead_correct C" "key_lengths C" and "conv C X Y"
  shows "wf_ratchet X \<and> wf_ratchet Y"
  using assms(4)
proof (induction rule: conv.induct)
  case (handshake rB ikB h A B Y ack rB' rA X rA')
  then show ?case using wf_accept [OF laws(3)] wf_hs_finish [OF laws(3)] by blast
next
  case (ahead_delivers X Y p m X' r q Y' r')
  have "dhr Y \<noteq> Some (m_dh m)"
    using conv_invariant [OF laws ahead_delivers(1)] encryptD(2) [OF ahead_delivers(3)]
    by (simp add: conv_inv_def pending_def)
  with ahead_delivers show ?case
    using wf_encrypt [OF laws(3)] wf_decrypt [OF laws(3)] by blast
next
  case (behind_delivers X Y p m Y' r q X' r')
  have "has_ckr X"
    using conv_invariant [OF laws behind_delivers(1)] encryptD(1) [OF behind_delivers(3)]
    by (simp add: conv_inv_def linked_def)
  with behind_delivers show ?case
    using wf_encrypt [OF laws(3)] wf_decrypt [OF laws(3)] by blast
qed (blast intro: wf_encrypt [OF laws(3)])+

end
