(* ===== verification/RatchetSession.thy ===== *)
theory RatchetSession
  imports RatchetWire
begin

text \<open>
  The properties of a Double Ratchet session: delivery on a new and on an open
  chain, delivery in any order, the bound on what a peer can make us store,
  persistence, and the forgery a missing check allows. The witnesses run a
  handshake of two concrete users over \<open>demo_crypto\<close>.
\<close>

section \<open>Sequences of messages\<close>

fun encrypt_seq :: "crypto \<Rightarrow> ratchet \<Rightarrow> bytes list \<Rightarrow> ratchet_err + (message list \<times> ratchet)" where
  "encrypt_seq C s [] = Inr ([], s)"
| "encrypt_seq C s (p # ps) = bindR (encrypt C s p) (\<lambda>(m, s1).
     bindR (encrypt_seq C s1 ps) (\<lambda>(ms, s2). Inr (m # ms, s2)))"

fun decrypt_seq :: "crypto \<Rightarrow> reader \<Rightarrow> ratchet \<Rightarrow> message list
    \<Rightarrow> ratchet_err + (bytes list \<times> ratchet \<times> reader)" where
  "decrypt_seq C r s [] = Inr ([], s, r)"
| "decrypt_seq C r s (m # ms) = bindR (decrypt C r s m) (\<lambda>(p, s1, r1).
     bindR (decrypt_seq C r1 s1 ms) (\<lambda>(ps, s2, r2). Inr (p # ps, s2, r2)))"

text \<open>Message i of a run of encryptions uses key i of the chain.\<close>

definition chain_message :: "crypto \<Rightarrow> ratchet \<Rightarrow> nat \<Rightarrow> bytes \<Rightarrow> message" where
  "chain_message C s i p = \<lparr>m_dh = c_pub C (dhs s), m_pn = pn s, m_n = ns s + of_nat i,
     m_ct = seal_mk C (mk_at (kdf_chain C) (cks s) i) p
       (header_aad (ad s) (c_pub C (dhs s)) (pn s) (ns s + of_nat i))\<rparr>"

lemma chain_message_shift:
  "chain_message C (s\<lparr>cks := snd (kdf_chain C (cks s)), ns := ns s + 1\<rparr>) i p = chain_message C s (Suc i) p"
  by (simp add: chain_message_def mk_at_def adv_step add.assoc)

lemma encrypt_seq_messages:
  "encrypt_seq C s ps = Inr (ms, s') \<Longrightarrow>
    length ms = length ps \<and> (\<forall>i < length ps. ms ! i = chain_message C s i (ps ! i))"
proof (induction ps arbitrary: s ms)
  case (Cons p ps)
  then obtain m s1 ms' where 1: "encrypt C s p = Inr (m, s1)" "encrypt_seq C s1 ps = Inr (ms', s')"
    and ms: "ms = m # ms'"
    by (auto simp: bindR_Inr_iff)
  note E = encryptD [OF 1(1)]
  have "m = chain_message C s 0 p" using E by (simp add: chain_message_def mk_at_def)
  moreover from Cons.IH [OF 1(2)] have "\<forall>i < length ps. ms' ! i = chain_message C s (Suc i) (ps ! i)"
    by (simp add: E(6) chain_message_shift)
  ultimately show ?case using Cons.IH [OF 1(2)] by (auto simp: ms nth_Cons split: nat.split)
qed simp

lemma encrypt_seq_ok: "has_cks s \<Longrightarrow> is_ok (encrypt_seq C s ps)"
proof (induction ps arbitrary: s)
  case (Cons p ps)
  then obtain m s1 where enc: "encrypt C s p = Inr (m, s1)" using encrypt_some by blast
  note E = encryptD [OF this]
  have "has_cks s1" using E(1) by (simp add: E(6))
  from Cons.IH [OF this] obtain ms s2 where "encrypt_seq C s1 ps = Inr (ms, s2)"
    by (auto simp: is_ok_iff)
  with enc show ?case by simp
qed simp

lemma recv_key_frame: "recv_key C s n = Some (k, s') \<Longrightarrow> dhr s' = dhr s \<and> ad s' = ad s"
  by (auto simp: recv_key_def take_skipped_def split: option.splits sum.splits dest: skip_to_fields)

lemma decrypt_seq_keys:
  assumes aead: "aead_correct C" and "dhr s = Some (c_pub C (dhs t))" "ad s = ad t"
    and "recv_all (\<lambda>s i. recv_key C s (of_nat i)) s (map (\<lambda>i. unat (ns t) + i) is)
      = Some (map (\<lambda>i. mk_at (kdf_chain C) (cks t) i) is, s')"
  shows "decrypt_seq C r s (map (\<lambda>i. chain_message C t i (ps ! i)) is) = Inr (map ((!) ps) is, s', r)"
  using assms(2-)
proof (induction "is" arbitrary: s)
  case (Cons i "is")
  then obtain s1 where
    1: "recv_key C s (ns t + of_nat i) = Some (mk_at (kdf_chain C) (cks t) i, s1)" and
    2: "recv_all (\<lambda>s i. recv_key C s (of_nat i)) s1 (map (\<lambda>i. unat (ns t) + i) is)
      = Some (map (\<lambda>i. mk_at (kdf_chain C) (cks t) i) is, s')"
    by (auto split: option.splits)
  have "decrypt C r s (chain_message C t i (ps ! i)) = Inr (ps ! i, s1, r)"
    using 1 Cons.prems(1,2) aead by (simp add: decrypt_same_chain chain_message_def)
  with Cons.IH [OF _ _ 2] recv_key_frame [OF 1] Cons.prems show ?case by simp
qed simp

section \<open>A concrete pair of users\<close>

definition demo_hs :: handshake where
  "demo_hs = \<lparr>hs_ik = replicate 32 1, hs_eph = replicate 32 2, hs_sid = replicate 16 3\<rparr>"

definition demo_alice :: peer_id where "demo_alice = PeerID (replicate 32 7)"
definition demo_bob :: peer_id where "demo_bob = PeerID (replicate 32 8)"

definition demo_tr :: bytes where
  "demo_tr = str_bytes labelTranscript @ replicate 10 7"

definition demo_ack :: init_ack where
  "demo_ack = \<lparr>a_ik = replicate 32 5, a_eph = replicate 32 4, a_sid = replicate 16 3\<rparr>"

text \<open>Bob after accepting, Alice after finishing, then both after Alice's first message.\<close>

definition demo_bob0 :: ratchet where
  "demo_bob0 = blank_state\<lparr>rk := replicate 32 12, dhs := replicate 32 4, ad := demo_tr\<rparr>"

definition demo_alice0 :: ratchet where
  "demo_alice0 = blank_state\<lparr>rk := replicate 32 247, dhs := replicate 32 6,
     dhr := Some (replicate 32 4), cks := replicate 32 249, has_cks := True, ad := demo_tr\<rparr>"

definition demo_m1 :: message where
  "demo_m1 = \<lparr>m_dh = replicate 32 6, m_pn = 0, m_n = 0,
     m_ct = [104, 105] @ replicate 12 250 @ replicate 4 66\<rparr>"

definition demo_alice1 :: ratchet where
  "demo_alice1 = demo_alice0\<lparr>cks := replicate 32 240, ns := 1\<rparr>"

definition demo_bob1 :: ratchet where
  "demo_bob1 = \<lparr>rk = replicate 32 252, dhs = replicate 32 9, dhr = Some (replicate 32 6),
     cks = replicate 32 228, ckr = replicate 32 240, has_cks = True, has_ckr = True,
     ns = 0, nr = 1, pn = 0, ad = demo_tr, skipped = []\<rparr>"

lemmas demo_states = demo_bob0_def demo_alice0_def demo_m1_def demo_alice1_def demo_bob1_def
  demo_ack_def blank_state_def

lemma demo_accept_ok: "accept_handshake demo_crypto (replicate 32 4) (replicate 32 5)
    (hs_init demo_crypto demo_hs) demo_alice demo_bob = Inr (demo_bob0, demo_ack, [])"
  by code_simp

lemma demo_finish_ok: "hs_finish demo_crypto (replicate 32 6) demo_hs demo_ack demo_alice demo_bob
    = Inr (demo_alice0, [])"
  by code_simp

lemma demo_m1_ok: "encrypt demo_crypto demo_alice0 [104, 105] = Inr (demo_m1, demo_alice1)"
  by code_simp

lemma demo_d1_ok: "decrypt demo_crypto (replicate 32 9) demo_bob0 demo_m1 = Inr ([104, 105], demo_bob1, [])"
  by code_simp

lemma is_ok_projr: "is_ok x \<Longrightarrow> x = Inr (projr x)"
  by (cases x) simp_all

lemma demo_conv0: "conv demo_crypto demo_alice0 demo_bob0"
  by (rule conv.handshake [OF demo_accept_ok demo_finish_ok])

lemma demo_conv1: "conv demo_crypto demo_bob1 demo_alice1"
proof (rule conv.ahead_delivers [OF demo_conv0 _ demo_m1_ok demo_d1_ok])
  show "room demo_alice0" by (simp add: room_def demo_states)
  show "new_to demo_crypto (dhs demo_bob1) demo_alice0" by code_simp
qed

section \<open>Properties\<close>

text \<open>
  C1. In every conversation (handshake, then any interleaving of messages that
  arrive and messages that are lost), the next message on a chain the other
  end has not opened yet arrives: decrypt performs the Diffie-Hellman step and
  returns the plaintext, whatever the two ends lost before, as long as the
  gaps stay within MaxSkip, the random source has a key left and the new key
  is not a low-order point for it.
\<close>

theorem new_chain_message_opens:
  assumes laws: "dh_commutes C" "aead_correct C" "key_lengths C"
    and conv: "conv C X Y" and room: "room X" and enc: "encrypt C X p = Inr (m, X')"
    and gap: "unat (ns X) \<le> MaxSkip"
    and pgap: "has_ckr Y \<and> nr Y < pn X \<longrightarrow> unat (pn X - nr Y) \<le> MaxSkip"
    and gen: "c_gen C r = Some (k, r')" and dh: "c_dh C k (c_pub C (dhs X)) = Some d"
    and new: "new_to C k X"
  shows "\<exists>Y'. decrypt C r Y m = Inr (p, Y', r') \<and> conv C Y' X'"
proof -
  note I = conv_invD [OF conv_invariant [OF laws conv]]
  from turn [OF laws I(1,2,4) enc gap pgap gen dh new _ I(3)] room obtain Y' where
    "decrypt C r Y m = Inr (p, Y', r')" "dhs Y' = k" by (auto simp: room_def)
  with conv.ahead_delivers [OF conv room enc] new show ?thesis by blast
qed

theorem new_chain_message_opens_witness:
  "\<exists>Y'. decrypt demo_crypto (replicate 32 9) demo_bob0 demo_m1 = Inr ([104, 105], Y', [])
     \<and> conv demo_crypto Y' demo_alice1"
proof (rule new_chain_message_opens [OF demo_laws(1,2,4) demo_conv0 _ demo_m1_ok])
  show "room demo_alice0" "unat (ns demo_alice0) \<le> MaxSkip"
    by (simp_all add: room_def demo_states)
  show "has_ckr demo_bob0 \<and> nr demo_bob0 < pn demo_alice0 \<longrightarrow>
      unat (pn demo_alice0 - nr demo_bob0) \<le> MaxSkip" by code_simp
  show "c_gen demo_crypto (replicate 32 9) = Some (replicate 32 9, [])" by code_simp
  show "c_dh demo_crypto (replicate 32 9) (c_pub demo_crypto (dhs demo_alice0))
      = Some (the (c_dh demo_crypto (replicate 32 9) (c_pub demo_crypto (dhs demo_alice0))))"
    by (simp add: demo_crypto_def)
  show "new_to demo_crypto (replicate 32 9) demo_alice0" by code_simp
qed

text \<open>
  C2. In every conversation, the end whose chain is open at the peer can send
  any number of messages, and whatever part of them arrives, in whatever
  order, every one that arrives decrypts to its plaintext: the keys of the
  messages still missing wait in the skipped store. The window is MaxSkip
  messages counted from the first one not received.
\<close>

theorem any_order_delivery:
  assumes laws: "dh_commutes C" "aead_correct C" "key_lengths C"
    and conv: "conv C X Y" and cks: "has_cks Y" and enc: "encrypt_seq C Y ps = Inr (ms, Y')"
    and win: "unat (ns Y) - unat (nr X) + length ps \<le> MaxSkip"
    and room: "unat (ns Y) + length ps + 1 < 2 ^ 32"
    and sel: "distinct is" "\<forall>i \<in> set is. i < length ps"
  shows "\<exists>X'. decrypt_seq C r X (map ((!) ms) is) = Inr (map ((!) ps) is, X', r)"
proof -
  note I = conv_invD [OF conv_invariant [OF laws conv]]
  from I(5) [OF cks] have L: "has_ckr X" "dhr X = Some (c_pub C (dhs Y))" "ad X = ad Y"
    "unat (nr X) \<le> unat (ns Y)" "cks Y = adv (kdf_chain C) (unat (ns Y) - unat (nr X)) (ckr X)"
    by (simp_all add: linked_def)
  let ?b = "unat (ns Y)" and ?a = "unat (nr X)"
  have "\<exists>X'. recv_all (\<lambda>s i. recv_key C s (of_nat i)) X (map (\<lambda>i. ?b + i) is)
      = Some (map (\<lambda>i. mk_at (kdf_chain C) (ckr X) (i - ?a)) (map (\<lambda>i. ?b + i) is), X')"
  proof (rule dr.any_order [where w = "?b - ?a + length ps"])
    show "dr_ok X" using L(1) I(3) by (simp add: dr_ok_def sane_def)
    show "?b - ?a + length ps \<le> MaxSkip" by (rule win)
    show "Suc (?a + (?b - ?a + length ps)) < 2 ^ 32" using room L(4) by simp
    show "\<forall>e \<in> set (dr_stash X). \<forall>j. ?a \<le> j \<and> j < 2 ^ 32 \<longrightarrow> fst e \<noteq> dr_key X j"
    proof (intro ballI allI impI notI)
      fix e j assume e: "e \<in> set (dr_stash X)" "?a \<le> j \<and> j < 2 ^ 32" "fst e = dr_key X j"
      then obtain x where "x \<in> set (skipped X)" "se_dh x = c_pub C (dhs Y)" "se_n x = of_nat j"
        by (auto simp: dr_stash_def dr_key_def cur_dh_def L(2))
      with I(6) [OF cks] e(2) show False
        by (auto simp: passed_keys_def unat_of_nat_u32)
    qed
    show "distinct (map (\<lambda>i. ?b + i) is)" using sel(1) by (simp add: distinct_map)
    show "\<forall>i \<in> set (map (\<lambda>i. ?b + i) is). ?a \<le> i \<and> i < ?a + (?b - ?a + length ps)"
      using sel(2) L(4) by auto
  qed
  moreover have "mk_at (kdf_chain C) (ckr X) (?b + i - ?a) = mk_at (kdf_chain C) (cks Y) i" for i
    using L(4) by (simp add: L(5) mk_at_adv add.commute)
  ultimately obtain X' where "recv_all (\<lambda>s i. recv_key C s (of_nat i)) X (map (\<lambda>i. ?b + i) is)
      = Some (map (\<lambda>i. mk_at (kdf_chain C) (cks Y) i) is, X')"
    by (auto simp: comp_def)
  from decrypt_seq_keys [OF laws(2) L(2,3) this]
  have "decrypt_seq C r X (map (\<lambda>i. chain_message C Y i (ps ! i)) is) = Inr (map ((!) ps) is, X', r)" .
  moreover have "map ((!) ms) is = map (\<lambda>i. chain_message C Y i (ps ! i)) is"
    using encrypt_seq_messages [OF enc] sel(2) by auto
  ultimately show ?thesis by (intro exI [of _ X']) (simp only:)
qed

theorem any_order_delivery_witness:
  "\<exists>X'. decrypt_seq demo_crypto [] demo_bob1
     (map ((!) (fst (projr (encrypt_seq demo_crypto demo_alice1 [[1], [2], [3]])))) [2, 0])
   = Inr (map ((!) [[1], [2], [3]]) [2, 0], X', [])"
proof (rule any_order_delivery [OF demo_laws(1,2,4) demo_conv1])
  show "has_cks demo_alice1" by (simp add: demo_states)
  then have "is_ok (encrypt_seq demo_crypto demo_alice1 [[1], [2], [3]])" by (rule encrypt_seq_ok)
  then show "encrypt_seq demo_crypto demo_alice1 [[1], [2], [3]]
      = Inr (fst (projr (encrypt_seq demo_crypto demo_alice1 [[1], [2], [3]])),
          snd (projr (encrypt_seq demo_crypto demo_alice1 [[1], [2], [3]])))"
    by (simp add: is_ok_projr [symmetric] del: encrypt_seq.simps)
  show "unat (ns demo_alice1) - unat (nr demo_bob1) + length [[1::byte], [2], [3]] \<le> MaxSkip"
    "unat (ns demo_alice1) + length [[1::byte], [2], [3]] + 1 < 2 ^ 32"
    by (simp_all add: MaxSkip_def demo_states)
qed simp_all

fun hear :: "crypto \<Rightarrow> ratchet \<Rightarrow> (reader \<times> message) list \<Rightarrow> ratchet" where
  "hear C s [] = s"
| "hear C s ((r, m) # ms) =
     hear C (case decrypt C r s m of Inl e \<Rightarrow> s | Inr (p, s', r') \<Rightarrow> s') ms"

lemma hear_bound: "length (skipped s) \<le> MaxSkip \<Longrightarrow> length (skipped (hear C s ms)) \<le> MaxSkip"
  by (induction C s ms rule: hear.induct) (auto split: sum.splits prod.splits dest: decrypt_bound)

text \<open>
  C3. Whatever a peer sends, in any number and order, forged or not, the
  session never stores more than MaxSkip keys: a decryption that fails leaves
  the stored state as it was, one that succeeds keeps the bound, and a number
  more than MaxSkip ahead on the open chain is refused before any key is
  derived.
\<close>

theorem flood_is_bounded:
  assumes "length (skipped s) \<le> MaxSkip"
  shows "length (skipped (hear C s ms)) \<le> MaxSkip
    \<and> (has_ckr s \<and> dhr s = Some (m_dh m) \<and> nr s < m_n m \<and> MaxSkip < unat (m_n m - nr s)
        \<and> (\<forall>e \<in> set (skipped s). \<not> (se_dh e = m_dh m \<and> se_n e = m_n m))
       \<longrightarrow> decrypt C r s m = Inl RErrTooManySkipped)"
proof (intro conjI impI)
  show "length (skipped (hear C s ms)) \<le> MaxSkip" by (rule hear_bound [OF assms])
  assume *: "has_ckr s \<and> dhr s = Some (m_dh m) \<and> nr s < m_n m \<and> MaxSkip < unat (m_n m - nr s)
      \<and> (\<forall>e \<in> set (skipped s). \<not> (se_dh e = m_dh m \<and> se_n e = m_n m))"
  then have "pluck (\<lambda>e. se_dh e = m_dh m \<and> se_n e = m_n m) (skipped s) = None"
    by (simp add: pluck_None_iff)
  then have "take_skipped s (m_dh m) (m_n m) = None" by (simp add: take_skipped_def)
  with * show "decrypt C r s m = Inl RErrTooManySkipped"
    by (simp add: decrypt_def skip_to_def)
qed

theorem flood_is_bounded_witness:
  "length (skipped (hear demo_crypto demo_bob1
     [([], \<lparr>m_dh = [], m_pn = 0, m_n = 9, m_ct = []\<rparr>)])) \<le> MaxSkip
   \<and> decrypt demo_crypto [] demo_bob1
       \<lparr>m_dh = m_dh demo_m1, m_pn = 0, m_n = 600, m_ct = []\<rparr> = Inl RErrTooManySkipped"
proof -
  let ?s = "demo_bob1"
  let ?m = "\<lparr>m_dh = m_dh demo_m1, m_pn = 0, m_n = 600, m_ct = []\<rparr>"
  have sk: "skipped ?s = []" by (simp add: demo_states)
  then have "length (skipped ?s) \<le> MaxSkip" by simp
  note T = flood_is_bounded [OF this, of demo_crypto "[([], \<lparr>m_dh = [], m_pn = 0, m_n = 9, m_ct = []\<rparr>)]" ?m "[]"]
  have "has_ckr ?s" "dhr ?s = Some (m_dh ?m)" "nr ?s = 1" by (simp_all add: demo_states)
  then show ?thesis using T sk by (simp add: MaxSkip_def)
qed

text \<open>
  The state of both ends, at every point of a conversation, survives the
  store: if the protobuf runtime serialises it and reads back what it wrote,
  Unmarshal returns exactly the state that was marshalled, chains that do not
  exist yet and skipped keys included.
\<close>

theorem session_survives_store:
  assumes laws: "dh_commutes C" "aead_correct C" "key_lengths C"
    and conv: "conv C X Y" and s: "s = X \<or> s = Y"
    and pb: "pb_roundtrip P (state_to_pb s)" and m: "state_marshal P s = Some b"
  shows "state_unmarshal P b = Inr s"
proof -
  have "wf_ratchet s" using conv_wf [OF laws conv] s by blast
  then show ?thesis by (rule state_unmarshal_marshal [OF _ pb m])
qed

theorem session_survives_store_witness:
  "state_unmarshal (one_pb [1] (state_to_pb demo_bob1)) [1] = Inr demo_bob1"
  by (rule session_survives_store [OF demo_laws(1,2,4) demo_conv1])
    (simp_all add: state_marshal_def)

definition zero_forgery :: "crypto \<Rightarrow> bytes \<Rightarrow> bytes \<Rightarrow> bytes \<Rightarrow> message" where
  "zero_forgery C dh tr p = \<lparr>m_dh = dh, m_pn = 0, m_n = 0,
     m_ct = seal_mk C (fst (kdf_chain C (replicate 32 0))) p (header_aad tr dh 0 0)\<rparr>"

text \<open>
  C6. Before the initiator has received anything, its decrypt does not check
  that a receiving chain exists: a message that names the responder's
  handshake key, made without any secret of the session (the chain key is all
  zero, the associated data is the hash of the public halves), opens. The
  state it leaves has no receiving chain, so Marshal drops the chain key.
\<close>

theorem zero_chain_forgery:
  assumes aead: "aead_correct C" and fin: "hs_finish C r h ack A B = Inr (s, r')"
    and tr: "tr = transcript C A B (c_pub C (hs_ik h)) (a_ik ack) (c_pub C (hs_eph h)) (a_eph ack) (hs_sid h)"
  shows "\<exists>s'. decrypt C r2 s (zero_forgery C (a_eph ack) tr p) = Inr (p, s', r2)
    \<and> \<not> has_ckr s' \<and> pt_ckr (state_to_pb s') = None"
proof -
  from fin have "ad s = tr" "dhr s = Some (a_eph ack)" "\<not> has_ckr s" "ckr s = replicate 32 0"
    "nr s = 0" "skipped s = []"
    by (auto simp: hs_finish_def bindR_Inr_iff Let_def hs_init_def blank_state_def tr split: if_splits)
  then show ?thesis
    using aead by (simp add: decrypt_def take_skipped_def skip_to_def zero_forgery_def state_to_pb_def)
qed

theorem zero_chain_forgery_witness:
  "\<exists>s'. decrypt demo_crypto [] demo_alice0 (zero_forgery demo_crypto
       (a_eph demo_ack)
       (transcript demo_crypto demo_alice demo_bob (c_pub demo_crypto (hs_ik demo_hs))
         (a_ik demo_ack) (c_pub demo_crypto (hs_eph demo_hs))
         (a_eph demo_ack) (hs_sid demo_hs)) [66]) = Inr ([66], s', [])
    \<and> \<not> has_ckr s' \<and> pt_ckr (state_to_pb s') = None"
  by (rule zero_chain_forgery [OF demo_laws(2) demo_finish_ok refl])

end
