(* ===== verification/SenderKey.thy ===== *)
theory SenderKey
  imports CryptoIface SkipChain
begin

text \<open>
  Package senderkey: the group key every member owns. A symmetric chain that
  only moves forward encrypts the messages, an Ed25519 key signs them; whoever
  receives the current point of the chain reads everything from there on.
  senderkey/senderkey.go, senderkey/sender.go and senderkey/receiver.go.
\<close>

datatype sk_err =
  SErrDecrypt | SErrBadSignature | SErrTooManySkipped | SErrOldMessage | SErrFutureKey
  | SErrMalformed | SErrRand

definition sk_MaxSkip :: nat where "sk_MaxSkip = 512"

definition sk_labelMsgKey :: string where "sk_labelMsgKey = ''molva/sk/mk/v1''"
definition sk_labelChainKey :: string where "sk_labelChainKey = ''molva/sk/ck/v1''"
definition sk_labelSignature :: string where "sk_labelSignature = ''molva/sk/sig/v1''"

record dist =
  d_gen :: u32
  d_ck :: bytes
  d_n :: u32
  d_sign :: bytes

record skipped_key =
  sp_n :: u32
  sp_mk :: bytes

record sk_sender =
  ss_gen :: u32
  ss_ck :: bytes
  ss_n :: u32
  ss_priv :: bytes

record sk_receiver =
  sr_gen :: u32
  sr_ck :: bytes
  sr_n :: u32
  sr_pub :: bytes
  sr_skipped :: "skipped_key list"

definition sk_kdf :: "crypto \<Rightarrow> bytes \<Rightarrow> bytes \<times> bytes" where
  "sk_kdf C ck = (c_hkdf C ck [] sk_labelMsgKey 32, c_hkdf C ck [] sk_labelChainKey 32)"

definition sign_transcript :: "crypto \<Rightarrow> bytes \<Rightarrow> u32 \<Rightarrow> u32 \<Rightarrow> bytes \<Rightarrow> bytes" where
  "sign_transcript C group_id generation n ciphertext =
     c_blake C (str_bytes sk_labelSignature @ group_id @ be32 generation @ be32 n @ ciphertext)"

definition sk_seal :: "crypto \<Rightarrow> bytes \<Rightarrow> bytes \<Rightarrow> u32 \<Rightarrow> bytes \<Rightarrow> bytes" where
  "sk_seal C mk group_id n plaintext = c_seal C mk zero_nonce plaintext (group_id @ be32 n)"

definition sk_open :: "crypto \<Rightarrow> bytes \<Rightarrow> bytes \<Rightarrow> u32 \<Rightarrow> bytes \<Rightarrow> sk_err + bytes" where
  "sk_open C mk group_id n ciphertext =
     of_opt SErrDecrypt (c_open C mk zero_nonce ciphertext (group_id @ be32 n))"

section \<open>The sender\<close>

definition new_sender :: "crypto \<Rightarrow> reader \<Rightarrow> u32 \<Rightarrow> sk_err + (sk_sender \<times> reader)" where
  "new_sender C r generation =
     bindR (of_opt SErrRand (read_full 32 r)) (\<lambda>(ck, r1).
     bindR (of_opt SErrRand (c_edgen C r1)) (\<lambda>(priv, r2).
     Inr (\<lparr>ss_gen = generation, ss_ck = ck, ss_n = 0, ss_priv = priv\<rparr>, r2)))"

definition sender_dist :: "crypto \<Rightarrow> sk_sender \<Rightarrow> dist" where
  "sender_dist C s = \<lparr>d_gen = ss_gen s, d_ck = ss_ck s, d_n = ss_n s, d_sign = c_edpub C (ss_priv s)\<rparr>"

text \<open>Encrypt returns the number, the ciphertext, the signature and the advanced sender.\<close>

definition sk_encrypt :: "crypto \<Rightarrow> sk_sender \<Rightarrow> bytes \<Rightarrow> bytes \<Rightarrow> u32 \<times> bytes \<times> bytes \<times> sk_sender" where
  "sk_encrypt C s group_id plaintext =
     (let mk = fst (sk_kdf C (ss_ck s)); next = snd (sk_kdf C (ss_ck s)); n = ss_n s;
          ct = sk_seal C mk group_id n plaintext;
          sig = c_sign C (ss_priv s) (sign_transcript C group_id (ss_gen s) n ct)
      in (n, ct, sig, s\<lparr>ss_ck := next, ss_n := n + 1\<rparr>))"

definition sender_marshal :: "sk_sender \<Rightarrow> bytes" where
  "sender_marshal s = be32 (ss_gen s) @ be32 (ss_n s) @ ss_ck s @ ss_priv s"

definition sender_unmarshal :: "bytes \<Rightarrow> sk_err + sk_sender" where
  "sender_unmarshal b =
     (if length b \<noteq> 8 + 32 + 64 then Inl SErrMalformed
      else Inr \<lparr>ss_gen = un_be32 b, ss_ck = take 32 (drop 8 b), ss_n = un_be32 (drop 4 b),
                ss_priv = drop 40 b\<rparr>)"

section \<open>The receiver\<close>

definition new_receiver :: "dist \<Rightarrow> sk_receiver" where
  "new_receiver d = \<lparr>sr_gen = d_gen d, sr_ck = d_ck d, sr_n = d_n d, sr_pub = d_sign d, sr_skipped = []\<rparr>"

definition receiver_dist :: "sk_receiver \<Rightarrow> dist" where
  "receiver_dist r = \<lparr>d_gen = sr_gen r, d_ck = sr_ck r, d_n = sr_n r, d_sign = sr_pub r\<rparr>"

definition sk_take_skipped :: "sk_receiver \<Rightarrow> u32 \<Rightarrow> (bytes \<times> sk_receiver) option" where
  "sk_take_skipped r n =
     (case pluck (\<lambda>e. sp_n e = n) (sr_skipped r) of
        None \<Rightarrow> None
      | Some (e, rest) \<Rightarrow> Some (sp_mk e, r\<lparr>sr_skipped := rest\<rparr>))"

definition sk_skip_one :: "crypto \<Rightarrow> sk_receiver \<Rightarrow> sk_receiver" where
  "sk_skip_one C r =
     (let mk = fst (sk_kdf C (sr_ck r)); next = snd (sk_kdf C (sr_ck r));
          sk = sr_skipped r @ [\<lparr>sp_n = sr_n r, sp_mk = mk\<rparr>]
      in r\<lparr>sr_skipped := (if sk_MaxSkip < length sk then tl sk else sk), sr_ck := next, sr_n := sr_n r + 1\<rparr>)"

lemma sr_n_skip_one [simp]: "sr_n (sk_skip_one C r) = sr_n r + 1"
  by (simp add: sk_skip_one_def Let_def)

function sk_skip_loop :: "crypto \<Rightarrow> u32 \<Rightarrow> sk_receiver \<Rightarrow> sk_receiver" where
  "sk_skip_loop C n r = (if sr_n r < n then sk_skip_loop C n (sk_skip_one C r) else r)"
  by pat_completeness auto
termination
  by (relation "measure (\<lambda>(C, n, r). unat n - unat (sr_n r))") (simp_all add: count_up_less)

declare sk_skip_loop.simps [simp del]

definition sk_decrypt :: "crypto \<Rightarrow> sk_receiver \<Rightarrow> bytes \<Rightarrow> u32 \<Rightarrow> u32 \<Rightarrow> bytes \<Rightarrow> bytes
    \<Rightarrow> sk_err + (bytes \<times> sk_receiver)" where
  "sk_decrypt C r group_id generation n ciphertext signature =
     (if sr_gen r < generation then Inl SErrFutureKey
      else if generation < sr_gen r then Inl SErrOldMessage
      else if \<not> c_verify C (sr_pub r) (sign_transcript C group_id generation n ciphertext) signature
        then Inl SErrBadSignature
      else if n < sr_n r then
        (case sk_take_skipped r n of
           Some (mk, r') \<Rightarrow> bindR (sk_open C mk group_id n ciphertext) (\<lambda>plain. Inr (plain, r'))
         | None \<Rightarrow> Inl SErrOldMessage)
      else if sk_MaxSkip < unat (n - sr_n r) then Inl SErrTooManySkipped
      else let r1 = sk_skip_loop C n r;
               mk = fst (sk_kdf C (sr_ck r1)); next = snd (sk_kdf C (sr_ck r1)) in
        bindR (sk_open C mk group_id n ciphertext)
          (\<lambda>plain. Inr (plain, r1\<lparr>sr_ck := next, sr_n := sr_n r1 + 1\<rparr>)))"

fun entries_marshal :: "skipped_key list \<Rightarrow> bytes" where
  "entries_marshal [] = []"
| "entries_marshal (e # es) = be32 (sp_n e) @ sp_mk e @ entries_marshal es"

definition receiver_marshal :: "sk_receiver \<Rightarrow> bytes" where
  "receiver_marshal r = be32 (sr_gen r) @ be32 (sr_n r) @ sr_ck r @ sr_pub r
     @ be32 (of_nat (length (sr_skipped r))) @ entries_marshal (sr_skipped r)"

text \<open>The reading loop: \<open>k\<close> entries of 36 bytes from the front of \<open>b\<close>.\<close>

fun entries_unmarshal :: "nat \<Rightarrow> bytes \<Rightarrow> skipped_key list" where
  "entries_unmarshal 0 b = []"
| "entries_unmarshal (Suc k) b =
     \<lparr>sp_n = un_be32 b, sp_mk = take 32 (drop 4 b)\<rparr> # entries_unmarshal k (drop 36 b)"

definition receiver_unmarshal :: "bytes \<Rightarrow> sk_err + sk_receiver" where
  "receiver_unmarshal b =
     (if length b < 76 then Inl SErrMalformed
      else let cnt = un_be32 (drop 72 b) in
        if sk_MaxSkip < unat cnt \<or> length b \<noteq> 76 + unat cnt * 36 then Inl SErrMalformed
        else Inr \<lparr>sr_gen = un_be32 b, sr_ck = take 32 (drop 8 b), sr_n = un_be32 (drop 4 b),
                  sr_pub = take 32 (drop 40 b), sr_skipped = entries_unmarshal (unat cnt) (drop 76 b)\<rparr>)"

end
