(* ===== verification/Codec.thy ===== *)
theory Codec
  imports Prelude
begin

text \<open>
  The contract of the fixed byte formats (key material at rest, media frames,
  feedback reports): a decoder that fails on what it does not understand, an
  encoder it inverts on valid values, and canonicity: whatever the decoder
  accepts is exactly what the encoder would have written.
\<close>

locale codec =
  fixes enc :: "'a \<Rightarrow> 'b" and dec :: "'b \<Rightarrow> 'e + 'a" and valid :: "'a \<Rightarrow> bool"
  assumes dec_enc: "valid x \<Longrightarrow> dec (enc x) = Inr x"
    and dec_sound: "dec b = Inr x \<Longrightarrow> valid x \<and> enc x = b"
begin

lemma enc_inj: "valid x \<Longrightarrow> valid y \<Longrightarrow> enc x = enc y \<Longrightarrow> x = y"
  by (metis dec_enc sum.inject(2))

lemma dec_inj: "dec a = Inr x \<Longrightarrow> dec b = Inr x \<Longrightarrow> a = b"
  by (metis dec_sound)

lemma accepts_iff: "is_ok (dec b) \<longleftrightarrow> (\<exists>x. valid x \<and> b = enc x)"
  using dec_enc dec_sound by (auto simp: is_ok_iff)

lemma dec_iff: "dec b = Inr x \<longleftrightarrow> valid x \<and> b = enc x"
  using dec_enc dec_sound by auto

end

text \<open>Splitting off a big-endian word at the front.\<close>

lemma be32_take: "4 \<le> length b \<Longrightarrow> be32 (un_be32 b) = take 4 b"
proof -
  assume "4 \<le> length b"
  then obtain p q r s t where b: "b = p # q # r # s # t"
    by (auto simp: numeral_eq_Suc Suc_le_length_iff)
  have "un_be32 b = un_be32 [p, q, r, s]" by (simp add: b un_be32_def)
  then show ?thesis by (simp add: b be32_un_be32)
qed

lemma length_8_iff: "length b = 8 \<longleftrightarrow> (\<exists>p q r s t u v w. b = [p, q, r, s, t, u, v, w])"
  by (auto simp: length_Suc_conv eval_nat_numeral)

lemma be64_un_be64: "length b = 8 \<Longrightarrow> be64 (un_be64 b) = b"
  unfolding length_8_iff be64_def un_be64_def
  by (clarsimp, intro conjI; rule bit_word_eqI; auto simp: bit_simps dest: bit_imp_le_length)

lemma un_be64_take: "un_be64 (take 8 b) = un_be64 b"
  by (simp add: un_be64_def)

lemma be64_take: "8 \<le> length b \<Longrightarrow> be64 (un_be64 b) = take 8 b"
  using be64_un_be64 [of "take 8 b"] by (simp add: un_be64_take)

lemma drop_split: "k + n \<le> length b \<Longrightarrow> drop k b = take n (drop k b) @ drop (k + n) b"
  by (metis add.commute append_take_drop_id drop_drop)

end
