(* ===== verification/SenderKeyProps.thy ===== *)
theory SenderKeyProps
  imports SenderKey Codec
begin

text \<open>
  What the group keys promise: a member who was given a point of the chain
  reads what follows in any order and nothing before it, forged and stale
  messages are refused by name, and the keys survive their byte format.
\<close>

section \<open>Byte formats\<close>

definition wf_sender :: "sk_sender \<Rightarrow> bool" where
  "wf_sender s \<longleftrightarrow> length (ss_ck s) = 32 \<and> length (ss_priv s) = 64"

definition wf_receiver :: "sk_receiver \<Rightarrow> bool" where
  "wf_receiver r \<longleftrightarrow> length (sr_ck r) = 32 \<and> length (sr_pub r) = 32
     \<and> length (sr_skipped r) \<le> sk_MaxSkip \<and> (\<forall>e \<in> set (sr_skipped r). length (sp_mk e) = 32)"

lemma length_entries: "\<forall>e \<in> set es. length (sp_mk e) = 32 \<Longrightarrow> length (entries_marshal es) = 36 * length es"
  by (induction es) auto

lemma entries_roundtrip:
  "\<forall>e \<in> set es. length (sp_mk e) = 32 \<Longrightarrow> entries_unmarshal (length es) (entries_marshal es) = es"
  by (induction es) auto

lemma entries_canonical: "length b = 36 * k \<Longrightarrow>
    entries_marshal (entries_unmarshal k b) = b \<and> length (entries_unmarshal k b) = k
    \<and> (\<forall>e \<in> set (entries_unmarshal k b). length (sp_mk e) = 32)"
proof (induction k arbitrary: b)
  case (Suc k)
  have "be32 (un_be32 b) = take 4 b" using Suc.prems by (intro be32_take) simp
  moreover have "take 4 b @ take 32 (drop 4 b) @ drop 36 b = b"
    using drop_split [of 0 4 b] drop_split [of 4 32 b] Suc.prems by simp
  ultimately show ?case using Suc.IH [of "drop 36 b"] Suc.prems by simp
qed simp

interpretation sender_codec: codec sender_marshal sender_unmarshal wf_sender
proof unfold_locales
  show "wf_sender s \<Longrightarrow> sender_unmarshal (sender_marshal s) = Inr s" for s
    by (simp add: wf_sender_def sender_unmarshal_def sender_marshal_def)
next
  fix b s assume "sender_unmarshal b = Inr s"
  then have len: "length b = 104" and s: "s = \<lparr>ss_gen = un_be32 b, ss_ck = take 32 (drop 8 b),
      ss_n = un_be32 (drop 4 b), ss_priv = drop 40 b\<rparr>"
    by (auto simp: sender_unmarshal_def split: if_splits)
  have "be32 (un_be32 b) = take 4 b" "be32 (un_be32 (drop 4 b)) = take 4 (drop 4 b)"
    using len by (simp_all add: be32_take)
  moreover have "take 4 b @ take 4 (drop 4 b) @ take 32 (drop 8 b) @ drop 40 b = b"
    using drop_split [of 0 4 b] drop_split [of 4 4 b] drop_split [of 8 32 b] len by simp
  ultimately show "wf_sender s \<and> sender_marshal s = b"
    using len by (simp add: s wf_sender_def sender_marshal_def)
qed

interpretation receiver_codec: codec receiver_marshal receiver_unmarshal wf_receiver
proof unfold_locales
  fix r assume wf: "wf_receiver r"
  let ?cnt = "of_nat (length (sr_skipped r)) :: u32"
  let ?es = "entries_marshal (sr_skipped r)"
  have cnt: "unat ?cnt = length (sr_skipped r)"
    using wf by (intro unat_of_nat_u32) (simp add: wf_receiver_def sk_MaxSkip_def)
  have len: "length (sr_ck r) = 32" "length (sr_pub r) = 32" "length ?es = 36 * length (sr_skipped r)"
    "length (sr_skipped r) \<le> sk_MaxSkip"
    using wf by (simp_all add: wf_receiver_def length_entries)
  have b: "length (receiver_marshal r) = 76 + length (sr_skipped r) * 36"
    "un_be32 (receiver_marshal r) = sr_gen r" "un_be32 (drop 4 (receiver_marshal r)) = sr_n r"
    "take 32 (drop 8 (receiver_marshal r)) = sr_ck r" "take 32 (drop 40 (receiver_marshal r)) = sr_pub r"
    "un_be32 (drop 72 (receiver_marshal r)) = ?cnt" "drop 76 (receiver_marshal r) = ?es"
    using len(1,2,3) unfolding receiver_marshal_def
    by (simp, simp, simp, simp, simp, simp, simp)
  have es: "entries_unmarshal (length (sr_skipped r)) ?es = sr_skipped r"
    using wf by (simp add: wf_receiver_def entries_roundtrip)
  show "receiver_unmarshal (receiver_marshal r) = Inr r"
    unfolding receiver_unmarshal_def Let_def b cnt es using len(4) by simp
next
  fix b r assume u: "receiver_unmarshal b = Inr r"
  let ?cnt = "un_be32 (drop 72 b)"
  have g: "\<not> length b < 76 \<and> \<not> (sk_MaxSkip < unat ?cnt \<or> length b \<noteq> 76 + unat ?cnt * 36)
    \<and> \<lparr>sr_gen = un_be32 b, sr_ck = take 32 (drop 8 b), sr_n = un_be32 (drop 4 b),
      sr_pub = take 32 (drop 40 b), sr_skipped = entries_unmarshal (unat ?cnt) (drop 76 b)\<rparr> = r"
    using u unfolding receiver_unmarshal_def Let_def guards_Inr sum.inject .
  obtain c where c: "unat ?cnt = c" by blast
  from g have len: "length b = 76 + c * 36" "c \<le> sk_MaxSkip" unfolding c by linarith+
  from g have r: "r = \<lparr>sr_gen = un_be32 b, sr_ck = take 32 (drop 8 b), sr_n = un_be32 (drop 4 b),
      sr_pub = take 32 (drop 40 b), sr_skipped = entries_unmarshal c (drop 76 b)\<rparr>"
    unfolding c by blast
  have es: "entries_marshal (entries_unmarshal c (drop 76 b)) = drop 76 b"
    "length (entries_unmarshal c (drop 76 b)) = c"
    "\<forall>e \<in> set (entries_unmarshal c (drop 76 b)). length (sp_mk e) = 32"
    using entries_canonical [of "drop 76 b" c] len(1) by simp_all
  have cnt: "of_nat c = ?cnt" unfolding c [symmetric] by simp
  have "be32 (un_be32 b) = take 4 b" "be32 (un_be32 (drop 4 b)) = take 4 (drop 4 b)"
    "be32 (of_nat c) = take 4 (drop 72 b)"
    unfolding cnt using len(1) by (simp_all add: be32_take)
  moreover have "take 4 b @ take 4 (drop 4 b) @ take 32 (drop 8 b) @ take 32 (drop 40 b)
      @ take 4 (drop 72 b) @ drop 76 b = b"
    using drop_split [of 0 4 b] drop_split [of 4 4 b] drop_split [of 8 32 b] drop_split [of 40 32 b]
      drop_split [of 72 4 b] len(1) by simp
  ultimately show "wf_receiver r \<and> receiver_marshal r = b"
    using len es by (simp add: r wf_receiver_def receiver_marshal_def)
qed

section \<open>The chain\<close>

lemma sk_MaxSkip_pos: "0 < sk_MaxSkip"
  by (simp add: sk_MaxSkip_def)

definition sk_entry :: "u32 \<Rightarrow> bytes \<Rightarrow> skipped_key" where
  "sk_entry n mk = \<lparr>sp_n = n, sp_mk = mk\<rparr>"

lemma sk_skip_one_eq:
  assumes "length (sr_skipped r) \<le> sk_MaxSkip"
  shows "sk_skip_one C r = r\<lparr>sr_skipped := last_n sk_MaxSkip
      (sr_skipped r @ [sk_entry (sr_n r) (fst (sk_kdf C (sr_ck r)))]),
    sr_ck := snd (sk_kdf C (sr_ck r)), sr_n := sr_n r + 1\<rparr>"
  unfolding sk_skip_one_def Let_def
  using last_n_snoc [OF assms sk_MaxSkip_pos, of "sk_entry (sr_n r) (fst (sk_kdf C (sr_ck r)))"]
  by (simp only: sk_entry_def)

lemma sk_skip_iter:
  assumes "length (sr_skipped r) \<le> sk_MaxSkip"
  shows "(sk_skip_one C ^^ k) r = r\<lparr>sr_skipped := last_n sk_MaxSkip
      (sr_skipped r @ map (\<lambda>j. sk_entry (sr_n r + of_nat j) (mk_at (sk_kdf C) (sr_ck r) j)) [0..<k]),
    sr_ck := adv (sk_kdf C) k (sr_ck r), sr_n := sr_n r + of_nat k\<rparr>"
proof (induction k)
  case 0
  from assms show ?case by (simp add: last_n_all)
next
  case (Suc k)
  let ?r = "(sk_skip_one C ^^ k) r"
  have "length (sr_skipped ?r) \<le> sk_MaxSkip" by (simp add: Suc.IH)
  from sk_skip_one_eq [OF this] have "sk_skip_one C ?r = ?r\<lparr>sr_skipped := last_n sk_MaxSkip
      (sr_skipped ?r @ [sk_entry (sr_n ?r) (fst (sk_kdf C (sr_ck ?r)))]),
    sr_ck := snd (sk_kdf C (sr_ck ?r)), sr_n := sr_n ?r + 1\<rparr>" .
  then show ?case
    by (simp add: Suc.IH adv_Suc mk_at_def last_n_last_n_append add.assoc add.commute [of 1])
qed

lemma sk_skip_loop_iter: "sk_skip_loop C n r = (sk_skip_one C ^^ (unat n - unat (sr_n r))) r"
  by (rule count_up_loop [of "sk_skip_loop C n"]) (rule sk_skip_loop.simps, simp)

text \<open>The key Decrypt uses for number n and the receiver it leaves when the ciphertext opens.\<close>

definition sk_recv_key :: "crypto \<Rightarrow> sk_receiver \<Rightarrow> u32 \<Rightarrow> (bytes \<times> sk_receiver) option" where
  "sk_recv_key C r n =
     (if n < sr_n r then sk_take_skipped r n
      else if sk_MaxSkip < unat (n - sr_n r) then None
      else let r1 = sk_skip_loop C n r in Some (fst (sk_kdf C (sr_ck r1)),
             r1\<lparr>sr_ck := snd (sk_kdf C (sr_ck r1)), sr_n := sr_n r1 + 1\<rparr>))"

definition sk_key :: "sk_receiver \<Rightarrow> nat \<Rightarrow> u32" where "sk_key r i = of_nat i"

definition sk_stash :: "sk_receiver \<Rightarrow> (u32 \<times> bytes) list" where
  "sk_stash r = map (\<lambda>e. (sp_n e, sp_mk e)) (sr_skipped r)"

definition sk_ok :: "sk_receiver \<Rightarrow> bool" where
  "sk_ok r \<longleftrightarrow> length (sr_skipped r) \<le> sk_MaxSkip"

interpretation sk: skip_chain "sk_kdf C" "\<lambda>r. unat (sr_n r)" sr_ck sk_stash sk_key
  "\<lambda>r i. sk_recv_key C r (of_nat i)" sk_ok sk_MaxSkip "2 ^ 32" for C
proof unfold_locales
  show "i < 2 ^ 32 \<Longrightarrow> j < 2 ^ 32 \<Longrightarrow> sk_key r i = sk_key r j \<Longrightarrow> i = j" for i j r
    by (auto simp: sk_key_def intro: of_nat_u32_inj)
next
  fix r :: sk_receiver and i :: nat and e rest
  assume ok: "sk_ok r" and lt: "i < unat (sr_n r)" "i < 2 ^ 32"
    and "pluck (\<lambda>e. fst e = sk_key r i) (sk_stash r) = Some (e, rest)"
  then obtain x xs where x: "pluck (\<lambda>e. sp_n e = of_nat i) (sr_skipped r) = Some (x, xs)"
    and e: "e = (sp_n x, sp_mk x)" "rest = map (\<lambda>e. (sp_n e, sp_mk e)) xs"
    by (auto simp: sk_stash_def sk_key_def pluck_map)
  from pluck_Some [OF x] have "length (sr_skipped r) = Suc (length xs)" by simp
  moreover have "of_nat i < sr_n r" using lt by (simp add: word_less_nat_alt unat_of_nat_u32)
  ultimately show "\<exists>r'. sk_recv_key C r (of_nat i) = Some (snd e, r') \<and> sk_ok r'
      \<and> unat (sr_n r') = unat (sr_n r) \<and> sr_ck r' = sr_ck r \<and> sk_stash r' = rest \<and> sk_key r' = sk_key r"
    using ok x e by (intro exI [of _ "r\<lparr>sr_skipped := xs\<rparr>"])
      (simp add: sk_recv_key_def sk_take_skipped_def sk_ok_def sk_stash_def sk_key_def fun_eq_iff)
next
  fix r :: sk_receiver and i :: nat
  assume ok: "sk_ok r" and le: "unat (sr_n r) \<le> i" "Suc i < 2 ^ 32" and gap: "i - unat (sr_n r) \<le> sk_MaxSkip"
  have i: "unat (of_nat i :: u32) = i" using le by (simp add: unat_of_nat_u32)
  have nle: "\<not> of_nat i < sr_n r" using le i by (simp add: word_less_nat_alt)
  then have diff: "unat (of_nat i - sr_n r :: u32) = i - unat (sr_n r)"
    using i by (simp add: unat_sub)
  let ?k = "i - unat (sr_n r)"
  let ?r1 = "sk_skip_loop C (of_nat i) r"
  have eq: "?r1 = r\<lparr>sr_skipped := last_n sk_MaxSkip (sr_skipped r
      @ map (\<lambda>j. sk_entry (sr_n r + of_nat j) (mk_at (sk_kdf C) (sr_ck r) j)) [0..<?k]),
    sr_ck := adv (sk_kdf C) ?k (sr_ck r), sr_n := sr_n r + of_nat ?k\<rparr>"
    using ok by (simp add: sk_skip_loop_iter i sk_skip_iter sk_ok_def)
  have ni: "sr_n r + of_nat ?k = of_nat i" using le by (simp add: of_nat_add_unat del: of_nat_diff)
  have upt: "map (\<lambda>j. (of_nat j :: u32, mk_at (sk_kdf C) (sr_ck r) (j - unat (sr_n r)))) [unat (sr_n r)..<i]
      = map (\<lambda>j. (sr_n r + of_nat j, mk_at (sk_kdf C) (sr_ck r) j)) [0..<?k]"
    by (rule nth_equalityI) simp_all
  let ?r' = "?r1\<lparr>sr_ck := snd (sk_kdf C (sr_ck ?r1)), sr_n := sr_n ?r1 + 1\<rparr>"
  have "sk_recv_key C r (of_nat i) = Some (mk_at (sk_kdf C) (sr_ck r) ?k, ?r')"
    using nle diff gap by (simp add: sk_recv_key_def eq mk_at_def)
  moreover have "sk_ok ?r'" by (simp add: sk_ok_def eq)
  moreover have "unat (sr_n ?r') = Suc i"
    using le i by (simp add: eq ni unat_word_ariths del: of_nat_diff)
  moreover have "sr_ck ?r' = adv (sk_kdf C) (Suc ?k) (sr_ck r)" by (simp add: eq adv_Suc)
  moreover have "sk_stash ?r' = last_n sk_MaxSkip (sk_stash r
          @ map (\<lambda>j. (sk_key r j, mk_at (sk_kdf C) (sr_ck r) (j - unat (sr_n r)))) [unat (sr_n r)..<i])"
    by (simp only: sk_stash_def sk_key_def upt)
      (simp add: eq last_n_def drop_map comp_def sk_entry_def)
  moreover have "sk_key ?r' = sk_key r" by (simp add: sk_key_def fun_eq_iff)
  ultimately show "\<exists>r'. sk_recv_key C r (of_nat i) = Some (mk_at (sk_kdf C) (sr_ck r) ?k, r') \<and> sk_ok r'
      \<and> unat (sr_n r') = Suc i \<and> sr_ck r' = adv (sk_kdf C) (Suc ?k) (sr_ck r)
      \<and> sk_stash r' = last_n sk_MaxSkip (sk_stash r
          @ map (\<lambda>j. (sk_key r j, mk_at (sk_kdf C) (sr_ck r) (j - unat (sr_n r)))) [unat (sr_n r)..<i])
      \<and> sk_key r' = sk_key r"
    by blast
next
  fix r :: sk_receiver and i :: nat
  assume le: "unat (sr_n r) \<le> i" "i < 2 ^ 32" and gap: "sk_MaxSkip < i - unat (sr_n r)"
  have i: "unat (of_nat i :: u32) = i" using le by (simp add: unat_of_nat_u32)
  have nle: "\<not> of_nat i < sr_n r" using le i by (simp add: word_less_nat_alt)
  then have "unat (of_nat i - sr_n r :: u32) = i - unat (sr_n r)"
    using i by (simp add: unat_sub)
  with nle gap show "sk_recv_key C r (of_nat i) = None" by (simp add: sk_recv_key_def)
qed

end
