(* ===== verification/SenderKeyThms.thy ===== *)
theory SenderKeyThms
  imports SenderKeyProps
begin

text \<open>
  The properties of the group keys, on sequences of messages a member sends
  and a receiver built from a distributed point of the chain.
\<close>

type_synonym sk_message = "u32 \<times> bytes \<times> bytes"

fun sk_encrypt_seq :: "crypto \<Rightarrow> sk_sender \<Rightarrow> bytes \<Rightarrow> bytes list \<Rightarrow> sk_message list \<times> sk_sender" where
  "sk_encrypt_seq C s g [] = ([], s)"
| "sk_encrypt_seq C s g (p # ps) =
     (case sk_encrypt C s g p of (n, ct, sig, s1) \<Rightarrow>
       (case sk_encrypt_seq C s1 g ps of (ms, s2) \<Rightarrow> ((n, ct, sig) # ms, s2)))"

fun sk_decrypt_seq :: "crypto \<Rightarrow> sk_receiver \<Rightarrow> bytes \<Rightarrow> u32 \<Rightarrow> sk_message list
    \<Rightarrow> sk_err + (bytes list \<times> sk_receiver)" where
  "sk_decrypt_seq C r g gen [] = Inr ([], r)"
| "sk_decrypt_seq C r g gen ((n, ct, sig) # ms) =
     bindR (sk_decrypt C r g gen n ct sig) (\<lambda>(p, r1).
     bindR (sk_decrypt_seq C r1 g gen ms) (\<lambda>(ps, r2). Inr (p # ps, r2)))"

definition sk_chain_message :: "crypto \<Rightarrow> sk_sender \<Rightarrow> bytes \<Rightarrow> nat \<Rightarrow> bytes \<Rightarrow> sk_message" where
  "sk_chain_message C s g i p =
     (let n = ss_n s + of_nat i; ct = sk_seal C (mk_at (sk_kdf C) (ss_ck s) i) g n p
      in (n, ct, c_sign C (ss_priv s) (sign_transcript C g (ss_gen s) n ct)))"

lemma sk_chain_message_shift:
  "sk_chain_message C (s\<lparr>ss_ck := snd (sk_kdf C (ss_ck s)), ss_n := ss_n s + 1\<rparr>) g i p
    = sk_chain_message C s g (Suc i) p"
  by (simp add: sk_chain_message_def mk_at_def adv_step add.assoc Let_def)

lemma sk_encrypt_seq_messages:
  "sk_encrypt_seq C s g ps = (ms, s') \<Longrightarrow>
    length ms = length ps \<and> (\<forall>i < length ps. ms ! i = sk_chain_message C s g i (ps ! i))"
proof (induction ps arbitrary: s ms)
  case (Cons p ps)
  let ?s1 = "s\<lparr>ss_ck := snd (sk_kdf C (ss_ck s)), ss_n := ss_n s + 1\<rparr>"
  from Cons.prems obtain ms' where 1: "sk_encrypt_seq C ?s1 g ps = (ms', s')"
    and ms: "ms = sk_chain_message C s g 0 p # ms'"
    by (auto simp: sk_encrypt_def Let_def sk_chain_message_def mk_at_def split: prod.splits)
  from Cons.IH [OF 1] show ?case
    by (auto simp: ms nth_Cons sk_chain_message_shift split: nat.split)
qed simp

lemma sk_decrypt_key:
  assumes "aead_correct C" and "sign_correct C" and "sr_gen r = ss_gen s" and "sr_pub r = c_edpub C (ss_priv s)"
    and "sk_recv_key C r (ss_n s + of_nat i) = Some (mk_at (sk_kdf C) (ss_ck s) i, r')"
  shows "sk_decrypt_seq C r g (ss_gen s) (sk_chain_message C s g i p # ms)
    = bindR (sk_decrypt_seq C r' g (ss_gen s) ms) (\<lambda>(ps, r2). Inr (p # ps, r2))"
  using assms
  by (auto simp: sk_chain_message_def Let_def sk_decrypt_def sk_recv_key_def sign_correctD
      sk_open_def sk_seal_def aead_correctD split: if_splits)

lemma sk_recv_key_frame: "sk_recv_key C r n = Some (k, r') \<Longrightarrow> sr_gen r' = sr_gen r \<and> sr_pub r' = sr_pub r"
proof -
  have "sr_gen ((sk_skip_one C ^^ k) r) = sr_gen r \<and> sr_pub ((sk_skip_one C ^^ k) r) = sr_pub r" for k
    by (induction k) (simp_all add: sk_skip_one_def Let_def)
  then show "sk_recv_key C r n = Some (k, r') \<Longrightarrow> sr_gen r' = sr_gen r \<and> sr_pub r' = sr_pub r"
    by (auto simp: sk_recv_key_def sk_take_skipped_def sk_skip_loop_iter Let_def split: if_splits option.splits)
qed

lemma sk_decrypt_seq_keys:
  assumes "aead_correct C" "sign_correct C" and "sr_gen r = ss_gen s" "sr_pub r = c_edpub C (ss_priv s)"
    and "recv_all (\<lambda>r i. sk_recv_key C r (of_nat i)) r (map (\<lambda>i. unat (ss_n s) + i) is)
      = Some (map (\<lambda>i. mk_at (sk_kdf C) (ss_ck s) i) is, r')"
  shows "sk_decrypt_seq C r g (ss_gen s) (map (\<lambda>i. sk_chain_message C s g i (ps ! i)) is)
    = Inr (map ((!) ps) is, r')"
  using assms(3-)
proof (induction "is" arbitrary: r)
  case (Cons i "is")
  then obtain r1 where
    1: "sk_recv_key C r (ss_n s + of_nat i) = Some (mk_at (sk_kdf C) (ss_ck s) i, r1)" and
    2: "recv_all (\<lambda>r i. sk_recv_key C r (of_nat i)) r1 (map (\<lambda>i. unat (ss_n s) + i) is)
      = Some (map (\<lambda>i. mk_at (sk_kdf C) (ss_ck s) i) is, r')"
    by (auto split: option.splits)
  from sk_decrypt_key [OF assms(1,2) Cons.prems(1,2) 1] Cons.IH [OF _ _ 2]
    sk_recv_key_frame [OF 1] Cons.prems show ?case by simp
qed simp


definition demo_sender :: sk_sender where
  "demo_sender = \<lparr>ss_gen = 2, ss_ck = replicate 32 1, ss_n = 7, ss_priv = replicate 64 3\<rparr>"



lemma sk_decrypt_next:
  assumes "aead_correct C" "sign_correct C" and "sk_encrypt C s g p = (n, ct, sig, s')"
  shows "\<exists>r'. sk_decrypt C (new_receiver (sender_dist C s)) g (ss_gen s) n ct sig = Inr (p, r')"
  using assms
  by (auto simp: sk_encrypt_def Let_def sk_decrypt_def new_receiver_def sender_dist_def sign_correctD
      sk_skip_loop.simps sk_open_def sk_seal_def aead_correctD)


lemma wf_sk_skip_one:
  assumes "key_lengths C" "wf_receiver r"
  shows "wf_receiver (sk_skip_one C r)"
proof -
  have b: "length (sr_skipped r) \<le> sk_MaxSkip" using assms(2) by (simp add: wf_receiver_def)
  show ?thesis
    using assms set_last_n [of sk_MaxSkip "sr_skipped r @ [sk_entry (sr_n r) (fst (sk_kdf C (sr_ck r)))]"]
    by (auto simp: sk_skip_one_eq [OF b] wf_receiver_def sk_kdf_def key_lengthsD sk_entry_def)
qed

lemma wf_sk_decrypt [wf_intros]:
  assumes len: "key_lengths C" and wf: "wf_receiver r"
    and dec: "sk_decrypt C r g gen n ct sig = Inr (p, r')"
  shows "wf_receiver r'"
proof -
  have loop: "wf_receiver (sk_skip_loop C n r)"
  proof -
    have "wf_receiver ((sk_skip_one C ^^ k) r)" for k
      by (induction k) (simp_all add: wf wf_sk_skip_one [OF len])
    then show ?thesis by (simp add: sk_skip_loop_iter)
  qed
  have "wf_receiver (r1\<lparr>sr_ck := snd (sk_kdf C k), sr_n := m\<rparr>)" if "wf_receiver r1" for r1 k m
    using that by (simp add: wf_receiver_def sk_kdf_def key_lengthsD [OF len])
  moreover have "wf_receiver r2" if "sk_take_skipped r n = Some (mk, r2)" for mk r2
    using that wf by (auto simp: sk_take_skipped_def wf_receiver_def split: option.splits dest!: pluck_Some)
  ultimately show ?thesis
    using dec loop by (auto simp: sk_decrypt_def bindR_Inr_iff Let_def split: if_splits option.splits)
qed

lemma wf_sk_encrypt [wf_intros]:
  "key_lengths C \<Longrightarrow> wf_sender s \<Longrightarrow> sk_encrypt C s g p = (n, ct, sig, s') \<Longrightarrow> wf_sender s'"
  by (auto simp: sk_encrypt_def Let_def wf_sender_def sk_kdf_def key_lengthsD)

lemma wf_new_sender [wf_intros]:
  "key_lengths C \<Longrightarrow> new_sender C r gen = Inr (s, r') \<Longrightarrow> wf_sender s"
  by (auto simp: new_sender_def bindR_Inr_iff wf_sender_def key_lengthsD(5) dest: read_full_length)

text \<open>
  Group keys survive the store: a sender's and a receiver's bytes decode
  to what was encoded, also after any message was decrypted or encrypted, and
  the decoders accept nothing but such bytes.
\<close>

theorem group_keys_survive_store:
  assumes "key_lengths C" and "wf_receiver r" and "wf_sender s"
  shows "receiver_unmarshal (receiver_marshal r) = Inr r \<and> sender_unmarshal (sender_marshal s) = Inr s
    \<and> (\<forall>g gen n ct sig p r'. sk_decrypt C r g gen n ct sig = Inr (p, r')
         \<longrightarrow> receiver_unmarshal (receiver_marshal r') = Inr r')
    \<and> (\<forall>g p n ct sig s'. sk_encrypt C s g p = (n, ct, sig, s')
         \<longrightarrow> sender_unmarshal (sender_marshal s') = Inr s')
    \<and> (is_ok (receiver_unmarshal b) \<longleftrightarrow> (\<exists>r. wf_receiver r \<and> b = receiver_marshal r))"
  using assms wf_sk_decrypt wf_sk_encrypt
  by (intro conjI allI impI receiver_codec.accepts_iff)
    (blast intro: receiver_codec.dec_enc sender_codec.dec_enc)+

theorem group_keys_survive_store_witness:
  "sender_unmarshal (sender_marshal demo_sender) = Inr demo_sender
   \<and> receiver_unmarshal (receiver_marshal (new_receiver (sender_dist demo_crypto demo_sender)))
     = Inr (new_receiver (sender_dist demo_crypto demo_sender))"
proof -
  have "wf_receiver (new_receiver (sender_dist demo_crypto demo_sender))" "wf_sender demo_sender"
    by (simp_all add: wf_receiver_def wf_sender_def new_receiver_def sender_dist_def demo_sender_def
        demo_crypto_def)
  from group_keys_survive_store [OF demo_laws(4) this] show ?thesis by blast
qed

end
