(* ===== verification/Mnemonic.thy ===== *)
theory Mnemonic
  imports CryptoIface Codec
begin

text \<open>
  mnemonic/mnemonic.go: the 256-bit seed as 24 words of eleven bits, the last
  eight bits being a checksum. The embedded word list is an argument \<open>wl\<close>; what
  the source checks and relies on of it is \<open>wordlist_ok\<close>. Phrases are ASCII
  strings here; the source's Unicode case folding and spaces beyond ASCII are
  not modelled.
\<close>

datatype mnemonic_err = MnErrWordCount | MnErrUnknownWord | MnErrChecksum

definition Words :: nat where "Words = 24"
definition seedBits :: nat where "seedBits = 256"
definition checksumBits :: nat where "checksumBits = seedBits div 32"

text \<open>The low n bits of a byte, the highest first, as bytes 0 and 1.\<close>

definition append_bits :: "bytes \<Rightarrow> byte \<Rightarrow> nat \<Rightarrow> bytes" where
  "append_bits dst b n = dst @ map (\<lambda>i. drop_bit i b AND 1) (rev [0..<n])"

definition bits_idx :: "bytes \<Rightarrow> nat" where
  "bits_idx bs = foldl (\<lambda>idx b. push_bit 1 idx OR unat b) 0 bs"

definition bits_byte :: "bytes \<Rightarrow> byte" where
  "bits_byte bs = foldl (\<lambda>acc b. push_bit 1 acc OR b) 0 bs"

definition seed_bits :: "crypto \<Rightarrow> bytes \<Rightarrow> bytes" where
  "seed_bits C seed = append_bits (foldl (\<lambda>bits b. append_bits bits b 8) [] seed)
     (c_sha C seed ! 0) checksumBits"

definition seed_words :: "crypto \<Rightarrow> string list \<Rightarrow> bytes \<Rightarrow> string list" where
  "seed_words C wl seed =
     (let bits = seed_bits C seed
      in map (\<lambda>i. wl ! bits_idx (take 11 (drop (i * 11) bits))) [0..<Words])"

fun join_words :: "string list \<Rightarrow> string" where
  "join_words [] = []"
| "join_words [w] = w"
| "join_words (w # ws) = w @ '' '' @ join_words ws"

definition from_seed :: "crypto \<Rightarrow> string list \<Rightarrow> bytes \<Rightarrow> string" where
  "from_seed C wl seed = join_words (seed_words C wl seed)"

section \<open>Parsing\<close>

definition is_space :: "char \<Rightarrow> bool" where
  "is_space c \<longleftrightarrow> (of_char c :: nat) = 32 \<or> (9 \<le> (of_char c :: nat) \<and> (of_char c :: nat) \<le> 13)"

definition to_lower :: "char \<Rightarrow> char" where
  "to_lower c = (let n = of_char c :: nat in if 65 \<le> n \<and> n \<le> 90 then char_of (n + 32) else c)"

definition trim_space :: "string \<Rightarrow> string" where
  "trim_space s = rev (dropWhile is_space (rev (dropWhile is_space s)))"

text \<open>strings.Fields: maximal runs of non-space characters.\<close>

fun fields :: "string \<Rightarrow> string \<Rightarrow> string list" where
  "fields cur [] = (if cur = [] then [] else [cur])"
| "fields cur (c # cs) =
     (if is_space c then (if cur = [] then fields [] cs else cur # fields [] cs)
      else fields (cur @ [c]) cs)"

text \<open>
  loadWordlist over the lines of the embedded file: None is its panic. The map
  from words to indices keeps the last index of a repeated word.
\<close>

definition load_wordlist :: "string list \<Rightarrow> string list option" where
  "load_wordlist ls =
     (let ws = filter (\<lambda>w. w \<noteq> []) (map trim_space ls) in if length ws = 2048 then Some ws else None)"

fun word_index :: "string list \<Rightarrow> string \<Rightarrow> nat option" where
  "word_index [] w = None"
| "word_index (x # xs) w =
     (case word_index xs w of Some i \<Rightarrow> Some (Suc i) | None \<Rightarrow> if x = w then Some 0 else None)"

fun words_bits :: "string list \<Rightarrow> bytes \<Rightarrow> string list \<Rightarrow> mnemonic_err + bytes" where
  "words_bits wl bits [] = Inr bits"
| "words_bits wl bits (w # ws) =
     (case word_index wl w of None \<Rightarrow> Inl MnErrUnknownWord
      | Some idx \<Rightarrow> words_bits wl
          (append_bits (append_bits bits (of_nat (idx div 256)) 3) (of_nat idx) 8) ws)"

definition bits_seed :: "bytes \<Rightarrow> bytes" where
  "bits_seed bits = map (\<lambda>i. bits_byte (take 8 (drop (i * 8) bits))) [0..<32]"

definition words_seed :: "crypto \<Rightarrow> string list \<Rightarrow> string list \<Rightarrow> mnemonic_err + bytes" where
  "words_seed C wl ws =
     (if length ws \<noteq> Words then Inl MnErrWordCount
      else bindR (words_bits wl [] ws) (\<lambda>bits.
        let seed = bits_seed bits; sum = c_sha C seed ! 0 in
        if list_ex (\<lambda>j. bits ! (seedBits + j) \<noteq> (drop_bit (7 - j) sum AND 1)) [0..<checksumBits]
        then Inl MnErrChecksum else Inr seed))"

definition to_seed :: "crypto \<Rightarrow> string list \<Rightarrow> string \<Rightarrow> mnemonic_err + bytes" where
  "to_seed C wl phrase = words_seed C wl (fields [] (map to_lower (trim_space phrase)))"

definition valid_phrase :: "crypto \<Rightarrow> string list \<Rightarrow> string \<Rightarrow> bool" where
  "valid_phrase C wl phrase = is_ok (to_seed C wl phrase)"

section \<open>Bits\<close>

definition is_bits :: "bytes \<Rightarrow> bool" where
  "is_bits bs \<longleftrightarrow> (\<forall>b \<in> set bs. b = 0 \<or> b = 1)"

definition nat_bits :: "nat \<Rightarrow> nat \<Rightarrow> bytes" where
  "nat_bits n x = map (\<lambda>i. of_bool (bit x i)) (rev [0..<n])"

definition bits_nat :: "bytes \<Rightarrow> nat" where
  "bits_nat bs = foldl (\<lambda>acc b. 2 * acc + unat b) 0 bs"

lemma length_nat_bits [simp]: "length (nat_bits n x) = n"
  by (simp add: nat_bits_def)

lemma is_bits_nat_bits [simp]: "is_bits (nat_bits n x)"
  by (auto simp: is_bits_def nat_bits_def)

lemma is_bits_append [simp]: "is_bits (xs @ ys) \<longleftrightarrow> is_bits xs \<and> is_bits ys"
  by (auto simp: is_bits_def)

lemma append_bits_nat: "append_bits dst b n = dst @ nat_bits n (unat b)"
proof -
  have "drop_bit i b AND 1 = (of_bool (bit (unat b) i) :: byte)" for i
    by (rule bit_word_eqI) (auto simp: bit_simps)
  then show ?thesis by (simp add: append_bits_def nat_bits_def)
qed

lemma nat_bits_Suc: "nat_bits (Suc n) x = of_bool (bit x n) # nat_bits n x"
  by (simp add: nat_bits_def)

lemma nat_bits_add: "nat_bits (m + n) x = nat_bits m (x div 2 ^ n) @ nat_bits n x"
proof (induction m)
  case (Suc m)
  have "bit (x div 2 ^ n) m = bit x (m + n)"
    by (simp add: bit_drop_bit_eq flip: drop_bit_eq_div) (simp add: add.commute)
  with Suc show ?case by (simp add: nat_bits_Suc)
qed (simp add: nat_bits_def)

lemma nat_bits_cong: "take_bit n x = take_bit n y \<Longrightarrow> nat_bits n x = nat_bits n y"
proof -
  assume "take_bit n x = take_bit n y"
  then have "bit x i = bit y i" if "i < n" for i
    using that bit_take_bit_iff [of n x i] bit_take_bit_iff [of n y i] by simp
  then show ?thesis by (simp add: nat_bits_def)
qed

lemma foldl_bits: "foldl (\<lambda>acc b. 2 * acc + unat b) k bs = k * 2 ^ length bs + bits_nat bs"
proof (induction bs arbitrary: k)
  case (Cons b bs)
  have "bits_nat (b # bs) = unat b * 2 ^ length bs + bits_nat bs"
    unfolding bits_nat_def using Cons [of "unat b"] by (simp add: bits_nat_def)
  with Cons [of "2 * k + unat b"] show ?case by (simp add: add_mult_distrib)
qed (simp add: bits_nat_def)

lemma bits_nat_Cons: "bits_nat (b # bs) = unat b * 2 ^ length bs + bits_nat bs"
  using foldl_bits [of "unat b" bs] by (simp add: bits_nat_def)

lemma bits_nat_nat_bits: "bits_nat (nat_bits n x) = take_bit n x"
proof (induction n)
  case (Suc n)
  have "unat (of_bool (bit x n) :: byte) = of_bool (bit x n)" by simp
  with Suc show ?case
    by (simp add: nat_bits_Suc bits_nat_Cons take_bit_Suc_from_most)
qed (simp add: nat_bits_def bits_nat_def)

lemma bits_nat_less: "is_bits bs \<Longrightarrow> bits_nat bs < 2 ^ length bs"
proof (induction bs)
  case (Cons b bs)
  then have "bits_nat bs < 2 ^ length bs" "unat b \<le> 1" by (auto simp: is_bits_def)
  then show ?case by (auto simp: bits_nat_Cons le_Suc_eq)
qed (simp add: bits_nat_def)

lemma nat_bits_bits_nat: "is_bits bs \<Longrightarrow> nat_bits (length bs) (bits_nat bs) = bs"
proof (induction bs)
  case (Cons b bs)
  then have b: "b = 0 \<or> b = 1" and bs: "is_bits bs" by (auto simp: is_bits_def)
  have lt: "bits_nat bs < 2 ^ length bs" by (rule bits_nat_less [OF bs])
  have "bit (bits_nat (b # bs)) (length bs) = (b = 1)"
    using b lt by (auto simp: bits_nat_Cons bit_iff_odd)
  moreover have "take_bit (length bs) (bits_nat (b # bs)) = take_bit (length bs) (bits_nat bs)"
    using lt by (simp add: bits_nat_Cons take_bit_eq_mod)
  then have "nat_bits (length bs) (bits_nat (b # bs)) = bs"
    using Cons.IH [OF bs] by (metis nat_bits_cong)
  ultimately show ?case using b by (auto simp: nat_bits_Suc)
qed (simp add: nat_bits_def)

lemma or_bit: "b = 0 \<or> b = (1 :: byte) \<Longrightarrow> push_bit 1 k OR unat b = 2 * k + unat b"
  "b = 0 \<or> b = (1 :: byte) \<Longrightarrow> push_bit 1 w OR b = 2 * w + b"
proof -
  show "push_bit 1 k OR unat b = 2 * k + unat b" if "b = 0 \<or> b = (1 :: byte)"
  proof -
    have "(2 * k) OR (1 :: nat) = 2 * k + 1" by (simp only: or_one_eq) simp
    with that show ?thesis by (auto simp: push_bit_eq_mult mult.commute simp del: or_nat_def)
  qed
  show "push_bit 1 w OR b = 2 * w + b" if "b = 0 \<or> b = (1 :: byte)"
  proof -
    have "(2 * w) OR 1 = 2 * w + 1" by (simp only: or_one_eq) simp
    with that show ?thesis by (auto simp: push_bit_eq_mult mult.commute)
  qed
qed

lemma bits_idx_nat: "is_bits bs \<Longrightarrow> bits_idx bs = bits_nat bs"
proof -
  have "is_bits bs \<Longrightarrow> foldl (\<lambda>idx b. push_bit 1 idx OR unat b) k bs
      = foldl (\<lambda>acc b. 2 * acc + unat b) k bs" for k
  proof (induction bs arbitrary: k)
    case (Cons b bs)
    then have "b = 0 \<or> b = 1" "is_bits bs" by (simp_all add: is_bits_def)
    with Cons.IH show ?case by (simp only: foldl_Cons or_bit(1) [OF \<open>b = 0 \<or> b = 1\<close>])
  qed simp
  then show "is_bits bs \<Longrightarrow> bits_idx bs = bits_nat bs" by (simp add: bits_idx_def bits_nat_def)
qed

lemma bits_byte_nat: "is_bits bs \<Longrightarrow> bits_byte bs = of_nat (bits_nat bs)"
proof -
  have "is_bits bs \<Longrightarrow> foldl (\<lambda>acc b. push_bit 1 acc OR b) (of_nat k) bs
      = of_nat (foldl (\<lambda>acc b. 2 * acc + unat b) k bs)" for k
  proof (induction bs arbitrary: k)
    case (Cons b bs)
    then have b: "b = 0 \<or> b = 1" and bs: "is_bits bs" by (simp_all add: is_bits_def)
    have "2 * of_nat k + b = (of_nat (2 * k + unat b) :: byte)" by simp
    with Cons.IH [OF bs] show ?case by (simp only: foldl_Cons or_bit(2) [OF b])
  qed simp
  from this [of 0] show "is_bits bs \<Longrightarrow> bits_byte bs = of_nat (bits_nat bs)"
    by (simp add: bits_byte_def bits_nat_def)
qed

section \<open>Words and phrases\<close>

text \<open>What the source relies on of the embedded list: 2048 distinct lower-case words.\<close>

definition wordlist_ok :: "string list \<Rightarrow> bool" where
  "wordlist_ok wl \<longleftrightarrow> length wl = 2048 \<and> distinct wl
     \<and> (\<forall>w \<in> set wl. w \<noteq> [] \<and> (\<forall>c \<in> set w. \<not> is_space c \<and> to_lower c = c))"

lemma word_index_Some: "word_index wl w = Some i \<Longrightarrow> i < length wl \<and> wl ! i = w"
  by (induction wl arbitrary: i) (auto split: option.splits if_splits)

lemma word_index_None: "word_index wl w = None \<longleftrightarrow> w \<notin> set wl"
  by (induction wl) (auto split: option.splits)

lemma word_index_nth: "distinct wl \<Longrightarrow> i < length wl \<Longrightarrow> word_index wl (wl ! i) = Some i"
  by (cases "word_index wl (wl ! i)")
    (auto simp: word_index_None dest: word_index_Some simp: nth_eq_iff_index_eq)

lemma append_idx: "idx < 2048 \<Longrightarrow>
    append_bits (append_bits bits (of_nat (idx div 256)) 3) (of_nat idx) 8 = bits @ nat_bits 11 idx"
proof -
  assume "idx < 2048"
  have "nat_bits 3 (unat (of_nat (idx div 256) :: byte)) = nat_bits 3 (idx div 2 ^ 8)"
    by (rule nat_bits_cong) (simp add: unat_of_nat take_bit_eq_mod mod_mod_cancel)
  moreover have "nat_bits 8 (unat (of_nat idx :: byte)) = nat_bits 8 idx"
    by (rule nat_bits_cong) (simp add: unat_of_nat take_bit_eq_mod mod_mod_cancel)
  ultimately show ?thesis using nat_bits_add [of 3 8 idx] by (simp add: append_bits_nat)
qed

lemma words_bits_Inr:
  assumes "length wl = 2048"
  shows "words_bits wl bits ws = Inr r \<longleftrightarrow> (\<exists>is. map (word_index wl) ws = map Some is
    \<and> r = bits @ concat (map (nat_bits 11) is))"
proof (induction ws arbitrary: bits)
  case (Cons w ws)
  show ?case
  proof (cases "word_index wl w")
    case (Some i)
    then have "i < 2048" using word_index_Some assms by metis
    with Some show ?thesis
      by (auto simp: Cons append_idx Cons_eq_map_conv [of _ _ Some])
  qed auto
qed auto

lemma concat_chunks:
  "length xs = n * k \<Longrightarrow> concat (map (\<lambda>i. take k (drop (i * k) xs)) [0..<n]) = xs"
proof (induction n arbitrary: xs)
  case (Suc n)
  have "take k (drop (i * k) xs) = take k (drop (i * k) (take (n * k) xs))" if "i < n" for i
  proof -
    have "Suc i * k \<le> n * k" using that by (intro mult_le_mono1) simp
    then show ?thesis by (simp add: take_drop min_def)
  qed
  then have "map (\<lambda>i. take k (drop (i * k) xs)) [0..<n]
      = map (\<lambda>i. take k (drop (i * k) (take (n * k) xs))) [0..<n]" by simp
  then have "concat (map (\<lambda>i. take k (drop (i * k) xs)) [0..<n]) = take (n * k) xs"
    using Suc.IH [of "take (n * k) xs"] Suc.prems by (simp only:) simp
  with Suc.prems show ?case by simp
qed simp

lemma chunk_of_concat:
  assumes "\<And>x. length (f x) = k" and "i < length xs"
  shows "take k (drop (i * k) (concat (map f xs) @ ys)) = f (xs ! i)"
  using assms(2)
proof (induction xs arbitrary: i)
  case (Cons x xs)
  then show ?case by (cases i) (simp_all add: assms(1))
qed simp

lemma length_concat_const: "(\<And>x. length (f x) = k) \<Longrightarrow> length (concat (map f xs)) = length xs * k"
  by (induction xs) simp_all

lemma seed_bits_nat: "seed_bits C seed =
    concat (map (\<lambda>b. nat_bits 8 (unat b)) seed) @ nat_bits 8 (unat (c_sha C seed ! 0))"
proof -
  have "foldl (\<lambda>bits b. append_bits bits b 8) acc seed
      = acc @ concat (map (\<lambda>b. nat_bits 8 (unat b)) seed)" for acc
    by (induction seed arbitrary: acc) (simp_all add: append_bits_nat)
  then show ?thesis
    by (simp add: seed_bits_def checksumBits_def seedBits_def append_bits_nat)
qed

lemma length_seed_bits: "length seed = 32 \<Longrightarrow> length (seed_bits C seed) = 264"
  by (simp add: seed_bits_nat length_concat_const [where k = 8])

lemma is_bits_seed_bits: "is_bits (seed_bits C seed)"
  by (auto simp: seed_bits_nat is_bits_def dest!: bspec [OF is_bits_nat_bits [unfolded is_bits_def]])

lemma bits_seed_bits:
  assumes "length seed = 32"
  shows "bits_seed (seed_bits C seed) = seed"
proof (rule nth_equalityI)
  fix i assume "i < length (bits_seed (seed_bits C seed))"
  then have i: "i < 32" by (simp add: bits_seed_def)
  have "take 8 (drop (i * 8) (seed_bits C seed)) = nat_bits 8 (unat (seed ! i))"
    unfolding seed_bits_nat using i assms by (intro chunk_of_concat) simp_all
  then show "bits_seed (seed_bits C seed) ! i = seed ! i"
    using i by (simp add: bits_seed_def bits_byte_nat bits_nat_nat_bits take_bit_nat_eq_self
        unsigned_less [of _, where ?'b = 8, simplified])
qed (simp add: bits_seed_def assms)

lemma checksum_test:
  assumes "length bits = 264" "is_bits bits"
  shows "list_ex (\<lambda>j. bits ! (seedBits + j) \<noteq> (drop_bit (7 - j) s AND 1)) [0..<checksumBits]
    \<longleftrightarrow> drop 256 bits \<noteq> nat_bits 8 (unat (s :: byte))"
proof -
  have *: "drop_bit i s AND 1 = (of_bool (bit (unat s) i) :: byte)" for i
    by (rule bit_word_eqI) (auto simp: bit_simps)
  have "nat_bits 8 (unat s) ! j = drop_bit (7 - j) s AND 1" if "j < 8" for j
    using that by (simp add: nat_bits_def rev_nth *)
  then have "drop 256 bits = nat_bits 8 (unat s)
      \<longleftrightarrow> (\<forall>j < 8. bits ! (256 + j) = (drop_bit (7 - j) s AND 1))"
    using assms by (simp add: list_eq_iff_nth_eq)
  then show ?thesis
    by (auto simp: list_ex_iff seedBits_def checksumBits_def)
qed

lemma seed_bits_bits:
  assumes "length bits = 264" "is_bits bits"
    and "drop 256 bits = nat_bits 8 (unat (c_sha C (bits_seed bits) ! 0))"
  shows "seed_bits C (bits_seed bits) = bits"
proof -
  have chunk: "nat_bits 8 (unat (bits_byte (take 8 (drop (i * 8) bits)))) = take 8 (drop (i * 8) (take 256 bits))"
    if "i < 32" for i
  proof -
    let ?c = "take 8 (drop (i * 8) bits)"
    have c: "is_bits ?c" using assms(2) by (auto simp: is_bits_def dest: in_set_takeD in_set_dropD)
    have len: "length ?c = 8" using that assms(1) by simp
    have "bits_nat ?c < 256" using bits_nat_less [OF c] unfolding len by simp
    then have "unat (of_nat (bits_nat ?c) :: byte) = bits_nat ?c"
      by (simp add: unat_of_nat take_bit_nat_eq_self)
    then have "nat_bits 8 (unat (bits_byte ?c)) = ?c"
      using nat_bits_bits_nat [OF c] unfolding len bits_byte_nat [OF c] by simp
    also have "\<dots> = take 8 (drop (i * 8) (take 256 bits))" using that by (simp add: drop_take)
    finally show ?thesis .
  qed
  have "concat (map (\<lambda>b. nat_bits 8 (unat b)) (bits_seed bits))
      = concat (map (\<lambda>i. take 8 (drop (i * 8) (take 256 bits))) [0..<32])"
    by (rule arg_cong [of _ _ concat]) (simp add: bits_seed_def chunk)
  also have "\<dots> = take 256 bits" by (rule concat_chunks) (simp add: assms(1))
  finally show ?thesis
    by (simp add: seed_bits_nat flip: assms(3))
qed

lemma seed_words_nth:
  assumes "i < 24" "is_bits (seed_bits C seed)" "take 11 (drop (i * 11) (seed_bits C seed)) = nat_bits 11 x"
    and "x < 2048"
  shows "seed_words C wl seed ! i = wl ! x"
proof -
  have "bits_idx (nat_bits 11 x) = x"
    using assms(4) by (simp add: bits_idx_nat bits_nat_nat_bits take_bit_nat_eq_self)
  with assms(1,3) show ?thesis by (simp add: seed_words_def Words_def Let_def)
qed

lemma words_seed_words:
  assumes wl: "wordlist_ok wl" and seed: "length seed = 32"
  shows "words_seed C wl (seed_words C wl seed) = Inr seed"
proof -
  let ?bits = "seed_bits C seed"
  let ?c = "\<lambda>i. take 11 (drop (i * 11) ?bits)"
  let ?is = "map (\<lambda>i. bits_idx (?c i)) [0..<24]"
  have len: "length ?bits = 264" by (rule length_seed_bits [OF seed])
  have c: "is_bits (?c i)" "length (?c i) = 11" if "i < 24" for i
    using that len is_bits_seed_bits [of C seed]
    by (auto simp: is_bits_def dest: in_set_takeD in_set_dropD)
  have idx: "bits_idx (?c i) < 2048" "nat_bits 11 (bits_idx (?c i)) = ?c i" if "i < 24" for i
    using bits_nat_less [OF c(1) [OF that]] nat_bits_bits_nat [OF c(1) [OF that]] c(2) [OF that]
    by (simp_all add: bits_idx_nat [OF c(1) [OF that]])
  have wi: "map (word_index wl) (seed_words C wl seed) = map Some ?is"
    using wl idx(1) by (simp add: seed_words_def Words_def Let_def wordlist_ok_def word_index_nth)
  have "map (nat_bits 11) ?is = map ?c [0..<24]" using idx(2) by simp
  then have "concat (map (nat_bits 11) ?is) = concat (map ?c [0..<24])" by (simp only:)
  also have "\<dots> = ?bits" by (rule concat_chunks) (simp add: len)
  finally have "words_bits wl [] (seed_words C wl seed) = Inr ?bits"
    using wl wi by (subst words_bits_Inr) (simp_all only: wordlist_ok_def append_Nil exI [of _ ?is])
  moreover have "length (seed_words C wl seed) = Words"
    by (simp add: seed_words_def Let_def)
  moreover have "drop 256 ?bits = nat_bits 8 (unat (c_sha C seed ! 0))"
    using seed by (simp add: seed_bits_nat length_concat_const [where k = 8])
  ultimately show ?thesis
    using len is_bits_seed_bits [of C seed]
    by (simp add: words_seed_def bits_seed_bits [OF seed] checksum_test Let_def)
qed

lemma seed_words_seed:
  assumes wl: "wordlist_ok wl" and ok: "words_seed C wl ws = Inr seed"
  shows "length seed = 32 \<and> seed_words C wl seed = ws"
proof -
  from ok obtain bits where ws: "length ws = 24" and b: "words_bits wl [] ws = Inr bits"
    and seed: "seed = bits_seed bits"
    and sum: "\<not> list_ex (\<lambda>j. bits ! (seedBits + j) \<noteq> (drop_bit (7 - j) (c_sha C seed ! 0) AND 1)) [0..<checksumBits]"
    by (auto simp: words_seed_def bindR_Inr_iff Let_def Words_def split: if_splits)
  from b wl obtain xs where xs: "map (word_index wl) ws = map Some xs"
    and bits: "bits = concat (map (nat_bits 11) xs)"
    by (auto simp: words_bits_Inr wordlist_ok_def)
  have lx: "length xs = 24" using arg_cong [OF xs, of length] ws by simp
  have wx: "xs ! i < 2048" "wl ! (xs ! i) = ws ! i" if "i < 24" for i
    using that word_index_Some [of wl "ws ! i" "xs ! i"] wl lx ws arg_cong [OF xs, of "\<lambda>l. l ! i"]
    by (simp_all add: wordlist_ok_def)
  have lb: "length bits = 264" using lx by (simp add: bits length_concat_const [where k = 11])
  have ib: "is_bits bits"
    by (auto simp: bits is_bits_def dest: bspec [OF is_bits_nat_bits [unfolded is_bits_def]])
  from sum have "drop 256 bits = nat_bits 8 (unat (c_sha C (bits_seed bits) ! 0))"
    by (simp add: checksum_test [OF lb ib] seed)
  then have eq: "seed_bits C seed = bits" unfolding seed by (rule seed_bits_bits [OF lb ib])
  have "seed_words C wl seed = ws"
  proof (rule nth_equalityI)
    fix i assume "i < length (seed_words C wl seed)"
    then have i: "i < 24" by (simp add: seed_words_def Words_def Let_def)
    have tk: "take 11 (drop (i * 11) (seed_bits C seed)) = nat_bits 11 (xs ! i)"
      unfolding eq bits using chunk_of_concat [of "nat_bits 11" 11 i xs "[]"] i lx by simp
    have "seed_words C wl seed ! i = wl ! (xs ! i)"
      by (rule seed_words_nth [OF i _ tk wx(1) [OF i]]) (simp add: eq ib)
    then show "seed_words C wl seed ! i = ws ! i" using wx(2) [OF i] by simp
  qed (simp add: seed_words_def Words_def Let_def ws)
  then show ?thesis by (simp add: seed bits_seed_def)
qed

lemma mnemonic_codec: "wordlist_ok wl \<Longrightarrow> codec (seed_words C wl) (words_seed C wl) (\<lambda>s. length s = 32)"
  by unfold_locales (simp_all add: words_seed_words seed_words_seed)

section \<open>The phrase as text\<close>

lemma fields_word:
  "\<forall>c \<in> set w. \<not> is_space c \<Longrightarrow> fields cur (w @ s) = fields (cur @ w) s"
  by (induction w arbitrary: cur) simp_all

lemma fields_join:
  "\<forall>w \<in> set ws. w \<noteq> [] \<and> (\<forall>c \<in> set w. \<not> is_space c) \<Longrightarrow> fields [] (join_words ws) = ws"
proof (induction ws rule: join_words.induct)
  case (2 w)
  then show ?case using fields_word [of w "[]" "[]"] by simp
next
  case (3 w v vs)
  have "is_space (CHR '' '')" by (simp add: is_space_def)
  with 3 show ?case using fields_word [of w "[]" "'' '' @ join_words (v # vs)"] by simp
qed simp

definition normal_phrase :: "string \<Rightarrow> string" where
  "normal_phrase s = join_words (fields [] (map to_lower (trim_space s)))"

lemma join_words_Cons: "ws \<noteq> [] \<Longrightarrow> join_words (w # ws) = w @ '' '' @ join_words ws"
  by (cases ws) simp_all

lemma lower_space [simp]: "to_lower (CHR '' '') = CHR '' ''"
  by (simp add: to_lower_def)

lemma map_lower_join: "map to_lower (join_words ws) = join_words (map (map to_lower) ws)"
  by (induction ws rule: join_words.induct) simp_all

text \<open>Spaces after a phrase, such as the end of its line, are trimmed.\<close>

lemma trim_space_tail:
  assumes "s \<noteq> []" "\<not> is_space (hd s)" "\<not> is_space (last s)" "list_all is_space sp"
  shows "trim_space (s @ sp) = s"
proof -
  have "dropWhile is_space (s @ sp) = s @ sp" using assms(1,2) by (cases s) simp_all
  moreover have "dropWhile is_space (rev (s @ sp)) = dropWhile is_space (rev s)"
    using assms(4) by (simp add: list_all_iff) (rule dropWhile_append2, simp)
  moreover have "dropWhile is_space (rev s) = rev s"
    using assms(1,3) by (simp add: dropWhile_eq_self_iff hd_rev)
  ultimately show ?thesis by (simp add: trim_space_def)
qed

lemma hd_last_join:
  "ws \<noteq> [] \<Longrightarrow> \<forall>w \<in> set ws. w \<noteq> [] \<Longrightarrow> join_words ws \<noteq> []
    \<and> hd (join_words ws) = hd (hd ws) \<and> last (join_words ws) = last (last ws)"
  by (induction ws rule: join_words.induct) (auto simp: hd_append)

lemma fields_phrase:
  assumes "ws \<noteq> []" and w: "\<forall>w \<in> set ws. w \<noteq> [] \<and> (\<forall>c \<in> set w. \<not> is_space c \<and> to_lower c = c)"
    and sp: "list_all is_space sp"
  shows "fields [] (map to_lower (trim_space (join_words ws @ sp))) = ws"
proof -
  have "hd ws \<in> set ws" "last ws \<in> set ws" using assms(1) by simp_all
  then have "\<not> is_space (hd (hd ws))" "\<not> is_space (last (last ws))" using w by auto
  then have "trim_space (join_words ws @ sp) = join_words ws"
    using hd_last_join [OF assms(1)] w sp by (intro trim_space_tail) auto
  moreover have "map (map to_lower) ws = ws" using w by (auto intro!: map_idI)
  ultimately show ?thesis using w by (simp add: map_lower_join fields_join)
qed

lemma phrase_parses:
  assumes "wordlist_ok wl" and seed: "length seed = 32" and sp: "list_all is_space sp"
  shows "to_seed C wl (from_seed C wl seed @ sp) = Inr seed"
proof -
  have "set (seed_words C wl seed) \<subseteq> set wl"
  proof -
    have "words_seed C wl (seed_words C wl seed) = Inr seed"
      by (rule codec.dec_enc [OF mnemonic_codec [OF assms(1)] seed])
    then obtain xs where "map (word_index wl) (seed_words C wl seed) = map Some xs"
      using assms(1) by (auto simp: words_seed_def bindR_Inr_iff words_bits_Inr wordlist_ok_def split: if_splits)
    then have "word_index wl ` set (seed_words C wl seed) = Some ` set xs" by (metis set_map)
    then have "word_index wl w \<noteq> None" if "w \<in> set (seed_words C wl seed)" for w
      using that by (metis imageE imageI option.distinct(1))
    then show ?thesis by (auto simp: word_index_None)
  qed
  then have w: "\<forall>w \<in> set (seed_words C wl seed). w \<noteq> [] \<and> (\<forall>c \<in> set w. \<not> is_space c \<and> to_lower c = c)"
    using assms(1) by (auto simp: wordlist_ok_def)
  have "seed_words C wl seed \<noteq> []" by (simp add: seed_words_def Words_def Let_def)
  from fields_phrase [OF this w sp] show ?thesis
    by (simp add: to_seed_def from_seed_def words_seed_words [OF assms(1) seed])
qed

text \<open>
  The backup phrase is a faithful second form of the master seed: the phrase
  written for any 32-byte seed parses back to exactly that seed, whatever the
  word list, and every phrase the parser accepts is, after its spaces and case
  are normalised, the very phrase written for the seed it returns, so no two
  different phrases restore one seed.
\<close>

theorem phrase_is_the_seed:
  assumes "wordlist_ok wl"
  shows "(length seed = 32 \<longrightarrow> to_seed C wl (from_seed C wl seed) = Inr seed)
    \<and> (to_seed C wl phrase = Inr s \<longrightarrow> length s = 32 \<and> from_seed C wl s = normal_phrase phrase)"
proof (intro conjI impI)
  assume seed: "length seed = 32"
  show "to_seed C wl (from_seed C wl seed) = Inr seed"
    using phrase_parses [OF assms seed, of "[]"] by simp
next
  assume "to_seed C wl phrase = Inr s"
  then show "length s = 32" "from_seed C wl s = normal_phrase phrase"
    using codec.dec_sound [OF mnemonic_codec [OF assms], of C "fields [] (map to_lower (trim_space phrase))" s]
    by (simp_all add: to_seed_def from_seed_def normal_phrase_def)
qed

text \<open>A list of 2048 distinct words, in letters a to p.\<close>

definition demo_letter :: "nat \<Rightarrow> char" where
  "demo_letter n = ''abcdefghijklmnop'' ! (n mod 16)"

definition demo_word :: "nat \<Rightarrow> string" where
  "demo_word n = [demo_letter (n div 256), demo_letter (n div 16), demo_letter n]"

definition demo_list :: "string list" where
  "demo_list = map demo_word [0..<2048]"

lemma demo_letter_inj: "demo_letter m = demo_letter n \<longleftrightarrow> m mod 16 = n mod 16"
proof -
  have "distinct ''abcdefghijklmnop''" "length ''abcdefghijklmnop'' = 16" by simp_all
  then show ?thesis by (simp add: demo_letter_def nth_eq_iff_index_eq)
qed

lemma demo_letter_ok: "\<not> is_space (demo_letter n) \<and> to_lower (demo_letter n) = demo_letter n"
proof -
  have "\<forall>c \<in> set ''abcdefghijklmnop''. \<not> is_space c \<and> to_lower c = c"
    by (simp add: is_space_def to_lower_def Let_def)
  moreover have "demo_letter n \<in> set ''abcdefghijklmnop''"
    unfolding demo_letter_def by (rule nth_mem) simp
  ultimately show ?thesis by blast
qed

lemma demo_wordlist_ok: "wordlist_ok demo_list"
proof -
  have "inj_on demo_word {0..<2048}"
  proof (rule inj_onI)
    fix m n assume "m \<in> {0..<2048}" "n \<in> {0..<2048}" "demo_word m = demo_word n"
    then have "m div 256 mod 16 = n div 256 mod 16" "m div 16 mod 16 = n div 16 mod 16" "m mod 16 = n mod 16"
      "m < 2048" "n < 2048"
      by (simp_all add: demo_word_def demo_letter_inj)
    moreover have "x = 256 * (x div 256 mod 16) + 16 * (x div 16 mod 16) + x mod 16" if "x < 2048" for x :: nat
    proof -
      have "x div 256 = x div 16 div 16" by (simp add: div_mult2_eq [of x 16 16, simplified])
      moreover have "x div 256 < 16" using that by (simp add: less_mult_imp_div_less)
      ultimately show ?thesis
        using div_mult_mod_eq [of x 16] div_mult_mod_eq [of "x div 16" 16]
        by (simp only: mod_less)
    qed
    ultimately show "m = n" by metis
  qed
  then have "distinct demo_list" by (simp add: demo_list_def distinct_map)
  then show ?thesis
    by (auto simp: wordlist_ok_def demo_list_def demo_word_def demo_letter_ok)
qed

lemma phrase_is_the_seed_witness:
  "to_seed demo_crypto demo_list (from_seed demo_crypto demo_list (replicate 32 7)) = Inr (replicate 32 7)"
  using phrase_is_the_seed [OF demo_wordlist_ok, of "replicate 32 7" demo_crypto "[]" "[]"] by simp

end
