(* ===== verification/Utf8.thy ===== *)
theory Utf8
  imports Prelude
begin

text \<open>
  What the program uses of Go's strings and unicode/utf8 packages: a string is
  its bytes (a char list), ranging over it yields runes, utf8.ValidString holds
  of the shortest forms of scalar values only, TrimSpace cuts Unicode spaces.
\<close>

definition codes :: "string \<Rightarrow> nat list" where
  "codes s = map of_char s"

definition cont :: "nat \<Rightarrow> bool" where
  "cont b \<longleftrightarrow> 128 \<le> b \<and> b \<le> 191"

text \<open>The runes of a byte sequence; None when it is not valid UTF-8.\<close>

fun runes_of :: "nat list \<Rightarrow> nat list option" where
  "runes_of [] = Some []"
| "runes_of (a # s) =
     (if a < 128 then map_option ((#) a) (runes_of s)
      else if 194 \<le> a \<and> a \<le> 223 then
        (case s of b # s' \<Rightarrow>
           if cont b then map_option ((#) ((a - 192) * 64 + (b - 128))) (runes_of s') else None
         | [] \<Rightarrow> None)
      else if 224 \<le> a \<and> a \<le> 239 then
        (case s of b # c # s' \<Rightarrow>
           if cont b \<and> cont c \<and> (a = 224 \<longrightarrow> 160 \<le> b) \<and> (a = 237 \<longrightarrow> b \<le> 159)
           then map_option ((#) ((a - 224) * 4096 + (b - 128) * 64 + (c - 128))) (runes_of s') else None
         | _ \<Rightarrow> None)
      else if 240 \<le> a \<and> a \<le> 244 then
        (case s of b # c # d # s' \<Rightarrow>
           if cont b \<and> cont c \<and> cont d \<and> (a = 240 \<longrightarrow> 144 \<le> b) \<and> (a = 244 \<longrightarrow> b \<le> 143)
           then map_option ((#) ((a - 240) * 262144 + (b - 128) * 4096 + (c - 128) * 64 + (d - 128)))
             (runes_of s') else None
         | _ \<Rightarrow> None)
      else None)"

definition runes :: "string \<Rightarrow> nat list option" where
  "runes s = runes_of (codes s)"

definition valid_utf8 :: "string \<Rightarrow> bool" where
  "valid_utf8 s \<longleftrightarrow> runes s \<noteq> None"

definition rune_codes :: "nat \<Rightarrow> nat list" where
  "rune_codes r =
     (if r < 128 then [r]
      else if r < 2048 then [192 + r div 64, 128 + r mod 64]
      else if r < 65536 then [224 + r div 4096, 128 + r div 64 mod 64, 128 + r mod 64]
      else [240 + r div 262144, 128 + r div 4096 mod 64, 128 + r div 64 mod 64, 128 + r mod 64])"

definition of_runes :: "nat list \<Rightarrow> string" where
  "of_runes rs = map char_of (concat (map rune_codes rs))"

definition scalar :: "nat \<Rightarrow> bool" where
  "scalar r \<longleftrightarrow> r < 55296 \<or> (57344 \<le> r \<and> r < 1114112)"

text \<open>unicode.IsSpace\<close>

definition rune_space :: "nat \<Rightarrow> bool" where
  "rune_space r \<longleftrightarrow> (9 \<le> r \<and> r \<le> 13) \<or> r = 32 \<or> r = 133 \<or> r = 160 \<or> r = 5760
     \<or> (8192 \<le> r \<and> r \<le> 8202) \<or> r = 8232 \<or> r = 8233 \<or> r = 8239 \<or> r = 8287 \<or> r = 12288"

definition trim_runes :: "nat list \<Rightarrow> nat list" where
  "trim_runes rs = rev (dropWhile rune_space (rev (dropWhile rune_space rs)))"

text \<open>
  strings.TrimSpace of any bytes, valid UTF-8 or not: as long as the string begins
  (ends) with the encoding of a space, that is cut.
\<close>

definition space_seqs :: "string list" where
  "space_seqs = map (\<lambda>r. of_runes [r]) ([9, 10, 11, 12, 13, 32, 133, 160, 5760] @ [8192..<8203] @ [8232, 8233, 8239, 8287, 12288])"

function strip_seqs :: "string list \<Rightarrow> string \<Rightarrow> string" where
  "strip_seqs qs s = (case find (\<lambda>q. q \<noteq> [] \<and> take (length q) s = q) qs of None \<Rightarrow> s
     | Some q \<Rightarrow> strip_seqs qs (drop (length q) s))"
  by auto
termination
proof (relation "measure (\<lambda>(qs, s). length s)")
  fix qs s and q :: string
  assume "find (\<lambda>q. q \<noteq> [] \<and> take (length q) s = q) qs = Some q"
  then have q: "q \<noteq> []" "take (length q) s = q" by (auto simp: find_Some_iff)
  then have "s \<noteq> []" by auto
  with q(1) show "((qs, drop (length q) s), (qs, s)) \<in> measure (\<lambda>(qs, s). length s)" by simp
qed simp

definition trim_string :: "string \<Rightarrow> string" where
  "trim_string s = rev (strip_seqs (map rev space_seqs) (rev (strip_seqs space_seqs s)))"

declare strip_seqs.simps [simp del]

definition unstripped :: "string list \<Rightarrow> string \<Rightarrow> bool" where
  "unstripped qs s \<longleftrightarrow> (\<forall>q \<in> set qs. q \<noteq> [] \<longrightarrow> take (length q) s \<noteq> q)"

lemma unstripped_find: "unstripped qs s \<longleftrightarrow> find (\<lambda>q. q \<noteq> [] \<and> take (length q) s = q) qs = None"
  by (auto simp: unstripped_def find_None_iff)

lemma strip_id: "unstripped qs s \<Longrightarrow> strip_seqs qs s = s"
  by (subst strip_seqs.simps) (simp add: unstripped_find)

lemma strip_unstripped: "unstripped qs (strip_seqs qs s)"
proof (induction qs s rule: strip_seqs.induct)
  case (1 qs s)
  show ?case
  proof (cases "find (\<lambda>q. q \<noteq> [] \<and> take (length q) s = q) qs")
    case None
    then show ?thesis by (simp add: strip_id unstripped_find)
  next
    case (Some q)
    with 1 [OF Some] show ?thesis by (subst strip_seqs.simps) simp
  qed
qed

lemma strip_suffix: "\<exists>u. s = u @ strip_seqs qs s"
proof (induction qs s rule: strip_seqs.induct)
  case (1 qs s)
  show ?case
  proof (cases "find (\<lambda>q. q \<noteq> [] \<and> take (length q) s = q) qs")
    case None
    then show ?thesis by (simp add: strip_id unstripped_find)
  next
    case (Some q)
    from 1 [OF Some] obtain u where u: "drop (length q) s = u @ strip_seqs qs (drop (length q) s)" by blast
    have e: "strip_seqs qs s = strip_seqs qs (drop (length q) s)" by (subst strip_seqs.simps) (simp add: Some)
    have "s = (take (length q) s @ u) @ strip_seqs qs s"
      unfolding e append_assoc u [symmetric] by simp
    then show ?thesis by blast
  qed
qed

lemma unstripped_take: "unstripped qs (u @ v) \<Longrightarrow> unstripped qs u"
proof -
  have "take (length q) (u @ v) = q" if "take (length q) u = q" for q
  proof -
    have "length q \<le> length u" using that by (metis length_take min.bounded_iff order_refl)
    with that show ?thesis by simp
  qed
  then show "unstripped qs (u @ v) \<Longrightarrow> unstripped qs u" unfolding unstripped_def by blast
qed

text \<open>What TrimSpace leaves it leaves alone.\<close>

definition trimmed :: "string \<Rightarrow> bool" where
  "trimmed s \<longleftrightarrow> unstripped space_seqs s \<and> unstripped (map rev space_seqs) (rev s)"

lemma trim_id: "trimmed s \<Longrightarrow> trim_string s = s"
  by (simp add: trim_string_def trimmed_def strip_id)

lemma trim_trimmed: "trimmed (trim_string s)"
proof -
  let ?a = "strip_seqs space_seqs s" let ?b = "strip_seqs (map rev space_seqs) (rev ?a)"
  obtain u where u: "rev ?a = u @ ?b" using strip_suffix by blast
  then have "?a = rev ?b @ rev u" by (metis rev_append rev_rev_ident)
  then have "unstripped space_seqs (rev ?b)" using strip_unstripped [of space_seqs s] unstripped_take by metis
  then show ?thesis by (simp add: trimmed_def trim_string_def strip_unstripped)
qed

text \<open>The middle of a string is never touched.\<close>

lemma trim_middle: "\<exists>u v. s = u @ trim_string s @ v"
proof -
  let ?a = "strip_seqs space_seqs s" let ?b = "strip_seqs (map rev space_seqs) (rev ?a)"
  obtain u where u: "s = u @ ?a" using strip_suffix by blast
  obtain v where "rev ?a = v @ ?b" using strip_suffix by blast
  then have "?a = rev ?b @ rev v" by (metis rev_append rev_rev_ident)
  with u show ?thesis unfolding trim_string_def by metis
qed

lemma space_seqs_eq: "space_seqs = map (map char_of) [[9], [10], [11], [12], [13], [32 :: nat], [194, 133], [194, 160],
    [225, 154, 128], [226, 128, 128], [226, 128, 129], [226, 128, 130], [226, 128, 131], [226, 128, 132],
    [226, 128, 133], [226, 128, 134], [226, 128, 135], [226, 128, 136], [226, 128, 137], [226, 128, 138],
    [226, 128, 168], [226, 128, 169], [226, 128, 175], [226, 129, 159], [227, 128, 128]]"
  by (simp add: space_seqs_def of_runes_def rune_codes_def upt_rec)

lemma trimmed_graphic:
  assumes "list_all (\<lambda>c. 32 < (of_char c :: nat) \<and> (of_char c :: nat) < 127) s"
  shows "trimmed s"
proof -
  have out: "of_char (hd q) \<le> (32 :: nat) \<or> 127 \<le> (of_char (hd q) :: nat)"
    "of_char (last q) \<le> (32 :: nat) \<or> 127 \<le> (of_char (last q) :: nat)" "q \<noteq> []" if "q \<in> set space_seqs" for q
    using that unfolding space_seqs_eq by auto
  have no: False if "q \<in> set space_seqs" "take (length q) s = q" for q
    using out [OF that(1)] assms that(2) by (cases q; cases s) auto
  have no2: False if q: "q \<in> set space_seqs" and t: "take (length q) (rev s) = rev q" for q
  proof -
    have "rev q \<noteq> []" using out(3) [OF q] by simp
    then have "hd (rev q) \<in> set s" using t by (metis hd_in_set in_set_takeD set_rev)
    with out(2) [OF q] assms show False by (auto simp: list_all_iff hd_rev)
  qed
  show ?thesis using no no2 by (fastforce simp: trimmed_def unstripped_def)
qed

lemma rune_codes_byte: "scalar r \<Longrightarrow> b \<in> set (rune_codes r) \<Longrightarrow> b < 256"
  by (auto simp: rune_codes_def scalar_def split: if_splits)

lemma digits64:
  fixes r :: nat
  shows "r div 4096 * 4096 + r div 64 mod 64 * 64 + r mod 64 = r"
    "r div 262144 * 262144 + r div 4096 mod 64 * 4096 + r div 64 mod 64 * 64 + r mod 64 = r"
    "r mod 64 \<le> 63"
proof -
  have q: "r div 4096 = r div 64 div 64" "r div 262144 = r div 64 div 64 div 64"
    by (simp_all add: div_mult2_eq [of r 64 64, simplified] div_mult2_eq [of r 4096 64, simplified])
  note e = div_mult_mod_eq [of r 64] div_mult_mod_eq [of "r div 64" 64] div_mult_mod_eq [of "r div 64 div 64" 64]
  show "r div 4096 * 4096 + r div 64 mod 64 * 64 + r mod 64 = r" unfolding q using e by linarith
  show "r div 262144 * 262144 + r div 4096 mod 64 * 4096 + r div 64 mod 64 * 64 + r mod 64 = r"
    unfolding q using e by linarith
  show "r mod 64 \<le> 63" using mod_less_divisor [of 64 r] by linarith
qed

lemma runes_of_rune:
  assumes "scalar r"
  shows "runes_of (rune_codes r @ s) = map_option ((#) r) (runes_of s)"
proof -
  note m = digits64(3) [of r] digits64(3) [of "r div 64"] digits64(3) [of "r div 4096"]
  consider "r < 128" | "128 \<le> r" "r < 2048" | "2048 \<le> r" "r < 65536" | "65536 \<le> r" by linarith
  then show ?thesis
  proof cases
    case 2
    then have "2 \<le> r div 64" "r div 64 < 32" by auto
    with 2 m show ?thesis by (simp add: rune_codes_def cont_def)
  next
    case 3
    have "r div 4096 < 16" using 3 by auto
    moreover have "r div 4096 = 0 \<longrightarrow> 32 \<le> r div 64 mod 64" using 3 digits64(1) [of r] m by auto
    moreover have "r div 4096 = 13 \<longrightarrow> r div 64 mod 64 \<le> 31"
    proof
      assume h: "r div 4096 = 13"
      then have "r < 57344" by auto
      then have "r < 55296" using assms by (auto simp: scalar_def)
      with h digits64(1) [of r] m show "r div 64 mod 64 \<le> 31" by linarith
    qed
    moreover have "32 \<le> r div 64" using 3 by auto
    ultimately show ?thesis using 3 m digits64(1) [of r] by (simp add: rune_codes_def cont_def)
  next
    case 4
    have lt: "r < 1114112" using assms by (auto simp: scalar_def)
    have "r div 262144 \<le> 4" using lt by auto
    moreover have "r div 262144 = 0 \<longrightarrow> 16 \<le> r div 4096 mod 64" using 4 digits64(2) [of r] m by auto
    moreover have "r div 262144 = 4 \<longrightarrow> r div 4096 mod 64 \<le> 15" using lt digits64(2) [of r] m by auto
    ultimately show ?thesis using 4 m digits64(2) [of r] by (simp add: rune_codes_def cont_def)
  qed (simp add: rune_codes_def)
qed

lemma runes_of_runes: "list_all scalar rs \<Longrightarrow> runes (of_runes rs) = Some rs"
proof -
  assume rs: "list_all scalar rs"
  then have "\<forall>b \<in> set (concat (map rune_codes rs)). b < 256"
    by (auto simp: list_all_iff rune_codes_byte)
  then have "codes (of_runes rs) = concat (map rune_codes rs)"
    by (auto simp: codes_def of_runes_def intro!: map_idI)
  moreover have "runes_of (concat (map rune_codes rs)) = Some rs"
    using rs by (induction rs) (simp_all add: runes_of_rune)
  ultimately show ?thesis by (simp add: runes_def)
qed

lemma scalar_small: "r < 55296 \<Longrightarrow> scalar r"
  by (simp add: scalar_def)

lemma scalar3:
  assumes "224 \<le> a" "a \<le> 239" "cont b" "cont c" "a = 237 \<longrightarrow> b \<le> 159"
  shows "scalar ((a - 224) * 4096 + (b - 128) * 64 + (c - 128))"
proof -
  obtain i where i: "a = 224 + i" using assms(1) le_Suc_ex by blast
  obtain j where j: "b = 128 + j" using assms(3) unfolding cont_def using le_Suc_ex by blast
  obtain k where k: "c = 128 + k" using assms(4) unfolding cont_def using le_Suc_ex by blast
  have *: "i \<le> 15" "j \<le> 63" "k \<le> 63" "i = 13 \<longrightarrow> j \<le> 31" using assms by (auto simp: i j k cont_def)
  have "i * 4096 + j * 64 + k < 55296 \<or> (57344 \<le> i * 4096 + j * 64 + k \<and> i * 4096 + j * 64 + k < 1114112)"
  proof -
    consider "i \<le> 12" | "i = 13" | "14 \<le> i" by linarith
    then show ?thesis using * by cases linarith+
  qed
  then show ?thesis by (simp add: scalar_def i j k)
qed

lemma scalar4:
  assumes "240 \<le> a" "a \<le> 244" "cont b" "cont c" "cont d" "a = 240 \<longrightarrow> 144 \<le> b" "a = 244 \<longrightarrow> b \<le> 143"
  shows "scalar ((a - 240) * 262144 + (b - 128) * 4096 + (c - 128) * 64 + (d - 128))"
proof -
  obtain i where i: "a = 240 + i" using assms(1) le_Suc_ex by blast
  obtain j where j: "b = 128 + j" using assms(3) unfolding cont_def using le_Suc_ex by blast
  obtain k where k: "c = 128 + k" using assms(4) unfolding cont_def using le_Suc_ex by blast
  obtain l where l: "d = 128 + l" using assms(5) unfolding cont_def using le_Suc_ex by blast
  have *: "i \<le> 4" "j \<le> 63" "k \<le> 63" "l \<le> 63" "i = 0 \<longrightarrow> 16 \<le> j" "i = 4 \<longrightarrow> j \<le> 15"
    using assms by (auto simp: i j k l cont_def)
  have "57344 \<le> i * 262144 + j * 4096 + k * 64 + l" using * by (cases "i = 0") linarith+
  moreover have "i * 262144 + j * 4096 + k * 64 + l < 1114112" using * by (cases "i = 4") linarith+
  ultimately show ?thesis by (simp add: scalar_def i j k l)
qed

lemma scalar2: "a \<le> 223 \<Longrightarrow> cont b \<Longrightarrow> scalar ((a - 192) * 64 + (b - 128))"
  by (auto simp: scalar_def cont_def)

lemma runes_scalar: "runes_of cs = Some rs \<Longrightarrow> list_all scalar rs"
proof (induction cs arbitrary: rs rule: runes_of.induct)
  case (2 a s)
  note IH = 2(1-4) and ok = 2(5)
  consider "a < 128" | "194 \<le> a" "a \<le> 223" | "224 \<le> a" "a \<le> 239" | "240 \<le> a" "a \<le> 244"
    using ok by (auto simp del: runes_of.simps(1) split: if_splits)
  then show ?case
  proof cases
    case 1
    with ok obtain rs' where "runes_of s = Some rs'" "rs = a # rs'" by auto
    with IH(1) [OF 1] 1 show ?thesis by (simp add: scalar_small)
  next
    case 2
    with ok obtain b s' rs' where "s = b # s'" "cont b" "runes_of s' = Some rs'"
      "rs = ((a - 192) * 64 + (b - 128)) # rs'" by (auto split: list.splits if_splits)
    with IH(2) 2 show ?thesis by (simp add: scalar2)
  next
    case 3
    with ok obtain b c s' rs' where "s = b # c # s'" "cont b" "cont c" "a = 237 \<longrightarrow> b \<le> 159"
      "runes_of s' = Some rs'" "a = 224 \<longrightarrow> 160 \<le> b"
      "rs = ((a - 224) * 4096 + (b - 128) * 64 + (c - 128)) # rs'"
      by (simp split: list.splits if_splits) auto
    with IH(3) 3 show ?thesis by (simp add: scalar3)
  next
    case 4
    with ok obtain b c d s' rs' where "s = b # c # d # s'" "cont b" "cont c" "cont d"
      "a = 240 \<longrightarrow> 144 \<le> b" "a = 244 \<longrightarrow> b \<le> 143" "runes_of s' = Some rs'"
      "rs = ((a - 240) * 262144 + (b - 128) * 4096 + (c - 128) * 64 + (d - 128)) # rs'"
      by (simp split: list.splits if_splits) auto
    with IH(4) 4 show ?thesis by (simp add: scalar4)
  qed
qed simp

end
