(* ===== verification/Invite.thy ===== *)
theory Invite
  imports Utf8 Peer
begin

text \<open>
  contact/invite.go: the invitation link
  molva://add/<base58(id || crc32(id))>?a=<alias>. The text comes from outside,
  so parsing is total. The parts of net/url, math/big and hash/crc32 the source
  uses are written out: the split of a URL into scheme, authority, path and
  query with percent decoding, big-endian numbers, the reflected CRC.
\<close>

definition inviteScheme :: string where "inviteScheme = ''molva''"
definition inviteHost :: string where "inviteHost = ''add''"
definition MaxAliasLen :: nat where "MaxAliasLen = 64"
definition maxInviteCodeLen :: nat where "maxInviteCodeLen = 96"

datatype invite_err = IErrBadInvite | IErrBadChecksum | IErrBadInviteLen

definition base58Alphabet :: string where
  "base58Alphabet = ''123456789ABCDEFGHJKLMNPQRSTUVWXYZabcdefghijkmnopqrstuvwxyz''"

section \<open>Numbers\<close>

text \<open>big.Int SetBytes and Bytes: big-endian, no leading zero.\<close>

definition bytes_nat :: "bytes \<Rightarrow> nat" where
  "bytes_nat bs = foldl (\<lambda>x b. x * 256 + unat b) 0 bs"

fun nat_bytes :: "nat \<Rightarrow> bytes" where
  "nat_bytes n = (if n = 0 then [] else nat_bytes (n div 256) @ [of_nat (n mod 256)])"

text \<open>The DivMod loop: base-58 digits, the lowest first.\<close>

fun digits58 :: "nat \<Rightarrow> nat list" where
  "digits58 x = (if x = 0 then [] else (x mod 58) # digits58 (x div 58))"

declare nat_bytes.simps [simp del] digits58.simps [simp del]

definition base58_encode :: "bytes \<Rightarrow> string" where
  "base58_encode b =
     (let zeros = length (takeWhile (\<lambda>x. x = 0) b);
          out = map ((!) base58Alphabet) (digits58 (bytes_nat b)) @ replicate zeros (base58Alphabet ! 0)
      in rev out)"

fun index_of :: "'a \<Rightarrow> 'a list \<Rightarrow> nat option" where
  "index_of c [] = None"
| "index_of c (x # xs) = (if x = c then Some 0 else map_option Suc (index_of c xs))"

fun decode58 :: "nat \<Rightarrow> string \<Rightarrow> nat option" where
  "decode58 x [] = Some x"
| "decode58 x (c # cs) = (case index_of c base58Alphabet of
     None \<Rightarrow> None | Some idx \<Rightarrow> decode58 (x * 58 + idx) cs)"

definition base58_decode :: "string \<Rightarrow> invite_err + bytes" where
  "base58_decode s =
     bindR (of_opt IErrBadInvite (decode58 0 s)) (\<lambda>x.
     Inr (replicate (length (takeWhile (\<lambda>c. c = base58Alphabet ! 0) s)) 0 @ nat_bytes x))"

text \<open>crc32.ChecksumIEEE: bit by bit, polynomial 0xEDB88320.\<close>

definition crc_step :: "u32 \<Rightarrow> u32" where
  "crc_step c = (if bit c 0 then drop_bit 1 c XOR 0xEDB88320 else drop_bit 1 c)"

definition crc32 :: "bytes \<Rightarrow> u32" where
  "crc32 bs = NOT (fold (\<lambda>b c. (crc_step ^^ 8) (c XOR ucast b)) bs 0xFFFFFFFF)"

section \<open>Aliases\<close>

definition is_invisible :: "nat \<Rightarrow> bool" where
  "is_invisible r \<longleftrightarrow> r = 0x200B \<or> r = 0x200C \<or> r = 0x200D \<or> r = 0x200E \<or> r = 0x200F
     \<or> (0x202A \<le> r \<and> r \<le> 0x202E) \<or> r = 0x2060 \<or> r = 0xFEFF \<or> (0x2066 \<le> r \<and> r \<le> 0x2069)"

definition alias_rune :: "nat \<Rightarrow> bool" where
  "alias_rune r \<longleftrightarrow> \<not> (r < 0x20 \<or> r = 0x7f \<or> is_invisible r)"

definition clamp_alias :: "string \<Rightarrow> string" where
  "clamp_alias a = (case runes a of None \<Rightarrow> ''''
     | Some rs \<Rightarrow> of_runes (trim_runes (take MaxAliasLen (filter alias_rune rs))))"

section \<open>URLs\<close>

definition is_alpha :: "char \<Rightarrow> bool" where
  "is_alpha c \<longleftrightarrow> (let n = of_char c :: nat in (97 \<le> n \<and> n \<le> 122) \<or> (65 \<le> n \<and> n \<le> 90))"

definition is_digit :: "char \<Rightarrow> bool" where
  "is_digit c \<longleftrightarrow> (let n = of_char c :: nat in 48 \<le> n \<and> n \<le> 57)"

definition lower :: "char \<Rightarrow> char" where
  "lower c = (let n = of_char c :: nat in if 65 \<le> n \<and> n \<le> 90 then char_of (n + 32) else c)"

text \<open>strings.Cut: before and after the first separator; None when there is none.\<close>

fun cut :: "char \<Rightarrow> string \<Rightarrow> (string \<times> string) option" where
  "cut sep [] = None"
| "cut sep (c # cs) = (if c = sep then Some ([], cs)
     else map_option (\<lambda>(a, b). (c # a, b)) (cut sep cs))"

definition before :: "char \<Rightarrow> string \<Rightarrow> string" where
  "before sep s = (case cut sep s of None \<Rightarrow> s | Some (a, b) \<Rightarrow> a)"

definition after :: "char \<Rightarrow> string \<Rightarrow> string" where
  "after sep s = (case cut sep s of None \<Rightarrow> '''' | Some (a, b) \<Rightarrow> b)"

definition unhex :: "char \<Rightarrow> nat option" where
  "unhex c = (let n = of_char c :: nat in
     if 48 \<le> n \<and> n \<le> 57 then Some (n - 48)
     else if 97 \<le> n \<and> n \<le> 102 then Some (n - 87)
     else if 65 \<le> n \<and> n \<le> 70 then Some (n - 55) else None)"

text \<open>url.unescape: percent triples; a plus is a space in a query.\<close>

fun unescape :: "bool \<Rightarrow> string \<Rightarrow> string option" where
  "unescape q [] = Some []"
| "unescape q (c # s) =
     (if c = CHR ''%'' then
        (case s of h # l # s' \<Rightarrow> (case (unhex h, unhex l) of
             (Some a, Some b) \<Rightarrow> map_option ((#) (char_of (16 * a + b))) (unescape q s')
           | _ \<Rightarrow> None)
         | _ \<Rightarrow> None)
      else map_option ((#) (if q \<and> c = CHR ''+'' then CHR '' '' else c)) (unescape q s))"

record url =
  u_scheme :: string
  u_host :: string
  u_path :: string
  u_query :: string

text \<open>getScheme: None for a colon in front; the scheme may be absent.\<close>

fun scheme_loop :: "nat \<Rightarrow> string \<Rightarrow> string \<Rightarrow> string \<Rightarrow> (string \<times> string) option" where
  "scheme_loop i raw acc [] = Some ([], raw)"
| "scheme_loop i raw acc (c # cs) =
     (if is_alpha c then scheme_loop (Suc i) raw (acc @ [c]) cs
      else if is_digit c \<or> c = CHR ''+'' \<or> c = CHR ''-'' \<or> c = CHR ''.'' then
        (if i = 0 then Some ([], raw) else scheme_loop (Suc i) raw (acc @ [c]) cs)
      else if c = CHR '':'' then (if i = 0 then None else Some (acc, cs))
      else Some ([], raw))"

definition user_char :: "char \<Rightarrow> bool" where
  "user_char c \<longleftrightarrow> is_alpha c \<or> is_digit c \<or> c \<in> set ''-._:~!$&()*+,;=%@'' \<or> c = CHR 0x27"

text \<open>
  The host of an authority, None when it does not parse. A bracketed address or
  a percent triple never decodes to the invitation's host, so both are None
  here; the port must be digits.
\<close>

definition parse_authority :: "string \<Rightarrow> string option" where
  "parse_authority a =
     (let user = rev (after (CHR ''@'') (rev a)); host = rev (before (CHR ''@'') (rev a));
          port = rev (before (CHR '':'') (rev host)) in
      if CHR ''@'' \<in> set a \<and> (\<not> list_all user_char user \<or> unescape False user = None) then None
      else if CHR ''['' \<in> set host \<or> CHR ''%'' \<in> set host then None
      else if CHR '':'' \<in> set host \<and> \<not> list_all is_digit port then None
      else Some host)"

definition ctl_byte :: "char \<Rightarrow> bool" where
  "ctl_byte c \<longleftrightarrow> (of_char c :: nat) < 32 \<or> (of_char c :: nat) = 127"

text \<open>url.Parse, for the forms with a scheme; without one the scheme is empty.\<close>

definition parse_url :: "string \<Rightarrow> url option" where
  "parse_url raw0 =
     (let raw = before (CHR ''#'') raw0; frag = after (CHR ''#'') raw0 in
      if list_ex ctl_byte raw \<or> unescape False frag = None then None
      else case scheme_loop 0 raw [] raw of None \<Rightarrow> None
      | Some (scheme, rest0) \<Rightarrow>
        (let rest = before (CHR ''?'') rest0; query = after (CHR ''?'') rest0;
             u = \<lparr>u_scheme = map lower scheme, u_host = '''', u_path = '''', u_query = query\<rparr> in
         if take 1 rest \<noteq> ''/'' then
           (if scheme = '''' \<and> CHR '':'' \<in> set (before (CHR ''/'') rest) then None else Some u)
         else if take 2 rest = ''//'' \<and> (scheme \<noteq> '''' \<or> take 3 rest \<noteq> ''///'') then
           (let auth = before (CHR ''/'') (drop 2 rest); path = drop (2 + length auth) rest in
            case (parse_authority auth, unescape False path) of
              (Some h, Some p) \<Rightarrow> Some (u\<lparr>u_host := h, u_path := p\<rparr>)
            | _ \<Rightarrow> None)
         else map_option (\<lambda>p. u\<lparr>u_path := p\<rparr>) (unescape False rest)))"

lemma cut_length: "cut c s = Some (a, b) \<Longrightarrow> length a + length b < length s"
  by (induction s arbitrary: a b) (auto split: if_splits)

lemma after_length: "s \<noteq> [] \<Longrightarrow> length (after c s) < length s"
  by (auto simp: after_def split: option.splits dest: cut_length)

text \<open>url.ParseQuery and Get: the first pair under the key whose parts decode.\<close>

function query_get :: "string \<Rightarrow> string \<Rightarrow> string" where
  "query_get key q =
     (if q = '''' then ''''
      else let pair = before (CHR ''&'') q; rest = after (CHR ''&'') q in
        if CHR '';'' \<in> set pair \<or> pair = '''' then query_get key rest
        else case (unescape True (before (CHR ''='') pair), unescape True (after (CHR ''='') pair)) of
            (Some k, Some v) \<Rightarrow> if k = key then v else query_get key rest
          | _ \<Rightarrow> query_get key rest)"
  by pat_completeness auto
termination
  by (relation "measure (\<lambda>(key, q). length q)") (auto intro: after_length)

declare query_get.simps [simp del]

definition upper_hex :: "nat \<Rightarrow> char" where
  "upper_hex n = ''0123456789ABCDEF'' ! n"

text \<open>url.QueryEscape\<close>

definition unreserved :: "char \<Rightarrow> bool" where
  "unreserved c \<longleftrightarrow> is_alpha c \<or> is_digit c \<or> c \<in> set ''-_.~''"

definition escape_char :: "char \<Rightarrow> string" where
  "escape_char c = (if c = CHR '' '' then ''+'' else if unreserved c then [c]
     else [CHR ''%'', upper_hex (of_char c div 16), upper_hex (of_char c mod 16)])"

definition query_escape :: "string \<Rightarrow> string" where
  "query_escape s = concat (map escape_char s)"

section \<open>Invitations\<close>

definition encode_invite :: "peer_id \<Rightarrow> string \<Rightarrow> string" where
  "encode_invite p alias =
     (let payload = id_bytes p @ be32 (crc32 (id_bytes p));
          s = inviteScheme @ ''://'' @ inviteHost @ ''/'' @ base58_encode payload
      in if alias = '''' then s else s @ ''?a='' @ query_escape (clamp_alias alias))"

definition trim_prefix :: "char \<Rightarrow> string \<Rightarrow> string" where
  "trim_prefix c s = (if take 1 s = [c] then drop 1 s else s)"

definition parse_invite :: "string \<Rightarrow> invite_err + (peer_id \<times> string)" where
  "parse_invite s =
     bindR (of_opt IErrBadInvite (parse_url (trim_string s))) (\<lambda>u.
     if u_scheme u \<noteq> inviteScheme \<or> u_host u \<noteq> inviteHost then Inl IErrBadInvite
     else let code = trim_prefix (CHR ''/'') (u_path u) in
       if code = '''' \<or> CHR ''/'' \<in> set code then Inl IErrBadInvite
       else if maxInviteCodeLen < length code then Inl IErrBadInviteLen
       else bindR (base58_decode code) (\<lambda>payload.
         if length payload \<noteq> IDLen + 4 then Inl IErrBadInviteLen
         else if crc32 (take IDLen payload) \<noteq> un_be32 (drop IDLen payload) then Inl IErrBadChecksum
         else Inr (PeerID (take IDLen payload), clamp_alias (query_get ''a'' (u_query u)))))"

section \<open>Numbers and digits\<close>

lemma bytes_nat_snoc: "bytes_nat (bs @ [b]) = bytes_nat bs * 256 + unat b"
  by (simp add: bytes_nat_def)

lemma bytes_nat_Nil [simp]: "bytes_nat [] = 0"
  by (simp add: bytes_nat_def)

lemma byte_lt: "unat (b :: byte) < 256"
  using unsigned_less [of b, where ?'a = nat] by simp

lemma bytes_nat_zeros: "bytes_nat (replicate n 0 @ bs) = bytes_nat bs"
proof -
  have "foldl (\<lambda>x b. x * 256 + unat b) 0 (replicate n (0 :: byte)) = 0" by (induction n) simp_all
  then show ?thesis by (simp add: bytes_nat_def)
qed

lemma nat_bytes_bytes_nat: "bs = [] \<or> hd bs \<noteq> 0 \<Longrightarrow> nat_bytes (bytes_nat bs) = bs"
proof (induction bs rule: rev_induct)
  case (snoc b bs)
  have pos: "bytes_nat bs \<noteq> 0" if "bs \<noteq> []" "hd bs \<noteq> 0" for bs
    using that
  proof (induction bs rule: rev_induct)
    case (snoc c cs)
    then show ?case
      by (cases "cs = []") (simp_all add: bytes_nat_def unsigned_eq_0_iff)
  qed simp
  show ?case
  proof (cases bs)
    case Nil
    with snoc.prems have "unat b \<noteq> 0" by (simp add: unsigned_eq_0_iff)
    with Nil show ?thesis
      using byte_lt [of b] by (simp add: bytes_nat_def nat_bytes.simps [of "unat b"]) (simp add: nat_bytes.simps)
  next
    case (Cons c cs)
    with snoc.prems have h: "hd bs \<noteq> 0" by simp
    then have "nat_bytes (bytes_nat bs) = bs" using snoc.IH by simp
    moreover have "bytes_nat (bs @ [b]) \<noteq> 0" using pos [of "bs @ [b]"] h Cons by simp
    ultimately show ?thesis
      using byte_lt [of b] by (subst nat_bytes.simps) (simp add: bytes_nat_snoc)
  qed
qed (simp add: nat_bytes.simps)

lemma index_of_nth: "distinct xs \<Longrightarrow> i < length xs \<Longrightarrow> index_of (xs ! i) xs = Some i"
  by (induction xs arbitrary: i) (auto simp: nth_Cons' split: nat.splits)

lemma index_of_Some: "index_of c xs = Some i \<Longrightarrow> i < length xs \<and> xs ! i = c"
  by (induction xs arbitrary: i) (auto split: if_splits)

lemma alphabet: "distinct base58Alphabet" "length base58Alphabet = 58"
  by (simp_all add: base58Alphabet_def)

lemma digits58_less: "d \<in> set (digits58 x) \<Longrightarrow> d < 58"
  by (induction x rule: digits58.induct) (subst (asm) (2) digits58.simps, auto split: if_splits)

lemma decode58_append: "decode58 x (s @ t) = Option.bind (decode58 x s) (\<lambda>y. decode58 y t)"
  by (induction s arbitrary: x) (auto split: option.splits)

lemma decode58_digits: "decode58 0 (map ((!) base58Alphabet) (rev (digits58 x))) = Some x"
proof (induction x rule: digits58.induct)
  case (1 x)
  show ?case
  proof (cases "x = 0")
    case False
    with 1 have "decode58 0 (map ((!) base58Alphabet) (rev (digits58 (x div 58)))) = Some (x div 58)" by simp
    with False show ?thesis
      by (subst digits58.simps) (simp add: decode58_append index_of_nth alphabet)
  qed (simp add: digits58.simps)
qed

lemma decode58_ones: "decode58 x (replicate n (base58Alphabet ! 0) @ s) = decode58 (x * 58 ^ n) s"
proof (induction n arbitrary: x)
  case (Suc n)
  have "index_of (base58Alphabet ! 0) base58Alphabet = Some 0" by (rule index_of_nth) (simp_all add: alphabet)
  with Suc [of "x * 58"] show ?case by simp (simp add: mult.assoc mult.commute)
qed simp

text \<open>The leading digit of a number is not the zero digit.\<close>

lemma digits58_last: "x \<noteq> 0 \<Longrightarrow> digits58 x \<noteq> [] \<and> last (digits58 x) \<noteq> 0"
proof (induction x rule: digits58.induct)
  case (1 x)
  show ?case
  proof (cases "x div 58 = 0")
    case True
    then have "x < 58" by (simp add: div_eq_0_iff)
    with 1(2) show ?thesis by (simp add: digits58.simps [of x]) (simp add: digits58.simps)
  next
    case False
    with 1 show ?thesis by (subst (1 2) digits58.simps) simp
  qed
qed

lemma takeWhile_replicate: "takeWhile (\<lambda>x. x = c) xs = replicate (length (takeWhile (\<lambda>x. x = c) xs)) c"
  by (induction xs) auto

lemma base58_decode_encode: "base58_decode (base58_encode b) = Inr b"
proof -
  let ?z = "length (takeWhile (\<lambda>x. x = 0) b)"
  let ?x = "bytes_nat b"
  have b: "b = replicate ?z 0 @ dropWhile (\<lambda>x. x = 0) b"
    by (subst takeWhile_replicate [symmetric]) simp
  let ?t = "dropWhile (\<lambda>x. x = 0) b"
  have t: "?t = [] \<or> hd ?t \<noteq> 0" using hd_dropWhile [of "\<lambda>x. x = 0" b] by auto
  have x: "?x = bytes_nat ?t" by (subst b) (rule bytes_nat_zeros)
  let ?ds = "map ((!) base58Alphabet) (rev (digits58 ?x))"
  have enc: "base58_encode b = replicate ?z (base58Alphabet ! 0) @ ?ds"
    by (simp add: base58_encode_def Let_def rev_map)
  have "takeWhile (\<lambda>c. c = base58Alphabet ! 0) ?ds = []"
  proof (cases "?x = 0")
    case False
    then have "hd (rev (digits58 ?x)) \<noteq> 0" "hd (rev (digits58 ?x)) < 58" "digits58 ?x \<noteq> []"
      using digits58_last [OF False] digits58_less [of "last (digits58 ?x)" ?x] by (simp_all add: hd_rev)
    moreover have "base58Alphabet ! d = base58Alphabet ! 0 \<longleftrightarrow> d = 0" if "d < 58" for d
      using that nth_eq_iff_index_eq [OF alphabet(1)] alphabet(2) by simp
    ultimately show ?thesis by (cases "rev (digits58 ?x)") auto
  qed (simp add: digits58.simps)
  then have "length (takeWhile (\<lambda>c. c = base58Alphabet ! 0) (base58_encode b)) = ?z"
    unfolding enc by (simp add: takeWhile_append)
  moreover have "decode58 0 (base58_encode b) = Some ?x"
    unfolding enc decode58_ones by (simp add: decode58_digits)
  ultimately show ?thesis
    using b nat_bytes_bytes_nat [OF t] unfolding base58_decode_def x by simp
qed

section \<open>Aliases and escapes\<close>

lemma in_trim: "r \<in> set (trim_runes rs) \<Longrightarrow> r \<in> set rs"
  by (metis set_dropWhileD set_rev trim_runes_def)

lemma trim_length: "length (trim_runes rs) \<le> length rs"
  by (simp add: trim_runes_def) (metis le_trans length_dropWhile_le length_rev)

lemma trim_runes_id: "rs = [] \<or> (\<not> rune_space (hd rs) \<and> \<not> rune_space (last rs)) \<Longrightarrow> trim_runes rs = rs"
proof -
  assume s: "rs = [] \<or> (\<not> rune_space (hd rs) \<and> \<not> rune_space (last rs))"
  then have "dropWhile rune_space rs = rs" "dropWhile rune_space (rev rs) = rev rs"
    by (auto simp: dropWhile_eq_self_iff hd_rev)
  then show ?thesis by (simp add: trim_runes_def)
qed

lemma trim_result_ends:
  "trim_runes rs = [] \<or> (\<not> rune_space (hd (trim_runes rs)) \<and> \<not> rune_space (last (trim_runes rs)))"
proof -
  let ?a = "dropWhile rune_space rs"
  let ?b = "dropWhile rune_space (rev ?a)"
  show ?thesis unfolding trim_runes_def
  proof (cases "?b = []")
    case False
    then have l: "\<not> rune_space (last (rev ?b))" using hd_dropWhile [OF False] by (simp add: last_rev)
    have "?a \<noteq> []" using False by (metis dropWhile.simps(1) rev.simps(1))
    then have h: "\<not> rune_space (hd ?a)" by (rule hd_dropWhile)
    have "last ?b = last (rev ?a)"
      using False by (metis last_appendR takeWhile_dropWhile_id)
    then have "hd (rev ?b) = hd ?a" using False \<open>?a \<noteq> []\<close> by (simp add: hd_rev last_rev)
    with h l show "rev ?b = [] \<or> (\<not> rune_space (hd (rev ?b)) \<and> \<not> rune_space (last (rev ?b)))" by simp
  qed simp
qed

lemma trim_trim: "trim_runes (trim_runes rs) = trim_runes rs"
  by (rule trim_runes_id [OF trim_result_ends])

lemma trim_ends: "trim_runes rs = rs \<Longrightarrow> rs = [] \<or> (\<not> rune_space (hd rs) \<and> \<not> rune_space (last rs))"
  using trim_result_ends [of rs] by simp

definition good_alias :: "nat list \<Rightarrow> bool" where
  "good_alias rs \<longleftrightarrow> list_all scalar rs \<and> list_all alias_rune rs \<and> length rs \<le> MaxAliasLen \<and> trim_runes rs = rs"

lemma clamp_alias_good: "\<exists>rs. clamp_alias a = of_runes rs \<and> good_alias rs"
proof (cases "runes a")
  case None
  then show ?thesis
    by (intro exI [of _ "[]"]) (simp add: clamp_alias_def of_runes_def good_alias_def trim_runes_def)
next
  case (Some rs)
  then have "list_all scalar rs" by (auto simp: runes_def intro: runes_scalar)
  moreover have "length (trim_runes (take MaxAliasLen (filter alias_rune rs))) \<le> MaxAliasLen"
    using trim_length [of "take MaxAliasLen (filter alias_rune rs)"] by simp
  ultimately show ?thesis using Some
    by (intro exI [of _ "trim_runes (take MaxAliasLen (filter alias_rune rs))"])
      (auto simp: clamp_alias_def good_alias_def trim_trim list_all_iff dest!: in_trim in_set_takeD)
qed

lemma clamp_good: "good_alias rs \<Longrightarrow> clamp_alias (of_runes rs) = of_runes rs"
  by (auto simp: good_alias_def clamp_alias_def runes_of_runes list_all_iff filter_id_conv [THEN iffD2])

lemma clamp_clamp: "clamp_alias (clamp_alias a) = clamp_alias a"
  using clamp_alias_good [of a] clamp_good by auto

lemma char_high: "(of_char c :: nat) div 16 < 16"
proof -
  show ?thesis using nat_of_char_less_256 [of c] by (intro less_mult_imp_div_less) simp
qed

lemma hex_round: "n < 16 \<Longrightarrow> unhex (upper_hex n) = Some n"
proof -
  have "list_all (\<lambda>n. unhex (upper_hex n) = Some n) [0..<16]"
    by (simp add: upper_hex_def unhex_def upt_rec)
  then show "n < 16 \<Longrightarrow> unhex (upper_hex n) = Some n" by (simp add: list_all_iff)
qed

lemma unescape_escape: "unescape True (query_escape s) = Some s"
proof (induction s)
  case (Cons c s)
  have "unescape True (escape_char c @ t) = map_option ((#) c) (unescape True t)" for t
  proof (cases "c = CHR '' '' \<or> unreserved c")
    case True
    moreover have "unreserved c \<Longrightarrow> c \<noteq> CHR ''%'' \<and> c \<noteq> CHR ''+''"
      by (auto simp: unreserved_def is_alpha_def is_digit_def)
    ultimately show ?thesis by (auto simp: escape_char_def)
  next
    case False
    have "(of_char c :: nat) div 16 < 16" by (rule char_high)
    then have "unhex (upper_hex (of_char c div 16)) = Some (of_char c div 16)"
      "unhex (upper_hex (of_char c mod 16)) = Some (of_char c mod 16)" by (simp_all add: hex_round)
    with False show ?thesis by (simp add: escape_char_def)
  qed
  with Cons show ?case by (simp add: query_escape_def)
qed (simp add: query_escape_def)

text \<open>The letters of a link: printable ASCII without the delimiters.\<close>

definition plain :: "char \<Rightarrow> bool" where
  "plain c \<longleftrightarrow> 32 < (of_char c :: nat) \<and> (of_char c :: nat) < 127 \<and> c \<notin> set ''#?/:@&;=[''"

lemma escape_plain: "c \<in> set (query_escape s) \<Longrightarrow> plain c"
proof -
  have hex: "n < 16 \<Longrightarrow> plain (upper_hex n)" for n
  proof -
    have "list_all (\<lambda>n. plain (upper_hex n)) [0..<16]" by (simp add: plain_def upper_hex_def upt_rec)
    then show "n < 16 \<Longrightarrow> plain (upper_hex n)" by (simp add: list_all_iff)
  qed
  have un: "unreserved c \<Longrightarrow> plain c" for c
    by (auto simp: unreserved_def plain_def is_alpha_def is_digit_def Let_def)
  have "(of_char c :: nat) div 16 < 16" for c
    by (rule char_high)
  then have "plain x" if "x \<in> set (escape_char c)" for x c
    using that hex un by (auto simp: escape_char_def split: if_splits) (simp_all add: plain_def)
  then show "c \<in> set (query_escape s) \<Longrightarrow> plain c" by (auto simp: query_escape_def)
qed

lemma alphabet_plain: "c \<in> set base58Alphabet \<Longrightarrow> plain c \<and> c \<noteq> CHR ''%''"
proof -
  have "list_all (\<lambda>c. plain c \<and> c \<noteq> CHR ''%'') base58Alphabet" by (simp add: base58Alphabet_def plain_def)
  then show "c \<in> set base58Alphabet \<Longrightarrow> plain c \<and> c \<noteq> CHR ''%''" by (simp add: list_all_iff)
qed

lemma base58_plain: "c \<in> set (base58_encode b) \<Longrightarrow> plain c \<and> c \<noteq> CHR ''%''"
proof -
  have "set (base58_encode b) \<subseteq> set base58Alphabet"
    using alphabet(2) digits58_less [of _ "bytes_nat b"] by (auto simp: base58_encode_def Let_def)
  then show "c \<in> set (base58_encode b) \<Longrightarrow> plain c \<and> c \<noteq> CHR ''%''" using alphabet_plain by blast
qed

section \<open>The link\<close>

lemma cut_none: "c \<notin> set s \<Longrightarrow> cut c s = None"
  by (induction s) auto

lemma cut_at: "c \<notin> set a \<Longrightarrow> cut c (a @ c # b) = Some (a, b)"
  by (induction a) auto

lemma before_none: "c \<notin> set s \<Longrightarrow> before c s = s" "c \<notin> set s \<Longrightarrow> after c s = ''''"
  by (simp_all add: before_def after_def cut_none)

lemma before_at: "c \<notin> set a \<Longrightarrow> before c (a @ c # b) = a" "c \<notin> set a \<Longrightarrow> after c (a @ c # b) = b"
  by (simp_all add: before_def after_def cut_at)

lemma unescape_plain: "CHR ''%'' \<notin> set s \<Longrightarrow> unescape False s = Some s"
  by (induction s) auto

lemma runes_ascii: "list_all (\<lambda>c. (of_char c :: nat) < 128) s \<Longrightarrow> runes s = Some (codes s)"
proof -
  have "list_all (\<lambda>n. n < 128) cs \<Longrightarrow> runes_of cs = Some cs" for cs by (induction cs) auto
  then show "list_all (\<lambda>c. (of_char c :: nat) < 128) s \<Longrightarrow> runes s = Some (codes s)"
    by (simp add: runes_def codes_def list_all_iff)
qed

lemma of_runes_ascii: "list_all (\<lambda>c. (of_char c :: nat) < 128) s \<Longrightarrow> of_runes (codes s) = s"
  by (induction s) (simp_all add: of_runes_def codes_def rune_codes_def)

lemma parse_link:
  assumes code: "\<And>c. c \<in> set code \<Longrightarrow> plain c \<and> c \<noteq> CHR ''%''"
    and q: "tail = '''' \<and> query = '''' \<or> tail = CHR ''?'' # query" and qp: "\<And>c. c \<in> set query \<Longrightarrow> plain c \<or> c = CHR ''=''"
  shows "parse_url (trim_string (inviteScheme @ ''://'' @ inviteHost @ ''/'' @ code @ tail))
    = Some \<lparr>u_scheme = inviteScheme, u_host = inviteHost, u_path = ''/'' @ code, u_query = query\<rparr>"
proof -
  let ?link = "inviteScheme @ ''://'' @ inviteHost @ ''/'' @ code @ tail"
  have qpl: "32 < (of_char c :: nat) \<and> (of_char c :: nat) < 127" if "c \<in> set query" for c
    using qp [OF that] by (auto simp: plain_def)
  have print: "list_all (\<lambda>c. 32 < (of_char c :: nat) \<and> (of_char c :: nat) < 127) ?link"
    using code qpl q by (auto simp: list_all_iff plain_def inviteScheme_def inviteHost_def)
  then have "\<not> ctl_byte c" if "c \<in> set ?link" for c
    using that unfolding list_all_iff ctl_byte_def by (metis less_imp_not_less nat_neq_iff)
  then have ctl: "\<not> list_ex ctl_byte ?link" unfolding list_ex_iff by blast
  have "CHR ''#'' \<notin> set query" "CHR ''#'' \<notin> set code"
    using qp [of "CHR ''#''"] code [of "CHR ''#''"] by (auto simp: plain_def)
  then have nofrag: "CHR ''#'' \<notin> set ?link"
    using q by (auto simp: inviteScheme_def inviteHost_def)
  have scheme: "scheme_loop 0 ?link [] ?link = Some (''molva'', ''//add/'' @ code @ tail)"
    by (simp add: inviteScheme_def inviteHost_def is_alpha_def is_digit_def Let_def)
  have noq: "CHR ''?'' \<notin> set (''//add/'' @ code)" using code by (auto simp: plain_def)
  have split: "before (CHR ''?'') (''//add/'' @ code @ tail) = ''//add/'' @ code"
      "after (CHR ''?'') (''//add/'' @ code @ tail) = query"
    using q before_at [OF noq, of query] before_none [OF noq] by auto
  have auth: "parse_authority ''add'' = Some ''add''"
    by (simp add: parse_authority_def before_def after_def)
  have path: "unescape False code = Some code"
    using code by (intro unescape_plain) auto
  have low: "map lower ''molva'' = ''molva''" by (simp add: lower_def Let_def)
  have host: "before (CHR ''/'') (''add/'' @ code) = ''add''"
    using before_at(1) [of "CHR ''/''" "''add''" code] by simp
  show ?thesis
    unfolding trim_id [OF trimmed_graphic [OF print]] parse_url_def Let_def before_none [OF nofrag]
    by (simp only: ctl scheme split unescape.simps option.simps if_False de_Morgan_disj not_False_eq_True
        simp_thms prod.case)
      (simp add: auth path low [simplified] host [simplified] inviteScheme_def inviteHost_def)
qed

lemma digits58_length: "x < 58 ^ k \<Longrightarrow> length (digits58 x) \<le> k"
proof (induction k arbitrary: x)
  case (Suc k)
  then have "x div 58 < 58 ^ k" by (simp add: less_mult_imp_div_less mult.commute)
  with Suc.IH [of "x div 58"] show ?case by (subst digits58.simps) simp
qed (simp add: digits58.simps)

lemma bytes_nat_less: "bytes_nat bs < 256 ^ length bs"
proof (induction bs rule: rev_induct)
  case (snoc b bs)
  then have "bytes_nat bs * 256 + unat b < (bytes_nat bs + 1) * 256" using byte_lt [of b] by simp
  also have "\<dots> \<le> 256 ^ length bs * 256" using snoc by (intro mult_le_mono1) simp
  finally show ?case by (simp add: bytes_nat_snoc)
qed simp

lemma base58_length: "length b = 36 \<Longrightarrow> length (base58_encode b) \<le> maxInviteCodeLen \<and> base58_encode b \<noteq> ''''"
proof -
  assume b: "length b = 36"
  have "bytes_nat b < 256 ^ 36" using bytes_nat_less [of b] b by simp
  also have "\<dots> \<le> 58 ^ 50" by simp
  finally have "length (digits58 (bytes_nat b)) \<le> 50" by (rule digits58_length)
  moreover have "length (takeWhile (\<lambda>x. x = 0) b) \<le> 36" using length_takeWhile_le [of _ b] b by simp
  moreover have "base58_encode b \<noteq> ''''"
  proof
    assume "base58_encode b = ''''"
    then have "base58_decode '''' = Inr b" using base58_decode_encode [of b] by simp
    then have "b = []" by (simp add: base58_decode_def nat_bytes.simps)
    with b show False by simp
  qed
  ultimately show ?thesis by (simp add: base58_encode_def Let_def maxInviteCodeLen_def)
qed

text \<open>
  C8. An invitation brings its identifier across exactly: the link made for any
  well-formed identifier and any suggested alias parses back to that identifier
  and to the cleaned alias, with no length or checksum refusal.
\<close>

theorem invite_roundtrip:
  assumes "wf_peer p"
  shows "parse_invite (encode_invite p alias) = Inr (p, clamp_alias alias)"
proof -
  let ?pay = "id_bytes p @ be32 (crc32 (id_bytes p))"
  let ?code = "base58_encode ?pay"
  let ?q = "if alias = '''' then '''' else ''a='' @ query_escape (clamp_alias alias)"
  let ?tail = "if alias = '''' then '''' else CHR ''?'' # ?q"
  have len: "length (id_bytes p) = 32" using assms by (simp add: wf_peer_def IDLen_def)
  have link: "encode_invite p alias = inviteScheme @ ''://'' @ inviteHost @ ''/'' @ ?code @ ?tail"
    by (simp add: encode_invite_def Let_def)
  have url: "parse_url (trim_string (encode_invite p alias))
      = Some \<lparr>u_scheme = inviteScheme, u_host = inviteHost, u_path = ''/'' @ ?code, u_query = ?q\<rparr>"
    unfolding link
  proof (rule parse_link)
    show "c \<in> set ?code \<Longrightarrow> plain c \<and> c \<noteq> CHR ''%''" for c by (rule base58_plain)
    show "c \<in> set ?q \<Longrightarrow> plain c \<or> c = CHR ''=''" for c
      by (auto simp: plain_def split: if_splits dest: escape_plain)
  qed simp
  have nosl: "CHR ''/'' \<notin> set ?code" using base58_plain [of "CHR ''/''" ?pay] by (auto simp: plain_def)
  have get: "clamp_alias (query_get ''a'' ?q) = clamp_alias alias"
  proof (cases "alias = ''''")
    case True
    then show ?thesis by (simp add: query_get.simps)
  next
    case False
    let ?e = "query_escape (clamp_alias alias)"
    have no: "CHR ''&'' \<notin> set (''a='' @ ?e)" "CHR '';'' \<notin> set (''a='' @ ?e)" by (auto simp: plain_def dest: escape_plain)
    have "before (CHR ''='') (''a='' @ ?e) = ''a''" "after (CHR ''='') (''a='' @ ?e) = ?e"
      using before_at [of "CHR ''=''" "''a''" ?e] by simp_all
    with no False show ?thesis
      by (subst query_get.simps) (simp add: before_none unescape_escape clamp_clamp)
  qed
  show ?thesis
    using len nosl get base58_length [of ?pay]
    by (simp add: parse_invite_def url base58_decode_encode trim_prefix_def IDLen_def Let_def)
qed

lemma invite_roundtrip_witness:
  "parse_invite (encode_invite (PeerID (replicate 32 9)) ''Bob'') = Inr (PeerID (replicate 32 9), clamp_alias ''Bob'')"
  by (rule invite_roundtrip) (simp add: wf_peer_def IDLen_def)

text \<open>
  A suggested alias cannot disguise itself: whatever bytes arrive, the cleaned
  alias is valid UTF-8 of at most 64 runes, none of them a control character, a
  bidirectional control or a zero-width space, with no space at either end, and
  cleaning it again changes nothing.
\<close>

theorem alias_is_clean:
  shows "\<exists>rs. runes (clamp_alias a) = Some rs \<and> length rs \<le> MaxAliasLen
    \<and> list_all (\<lambda>r. 32 \<le> r \<and> r \<noteq> 127 \<and> \<not> is_invisible r) rs
    \<and> (rs = [] \<or> \<not> rune_space (hd rs) \<and> \<not> rune_space (last rs))
    \<and> clamp_alias (clamp_alias a) = clamp_alias a"
proof -
  obtain rs where rs: "clamp_alias a = of_runes rs" "good_alias rs" using clamp_alias_good by blast
  have "rs = [] \<or> \<not> rune_space (hd rs) \<and> \<not> rune_space (last rs)"
    using rs(2) by (auto simp: good_alias_def dest: trim_ends)
  moreover have "runes (clamp_alias a) = Some rs" using rs(2) by (simp add: rs(1) good_alias_def runes_of_runes)
  moreover have "list_all (\<lambda>r. 32 \<le> r \<and> r \<noteq> 127 \<and> \<not> is_invisible r) rs"
    using rs(2) by (auto simp: good_alias_def list_all_iff alias_rune_def)
  ultimately show ?thesis using rs(2) by (auto simp: good_alias_def clamp_clamp)
qed

end
