(* ===== verification/MediaReasm.thy ===== *)
theory MediaReasm
  imports Prelude
begin

text \<open>
  media/reasm.go: a video frame travels as independent segments
  [frame id, index, total, payload] that may arrive in any order and mixed
  with the segments of other frames; the reassembler collects at most
  \<open>reasmSlots\<close> frames at a time and drops the oldest.
\<close>

datatype media_err = MErrBadSegment | MErrNoSession | MErrBadFrame | MErrSend

definition segHeaderLen :: nat where "segHeaderLen = 6"
definition segPayload :: nat where "segPayload = 60 * 1024"
definition MaxVideoFrame :: nat where "MaxVideoFrame = 1024 * 1024"
definition reasmSlots :: nat where "reasmSlots = 4"

section \<open>Segmenting\<close>

definition seg_total :: "bytes \<Rightarrow> nat" where
  "seg_total frame = (length frame + segPayload - 1) div segPayload"

definition seg_of :: "u32 \<Rightarrow> bytes \<Rightarrow> nat \<Rightarrow> nat \<Rightarrow> bytes" where
  "seg_of frame_id frame tot i =
     (let start = i * segPayload; end = min (start + segPayload) (length frame)
      in be32 frame_id @ [of_nat i, of_nat tot] @ take (end - start) (drop start frame))"

text \<open>The loop hands every segment to the caller's emit and stops at its first error.\<close>

fun emit_segs :: "('s \<Rightarrow> bytes \<Rightarrow> media_err option \<times> 's) \<Rightarrow> 's \<Rightarrow> bytes list \<Rightarrow> media_err option \<times> 's" where
  "emit_segs emit st [] = (None, st)"
| "emit_segs emit st (seg # segs) =
     (case emit st seg of (Some e, st') \<Rightarrow> (Some e, st') | (None, st') \<Rightarrow> emit_segs emit st' segs)"

definition segment_video :: "u32 \<Rightarrow> bytes \<Rightarrow> ('s \<Rightarrow> bytes \<Rightarrow> media_err option \<times> 's) \<Rightarrow> 's
    \<Rightarrow> media_err option \<times> 's" where
  "segment_video frame_id frame emit st =
     (if length frame = 0 \<or> MaxVideoFrame < length frame then (Some MErrBadSegment, st)
      else let tot = seg_total frame in
        if 255 < tot then (Some MErrBadSegment, st)
        else emit_segs emit st (map (seg_of frame_id frame tot) [0..<tot]))"

section \<open>Reassembling\<close>

record reasm_frame =
  rf_id :: u32
  rf_total :: nat
  rf_have :: nat
  rf_parts :: "bytes option list"

type_synonym reasm = "reasm_frame list"

definition fresh_frame :: "u32 \<Rightarrow> nat \<Rightarrow> reasm_frame" where
  "fresh_frame i tot = \<lparr>rf_id = i, rf_total = tot, rf_have = 0, rf_parts = replicate tot None\<rparr>"

text \<open>Storing a part: a slot is a pointer in the source, so the slot itself is replaced.\<close>

definition put_part :: "reasm_frame \<Rightarrow> nat \<Rightarrow> bytes \<Rightarrow> reasm_frame" where
  "put_part f idx p = f\<lparr>rf_parts := (rf_parts f)[idx := Some p], rf_have := rf_have f + 1\<rparr>"

fun set_slot :: "reasm_frame \<Rightarrow> reasm \<Rightarrow> reasm" where
  "set_slot f [] = []"
| "set_slot f (s # ss) = (if rf_id s = rf_id f then f # ss else s # set_slot f ss)"

fun drop_slot :: "u32 \<Rightarrow> reasm \<Rightarrow> reasm" where
  "drop_slot i [] = []"
| "drop_slot i (s # ss) = (if rf_id s = i then ss else s # drop_slot i ss)"

definition add_slot :: "reasm_frame \<Rightarrow> reasm \<Rightarrow> reasm" where
  "add_slot f ss = (let ss' = ss @ [f] in if reasmSlots < length ss' then tl ss' else ss')"

definition glue :: "reasm_frame \<Rightarrow> bytes" where
  "glue f = concat (map (\<lambda>p. case p of None \<Rightarrow> [] | Some b \<Rightarrow> b) (rf_parts f))"

definition seg_id :: "bytes \<Rightarrow> u32" where "seg_id seg = un_be32 seg"
definition seg_idx :: "bytes \<Rightarrow> nat" where "seg_idx seg = unat (seg ! 4)"
definition seg_tot :: "bytes \<Rightarrow> nat" where "seg_tot seg = unat (seg ! 5)"

definition seg_ok :: "bytes \<Rightarrow> bool" where
  "seg_ok seg \<longleftrightarrow> segHeaderLen < length seg \<and> seg_tot seg \<noteq> 0 \<and> seg_idx seg < seg_tot seg
     \<and> length seg - segHeaderLen \<le> segPayload"

definition reasm_push :: "reasm \<Rightarrow> bytes \<Rightarrow> (media_err + bytes option) \<times> reasm" where
  "reasm_push ss seg =
     (if length seg \<le> segHeaderLen then (Inl MErrBadSegment, ss)
      else if seg_tot seg = 0 \<or> seg_tot seg \<le> seg_idx seg \<or> segPayload < length seg - segHeaderLen
        then (Inl MErrBadSegment, ss)
      else let found = find (\<lambda>s. rf_id s = seg_id seg) ss;
               f = (case found of Some s \<Rightarrow> s | None \<Rightarrow> fresh_frame (seg_id seg) (seg_tot seg));
               ss1 = (case found of Some s \<Rightarrow> ss | None \<Rightarrow> add_slot f ss)
           in if rf_total f \<noteq> seg_tot seg then (Inl MErrBadSegment, ss1)
              else if rf_parts f ! seg_idx seg \<noteq> None then (Inr None, ss1)
              else let f' = put_part f (seg_idx seg) (drop segHeaderLen seg) in
                if rf_have f' < rf_total f' then (Inr None, set_slot f' ss1)
                else if MaxVideoFrame < length (glue f') then (Inl MErrBadSegment, drop_slot (rf_id f') ss1)
                else (Inr (Some (glue f')), drop_slot (rf_id f') ss1))"

fun push_all :: "reasm \<Rightarrow> bytes list \<Rightarrow> (media_err + bytes option) list \<times> reasm" where
  "push_all ss [] = ([], ss)"
| "push_all ss (seg # segs) =
     (let q = reasm_push ss seg; t = push_all (snd q) segs in (fst q # fst t, snd t))"

section \<open>The abstract reassembler\<close>

text \<open>
  The specification keeps one partial frame per id and never evicts: what
  Push does as long as the frames in flight fit the slots.
\<close>

type_synonym reasm_spec = "u32 \<Rightarrow> reasm_frame option"

definition spec_push :: "reasm_spec \<Rightarrow> bytes \<Rightarrow> (media_err + bytes option) \<times> reasm_spec" where
  "spec_push m seg =
     (if \<not> seg_ok seg then (Inl MErrBadSegment, m)
      else let f = (case m (seg_id seg) of Some s \<Rightarrow> s | None \<Rightarrow> fresh_frame (seg_id seg) (seg_tot seg)) in
        if rf_total f \<noteq> seg_tot seg then (Inl MErrBadSegment, m)
        else if rf_parts f ! seg_idx seg \<noteq> None then (Inr None, m)
        else let f' = put_part f (seg_idx seg) (drop segHeaderLen seg) in
          if rf_have f' < rf_total f' then (Inr None, m(seg_id seg \<mapsto> f'))
          else if MaxVideoFrame < length (glue f') then (Inl MErrBadSegment, m(seg_id seg := None))
          else (Inr (Some (glue f')), m(seg_id seg := None)))"

definition abs_reasm :: "reasm \<Rightarrow> reasm_spec" where
  "abs_reasm ss i = find (\<lambda>s. rf_id s = i) ss"

definition ids :: "reasm \<Rightarrow> u32 set" where "ids ss = rf_id ` set ss"

definition slots_ok :: "reasm \<Rightarrow> bool" where
  "slots_ok ss \<longleftrightarrow> distinct (map rf_id ss) \<and> length ss \<le> reasmSlots
     \<and> (\<forall>s \<in> set ss. 0 < rf_total s \<and> length (rf_parts s) = rf_total s)"

lemma find_id: "find (\<lambda>s. rf_id s = i) ss = Some f \<Longrightarrow> f \<in> set ss \<and> rf_id f = i"
  by (auto simp: find_Some_iff)

lemma find_none_ids: "find (\<lambda>s. rf_id s = i) ss = None \<longleftrightarrow> i \<notin> ids ss"
  by (auto simp: find_None_iff ids_def)

lemma abs_set_slot: "i \<in> ids ss \<Longrightarrow> rf_id f = i \<Longrightarrow> abs_reasm (set_slot f ss) = (abs_reasm ss)(i \<mapsto> f)"
  by (induction ss) (auto simp: abs_reasm_def fun_eq_iff ids_def)

lemma abs_drop_slot: "distinct (map rf_id ss) \<Longrightarrow> abs_reasm (drop_slot i ss) = (abs_reasm ss)(i := None)"
proof (induction ss)
  case (Cons s ss)
  then show ?case by (auto simp: abs_reasm_def fun_eq_iff find_None_iff) (metis image_eqI)
qed (simp add: abs_reasm_def fun_eq_iff)

lemma abs_add_slot:
  "i \<notin> ids ss \<Longrightarrow> rf_id f = i \<Longrightarrow> length ss < reasmSlots \<Longrightarrow>
    add_slot f ss = ss @ [f] \<and> abs_reasm (ss @ [f]) = (abs_reasm ss)(i \<mapsto> f)"
proof (intro conjI)
  assume a: "i \<notin> ids ss" "rf_id f = i" "length ss < reasmSlots"
  then show "add_slot f ss = ss @ [f]" by (simp add: add_slot_def)
  from a(1,2) show "abs_reasm (ss @ [f]) = (abs_reasm ss)(i \<mapsto> f)"
    by (induction ss) (auto simp: abs_reasm_def fun_eq_iff ids_def)
qed

lemma set_set_slot: "set (set_slot f ss) \<subseteq> insert f (set ss)"
  by (induction ss) auto

lemma ids_set_slot [simp]: "map rf_id (set_slot f ss) = map rf_id ss"
  by (induction ss) auto

lemma length_set_slot [simp]: "length (set_slot f ss) = length ss"
  by (induction ss) auto

lemma set_drop_slot: "set (drop_slot i ss) \<subseteq> set ss \<and> length (drop_slot i ss) \<le> length ss"
  by (induction ss) auto

lemma distinct_drop_slot: "distinct (map rf_id ss) \<Longrightarrow> distinct (map rf_id (drop_slot i ss))"
  using set_drop_slot by (induction ss) fastforce+

lemma slots_ok_set: "slots_ok ss \<Longrightarrow> 0 < rf_total f \<Longrightarrow> length (rf_parts f) = rf_total f \<Longrightarrow> slots_ok (set_slot f ss)"
  using set_set_slot [of f ss] by (auto simp: slots_ok_def)

lemma slots_ok_drop: "slots_ok ss \<Longrightarrow> slots_ok (drop_slot i ss)"
  using set_drop_slot [of i ss] by (auto simp: slots_ok_def distinct_drop_slot)

lemma slots_ok_add:
  assumes "slots_ok ss" "rf_id f \<notin> ids ss" "0 < rf_total f" "length (rf_parts f) = rf_total f"
  shows "slots_ok (add_slot f ss)"
proof (cases "reasmSlots < length (ss @ [f])")
  case True
  then obtain s ss' where ss: "ss = s # ss'" by (cases ss) (auto simp: reasmSlots_def)
  with True assms show ?thesis by (auto simp: add_slot_def slots_ok_def ids_def)
qed (use assms in \<open>auto simp: add_slot_def slots_ok_def ids_def\<close>)

lemma put_part_simps [simp]:
  "rf_id (put_part f i p) = rf_id f" "rf_total (put_part f i p) = rf_total f"
  "rf_have (put_part f i p) = rf_have f + 1" "length (rf_parts (put_part f i p)) = length (rf_parts f)"
  by (simp_all add: put_part_def)

lemma fresh_frame_simps [simp]:
  "rf_id (fresh_frame i t) = i" "rf_total (fresh_frame i t) = t" "rf_have (fresh_frame i t) = 0"
  "rf_parts (fresh_frame i t) = replicate t None"
  by (simp_all add: fresh_frame_def)

section \<open>Refinement\<close>

lemma seg_guard: "(length seg \<le> segHeaderLen \<or> seg_tot seg = 0 \<or> seg_tot seg \<le> seg_idx seg
    \<or> segPayload < length seg - segHeaderLen) \<longleftrightarrow> \<not> seg_ok seg"
  by (auto simp: seg_ok_def)

lemma reasm_push_refines:
  assumes ok: "slots_ok ss" and room: "seg_id seg \<in> ids ss \<or> length ss < reasmSlots"
  shows "fst (reasm_push ss seg) = fst (spec_push (abs_reasm ss) seg)
    \<and> abs_reasm (snd (reasm_push ss seg)) = snd (spec_push (abs_reasm ss) seg)
    \<and> slots_ok (snd (reasm_push ss seg)) \<and> ids (snd (reasm_push ss seg)) \<subseteq> insert (seg_id seg) (ids ss)"
proof (cases "seg_ok seg")
  case False
  then have "reasm_push ss seg = (Inl MErrBadSegment, ss)"
    by (auto simp: reasm_push_def seg_ok_def)
  with False ok show ?thesis by (auto simp: spec_push_def)
next
  case seg: True
  let ?i = "seg_id seg" and ?p = "drop segHeaderLen seg"
  have g: "\<not> length seg \<le> segHeaderLen"
    "\<not> (seg_tot seg = 0 \<or> seg_tot seg \<le> seg_idx seg \<or> segPayload < length seg - segHeaderLen)"
    using seg by (auto simp: seg_ok_def)
  obtain f ss1 where f: "f = (case find (\<lambda>s. rf_id s = ?i) ss of Some s \<Rightarrow> s | None \<Rightarrow> fresh_frame ?i (seg_tot seg))"
    and ss1: "ss1 = (case find (\<lambda>s. rf_id s = ?i) ss of Some s \<Rightarrow> ss | None \<Rightarrow> add_slot f ss)" by blast
  have S: "f = (case abs_reasm ss ?i of Some s \<Rightarrow> s | None \<Rightarrow> fresh_frame ?i (seg_tot seg))"
    by (simp add: f abs_reasm_def)
  have F: "rf_id f = ?i" "slots_ok ss1" "?i \<in> ids ss1" "ids ss1 \<subseteq> insert ?i (ids ss)"
    "0 < rf_total f" "length (rf_parts f) = rf_total f"
    "abs_reasm ss1 = (if ?i \<in> ids ss then abs_reasm ss else (abs_reasm ss)(?i \<mapsto> f))"
  proof -
    have "rf_id f = ?i \<and> slots_ok ss1 \<and> ?i \<in> ids ss1 \<and> ids ss1 \<subseteq> insert ?i (ids ss)
      \<and> 0 < rf_total f \<and> length (rf_parts f) = rf_total f
      \<and> abs_reasm ss1 = (if ?i \<in> ids ss then abs_reasm ss else (abs_reasm ss)(?i \<mapsto> f))"
    proof (cases "find (\<lambda>s. rf_id s = ?i) ss")
      case None
      then have ni: "?i \<notin> ids ss" by (simp add: find_none_ids)
      have fr: "f = fresh_frame ?i (seg_tot seg)" "ss1 = add_slot f ss" using None by (simp_all add: f ss1)
      have tot: "0 < seg_tot seg" using seg by (simp add: seg_ok_def)
      have "slots_ok (add_slot f ss)" using ok ni tot by (intro slots_ok_add) (simp_all add: fr(1))
      moreover have "add_slot f ss = ss @ [f]" "abs_reasm (ss @ [f]) = (abs_reasm ss)(?i \<mapsto> f)"
        using abs_add_slot [OF ni, of f] room ni by (simp_all add: fr(1))
      ultimately show ?thesis using ni tot by (simp add: fr ids_def)
    next
      case (Some s)
      with find_id [OF Some] have "s \<in> set ss" "rf_id s = ?i" "?i \<in> ids ss"
        by (simp_all add: ids_def) (metis image_eqI)
      with Some ok show ?thesis by (auto simp: f ss1 slots_ok_def)
    qed
    then show "rf_id f = ?i" "slots_ok ss1" "?i \<in> ids ss1" "ids ss1 \<subseteq> insert ?i (ids ss)"
      "0 < rf_total f" "length (rf_parts f) = rf_total f"
      "abs_reasm ss1 = (if ?i \<in> ids ss then abs_reasm ss else (abs_reasm ss)(?i \<mapsto> f))" by simp_all
  qed
  let ?f' = "put_part f (seg_idx seg) ?p"
  have P: "reasm_push ss seg =
      (if rf_total f \<noteq> seg_tot seg then (Inl MErrBadSegment, ss1)
       else if rf_parts f ! seg_idx seg \<noteq> None then (Inr None, ss1)
       else if rf_have ?f' < rf_total ?f' then (Inr None, set_slot ?f' ss1)
       else if MaxVideoFrame < length (glue ?f') then (Inl MErrBadSegment, drop_slot ?i ss1)
       else (Inr (Some (glue ?f')), drop_slot ?i ss1))"
    unfolding reasm_push_def Let_def f [symmetric] ss1 [symmetric]
    using g by (simp add: F(1))
  have Q: "spec_push (abs_reasm ss) seg =
      (if rf_total f \<noteq> seg_tot seg then (Inl MErrBadSegment, abs_reasm ss)
       else if rf_parts f ! seg_idx seg \<noteq> None then (Inr None, abs_reasm ss)
       else if rf_have ?f' < rf_total ?f' then (Inr None, (abs_reasm ss)(?i \<mapsto> ?f'))
       else if MaxVideoFrame < length (glue ?f') then (Inl MErrBadSegment, (abs_reasm ss)(?i := None))
       else (Inr (Some (glue ?f')), (abs_reasm ss)(?i := None)))"
    unfolding spec_push_def Let_def S [symmetric] using seg by simp
  have same: "ss1 = ss \<and> abs_reasm ss1 = abs_reasm ss" if "rf_total f \<noteq> seg_tot seg \<or> rf_parts f ! seg_idx seg \<noteq> None"
    using that seg by (auto simp: f ss1 seg_ok_def split: option.splits)
  have D: "distinct (map rf_id ss1)" using F(2) by (simp add: slots_ok_def)
  have U: "abs_reasm (set_slot ?f' ss1) = (abs_reasm ss)(?i \<mapsto> ?f')"
    using abs_set_slot [OF F(3), of ?f'] F(1,7) by (auto simp: fun_upd_def fun_eq_iff)
  have V: "abs_reasm (drop_slot ?i ss1) = (abs_reasm ss)(?i := None)"
    using abs_drop_slot [OF D, of ?i] F(7) by (auto simp: fun_upd_def fun_eq_iff)
  have "slots_ok (set_slot ?f' ss1)" "slots_ok (drop_slot ?i ss1)"
    using F by (auto intro: slots_ok_set slots_ok_drop)
  moreover have "ids (set_slot ?f' ss1) = ids ss1" using ids_set_slot [of ?f' ss1]
    unfolding ids_def by (metis set_map)
  moreover have "ids (drop_slot ?i ss1) \<subseteq> ids ss1" using set_drop_slot [of ?i ss1] by (auto simp: ids_def)
  ultimately show ?thesis
    unfolding P Q using same F(2,4) U V by auto
qed

end
