(* ===== verification/MediaAdapt.thy ===== *)
theory MediaAdapt
  imports MediaReasm Codec
begin

text \<open>
  media/adapt.go: the preset ladder of a sender. A preset is the source's
  uint8; time is nanoseconds; the callback's calls are returned as the list of
  presets it was given. The receiver's feedback is twelve bytes.
\<close>

type_synonym preset = "8 word"

definition PresetAudioOnly :: preset where "PresetAudioOnly = 0"
definition Preset240 :: preset where "Preset240 = 1"
definition Preset480 :: preset where "Preset480 = 2"
definition Preset720 :: preset where "Preset720 = 3"

definition feedbackPeriod :: int where "feedbackPeriod = 100 * 1000000"
definition feedbackLen :: nat where "feedbackLen = 12"
definition upgradeAfter :: int where "upgradeAfter = 10 * 1000000000"

definition encode_feedback :: "u64 \<Rightarrow> u32 \<Rightarrow> bytes" where
  "encode_feedback period_micros received = be64 period_micros @ be32 received"

definition decode_feedback :: "bytes \<Rightarrow> (u64 \<times> u32) option" where
  "decode_feedback b =
     (if length b \<noteq> feedbackLen then None else Some (un_be64 b, un_be32 (drop 8 b)))"

record adapter =
  ad_level :: preset
  ad_max :: preset
  ad_last_drop :: u64
  ad_stable_at :: int
  ad_notify :: bool \<comment> \<open>onPreset is not nil\<close>

definition new_adapter :: "int \<Rightarrow> preset \<Rightarrow> bool \<Rightarrow> adapter" where
  "new_adapter now mx notify =
     \<lparr>ad_level = mx, ad_max = mx, ad_last_drop = 0, ad_stable_at = now, ad_notify = notify\<rparr>"

definition reset_session :: "int \<Rightarrow> adapter \<Rightarrow> adapter" where
  "reset_session now a = a\<lparr>ad_last_drop := 0, ad_stable_at := now\<rparr>"

definition degrade :: "int \<Rightarrow> adapter \<Rightarrow> adapter \<times> preset list" where
  "degrade now a =
     (let a1 = a\<lparr>ad_stable_at := now\<rparr> in
      if ad_level a1 = PresetAudioOnly then (a1, [])
      else let a2 = a1\<lparr>ad_level := ad_level a1 - 1\<rparr> in
        (a2, if ad_notify a2 then [ad_level a2] else []))"

definition observe_tx_drops :: "int \<Rightarrow> u64 \<Rightarrow> adapter \<Rightarrow> adapter \<times> preset list" where
  "observe_tx_drops now tot a =
     (if ad_last_drop a < tot then degrade now (a\<lparr>ad_last_drop := tot\<rparr>) else (a, []))"

text \<open>The comparison in float64 against 100 ms times 1.5, in whole microseconds.\<close>

definition observe_feedback :: "int \<Rightarrow> u64 \<Rightarrow> u32 \<Rightarrow> adapter \<Rightarrow> adapter \<times> preset list" where
  "observe_feedback now period_micros received a =
     (if 2 * sint period_micros > 3 * (feedbackPeriod div 1000) then degrade now a else (a, []))"

definition adapter_tick :: "int \<Rightarrow> adapter \<Rightarrow> adapter \<times> preset list" where
  "adapter_tick now a =
     (if ad_level a < ad_max a \<and> upgradeAfter \<le> now - ad_stable_at a
      then let a1 = a\<lparr>ad_level := ad_level a + 1, ad_stable_at := now\<rparr> in
        (a1, if ad_notify a1 then [ad_level a1] else [])
      else (a, []))"

section \<open>The ladder\<close>

datatype adapter_event = AReset int | ADrops int u64 | AFeedback int u64 u32 | ATick int

fun adapter_step :: "adapter_event \<Rightarrow> adapter \<Rightarrow> adapter \<times> preset list" where
  "adapter_step (AReset now) a = (reset_session now a, [])"
| "adapter_step (ADrops now tot) a = observe_tx_drops now tot a"
| "adapter_step (AFeedback now period n) a = observe_feedback now period n a"
| "adapter_step (ATick now) a = adapter_tick now a"

fun adapter_run :: "adapter_event list \<Rightarrow> adapter \<Rightarrow> adapter \<times> preset list" where
  "adapter_run [] a = (a, [])"
| "adapter_run (e # es) a =
     (let q = adapter_step e a; t = adapter_run es (fst q) in (fst t, snd q @ snd t))"

text \<open>A walk on the ladder: every level is one step from the one before.\<close>

fun ladder_walk :: "preset \<Rightarrow> preset list \<Rightarrow> bool" where
  "ladder_walk l [] = True"
| "ladder_walk l (m # ms) \<longleftrightarrow> (unat m = Suc (unat l) \<or> unat l = Suc (unat m)) \<and> ladder_walk m ms"

lemma pred_byte: "(l :: 8 word) \<noteq> 0 \<Longrightarrow> unat l = Suc (unat (l - 1))"
  by (simp add: unat_minus_one unat_gt_0)

lemma degrade_cases:
  "degrade now a = (a', ps) \<Longrightarrow> ad_stable_at a' = now \<and> ad_max a' = ad_max a \<and> ad_notify a' = ad_notify a
    \<and> ad_last_drop a' = ad_last_drop a
    \<and> (ad_level a = 0 \<and> ad_level a' = 0 \<and> ps = []
       \<or> unat (ad_level a) = Suc (unat (ad_level a')) \<and> ps = (if ad_notify a then [ad_level a'] else []))"
  by (auto simp: degrade_def Let_def PresetAudioOnly_def pred_byte split: if_splits)

lemma tick_cases:
  "adapter_tick now a = (a', ps) \<Longrightarrow> a' = a \<and> ps = []
    \<or> unat (ad_level a') = Suc (unat (ad_level a)) \<and> ad_level a < ad_max a \<and> upgradeAfter \<le> now - ad_stable_at a
      \<and> ad_stable_at a' = now \<and> ad_max a' = ad_max a \<and> ad_notify a' = ad_notify a
      \<and> ps = (if ad_notify a then [ad_level a'] else [])"
  by (auto simp: adapter_tick_def Let_def unat_Suc_less split: if_splits)

text \<open>One event moves the level by at most one, and up only after ten quiet seconds.\<close>

lemma adapter_step_cases:
  assumes "adapter_step e a = (a', ps)"
  shows "ad_max a' = ad_max a \<and> ad_notify a' = ad_notify a
    \<and> (ad_level a' = ad_level a \<and> ps = []
       \<or> (unat (ad_level a) = Suc (unat (ad_level a'))
          \<or> unat (ad_level a') = Suc (unat (ad_level a)) \<and> ad_level a < ad_max a
            \<and> (\<exists>now. e = ATick now \<and> upgradeAfter \<le> now - ad_stable_at a))
         \<and> ps = (if ad_notify a then [ad_level a'] else []))"
proof (cases e)
  case (AReset now)
  with assms show ?thesis by (auto simp: reset_session_def)
next
  case (ADrops now tot)
  with assms degrade_cases [of now "a\<lparr>ad_last_drop := tot\<rparr>" a' ps] show ?thesis
    by (auto simp: observe_tx_drops_def split: if_splits)
next
  case (AFeedback now p n)
  with assms degrade_cases [of now a a' ps] show ?thesis
    by (auto simp: observe_feedback_def split: if_splits)
next
  case (ATick now)
  with assms tick_cases [of now a a' ps] show ?thesis by auto
qed

lemma adapter_level_max:
  assumes "adapter_step e a = (a', ps)" and "ad_level a \<le> ad_max a"
  shows "ad_level a' \<le> ad_max a'"
proof -
  consider "ad_level a' = ad_level a" | "unat (ad_level a) = Suc (unat (ad_level a'))"
    | "unat (ad_level a') = Suc (unat (ad_level a))" "ad_level a < ad_max a"
    using adapter_step_cases [OF assms(1)] by blast
  then show ?thesis
    using adapter_step_cases [OF assms(1)] assms(2)
    by cases (simp_all add: word_le_nat_alt word_less_nat_alt)
qed

text \<open>
  Whatever sequence of drops, feedback, path changes and ticks the sender
  sees, its level never leaves the ladder: it stays at or below the ceiling,
  the presets reported to the caller are a walk in single steps from the
  starting one to the current one, and a step up happens only on a tick at
  least ten seconds after the last degradation, upgrade or path change.
\<close>

theorem ladder_is_safe:
  "let (a, ps) = adapter_run es (new_adapter t0 mx True) in
     ad_level a \<le> mx \<and> ladder_walk mx ps \<and> last (mx # ps) = ad_level a
     \<and> (\<forall>e a' qs. adapter_step e a = (a', qs) \<and> ad_level a < ad_level a'
          \<longrightarrow> (\<exists>now. e = ATick now \<and> upgradeAfter \<le> now - ad_stable_at a) \<and> ad_level a < mx)"
proof -
  have run: "ad_level (fst (adapter_run es a)) \<le> ad_max a \<and> ad_max (fst (adapter_run es a)) = ad_max a
      \<and> ladder_walk (ad_level a) (snd (adapter_run es a))
      \<and> last (ad_level a # snd (adapter_run es a)) = ad_level (fst (adapter_run es a))"
    if "ad_notify a" "ad_level a \<le> ad_max a" for a
    using that
  proof (induction es arbitrary: a)
    case (Cons e es)
    obtain a' ps where s: "adapter_step e a = (a', ps)" by fastforce
    note c = adapter_step_cases [OF s] and m = adapter_level_max [OF s Cons.prems(2)]
    have n': "ad_notify a'" "ad_max a' = ad_max a" using c Cons.prems(1) by simp_all
    note IH = Cons.IH [OF n'(1) m]
    from c Cons.prems(1) consider "ad_level a' = ad_level a" "ps = []"
      | "ps = [ad_level a']" "unat (ad_level a') = Suc (unat (ad_level a)) \<or> unat (ad_level a) = Suc (unat (ad_level a'))"
      by auto
    then show ?case
      using IH n'(2) by cases (simp_all add: s Let_def)
  qed simp
  have up: "(\<exists>now. e = ATick now \<and> upgradeAfter \<le> now - ad_stable_at a) \<and> ad_level a < ad_max a"
    if "adapter_step e a = (a', qs)" "ad_level a < ad_level a'" for e a a' qs
    using adapter_step_cases [OF that(1)] that(2) by (auto simp: word_less_nat_alt)
  obtain a ps where r: "adapter_run es (new_adapter t0 mx True) = (a, ps)" by fastforce
  have n: "ad_notify (new_adapter t0 mx True)" "ad_level (new_adapter t0 mx True) = mx"
    "ad_max (new_adapter t0 mx True) = mx" by (simp_all add: new_adapter_def)
  have "ad_level a \<le> mx" "ad_max a = mx" "ladder_walk mx ps" "last (mx # ps) = ad_level a"
    using run [of "new_adapter t0 mx True"] n by (simp_all add: r)
  with up [of _ a] show ?thesis by (simp add: r) blast
qed

theorem ladder_is_safe_witness:
  "let (a, ps) = adapter_run [ADrops 1 5, ATick 2] (new_adapter 0 Preset720 True) in
     ad_level a \<le> Preset720 \<and> ladder_walk Preset720 ps"
  using ladder_is_safe [of "[ADrops 1 5, ATick 2]" 0 Preset720] by (auto simp: Let_def)

section \<open>The feedback frame\<close>

lemma be64_split: "be64 w = be32 (ucast (drop_bit 32 w)) @ be32 (ucast w)"
  unfolding be64_def be32_def
  by (simp, intro conjI; rule bit_word_eqI; auto simp: bit_simps dest: bit_imp_le_length)

interpretation feedback_codec: codec "\<lambda>(p, n). encode_feedback p n"
  "\<lambda>b. of_opt MErrBadSegment (decode_feedback b)" "\<lambda>_. True"
proof unfold_locales
  show "of_opt MErrBadSegment (decode_feedback (case x of (p, n) \<Rightarrow> encode_feedback p n)) = Inr x" for x
    by (cases x) (simp add: encode_feedback_def decode_feedback_def feedbackLen_def)
next
  fix b x assume "of_opt MErrBadSegment (decode_feedback b) = Inr x"
  then have len: "length b = 12" and x: "x = (un_be64 b, un_be32 (drop 8 b))"
    by (auto simp: decode_feedback_def feedbackLen_def split: if_splits)
  have "be64 (un_be64 b) = take 8 b" using len by (intro be64_take) simp
  moreover have "be32 (un_be32 (drop 8 b)) = take 4 (drop 8 b)" using len by (intro be32_take) simp
  ultimately show "True \<and> (case x of (p, n) \<Rightarrow> encode_feedback p n) = b"
    using len by (simp add: x encode_feedback_def)
qed

end
