(* ===== verification/MediaBridge.thy ===== *)
theory MediaBridge
  imports MediaReasmThms MediaAdapt
begin

text \<open>
  media/bridge.go and media/stats.go: the bridge between the renderer's frames
  and a media session of the transport. A session is a number; the transport
  is an argument: the first channel it leaves to applications, its datagram
  limit and the result of each send. What the bridge does to the outside is
  the list of outputs a step returns, in order.
\<close>

record transport =
  tr_first_app :: byte \<comment> \<open>transport.FirstAppChannel\<close>
  tr_max_dgram :: nat \<comment> \<open>transport.MaxMediaDatagram\<close>
  tr_dgram :: "nat \<Rightarrow> byte \<Rightarrow> bytes \<Rightarrow> media_err option" \<comment> \<open>SendDatagram on a session\<close>
  tr_msg :: "nat \<Rightarrow> byte \<Rightarrow> bytes \<Rightarrow> media_err option" \<comment> \<open>SendMessage on a session\<close>

definition ChAudio :: byte where "ChAudio = 16"
definition ChVideo :: byte where "ChVideo = 17"
definition ChFeedback :: byte where "ChFeedback = 18"

datatype media_out =
  OClose nat | OPump nat int | ODatagram nat byte bytes | OMessage nat byte bytes
  | OFrame byte bytes | OPathClosed | OPreset preset

record media_stats =
  tx_frames :: nat
  tx_errors :: nat
  tx_no_session :: nat
  tx_bad_frame :: nat
  rx_frames :: nat
  rx_bad_segments :: nat

record bridge =
  br_session :: "nat option"
  br_gen :: int
  br_adapter :: "adapter option"
  br_frame_id :: u32
  br_rx :: u64
  br_ctr :: media_stats

definition new_bridge :: "adapter option \<Rightarrow> bridge" where
  "new_bridge a = \<lparr>br_session = None, br_gen = 0, br_adapter = a, br_frame_id = 0, br_rx = 0,
     br_ctr = \<lparr>tx_frames = 0, tx_errors = 0, tx_no_session = 0, tx_bad_frame = 0, rx_frames = 0,
       rx_bad_segments = 0\<rparr>\<rparr>"

definition close_old :: "nat option \<Rightarrow> media_out list" where
  "close_old s = (case s of None \<Rightarrow> [] | Some old \<Rightarrow> [OClose old])"

definition bridge_attach :: "int \<Rightarrow> nat \<Rightarrow> bridge \<Rightarrow> bridge \<times> media_out list" where
  "bridge_attach now s b =
     (b\<lparr>br_session := Some s, br_gen := br_gen b + 1,
        br_adapter := map_option (reset_session now) (br_adapter b)\<rparr>,
      close_old (br_session b) @ [OPump s (br_gen b + 1)])"

definition bridge_detach :: "bridge \<Rightarrow> bridge \<times> media_out list" where
  "bridge_detach b = (b\<lparr>br_session := None, br_gen := br_gen b + 1\<rparr>, close_old (br_session b))"

definition bridge_active :: "bridge \<Rightarrow> bool" where
  "bridge_active b = (br_session b \<noteq> None)"

definition count_tx_error :: "bridge \<Rightarrow> bridge" where
  "count_tx_error b = b\<lparr>br_ctr := (br_ctr b)\<lparr>tx_errors := tx_errors (br_ctr b) + 1\<rparr>\<rparr>"

definition count_tx_frame :: "bridge \<Rightarrow> bridge" where
  "count_tx_frame b = b\<lparr>br_ctr := (br_ctr b)\<lparr>tx_frames := tx_frames (br_ctr b) + 1\<rparr>\<rparr>"

definition send_video :: "transport \<Rightarrow> nat \<Rightarrow> bytes \<Rightarrow> bridge \<Rightarrow> media_err option \<times> bridge \<times> media_out list" where
  "send_video T s frame b =
     (let b1 = b\<lparr>br_frame_id := br_frame_id b + 1\<rparr>;
          (err, outs) = segment_video (br_frame_id b1) frame
            (\<lambda>outs seg. (tr_msg T s ChVideo seg, outs @ [OMessage s ChVideo seg])) []
      in case err of
           Some e \<Rightarrow> (Some e, count_tx_error b1, outs)
         | None \<Rightarrow> (None, count_tx_frame b1, outs))"

definition bridge_send :: "transport \<Rightarrow> byte \<Rightarrow> bytes \<Rightarrow> bridge \<Rightarrow> media_err option \<times> bridge \<times> media_out list" where
  "bridge_send T ch payload b =
     (let bad = b\<lparr>br_ctr := (br_ctr b)\<lparr>tx_bad_frame := tx_bad_frame (br_ctr b) + 1\<rparr>\<rparr> in
      if ch < tr_first_app T then (Some MErrBadFrame, bad, [])
      else case br_session b of
        None \<Rightarrow> (Some MErrNoSession,
           b\<lparr>br_ctr := (br_ctr b)\<lparr>tx_no_session := tx_no_session (br_ctr b) + 1\<rparr>\<rparr>, [])
      | Some s \<Rightarrow>
          if ch = ChVideo then send_video T s payload b
          else if tr_max_dgram T < length payload then (Some MErrBadFrame, bad, [])
          else (case tr_dgram T s ch payload of
              Some e \<Rightarrow> (Some e, count_tx_error b, [ODatagram s ch payload])
            | None \<Rightarrow> (None, count_tx_frame b, [ODatagram s ch payload])))"

section \<open>The pump\<close>

record pump =
  pu_session :: nat
  pu_gen :: int
  pu_reasm :: reasm
  pu_last_feedback :: int
  pu_last_rx :: u64

datatype pump_event =
  PDatagram byte bytes | PDatagramsClosed | PMessage byte bytes | PMessagesClosed
  | PFeedbackTick int | PAdaptTick int u64 | PSessionClosed

definition bridge_finish :: "nat \<Rightarrow> int \<Rightarrow> bridge \<Rightarrow> bridge \<times> media_out list" where
  "bridge_finish s gen b =
     (if br_gen b = gen \<and> br_session b = Some s
      then (b\<lparr>br_session := None\<rparr>, [OPathClosed]) else (b, []))"

definition count_rx :: "bridge \<Rightarrow> bridge" where
  "count_rx b = b\<lparr>br_rx := br_rx b + 1, br_ctr := (br_ctr b)\<lparr>rx_frames := rx_frames (br_ctr b) + 1\<rparr>\<rparr>"

definition with_adapter :: "(adapter \<Rightarrow> adapter \<times> preset list) \<Rightarrow> bridge \<Rightarrow> bridge \<times> media_out list" where
  "with_adapter f b =
     (case br_adapter b of None \<Rightarrow> (b, [])
      | Some a \<Rightarrow> (b\<lparr>br_adapter := Some (fst (f a))\<rparr>, map OPreset (snd (f a))))"

text \<open>time.Duration.Microseconds truncates towards zero.\<close>

definition micros :: "int \<Rightarrow> int" where
  "micros d = (if d < 0 then - ((- d) div 1000) else d div 1000)"

text \<open>One turn of the loop; the last component says whether the loop goes on.\<close>

fun pump_step :: "transport \<Rightarrow> int \<Rightarrow> pump_event \<Rightarrow> pump \<Rightarrow> bridge
    \<Rightarrow> (bridge \<times> media_out list) \<times> pump \<times> bool" where
  "pump_step T clk (PDatagram ch payload) p b =
     (if ch = ChFeedback
      then (case decode_feedback payload of
          None \<Rightarrow> ((b, []), p, True)
        | Some (period, received) \<Rightarrow> (with_adapter (observe_feedback clk period received) b, p, True))
      else ((count_rx b, [OFrame ch payload]), p, True))"
| "pump_step T clk PDatagramsClosed p b = (bridge_finish (pu_session p) (pu_gen p) b, p, False)"
| "pump_step T clk (PMessage ch payload) p b =
     (if ch = ChVideo
      then (let q = reasm_push (pu_reasm p) payload; p' = p\<lparr>pu_reasm := snd q\<rparr> in
        case fst q of
          Inr (Some frame) \<Rightarrow> ((count_rx b, [OFrame ChVideo frame]), p', True)
        | Inr None \<Rightarrow> ((b, []), p', True)
        | Inl e \<Rightarrow> ((b\<lparr>br_ctr := (br_ctr b)\<lparr>rx_bad_segments := rx_bad_segments (br_ctr b) + 1\<rparr>\<rparr>, []), p', True))
      else ((b, []), p, True))"
| "pump_step T clk PMessagesClosed p b = (bridge_finish (pu_session p) (pu_gen p) b, p, False)"
| "pump_step T clk (PFeedbackTick now) p b =
     (let period = micros (now - pu_last_feedback p);
          received = (if pu_last_rx p \<le> br_rx b then br_rx b - pu_last_rx p else 0);
          fb = encode_feedback (word_of_int period) (ucast received)
      in ((b, [ODatagram (pu_session p) ChFeedback fb]),
          p\<lparr>pu_last_feedback := now, pu_last_rx := br_rx b\<rparr>, True))"
| "pump_step T clk (PAdaptTick now drops) p b =
     (let q = with_adapter (observe_tx_drops clk drops) b; t = with_adapter (adapter_tick now) (fst q)
      in ((fst t, snd q @ snd t), p, True))"
| "pump_step T clk PSessionClosed p b = (bridge_finish (pu_session p) (pu_gen p) b, p, False)"

section \<open>Runs of the bridge and its pumps\<close>

text \<open>The renderer's calls and the events of any pump started so far, interleaved.\<close>

datatype media_op = MAttach int nat | MDetach | MSend byte bytes | MPump nat int pump_event

record media_world =
  mw_bridge :: bridge
  mw_pumps :: "(pump \<times> bool) list" \<comment> \<open>in the order they were started; False when returned\<close>

fun media_step :: "transport \<Rightarrow> media_op \<Rightarrow> media_world \<Rightarrow> media_world \<times> media_out list" where
  "media_step T (MAttach now s) w =
     (let q = bridge_attach now s (mw_bridge w);
          p = \<lparr>pu_session = s, pu_gen = br_gen (fst q), pu_reasm = [], pu_last_feedback = now, pu_last_rx = 0\<rparr>
      in (w\<lparr>mw_bridge := fst q, mw_pumps := mw_pumps w @ [(p, True)]\<rparr>, snd q))"
| "media_step T MDetach w =
     (let q = bridge_detach (mw_bridge w) in (w\<lparr>mw_bridge := fst q\<rparr>, snd q))"
| "media_step T (MSend ch payload) w =
     (let q = bridge_send T ch payload (mw_bridge w)
      in (w\<lparr>mw_bridge := fst (snd q)\<rparr>, snd (snd q)))"
| "media_step T (MPump k clk ev) w =
     (if k < length (mw_pumps w) \<and> snd (mw_pumps w ! k)
      then let q = pump_step T clk ev (fst (mw_pumps w ! k)) (mw_bridge w)
        in (w\<lparr>mw_bridge := fst (fst q), mw_pumps := (mw_pumps w)[k := snd q]\<rparr>, snd (fst q))
      else (w, []))"

fun media_run :: "transport \<Rightarrow> media_op list \<Rightarrow> media_world \<Rightarrow> media_world \<times> media_out list" where
  "media_run T [] w = (w, [])"
| "media_run T (op # ops) w =
     (let q = media_step T op w; t = media_run T ops (fst q) in (fst t, snd q @ snd t))"

definition media_start :: "adapter option \<Rightarrow> media_world" where
  "media_start a = \<lparr>mw_bridge = new_bridge a, mw_pumps = []\<rparr>"

end
