(* ===== verification/MediaBridgeThms.thy ===== *)
theory MediaBridgeThms
  imports MediaBridge
begin

text \<open>What the bridge never does to the transport, and when it reports a dead path.\<close>

definition out_ok :: "transport \<Rightarrow> media_out \<Rightarrow> bool" where
  "out_ok T x = (case x of
      ODatagram s ch p \<Rightarrow> tr_first_app T \<le> ch \<and> length p \<le> tr_max_dgram T
    | OMessage s ch seg \<Rightarrow> ch = ChVideo \<and> seg_ok seg
    | _ \<Rightarrow> True)"

lemma emit_segs_outs:
  "emit_segs (\<lambda>outs seg. (f seg, outs @ [g seg])) outs segs = (e, outs') \<Longrightarrow>
    set outs' \<subseteq> set outs \<union> g ` set segs"
proof (induction segs arbitrary: outs)
  case (Cons seg segs)
  show ?case
  proof (cases "f seg")
    case None
    with Cons.prems have "emit_segs (\<lambda>outs seg. (f seg, outs @ [g seg])) (outs @ [g seg]) segs = (e, outs')"
      by simp
    from Cons.IH [OF this] show ?thesis by auto
  qed (use Cons.prems in auto)
qed simp

lemma segment_video_ok:
  assumes "segment_video i frame (\<lambda>outs seg. (f seg, outs @ [OMessage s ChVideo seg])) [] = (e, outs)"
  shows "\<forall>x \<in> set outs. out_ok T x"
proof (cases "length frame = 0 \<or> MaxVideoFrame < length frame \<or> 255 < seg_total frame")
  case True
  with assms have "outs = []" by (auto simp: segment_video_def Let_def split: if_splits)
  then show ?thesis by simp
next
  case False
  then have f: "frame_ok frame" by (simp add: frame_ok_def)
  from assms False have "emit_segs (\<lambda>outs seg. (f seg, outs @ [OMessage s ChVideo seg])) []
      (map (seg_of i frame (seg_total frame)) [0..<seg_total frame]) = (e, outs)"
    by (simp add: segment_video_def Let_def)
  from emit_segs_outs [OF this] show ?thesis
    using seg_of_fields(1) [OF f, of _ i] by (auto simp: out_ok_def)
qed

lemma close_old_ok: "\<forall>x \<in> set (close_old s). out_ok T x"
  by (auto simp: close_old_def out_ok_def split: option.splits)

lemma with_adapter_ok: "\<forall>x \<in> set (snd (with_adapter f b)). out_ok T x"
  by (auto simp: with_adapter_def out_ok_def split: option.splits)

lemma finish_ok: "\<forall>x \<in> set (snd (bridge_finish s g b)). out_ok T x"
  by (auto simp: bridge_finish_def out_ok_def)

lemma bridge_send_ok: "\<forall>x \<in> set (snd (snd (bridge_send T ch payload b))). out_ok T x"
proof (cases "br_session b")
  case (Some s)
  show ?thesis
  proof (cases "ch = ChVideo")
    case True
    obtain e outs where sv: "segment_video (br_frame_id b + 1) payload
        (\<lambda>outs seg. (tr_msg T s ChVideo seg, outs @ [OMessage s ChVideo seg])) [] = (e, outs)" by fastforce
    from segment_video_ok [OF sv] Some True show ?thesis
      by (auto simp: bridge_send_def send_video_def Let_def sv split: option.splits)
  qed (use Some in \<open>auto simp: bridge_send_def Let_def out_ok_def split: option.splits\<close>)
qed (auto simp: bridge_send_def Let_def)

lemma pump_step_ok:
  assumes "tr_first_app T \<le> ChFeedback" "feedbackLen \<le> tr_max_dgram T"
  shows "\<forall>x \<in> set (snd (fst (pump_step T clk ev p b))). out_ok T x"
  using assms with_adapter_ok finish_ok
  by (cases ev) (auto simp: Let_def out_ok_def encode_feedback_def feedbackLen_def
      split: option.splits sum.splits)

lemma media_step_ok:
  assumes "tr_first_app T \<le> ChFeedback" "feedbackLen \<le> tr_max_dgram T"
  shows "\<forall>x \<in> set (snd (media_step T op w)). out_ok T x"
  using pump_step_ok [OF assms] bridge_send_ok close_old_ok
  by (cases op) (auto simp: Let_def bridge_attach_def bridge_detach_def out_ok_def)

text \<open>
  The bridge never hands the transport what makes it panic: whatever
  frames the renderer sends (any channel, any size), whatever arrives from the
  peer and however sessions come and go, every datagram has an application
  channel and fits the datagram limit, and every message is a well-formed
  video segment.
\<close>

theorem bridge_never_panics:
  assumes "tr_first_app T \<le> ChFeedback" and "feedbackLen \<le> tr_max_dgram T"
  shows "\<forall>x \<in> set (snd (media_run T ops (media_start a))). out_ok T x"
proof -
  have "\<forall>x \<in> set (snd (media_run T ops w)). out_ok T x" for w
  proof (induction ops arbitrary: w)
    case (Cons op ops)
    with media_step_ok [OF assms] show ?case by (auto simp: Let_def)
  qed simp
  then show ?thesis .
qed

definition demo_transport :: transport where
  "demo_transport = \<lparr>tr_first_app = 16, tr_max_dgram = 1200, tr_dgram = (\<lambda>s ch p. None),
     tr_msg = (\<lambda>s ch p. None)\<rparr>"

theorem bridge_never_panics_witness:
  "list_all (out_ok demo_transport)
     (snd (media_run demo_transport [MAttach 0 1, MSend 3 [1], MSend 16 [7], MPump 0 5 (PFeedbackTick 9)]
       (media_start None)))"
  unfolding list_all_iff by (rule bridge_never_panics) (simp_all add: demo_transport_def ChFeedback_def feedbackLen_def)

section \<open>Path deaths\<close>

definition is_attach :: "media_op \<Rightarrow> bool" where
  "is_attach op = (case op of MAttach now s \<Rightarrow> True | _ \<Rightarrow> False)"

definition deaths :: "media_out list \<Rightarrow> nat" where
  "deaths xs = length (filter (\<lambda>x. x = OPathClosed) xs)"

definition live :: "bridge \<Rightarrow> nat" where
  "live b = (if br_session b = None then 0 else 1)"

lemma deaths_append [simp]: "deaths (xs @ ys) = deaths xs + deaths ys"
  by (simp add: deaths_def)

lemma deaths_none: "OPathClosed \<notin> set xs \<Longrightarrow> deaths xs = 0"
  by (auto simp: deaths_def filter_empty_conv)

lemma deaths_close_old [simp]: "deaths (close_old s) = 0"
  by (rule deaths_none) (auto simp: close_old_def split: option.splits)

lemma deaths_with_adapter [simp]: "deaths (snd (with_adapter f b)) = 0"
  by (rule deaths_none) (auto simp: with_adapter_def split: option.splits)

lemma live_with_adapter [simp]: "live (fst (with_adapter f b)) = live b"
  by (auto simp: with_adapter_def live_def split: option.splits)

lemma deaths_finish: "deaths (snd (bridge_finish s g b)) + live (fst (bridge_finish s g b)) = live b"
  by (simp add: bridge_finish_def deaths_def live_def)

lemma segment_no_death:
  "OPathClosed \<notin> set (snd (segment_video i frame (\<lambda>outs seg. (f seg, outs @ [OMessage s ChVideo seg])) []))"
proof -
  obtain e outs where sv: "segment_video i frame (\<lambda>outs seg. (f seg, outs @ [OMessage s ChVideo seg])) [] = (e, outs)"
    by fastforce
  then have "outs = [] \<or> (\<exists>segs. emit_segs (\<lambda>outs seg. (f seg, outs @ [OMessage s ChVideo seg])) [] segs = (e, outs))"
    by (auto simp: segment_video_def Let_def split: if_splits)
  then show ?thesis using emit_segs_outs sv by fastforce
qed

lemma send_keeps_session: "br_session (fst (snd (bridge_send T ch payload b))) = br_session b"
  by (simp add: bridge_send_def send_video_def Let_def count_tx_error_def count_tx_frame_def
      split: option.split prod.split)

lemma send_no_death: "deaths (snd (snd (bridge_send T ch payload b))) = 0"
proof -
  have "OPathClosed \<notin> set (snd (snd (send_video T s payload b)))" for s
    using segment_no_death [of "br_frame_id b + 1" payload "tr_msg T s ChVideo" s]
    by (auto simp: send_video_def Let_def split: option.split prod.splits)
  then show ?thesis
    by (simp add: bridge_send_def Let_def deaths_none split: option.split)
qed

lemma live_count [simp]: "live (count_rx b) = live b"
  by (simp add: count_rx_def live_def)

lemma live_ctr [simp]: "live (b\<lparr>br_ctr := c\<rparr>) = live b"
  by (simp add: live_def)

lemma pump_deaths: "deaths (snd (fst (pump_step T clk ev p b))) + live (fst (fst (pump_step T clk ev p b))) = live b"
  using deaths_finish
  by (cases ev) (auto simp: Let_def deaths_none split: option.splits sum.splits)

lemma step_deaths:
  "deaths (snd (media_step T op w)) + live (mw_bridge (fst (media_step T op w)))
    \<le> live (mw_bridge w) + (if is_attach op then 1 else 0)"
proof (cases op)
  case (MPump k clk ev)
  with pump_deaths [of T clk ev "fst (mw_pumps w ! k)" "mw_bridge w"] show ?thesis
    by (simp add: Let_def is_attach_def deaths_none)
qed (auto simp: Let_def bridge_attach_def bridge_detach_def is_attach_def deaths_none
    send_no_death send_keeps_session live_def)

text \<open>
  The death of a path is reported only for the session in use, and at
  most once per session attached: a pump whose session was replaced or
  detached ends silently and leaves the bridge to its successor.
\<close>

theorem path_death_reported_once:
  "deaths (snd (media_run T ops (media_start a))) \<le> length (filter is_attach ops)
   \<and> (OPathClosed \<in> set (snd (fst (pump_step T clk ev p b))) \<longrightarrow>
        br_gen b = pu_gen p \<and> br_session b = Some (pu_session p)
        \<and> \<not> bridge_active (fst (fst (pump_step T clk ev p b))))
   \<and> (br_gen b \<noteq> pu_gen p \<longrightarrow> br_session (fst (fst (pump_step T clk ev p b))) = br_session b)"
proof (intro conjI impI)
  have "deaths (snd (media_run T ops w)) \<le> live (mw_bridge w) + length (filter is_attach ops)" for w
  proof (induction ops arbitrary: w)
    case (Cons op ops)
    from Cons.IH [of "fst (media_step T op w)"] step_deaths [of T op w] show ?case
      by (simp add: Let_def split: if_splits)
  qed (simp add: deaths_def)
  from this [of "media_start a"] show "deaths (snd (media_run T ops (media_start a))) \<le> length (filter is_attach ops)"
    by (simp add: media_start_def new_bridge_def live_def)
next
  assume c: "OPathClosed \<in> set (snd (fst (pump_step T clk ev p b)))"
  have no: "OPathClosed \<notin> set (snd (with_adapter f b))" for f b
    by (auto simp: with_adapter_def split: option.splits)
  from c have f: "OPathClosed \<in> set (snd (bridge_finish (pu_session p) (pu_gen p) b))
      \<and> fst (pump_step T clk ev p b) = bridge_finish (pu_session p) (pu_gen p) b"
    using no by (cases ev) (auto simp: Let_def split: option.splits sum.splits if_splits)
  then show "br_gen b = pu_gen p" "br_session b = Some (pu_session p)"
    "\<not> bridge_active (fst (fst (pump_step T clk ev p b)))"
    by (auto simp: bridge_finish_def bridge_active_def split: if_splits)
next
  assume "br_gen b \<noteq> pu_gen p"
  moreover have "br_session (fst (with_adapter f b)) = br_session b" for f b
    by (auto simp: with_adapter_def split: option.splits)
  ultimately show "br_session (fst (fst (pump_step T clk ev p b))) = br_session b"
    by (cases ev) (auto simp: Let_def bridge_finish_def count_rx_def split: option.splits sum.splits)
qed

theorem path_death_reported_once_witness:
  "deaths (snd (media_run demo_transport [MAttach 0 1, MAttach 1 2, MPump 0 3 PSessionClosed, MPump 1 4 PSessionClosed]
     (media_start None))) \<le> length (filter is_attach [MAttach 0 1, MAttach 1 2, MPump 0 3 PSessionClosed,
        MPump 1 4 PSessionClosed])"
  using path_death_reported_once [of demo_transport "[MAttach 0 1, MAttach 1 2, MPump 0 3 PSessionClosed,
      MPump 1 4 PSessionClosed]" None] by blast

end
