(* ===== verification/Monad.thy ===== *)
theory Monad
  imports Prelude
begin

text \<open>
  Operations that read and write a state and may fail: the state is returned
  on both outcomes, since what Go code has done before an early return stays
  done (the database rolls back by itself, in \<open>run_tx\<close>). The second half is the
  proof machinery: relations between the state before and after that every
  operation keeps.
\<close>

type_synonym ('s, 'e, 'a) sm = "'s \<Rightarrow> ('e + 'a) \<times> 's"

definition ret :: "'a \<Rightarrow> ('s, 'e, 'a) sm" where
  "ret x s = (Inr x, s)"

definition fail :: "'e \<Rightarrow> ('s, 'e, 'a) sm" where
  "fail e s = (Inl e, s)"

definition res :: "'e + 'a \<Rightarrow> ('s, 'e, 'a) sm" where
  "res r s = (r, s)"

definition bnd :: "('s, 'e, 'a) sm \<Rightarrow> ('a \<Rightarrow> ('s, 'e, 'b) sm) \<Rightarrow> ('s, 'e, 'b) sm" where
  "bnd m f s = (case fst (m s) of Inl e \<Rightarrow> (Inl e, snd (m s)) | Inr x \<Rightarrow> f x (snd (m s)))"

definition seq :: "('s, 'e, 'a) sm \<Rightarrow> ('s, 'e, 'b) sm \<Rightarrow> ('s, 'e, 'b) sm" where
  "seq m n = bnd m (\<lambda>_. n)"

definition reads :: "('s \<Rightarrow> 'a) \<Rightarrow> ('s, 'e, 'a) sm" where
  "reads f s = (Inr (f s), s)"

definition modifies :: "('s \<Rightarrow> 's) \<Rightarrow> ('s, 'e, unit) sm" where
  "modifies f s = (Inr (), f s)"

definition whenM :: "bool \<Rightarrow> ('s, 'e, unit) sm \<Rightarrow> ('s, 'e, unit) sm" where
  "whenM b m = (if b then m else ret ())"

text \<open>A loop over a list that stops at the first error.\<close>

fun eachM :: "('a \<Rightarrow> ('s, 'e, unit) sm) \<Rightarrow> 'a list \<Rightarrow> ('s, 'e, unit) sm" where
  "eachM f [] = ret ()"
| "eachM f (x # xs) = seq (f x) (eachM f xs)"

section \<open>Evaluation\<close>

lemma run_simps [simp]:
  "ret x s = (Inr x, s)" "fail e s = (Inl e, s)" "res r s = (r, s)"
  "reads f s = (Inr (f s), s)" "modifies h s = (Inr (), h s)"
  by (simp_all add: ret_def fail_def res_def reads_def modifies_def)

lemma bnd_Inr: "m s = (Inr x, s') \<Longrightarrow> bnd m f s = f x s'"
  by (simp add: bnd_def)

lemma bnd_Inl: "m s = (Inl e, s') \<Longrightarrow> bnd m f s = (Inl e, s')"
  by (simp add: bnd_def)

lemma bnd_ret [simp]: "bnd (ret x) f = f x"
  by (rule ext) (simp add: bnd_def)

lemma bnd_cases:
  assumes "bnd m f s = (r, s'')"
  obtains e where "m s = (Inl e, s'')" "r = Inl e"
  | x s' where "m s = (Inr x, s')" "f x s' = (r, s'')"
  using assms by (cases "m s"; cases "fst (m s)") (auto simp: bnd_def)

lemma bnd_Inr_iff:
  "bnd m f s = (Inr y, s'') \<longleftrightarrow> (\<exists>x s'. m s = (Inr x, s') \<and> f x s' = (Inr y, s''))"
  by (cases "m s"; cases "fst (m s)") (auto simp: bnd_def)

lemma bnd_Inl_iff:
  "bnd m f s = (Inl e, s'') \<longleftrightarrow> m s = (Inl e, s'') \<or> (\<exists>x s'. m s = (Inr x, s') \<and> f x s' = (Inl e, s''))"
  by (cases "m s"; cases "fst (m s)") (auto simp: bnd_def)

lemma seq_Inr_iff:
  "seq m n s = (Inr y, s'') \<longleftrightarrow> (\<exists>x s'. m s = (Inr x, s') \<and> n s' = (Inr y, s''))"
  by (simp add: seq_def bnd_Inr_iff)

lemma seq_Inl_iff:
  "seq m n s = (Inl e, s'') \<longleftrightarrow> m s = (Inl e, s'') \<or> (\<exists>x s'. m s = (Inr x, s') \<and> n s' = (Inl e, s''))"
  by (simp add: seq_def bnd_Inl_iff)

lemmas runs_iff = bnd_Inr_iff seq_Inr_iff

lemma bnd_run [simp]:
  "bnd (reads g) f s = f (g s) s" "bnd (modifies h) f' s = f' () (h s)"
  "bnd (res (Inr x)) k s = k x s" "bnd (res (Inl e)) k s = (Inl e, s)" "bnd (fail e) k s = (Inl e, s)"
  by (simp_all add: bnd_def)

lemma seq_run [simp]:
  "seq (modifies h) n s = n (h s)" "seq (ret x) n s = n s" "seq (fail e) n s = (Inl e, s)"
  by (simp_all add: seq_def bnd_def)

section \<open>Relations kept by operations\<close>

text \<open>The relation may promise less of an operation that failed: its first argument tells.\<close>

definition moves :: "(bool \<Rightarrow> 's \<Rightarrow> 's \<Rightarrow> bool) \<Rightarrow> ('s, 'e, 'a) sm \<Rightarrow> bool" where
  "moves R m \<longleftrightarrow> (\<forall>s. R (is_ok (fst (m s))) s (snd (m s)))"

named_theorems moves_intros \<open>operations keep a preorder when their parts do\<close>

lemma movesI: "(\<And>s r s'. m s = (r, s') \<Longrightarrow> R (is_ok r) s s') \<Longrightarrow> moves R m"
  by (simp add: moves_def)

lemma movesD: "moves R m \<Longrightarrow> m s = (r, s') \<Longrightarrow> R (is_ok r) s s'"
  by (metis moves_def fst_conv snd_conv)

text \<open>What a relation needs for the rules below: it holds between equal states and chains.\<close>

locale step_order =
  fixes R :: "bool \<Rightarrow> 's \<Rightarrow> 's \<Rightarrow> bool"
  assumes stay: "R b s s" and chain: "R True s t \<Longrightarrow> R b t u \<Longrightarrow> R b s u"
begin

lemma moves_ret: "moves R (ret x)" and moves_fail: "moves R (fail e)" and moves_res: "moves R (res r)"
  and moves_reads: "moves R (reads f)"
  by (simp_all add: moves_def stay)

lemma moves_bnd: "moves R m \<Longrightarrow> (\<And>x. moves R (f x)) \<Longrightarrow> moves R (bnd m f)"
proof (rule movesI)
  fix s r s''
  assume m: "moves R m" and f: "\<And>x. moves R (f x)" and run: "bnd m f s = (r, s'')"
  from run show "R (is_ok r) s s''"
  proof (cases rule: bnd_cases)
    case (1 e)
    with movesD [OF m 1(1)] show ?thesis by simp
  next
    case (2 x s')
    from movesD [OF m 2(1)] movesD [OF f 2(2)] show ?thesis by (auto intro: chain)
  qed
qed

lemma moves_seq: "moves R m \<Longrightarrow> moves R n \<Longrightarrow> moves R (seq m n)"
  by (simp add: seq_def moves_bnd)

lemma moves_modifies: "(\<And>s. R True s (f s)) \<Longrightarrow> moves R (modifies f)"
  by (simp add: moves_def)

lemma moves_when: "(b \<Longrightarrow> moves R m) \<Longrightarrow> moves R (whenM b m)"
  by (simp add: whenM_def moves_ret)

lemma moves_if: "(b \<Longrightarrow> moves R m) \<Longrightarrow> (\<not> b \<Longrightarrow> moves R n) \<Longrightarrow> moves R (if b then m else n)"
  by simp

lemma moves_each: "(\<And>x. x \<in> set xs \<Longrightarrow> moves R (f x)) \<Longrightarrow> moves R (eachM f xs)"
  by (induction xs) (simp_all add: moves_ret moves_seq)

lemma moves_case_option:
  "moves R m \<Longrightarrow> (\<And>x. moves R (f x)) \<Longrightarrow> moves R (case v of None \<Rightarrow> m | Some x \<Rightarrow> f x)"
  by (cases v) simp_all

lemma moves_case_sum:
  "(\<And>e. moves R (g e)) \<Longrightarrow> (\<And>x. moves R (f x)) \<Longrightarrow> moves R (case v of Inl e \<Rightarrow> g e | Inr x \<Rightarrow> f x)"
  by (cases v) simp_all

lemma moves_case_prod: "(\<And>a b. moves R (f a b)) \<Longrightarrow> moves R (case v of (a, b) \<Rightarrow> f a b)"
  by (cases v) simp_all

lemmas moves_rules = moves_ret moves_fail moves_res moves_reads moves_bnd moves_seq moves_when
  moves_if moves_each moves_case_option moves_case_sum moves_case_prod

end

end
