(* ===== verification/GroupWire.thy ===== *)
theory GroupWire
  imports Peer SenderKey Utf8
begin

text \<open>
  group/membership.go and group/wire.go: the membership document the admin
  signs, and the service messages of a group with the checks on what a peer
  sends. The signature covers a transcript of its own, since protobuf is not
  canonical. The document's coding appears twice in the source, once per file.
\<close>

definition MaxMembers :: nat where "MaxMembers = 128"
definition maxGroupName :: nat where "maxGroupName = 64"
definition maxGroupCiphertext :: nat where "maxGroupCiphertext = 33 * 1024"
definition labelMembership :: string where "labelMembership = ''molva/group/membership/v1''"

datatype group_err =
  GErrMalformed | GErrBadSignature | GErrNotAdmin | GErrNotMember | GErrTooBig | GErrUnknown | GErrLeft
  | GErrNoOwnKey \<comment> \<open>the errors without a name in the source\<close>
  | GErrUnknownYet | GErrNotMemberYet | GErrNoKeyYet

record membership =
  mb_gid :: bytes
  mb_version :: u64
  mb_name :: string
  mb_admin :: bytes
  mb_members :: "peer_id list"
  mb_sig :: bytes

definition mem_transcript :: "crypto \<Rightarrow> membership \<Rightarrow> bytes" where
  "mem_transcript C m = c_blake C (str_bytes labelMembership @ mb_gid m @ be64 (mb_version m)
     @ str_bytes (mb_name m) @ mb_admin m @ concat (map id_bytes (mb_members m)))"

definition sort_members :: "peer_id list \<Rightarrow> peer_id list" where
  "sort_members ms = sort ms"

definition mem_sign :: "crypto \<Rightarrow> bytes \<Rightarrow> membership \<Rightarrow> membership" where
  "mem_sign C priv m =
     (let m1 = m\<lparr>mb_members := sort_members (mb_members m)\<rparr>
      in m1\<lparr>mb_sig := c_sign C priv (mem_transcript C m1)\<rparr>)"

definition mem_verify :: "crypto \<Rightarrow> membership \<Rightarrow> bool" where
  "mem_verify C m = c_verify C (mb_admin m) (mem_transcript C m) (mb_sig m)"

definition mem_has :: "membership \<Rightarrow> peer_id \<Rightarrow> bool" where
  "mem_has m p \<longleftrightarrow> p \<in> set (mb_members m)"

definition validate_membership :: "membership \<Rightarrow> bool" where
  "validate_membership m =
     (if mb_version m = 0 then False
      else if mb_members m = [] \<or> MaxMembers < length (mb_members m) then False
      else (case runes (mb_name m) of None \<Rightarrow> False | Some rs \<Rightarrow> length rs \<le> maxGroupName))"

section \<open>The messages of the generated code\<close>

record pb_membership =
  gm_gid :: bytes
  gm_version :: u64
  gm_name :: string
  gm_admin :: bytes
  gm_members :: "bytes list"
  gm_sig :: bytes

record pb_sdist =
  gd_gid :: bytes
  gd_gen :: u32
  gd_ck :: bytes
  gd_n :: u32
  gd_sign :: bytes

record pb_mkey =
  gk_member :: bytes
  gk_key :: "pb_sdist option"

record pb_welcome =
  gw_mem :: "pb_membership option"
  gw_keys :: "pb_mkey list"

record pb_update =
  gu_mem :: "pb_membership option"

record pb_gmsg =
  gg_gid :: bytes
  gg_gen :: u32
  gg_n :: u32
  gg_ct :: bytes
  gg_sig :: bytes

text \<open>The loop that reads the members: the first of a wrong length fails.\<close>

fun members_from_pb :: "bytes list \<Rightarrow> group_err + peer_id list" where
  "members_from_pb [] = Inr []"
| "members_from_pb (b # bs) =
     (if length b \<noteq> IDLen then Inl GErrMalformed
      else bindR (members_from_pb bs) (\<lambda>ms. Inr (PeerID b # ms)))"

definition mem_pb :: "membership \<Rightarrow> pb_membership" where
  "mem_pb m = \<lparr>gm_gid = mb_gid m, gm_version = mb_version m, gm_name = mb_name m, gm_admin = mb_admin m,
     gm_members = map id_bytes (mb_members m), gm_sig = mb_sig m\<rparr>"

section \<open>The document\<close>

definition encode_membership :: "pb_membership pb \<Rightarrow> membership \<Rightarrow> group_err + bytes" where
  "encode_membership P m =
     (if \<not> validate_membership m then Inl GErrMalformed else of_opt GErrMalformed (marshal P (mem_pb m)))"

definition decode_membership :: "pb_membership pb \<Rightarrow> bytes \<Rightarrow> group_err + membership" where
  "decode_membership P b =
     bindR (of_opt GErrMalformed (unmarshal P b)) (\<lambda>q.
     if length (gm_gid q) \<noteq> 32 \<or> length (gm_admin q) \<noteq> 32 \<or> length (gm_sig q) \<noteq> 64 then Inl GErrMalformed
     else bindR (members_from_pb (gm_members q)) (\<lambda>ms.
     let m = \<lparr>mb_gid = gm_gid q, mb_version = gm_version q, mb_name = gm_name q, mb_admin = gm_admin q,
              mb_members = ms, mb_sig = gm_sig q\<rparr>
     in if \<not> validate_membership m then Inl GErrMalformed else Inr m))"

definition membership_to_pb :: "membership \<Rightarrow> group_err + pb_membership" where
  "membership_to_pb m = (if \<not> validate_membership m then Inl GErrMalformed else Inr (mem_pb m))"

definition membership_from_pb :: "pb_membership \<Rightarrow> group_err + membership" where
  "membership_from_pb q =
     (if length (gm_gid q) \<noteq> 32 \<or> length (gm_admin q) \<noteq> 32 \<or> length (gm_sig q) \<noteq> 64 then Inl GErrMalformed
      else bindR (members_from_pb (gm_members q)) (\<lambda>ms.
      let m = \<lparr>mb_gid = gm_gid q, mb_version = gm_version q, mb_name = gm_name q, mb_admin = gm_admin q,
               mb_members = ms, mb_sig = gm_sig q\<rparr>
      in if \<not> validate_membership m then Inl GErrMalformed else Inr m))"

section \<open>Keys, invitations, updates\<close>

definition dist_to_pb :: "bytes \<Rightarrow> dist \<Rightarrow> pb_sdist" where
  "dist_to_pb gid d = \<lparr>gd_gid = gid, gd_gen = d_gen d, gd_ck = d_ck d, gd_n = d_n d, gd_sign = d_sign d\<rparr>"

definition dist_from_pb :: "pb_sdist \<Rightarrow> group_err + dist" where
  "dist_from_pb q =
     (if length (gd_ck q) \<noteq> 32 \<or> length (gd_sign q) \<noteq> 32 \<or> gd_gen q = 0 then Inl GErrMalformed
      else Inr \<lparr>d_gen = gd_gen q, d_ck = gd_ck q, d_n = gd_n q, d_sign = gd_sign q\<rparr>)"

record group_welcome =
  we_mem :: membership
  we_keys :: "(peer_id \<times> dist) list"

definition encode_welcome :: "pb_welcome pb \<Rightarrow> group_welcome \<Rightarrow> group_err + bytes" where
  "encode_welcome P w =
     bindR (membership_to_pb (we_mem w)) (\<lambda>q.
     of_opt GErrMalformed (marshal P \<lparr>gw_mem = Some q,
       gw_keys = map (\<lambda>(p, d). \<lparr>gk_member = id_bytes p, gk_key = Some (dist_to_pb (mb_gid (we_mem w)) d)\<rparr>) (we_keys w)\<rparr>))"

fun keys_from_pb :: "pb_mkey list \<Rightarrow> group_err + (peer_id \<times> dist) list" where
  "keys_from_pb [] = Inr []"
| "keys_from_pb (k # ks) =
     (case gk_key k of None \<Rightarrow> Inl GErrMalformed
      | Some q \<Rightarrow>
          if length (gk_member k) \<noteq> IDLen then Inl GErrMalformed
          else bindR (dist_from_pb q) (\<lambda>d. bindR (keys_from_pb ks) (\<lambda>r. Inr ((PeerID (gk_member k), d) # r))))"

definition decode_welcome :: "pb_welcome pb \<Rightarrow> bytes \<Rightarrow> group_err + group_welcome" where
  "decode_welcome P b =
     bindR (of_opt GErrMalformed (unmarshal P b)) (\<lambda>q.
     case gw_mem q of None \<Rightarrow> Inl GErrMalformed
     | Some mq \<Rightarrow>
         if MaxMembers < length (gw_keys q) then Inl GErrMalformed
         else bindR (membership_from_pb mq) (\<lambda>m.
              bindR (keys_from_pb (gw_keys q)) (\<lambda>ks. Inr \<lparr>we_mem = m, we_keys = ks\<rparr>)))"

definition encode_update :: "pb_update pb \<Rightarrow> membership \<Rightarrow> group_err + bytes" where
  "encode_update P m = bindR (membership_to_pb m) (\<lambda>q. of_opt GErrMalformed (marshal P \<lparr>gu_mem = Some q\<rparr>))"

definition decode_update :: "pb_update pb \<Rightarrow> bytes \<Rightarrow> group_err + membership" where
  "decode_update P b =
     bindR (of_opt GErrMalformed (unmarshal P b)) (\<lambda>q.
     case gu_mem q of None \<Rightarrow> Inl GErrMalformed | Some mq \<Rightarrow> membership_from_pb mq)"

definition encode_key_dist :: "pb_sdist pb \<Rightarrow> bytes \<Rightarrow> dist \<Rightarrow> group_err + bytes" where
  "encode_key_dist P gid d = of_opt GErrMalformed (marshal P (dist_to_pb gid d))"

definition decode_key_dist :: "pb_sdist pb \<Rightarrow> bytes \<Rightarrow> group_err + (bytes \<times> dist)" where
  "decode_key_dist P b =
     bindR (of_opt GErrMalformed (unmarshal P b)) (\<lambda>q.
     if length (gd_gid q) \<noteq> 32 \<or> length (gd_ck q) \<noteq> 32 \<or> length (gd_sign q) \<noteq> 32 \<or> gd_gen q = 0
     then Inl GErrMalformed
     else Inr (gd_gid q, \<lparr>d_gen = gd_gen q, d_ck = gd_ck q, d_n = gd_n q, d_sign = gd_sign q\<rparr>))"

section \<open>Messages\<close>

record gmsg =
  gs_gid :: bytes
  gs_gen :: u32
  gs_n :: u32
  gs_ct :: bytes
  gs_sig :: bytes

definition encode_msg :: "pb_gmsg pb \<Rightarrow> gmsg \<Rightarrow> group_err + bytes" where
  "encode_msg P m =
     (if gs_ct m = [] \<or> maxGroupCiphertext < length (gs_ct m) then Inl GErrMalformed
      else of_opt GErrMalformed (marshal P \<lparr>gg_gid = gs_gid m, gg_gen = gs_gen m, gg_n = gs_n m, gg_ct = gs_ct m,
        gg_sig = gs_sig m\<rparr>))"

definition decode_msg :: "pb_gmsg pb \<Rightarrow> bytes \<Rightarrow> group_err + gmsg" where
  "decode_msg P b =
     bindR (of_opt GErrMalformed (unmarshal P b)) (\<lambda>q.
     if length (gg_gid q) \<noteq> 32 \<or> length (gg_sig q) \<noteq> 64 \<or> gg_ct q = [] \<or> maxGroupCiphertext < length (gg_ct q)
       \<or> gg_gen q = 0 then Inl GErrMalformed
     else Inr \<lparr>gs_gid = gg_gid q, gs_gen = gg_gen q, gs_n = gg_n q, gs_ct = gg_ct q, gs_sig = gg_sig q\<rparr>)"

section \<open>What is accepted\<close>

definition wf_membership :: "membership \<Rightarrow> bool" where
  "wf_membership m \<longleftrightarrow> length (mb_gid m) = 32 \<and> length (mb_admin m) = 32 \<and> length (mb_sig m) = 64
     \<and> (\<forall>p \<in> set (mb_members m). wf_peer p) \<and> validate_membership m"

definition wf_dist :: "dist \<Rightarrow> bool" where
  "wf_dist d \<longleftrightarrow> length (d_ck d) = 32 \<and> length (d_sign d) = 32 \<and> d_gen d \<noteq> 0"

lemma members_from_pb_iff: "members_from_pb bs = Inr ms \<longleftrightarrow> bs = map id_bytes ms \<and> (\<forall>p \<in> set ms. wf_peer p)"
proof (induction bs arbitrary: ms)
  case (Cons b bs)
  have "(\<exists>r. members_from_pb bs = Inr r \<and> ms = PeerID b # r) \<and> length b = IDLen
      \<longleftrightarrow> b # bs = map id_bytes ms \<and> (\<forall>p \<in> set ms. wf_peer p)"
    using Cons.IH by (cases ms) (auto simp: wf_peer_def)
  then show ?case by (auto simp: bindR_Inr_iff)
qed auto

lemma membership_from_pb_iff: "membership_from_pb q = Inr m \<longleftrightarrow> wf_membership m \<and> q = mem_pb m"
  unfolding membership_from_pb_def wf_membership_def
  by (cases q; cases m) (auto simp: bindR_Inr_iff members_from_pb_iff mem_pb_def Let_def)

lemma decode_membership_eq: "decode_membership P b = bindR (of_opt GErrMalformed (unmarshal P b)) membership_from_pb"
  by (simp add: decode_membership_def membership_from_pb_def [abs_def])

lemma decode_membership_iff: "decode_membership P b = Inr m \<longleftrightarrow> unmarshal P b = Some (mem_pb m) \<and> wf_membership m"
  by (auto simp: decode_membership_eq bindR_Inr_iff membership_from_pb_iff)

lemma decode_update_iff: "decode_update P b = Inr m \<longleftrightarrow> unmarshal P b = Some \<lparr>gu_mem = Some (mem_pb m)\<rparr> \<and> wf_membership m"
proof (cases "unmarshal P b")
  case (Some q)
  obtain x where "q = \<lparr>gu_mem = x\<rparr>" by (cases q)
  with Some show ?thesis by (cases x) (auto simp: decode_update_def membership_from_pb_iff)
qed (simp add: decode_update_def)

lemma dist_from_to: "wf_dist d \<Longrightarrow> dist_from_pb (dist_to_pb g d) = Inr d"
  by (simp add: dist_from_pb_def dist_to_pb_def wf_dist_def)

lemma dist_from_wf: "dist_from_pb q = Inr d \<Longrightarrow> wf_dist d"
  by (auto simp: dist_from_pb_def wf_dist_def split: if_splits)

lemma keys_from_to: "\<forall>(p, d) \<in> set ks. wf_peer p \<and> wf_dist d \<Longrightarrow>
    keys_from_pb (map (\<lambda>(p, d). \<lparr>gk_member = id_bytes p, gk_key = Some (dist_to_pb g d)\<rparr>) ks) = Inr ks"
  by (induction ks) (auto simp: dist_from_to wf_peer_def)

lemma keys_from_wf: "keys_from_pb qs = Inr ks \<Longrightarrow> length ks = length qs \<and> (\<forall>(p, d) \<in> set ks. wf_peer p \<and> wf_dist d)"
  by (induction qs arbitrary: ks)
    (auto simp: bindR_Inr_iff wf_peer_def split: option.splits if_splits dest: dist_from_wf)

lemma decode_welcome_wf:
  assumes "decode_welcome P b = Inr w"
  shows "wf_membership (we_mem w) \<and> length (we_keys w) \<le> MaxMembers \<and> (\<forall>(p, d) \<in> set (we_keys w). wf_peer p \<and> wf_dist d)"
proof -
  from assms obtain q where q: "unmarshal P b = Some q" and
    d: "(case gw_mem q of None \<Rightarrow> Inl GErrMalformed
     | Some mq \<Rightarrow>
         if MaxMembers < length (gw_keys q) then Inl GErrMalformed
         else bindR (membership_from_pb mq) (\<lambda>m.
              bindR (keys_from_pb (gw_keys q)) (\<lambda>ks. Inr \<lparr>we_mem = m, we_keys = ks\<rparr>))) = Inr w"
    by (auto simp: decode_welcome_def bindR_Inr_iff)
  then obtain mq where "gw_mem q = Some mq" by (cases "gw_mem q") auto
  with d obtain m ks where "\<not> MaxMembers < length (gw_keys q)" "membership_from_pb mq = Inr m"
    "keys_from_pb (gw_keys q) = Inr ks" "w = \<lparr>we_mem = m, we_keys = ks\<rparr>"
    by (auto simp: bindR_Inr_iff split: if_splits)
  with keys_from_wf [OF this(3)] show ?thesis by (simp add: membership_from_pb_iff)
qed

lemma decode_msg_wf: "decode_msg P b = Inr m \<Longrightarrow> length (gs_gid m) = 32 \<and> length (gs_sig m) = 64 \<and> gs_ct m \<noteq> []
    \<and> length (gs_ct m) \<le> maxGroupCiphertext \<and> gs_gen m \<noteq> 0"
  by (auto simp: decode_msg_def bindR_Inr_iff split: if_splits)

lemma sign_verify:
  assumes "sign_correct C"
  shows "mem_verify C (mem_sign C k (m\<lparr>mb_admin := c_edpub C k\<rparr>))"
  using sign_correctD [OF assms] by (simp add: mem_verify_def mem_sign_def Let_def mem_transcript_def)

text \<open>
  The service messages of groups: whatever bytes arrive, an accepted
  document has 32-byte identifiers, 1 to 128 members, a version above zero and a
  UTF-8 name of at most 64 characters; an accepted invitation has such a
  document and at most 128 keys of the right shape. A document signed by its
  admin verifies, and an invitation sent by the code is read back unchanged.
\<close>

theorem invitation_roundtrip:
  assumes "encode_welcome P w = Inr b" and "pb_roundtrip P \<lparr>gw_mem = Some (mem_pb (we_mem w)),
      gw_keys = map (\<lambda>(p, d). \<lparr>gk_member = id_bytes p, gk_key = Some (dist_to_pb (mb_gid (we_mem w)) d)\<rparr>) (we_keys w)\<rparr>"
    and "we_mem w = mem_sign C k (m\<lparr>mb_admin := c_edpub C k\<rparr>)" "sign_correct C" "key_lengths C"
    and "length (mb_gid m) = 32" "\<forall>p \<in> set (mb_members m). wf_peer p" "length (we_keys w) \<le> MaxMembers"
    and "\<forall>(p, d) \<in> set (we_keys w). wf_peer p \<and> wf_dist d"
  shows "decode_welcome P b = Inr w \<and> mem_verify C (we_mem w)
    \<and> (\<forall>b w. decode_welcome P b = Inr w \<longrightarrow> wf_membership (we_mem w) \<and> length (we_keys w) \<le> MaxMembers
        \<and> (\<forall>(p, d) \<in> set (we_keys w). wf_peer p \<and> wf_dist d))"
proof -
  from assms(1) have v: "validate_membership (we_mem w)"
    and mar: "marshal P \<lparr>gw_mem = Some (mem_pb (we_mem w)), gw_keys = map (\<lambda>(p, d). \<lparr>gk_member = id_bytes p,
        gk_key = Some (dist_to_pb (mb_gid (we_mem w)) d)\<rparr>) (we_keys w)\<rparr> = Some b"
    by (auto simp: encode_welcome_def membership_to_pb_def bindR_Inr_iff split: if_splits)
  have "wf_membership (we_mem w)"
    using assms(6,7) v key_lengthsD [OF assms(5)]
    by (simp add: wf_membership_def assms(3) mem_sign_def Let_def sort_members_def)
  then have "decode_welcome P b = Inr w"
    using pb_roundtripD [OF assms(2) mar] assms(8) keys_from_to [OF assms(9)]
    by (simp add: decode_welcome_def membership_from_pb_iff [THEN iffD2])
  moreover have "mem_verify C (we_mem w)" using sign_verify [OF assms(4)] assms(3) by simp
  ultimately show ?thesis using decode_welcome_wf by blast
qed

definition demo_member :: membership where
  "demo_member = \<lparr>mb_gid = replicate 32 7, mb_version = 1, mb_name = ''g'', mb_admin = [],
     mb_members = [PeerID (replicate 32 2), PeerID (replicate 32 1)], mb_sig = []\<rparr>"

definition demo_welcome :: group_welcome where
  "demo_welcome = \<lparr>we_mem = mem_sign demo_crypto (replicate 32 3) (demo_member\<lparr>mb_admin := c_edpub demo_crypto (replicate 32 3)\<rparr>),
     we_keys = [(PeerID (replicate 32 1), \<lparr>d_gen = 1, d_ck = replicate 32 4, d_n = 0, d_sign = replicate 32 5\<rparr>)]\<rparr>"

theorem invitation_roundtrip_witness:
  "\<exists>P. decode_welcome P [1] = Inr demo_welcome \<and> mem_verify demo_crypto (we_mem demo_welcome)"
proof -
  let ?q = "\<lparr>gw_mem = Some (mem_pb (we_mem demo_welcome)), gw_keys = map (\<lambda>(p, d). \<lparr>gk_member = id_bytes p,
    gk_key = Some (dist_to_pb (mb_gid (we_mem demo_welcome)) d)\<rparr>) (we_keys demo_welcome)\<rparr>"
  have "runes ''g'' = Some [103]" by code_simp
  then have "validate_membership (we_mem demo_welcome)"
    by (simp add: validate_membership_def demo_welcome_def mem_sign_def Let_def demo_member_def sort_members_def
        MaxMembers_def maxGroupName_def)
  then have "encode_welcome (one_pb [1] ?q) demo_welcome = Inr [1]"
    by (simp add: encode_welcome_def membership_to_pb_def)
  moreover have "\<forall>p \<in> set (mb_members demo_member). wf_peer p"
    "\<forall>(p, d) \<in> set (we_keys demo_welcome). wf_peer p \<and> wf_dist d" "length (mb_gid demo_member) = 32"
    by (simp_all add: demo_member_def demo_welcome_def wf_peer_def IDLen_def wf_dist_def)
  moreover have "we_mem demo_welcome = mem_sign demo_crypto (replicate 32 3)
      (demo_member\<lparr>mb_admin := c_edpub demo_crypto (replicate 32 3)\<rparr>)" "length (we_keys demo_welcome) \<le> MaxMembers"
    by (simp_all add: demo_welcome_def MaxMembers_def)
  ultimately have "decode_welcome (one_pb [1] ?q) [1] = Inr demo_welcome \<and> mem_verify demo_crypto (we_mem demo_welcome)"
    using invitation_roundtrip [OF _ one_pb_roundtrip _ demo_sign_correct demo_key_lengths, where w = demo_welcome and b = "[1]" and k = "replicate 32 3" and m = demo_member] by simp
  then show ?thesis by (rule exI)
qed

end
