(* ===== verification/Bitmap.thy ===== *)
theory Bitmap
  imports Prelude
begin

text \<open>
  blob/bitmap.go: which chunks of a file have arrived, one bit each, kept in the
  database as they are. The indexes are Go ints, so a negative one is guarded
  against. A bitmap with its invariant is a finite set of indexes below \<open>n\<close>:
  the interface \<open>index_set\<close> says what the transfer engine relies on.
\<close>

record bitmap =
  bm_bits :: bytes
  bm_n :: nat

definition new_bitmap :: "nat \<Rightarrow> bitmap" where
  "new_bitmap n = \<lparr>bm_bits = replicate ((n + 7) div 8) 0, bm_n = n\<rparr>"

definition bitmap_from_bytes :: "bytes \<Rightarrow> nat \<Rightarrow> bitmap" where
  "bitmap_from_bytes b n = (if length b \<noteq> (n + 7) div 8 then new_bitmap n else \<lparr>bm_bits = b, bm_n = n\<rparr>)"

definition bitmap_bytes :: "bitmap \<Rightarrow> bytes" where
  "bitmap_bytes m = bm_bits m"

definition bit_mask :: "int \<Rightarrow> byte" where
  "bit_mask i = push_bit (nat (i mod 8)) 1"

definition bitmap_set :: "bitmap \<Rightarrow> int \<Rightarrow> bool \<times> bitmap" where
  "bitmap_set m i =
     (if i < 0 \<or> int (bm_n m) \<le> i then (False, m)
      else let k = nat (i div 8) in
        if (bm_bits m ! k) AND bit_mask i \<noteq> 0 then (False, m)
        else (True, m\<lparr>bm_bits := (bm_bits m)[k := (bm_bits m ! k) OR bit_mask i]\<rparr>))"

definition bitmap_has :: "bitmap \<Rightarrow> int \<Rightarrow> bool" where
  "bitmap_has m i =
     (if i < 0 \<or> int (bm_n m) \<le> i then False else (bm_bits m ! nat (i div 8)) AND bit_mask i \<noteq> 0)"

text \<open>The loops run over the indexes from \<open>i\<close>, \<open>k\<close> of them left.\<close>

fun count_loop :: "bitmap \<Rightarrow> nat \<Rightarrow> nat \<Rightarrow> nat \<Rightarrow> nat" where
  "count_loop m 0 i c = c"
| "count_loop m (Suc k) i c = count_loop m k (Suc i) (if bitmap_has m (int i) then c + 1 else c)"

definition bitmap_count :: "bitmap \<Rightarrow> nat" where
  "bitmap_count m = count_loop m (bm_n m) 0 0"

definition bitmap_complete :: "bitmap \<Rightarrow> bool" where
  "bitmap_complete m \<longleftrightarrow> bitmap_count m = bm_n m"

fun missing_loop :: "bitmap \<Rightarrow> int \<Rightarrow> nat \<Rightarrow> nat \<Rightarrow> u32 list \<Rightarrow> u32 list" where
  "missing_loop m limit 0 i out = out"
| "missing_loop m limit (Suc k) i out =
     (if limit \<le> int (length out) then out
      else missing_loop m limit k (Suc i) (if \<not> bitmap_has m (int i) then out @ [of_nat i] else out))"

definition bitmap_missing :: "bitmap \<Rightarrow> int \<Rightarrow> u32 list" where
  "bitmap_missing m limit = missing_loop m limit (bm_n m) 0 []"

section \<open>The set behind it\<close>

definition bitmap_ok :: "bitmap \<Rightarrow> bool" where
  "bitmap_ok m \<longleftrightarrow> length (bm_bits m) = (bm_n m + 7) div 8"

definition bitmap_abs :: "bitmap \<Rightarrow> nat set" where
  "bitmap_abs m = {i. bitmap_has m (int i)}"

lemma mask_bit: "b AND push_bit k 1 \<noteq> 0 \<longleftrightarrow> bit (b :: byte) k"
  by (simp add: bit_iff_and_push_bit_not_eq_0)

lemma has_bit: "bitmap_has m (int i) \<longleftrightarrow> i < bm_n m \<and> bit (bm_bits m ! (i div 8)) (i mod 8)"
  by (simp add: bitmap_has_def bit_mask_def bit_iff_and_push_bit_not_eq_0 nat_div_distrib nat_mod_distrib)

lemma has_range: "bitmap_has m i \<Longrightarrow> 0 \<le> i \<and> i < int (bm_n m)"
  by (simp add: bitmap_has_def split: if_splits)

lemma set_new: "bitmap_set m (int i) = (if i < bm_n m \<and> \<not> bitmap_has m (int i)
    then (True, m\<lparr>bm_bits := (bm_bits m)[i div 8 := (bm_bits m ! (i div 8)) OR push_bit (i mod 8) 1]\<rparr>)
    else (False, m))"
  by (simp add: bitmap_set_def bitmap_has_def Let_def bit_mask_def nat_div_distrib nat_mod_distrib)

lemma set_n [simp]: "bm_n (snd (bitmap_set m i)) = bm_n m"
  by (simp add: bitmap_set_def Let_def)

lemma set_ok: "bitmap_ok m \<Longrightarrow> bitmap_ok (snd (bitmap_set m i))"
  by (simp add: bitmap_set_def Let_def bitmap_ok_def)

lemma byte_index: "i < n \<Longrightarrow> length b = (n + 7) div 8 \<Longrightarrow> i div 8 < length (b :: bytes)"
  by simp

lemma same_cell: "i div 8 = j div 8 \<Longrightarrow> i mod 8 = j mod 8 \<Longrightarrow> i = (j :: nat)"
  by (metis div_mult_mod_eq)

lemma has_set:
  assumes "bitmap_ok m"
  shows "bitmap_has (snd (bitmap_set m (int i))) (int j) \<longleftrightarrow> bitmap_has m (int j) \<or> j = i \<and> i < bm_n m"
proof (cases "i < bm_n m \<and> \<not> bitmap_has m (int i)")
  case True
  then have i: "i div 8 < length (bm_bits m)" using assms byte_index by (simp add: bitmap_ok_def)
  have bits: "bit (b OR 2 ^ (i mod 8)) (k mod 8) \<longleftrightarrow> bit b (k mod 8) \<or> k mod 8 = i mod 8" for b :: byte and k
    by (auto simp: bit_or_iff bit_exp_iff possible_bit_word)
  from True i show ?thesis
    unfolding set_new has_bit by (auto simp: nth_list_update bits dest: same_cell)
next
  case False
  then show ?thesis by (auto simp: set_new)
qed

lemma set_abs: "bitmap_ok m \<Longrightarrow> bitmap_abs (snd (bitmap_set m (int i))) = bitmap_abs m \<union> ({i} \<inter> {..<bm_n m})"
  by (auto simp: bitmap_abs_def has_set)

lemma abs_range: "bitmap_abs m \<subseteq> {..<bm_n m}"
  using has_range by (force simp: bitmap_abs_def)

lemma new_abs: "bitmap_abs (new_bitmap n) = {}"
proof -
  have "replicate ((n + 7) div 8) (0 :: byte) ! (i div 8) = 0" if "i < n" for i
    using that byte_index [of i n "replicate ((n + 7) div 8) 0"] by simp
  then show ?thesis by (auto simp: bitmap_abs_def has_bit new_bitmap_def)
qed

lemma count_loop_card: "count_loop m k i c = c + card (bitmap_abs m \<inter> {i..<i + k})"
proof (induction k arbitrary: i c)
  case (Suc k)
  have "{i..<i + Suc k} = insert i {Suc i..<Suc i + k}" by auto
  then have "bitmap_abs m \<inter> {i..<i + Suc k}
      = (if i \<in> bitmap_abs m then insert i (bitmap_abs m \<inter> {Suc i..<Suc i + k}) else bitmap_abs m \<inter> {Suc i..<Suc i + k})"
    by auto
  then show ?case using Suc by (simp add: bitmap_abs_def)
qed simp

lemma count_card: "bitmap_count m = card (bitmap_abs m)"
proof -
  have "bitmap_abs m \<inter> {0..<bm_n m} = bitmap_abs m" using abs_range [of m] by auto
  then show ?thesis by (simp add: bitmap_count_def count_loop_card)
qed

lemma complete_iff: "bitmap_complete m \<longleftrightarrow> bitmap_abs m = {..<bm_n m}"
proof -
  have "card (bitmap_abs m) = card {..<bm_n m} \<longleftrightarrow> bitmap_abs m = {..<bm_n m}"
    using abs_range [of m] by (metis card_subset_eq finite_lessThan)
  then show ?thesis by (simp add: bitmap_complete_def count_card)
qed

lemma missing_loop_filter:
  "0 \<le> limit \<Longrightarrow> int (length out) \<le> limit \<Longrightarrow> missing_loop m limit k i out
    = take (nat limit) (out @ map of_nat (filter (\<lambda>j. j \<notin> bitmap_abs m) [i..<i + k]))"
proof (induction k arbitrary: i out)
  case (Suc k)
  have up: "[i..<i + Suc k] = i # [Suc i..<Suc i + k]" by (simp add: upt_rec)
  show ?case
  proof (cases "limit \<le> int (length out)")
    case True
    with Suc.prems have "nat limit = length out" by simp
    with True show ?thesis by simp
  next
    case False
    then show ?thesis
      using Suc.IH [of "out @ [of_nat i]" "Suc i"] Suc.IH [of out "Suc i"] Suc.prems
      unfolding up by (simp add: bitmap_abs_def)
  qed
qed simp

lemma missing_eq: "0 \<le> limit \<Longrightarrow> bitmap_missing m limit
    = take (nat limit) (map of_nat (filter (\<lambda>j. j \<notin> bitmap_abs m) [0..<bm_n m]))"
  using missing_loop_filter [of limit "[]" m "bm_n m" 0] by (simp add: bitmap_missing_def)

section \<open>The interface the transfer engine uses\<close>

locale index_set =
  fixes new :: "nat \<Rightarrow> 'b" and add :: "'b \<Rightarrow> int \<Rightarrow> bool \<times> 'b" and has :: "'b \<Rightarrow> int \<Rightarrow> bool"
    and full :: "'b \<Rightarrow> bool" and size_of :: "'b \<Rightarrow> nat" and ok :: "'b \<Rightarrow> bool" and indexes :: "'b \<Rightarrow> nat set"
  assumes new_empty: "ok (new n) \<and> size_of (new n) = n \<and> indexes (new n) = {}"
    and add_ok: "ok m \<Longrightarrow> ok (snd (add m j)) \<and> size_of (snd (add m j)) = size_of m"
    and add_indexes: "ok m \<Longrightarrow> indexes (snd (add m (int i))) = indexes m \<union> ({i} \<inter> {..<size_of m})"
    and add_fresh: "ok m \<Longrightarrow> fst (add m (int i)) \<longleftrightarrow> i \<in> {..<size_of m} - indexes m"
    and has_iff: "ok m \<Longrightarrow> has m (int i) \<longleftrightarrow> i \<in> indexes m"
    and full_iff: "ok m \<Longrightarrow> full m \<longleftrightarrow> indexes m = {..<size_of m}"
begin

definition add_all :: "nat list \<Rightarrow> 'b \<Rightarrow> 'b" where
  "add_all is m = fold (\<lambda>i m. snd (add m (int i))) is m"

lemma add_all_ok: "ok m \<Longrightarrow> ok (add_all is m) \<and> size_of (add_all is m) = size_of m"
  unfolding add_all_def by (induction "is" arbitrary: m) (simp_all add: add_ok)

lemma add_all_indexes: "ok m \<Longrightarrow> indexes (add_all is m) = indexes m \<union> (set is \<inter> {..<size_of m})"
  unfolding add_all_def
proof (induction "is" arbitrary: m)
  case (Cons i "is")
  from Cons.IH [of "snd (add m (int i))"] Cons.prems show ?case
    by (auto simp: add_ok add_indexes)
qed simp

text \<open>Any arrivals, in any order and with repetitions, complete the set when they cover it.\<close>

lemma add_all_full: "ok m \<Longrightarrow> full (add_all is m) \<longleftrightarrow> {..<size_of m} \<subseteq> indexes m \<union> set is \<and> indexes m \<subseteq> {..<size_of m}"
  by (auto simp: full_iff add_all_ok add_all_indexes)

end

interpretation bits: index_set new_bitmap bitmap_set bitmap_has bitmap_complete bm_n bitmap_ok bitmap_abs
proof unfold_locales
  show "bitmap_ok (new_bitmap n) \<and> bm_n (new_bitmap n) = n \<and> bitmap_abs (new_bitmap n) = {}" for n
    using new_abs by (simp add: bitmap_ok_def) (simp add: new_bitmap_def)
  show "bitmap_ok m \<Longrightarrow> bitmap_ok (snd (bitmap_set m i)) \<and> bm_n (snd (bitmap_set m i)) = bm_n m" for m i
    by (simp add: set_ok)
  show "bitmap_ok m \<Longrightarrow> bitmap_abs (snd (bitmap_set m (int i))) = bitmap_abs m \<union> ({i} \<inter> {..<bm_n m})" for m i
    by (rule set_abs)
  show "bitmap_ok m \<Longrightarrow> fst (bitmap_set m (int i)) \<longleftrightarrow> i \<in> {..<bm_n m} - bitmap_abs m" for m i
    by (simp add: set_new bitmap_abs_def)
  show "bitmap_ok m \<Longrightarrow> bitmap_has m (int i) \<longleftrightarrow> i \<in> bitmap_abs m" for m i
    by (simp add: bitmap_abs_def)
  show "bitmap_ok m \<Longrightarrow> bitmap_complete m \<longleftrightarrow> bitmap_abs m = {..<bm_n m}" for m
    by (rule complete_iff)
qed

end
