(* ===== verification/BlobWire.thy ===== *)
theory BlobWire
  imports CryptoIface Bitmap
begin

text \<open>
  blob/wire.go and blob/crypto.go: the manifest of an offered file, the window
  requests and the chunks, with the checks on what a peer sends, and the
  encryption of a chunk under the file's one-time key. Go strings are byte
  lists; fixed arrays are byte lists whose length the records' users ensure.
\<close>

datatype blob_err = BErrMalformed | BErrBadChunk | BErrFile | BErrSize

definition ChunkSize :: nat where "ChunkSize = 60 * 1024"
definition Window :: nat where "Window = 64"
definition MaxFileSize :: nat where "MaxFileSize = 4 * 1024 * 1024 * 1024"
definition maxChunks :: nat where "maxChunks = 2 ^ 20"
definition maxNameLen :: nat where "maxNameLen = 255"

record manifest =
  mf_id :: bytes
  mf_name :: bytes
  mf_mime :: bytes
  mf_size :: u64
  mf_chunk :: u32
  mf_key :: bytes
  mf_hash :: bytes

text \<open>The generated message has the same fields, of any length.\<close>

type_synonym pb_manifest = manifest

text \<open>Only called on a chunk size that is not zero, where Go would panic.\<close>

definition chunks :: "manifest \<Rightarrow> nat" where
  "chunks m = unat ((mf_size m + ucast (mf_chunk m) - 1) div ucast (mf_chunk m))"

definition validate_manifest :: "manifest \<Rightarrow> bool" where
  "validate_manifest m =
     (if mf_size m = 0 \<or> MaxFileSize < unat (mf_size m) then False
      else if mf_chunk m = 0 \<or> ChunkSize < unat (mf_chunk m) then False
      else if maxChunks < chunks m then False
      else if mf_name m = [] \<or> maxNameLen < length (mf_name m) then False
      else length (mf_mime m) \<le> 127)"

definition encode_manifest :: "pb_manifest pb \<Rightarrow> manifest \<Rightarrow> blob_err + bytes" where
  "encode_manifest P m = (if \<not> validate_manifest m then Inl BErrMalformed else of_opt BErrMalformed (marshal P m))"

definition decode_manifest :: "pb_manifest pb \<Rightarrow> bytes \<Rightarrow> blob_err + manifest" where
  "decode_manifest P b =
     bindR (of_opt BErrMalformed (unmarshal P b)) (\<lambda>q.
     if length (mf_id q) \<noteq> 16 \<or> length (mf_key q) \<noteq> 32 \<or> length (mf_hash q) \<noteq> 32 then Inl BErrMalformed
     else if \<not> validate_manifest q then Inl BErrMalformed else Inr q)"

record request =
  rq_id :: bytes
  rq_idx :: "u32 list"

definition encode_request :: "request pb \<Rightarrow> request \<Rightarrow> blob_err + bytes" where
  "encode_request P r =
     (if rq_idx r = [] \<or> Window < length (rq_idx r) then Inl BErrMalformed else of_opt BErrMalformed (marshal P r))"

definition decode_request :: "request pb \<Rightarrow> bytes \<Rightarrow> blob_err + request" where
  "decode_request P b =
     bindR (of_opt BErrMalformed (unmarshal P b)) (\<lambda>q.
     if length (rq_id q) \<noteq> 16 \<or> rq_idx q = [] \<or> Window < length (rq_idx q) then Inl BErrMalformed else Inr q)"

record chunk =
  ck_id :: bytes
  ck_index :: u32
  ck_payload :: bytes

definition encode_chunk :: "chunk pb \<Rightarrow> chunk \<Rightarrow> blob_err + bytes" where
  "encode_chunk P c =
     (if ck_payload c = [] \<or> ChunkSize + 64 < length (ck_payload c) then Inl BErrMalformed
      else of_opt BErrMalformed (marshal P c))"

definition decode_chunk :: "chunk pb \<Rightarrow> bytes \<Rightarrow> blob_err + chunk" where
  "decode_chunk P b =
     bindR (of_opt BErrMalformed (unmarshal P b)) (\<lambda>q.
     if length (ck_id q) \<noteq> 16 \<or> ck_payload q = [] \<or> ChunkSize + 64 < length (ck_payload q)
     then Inl BErrMalformed else Inr q)"

section \<open>Encryption of chunks\<close>

definition chunk_nonce :: "u32 \<Rightarrow> bytes" where
  "chunk_nonce index = replicate 8 0 @ be32 index"

definition seal_chunk :: "crypto \<Rightarrow> bytes \<Rightarrow> bytes \<Rightarrow> u32 \<Rightarrow> bytes \<Rightarrow> bytes" where
  "seal_chunk C key file_id index plain = c_seal C key (chunk_nonce index) plain file_id"

definition open_chunk :: "crypto \<Rightarrow> bytes \<Rightarrow> bytes \<Rightarrow> u32 \<Rightarrow> bytes \<Rightarrow> blob_err + bytes" where
  "open_chunk C key file_id index payload = of_opt BErrBadChunk (c_open C key (chunk_nonce index) payload file_id)"

definition chunk_len :: "manifest \<Rightarrow> u32 \<Rightarrow> nat" where
  "chunk_len m index =
     (let off = ucast index * ucast (mf_chunk m) :: u64 in
      if mf_size m \<le> off then 0
      else let rest = mf_size m - off in
        if ucast (mf_chunk m) < rest then unat (mf_chunk m) else unat rest)"

lemma chunk_nonce_inj: "chunk_nonce i = chunk_nonce j \<longleftrightarrow> i = j"
  by (simp add: chunk_nonce_def be32_inj)

lemma open_seal_chunk: "aead_correct C \<Longrightarrow> open_chunk C k f i (seal_chunk C k f i p) = Inr p"
  by (simp add: open_chunk_def seal_chunk_def aead_correctD)

section \<open>The arithmetic of a valid manifest\<close>

definition csize :: "manifest \<Rightarrow> nat" where
  "csize m = unat (mf_chunk m)"

definition fsize :: "manifest \<Rightarrow> nat" where
  "fsize m = unat (mf_size m)"

lemma decode_manifest_valid: "decode_manifest P b = Inr m \<Longrightarrow>
    validate_manifest m \<and> length (mf_id m) = 16 \<and> length (mf_key m) = 32 \<and> length (mf_hash m) = 32"
  by (auto simp: decode_manifest_def bindR_Inr_iff split: if_splits)

lemma manifest_roundtrip: "encode_manifest P m = Inr b \<Longrightarrow> length (mf_id m) = 16 \<Longrightarrow> length (mf_key m) = 32
    \<Longrightarrow> length (mf_hash m) = 32 \<Longrightarrow> pb_roundtrip P m \<Longrightarrow> decode_manifest P b = Inr m"
  by (auto simp: encode_manifest_def decode_manifest_def bindR_Inr_iff pb_roundtrip_def split: if_splits)

lemma valid_sizes:
  assumes "validate_manifest m"
  shows "0 < fsize m" "fsize m \<le> 2 ^ 32" "0 < csize m" "csize m \<le> ChunkSize" "chunks m \<le> maxChunks"
proof -
  from assms have z: "mf_size m \<noteq> 0" "mf_chunk m \<noteq> 0" and le: "fsize m \<le> MaxFileSize" "csize m \<le> ChunkSize"
    "chunks m \<le> maxChunks"
    by (auto simp: validate_manifest_def fsize_def csize_def split: if_splits)
  from z show "0 < fsize m" "0 < csize m" by (simp_all add: fsize_def csize_def unat_gt_0)
  from le show "fsize m \<le> 2 ^ 32" "csize m \<le> ChunkSize" "chunks m \<le> maxChunks" by (simp_all add: MaxFileSize_def)
qed

lemma unat_u32_u64: "unat (ucast (w :: u32) :: u64) = unat w"
  using u32_lt [of w] by (simp add: unsigned_ucast_eq unsigned_take_bit_eq take_bit_nat_eq_self)

lemma unat_chunk64: "unat (ucast (mf_chunk m) :: u64) = csize m"
  by (simp add: csize_def unat_u32_u64)

lemma chunks_div:
  assumes "validate_manifest m"
  shows "chunks m = (fsize m + csize m - 1) div csize m"
proof -
  note V = valid_sizes [OF assms]
  have s: "unat (mf_size m + ucast (mf_chunk m)) = fsize m + csize m"
    using V by (simp add: unat_word_ariths fsize_def unat_chunk64 ChunkSize_def)
  moreover have "1 \<le> mf_size m + ucast (mf_chunk m)"
    using s V by (simp add: word_le_nat_alt)
  ultimately have "unat (mf_size m + ucast (mf_chunk m) - 1) = fsize m + csize m - 1"
    by (simp add: unat_sub)
  then show ?thesis by (simp add: chunks_def unat_div unat_chunk64)
qed

lemma chunk_len_eq:
  assumes "validate_manifest m"
  shows "chunk_len m i = min (csize m) (fsize m - unat i * csize m)"
proof -
  note V = valid_sizes [OF assms]
  have "unat i * csize m \<le> (2 ^ 32 - 1) * ChunkSize"
    by (rule mult_le_mono) (use u32_lt [of i] V in auto)
  also have "\<dots> < 2 ^ 64" by (simp add: ChunkSize_def)
  finally have "unat (ucast i * ucast (mf_chunk m) :: u64) = unat i * csize m"
    by (simp add: unat_word_ariths csize_def unat_u32_u64)
  then show ?thesis
    by (auto simp: chunk_len_def Let_def word_le_nat_alt word_less_nat_alt unat_sub unat_chunk64 fsize_def
        unat_sub_if_size csize_def split: if_splits)
qed

lemma chunks_cover:
  fixes c s i :: nat
  assumes "0 < c" "0 < s"
  shows "i * c < s \<longleftrightarrow> i < (s + c - 1) div c"
proof -
  have "i < (s + c - 1) div c \<longleftrightarrow> Suc i * c \<le> s + c - 1"
    using assms by (simp add: less_eq_div_iff_mult_less_eq flip: Suc_le_eq)
  also have "\<dots> \<longleftrightarrow> i * c < s" using assms by auto
  finally show ?thesis by simp
qed

text \<open>A file is the concatenation of its chunks.\<close>

definition piece :: "manifest \<Rightarrow> bytes \<Rightarrow> nat \<Rightarrow> bytes" where
  "piece m data i = take (chunk_len m (of_nat i)) (drop (i * csize m) data)"

lemma pieces_prefix:
  assumes "validate_manifest m" "length data = fsize m" "k \<le> chunks m"
  shows "concat (map (piece m data) [0..<k]) = take (k * csize m) data"
  using assms(3)
proof (induction k)
  case (Suc k)
  note V = valid_sizes [OF assms(1)]
  have "k < 2 ^ 32" using Suc.prems V(5) by (simp add: maxChunks_def)
  then have u: "unat (of_nat k :: u32) = k" by (rule unat_of_nat_u32)
  have "piece m data k = take (csize m) (drop (k * csize m) data)"
    using assms(2) by (simp add: piece_def chunk_len_eq [OF assms(1)] u min_def)
  then have "concat (map (piece m data) [0..<Suc k]) = take (k * csize m) data @ take (csize m) (drop (k * csize m) data)"
    using Suc by simp
  also have "\<dots> = take (Suc k * csize m) data" by (simp only: mult_Suc add.commute [of "csize m"] take_add)
  finally show ?case .
qed simp

lemma file_of_pieces:
  assumes "validate_manifest m" "length data = fsize m"
  shows "concat (map (piece m data) [0..<chunks m]) = data"
proof -
  note V = valid_sizes [OF assms(1)]
  have "fsize m \<le> chunks m * csize m"
    using chunks_cover [OF V(3,1), of "chunks m"] chunks_div [OF assms(1)] by simp
  then show ?thesis using pieces_prefix [OF assms order_refl] assms(2) by simp
qed

lemma chunk_len_zero:
  assumes "validate_manifest m"
  shows "chunk_len m i = 0 \<longleftrightarrow> chunks m \<le> unat i"
  using chunks_cover [of "csize m" "fsize m" "unat i"] valid_sizes [OF assms]
  by (auto simp: chunk_len_eq [OF assms] chunks_div [OF assms] min_def not_less)

text \<open>
  Whatever bytes a peer sends as a manifest, what Decode accepts describes
  a finite file of at most 4 GiB and at most 2^20 chunks (so the receiver's
  bitmap is at most 128 KiB), none of the 64-bit sums and products wraps, the
  chunks are non-empty exactly below their number and none exceeds 60 KiB, and
  the chunks put one after the other are the file: nothing is missing, nothing
  overlaps. No two chunks of a file use one nonce.
\<close>

theorem chunks_tile_the_file:
  assumes "decode_manifest P b = Inr m"
  shows "0 < chunks m \<and> length (bm_bits (new_bitmap (chunks m))) \<le> 2 ^ 17
    \<and> (\<forall>i. (chunk_len m i = 0 \<longleftrightarrow> chunks m \<le> unat i) \<and> chunk_len m i \<le> 60 * 1024)
    \<and> (\<forall>data :: bytes. length data = unat (mf_size m) \<longrightarrow> concat (map (\<lambda>j. take (chunk_len m (of_nat j))
        (drop (j * unat (mf_chunk m)) data)) [0..<chunks m]) = data)
    \<and> (\<forall>i j. i \<noteq> j \<longrightarrow> chunk_nonce i \<noteq> chunk_nonce j)"
proof -
  from decode_manifest_valid [OF assms] have v: "validate_manifest m" by simp
  note V = valid_sizes [OF v]
  have "0 < chunks m" using chunks_cover [OF V(3,1), of 0] V(1) chunks_div [OF v] by simp
  moreover have "length (bm_bits (new_bitmap (chunks m))) \<le> 2 ^ 17"
    using V(5) by (simp add: new_bitmap_def maxChunks_def)
  moreover have "(chunk_len m i = 0 \<longleftrightarrow> chunks m \<le> unat i) \<and> chunk_len m i \<le> 60 * 1024" for i
    using chunk_len_zero [OF v, of i] V(4) by (simp add: chunk_len_eq [OF v] ChunkSize_def)
  moreover have "concat (map (\<lambda>j. take (chunk_len m (of_nat j)) (drop (j * unat (mf_chunk m)) data)) [0..<chunks m]) = data"
    if "length data = unat (mf_size m)" for data :: bytes
    using file_of_pieces [OF v, of data] that unfolding piece_def [abs_def] by (simp add: fsize_def csize_def)
  ultimately show ?thesis by (simp add: chunk_nonce_inj)
qed

definition demo_manifest :: manifest where
  "demo_manifest = \<lparr>mf_id = replicate 16 1, mf_name = str_bytes ''a.txt'', mf_mime = [], mf_size = 5, mf_chunk = 2,
     mf_key = replicate 32 2, mf_hash = [9, 8, 7, 6, 5] @ replicate 27 0\<rparr>"

lemma demo_manifest_chunks: "chunks demo_manifest = 3" "chunk_len demo_manifest 2 = 1"
  by (simp_all add: chunks_def chunk_len_def demo_manifest_def)

lemma demo_manifest_ok: "decode_manifest (one_pb [1] demo_manifest) [1] = Inr demo_manifest"
  using demo_manifest_chunks
  by (simp add: decode_manifest_def validate_manifest_def MaxFileSize_def ChunkSize_def maxChunks_def maxNameLen_def)
    (simp add: demo_manifest_def str_bytes_def)

theorem chunks_tile_the_file_witness:
  "concat (map (\<lambda>j. take (chunk_len demo_manifest (of_nat j)) (drop (j * 2) [9, 8, 7, 6, 5])) [0..<3]) = [9, 8, 7, 6, 5 :: byte]
   \<and> chunk_len demo_manifest 2 = 1"
proof -
  have "length [9, 8, 7, 6, 5 :: byte] = unat (mf_size demo_manifest)" "unat (mf_chunk demo_manifest) = 2"
    by (simp_all add: demo_manifest_def)
  then show ?thesis
    using chunks_tile_the_file [OF demo_manifest_ok] by (simp add: demo_manifest_chunks)
qed

end
