(* ===== verification/World.thy ===== *)
theory World
  imports Monad Peer Envelope GroupWire BlobWire RatchetWire
begin

text \<open>
  The state of one node and what surrounds a call. \<open>db\<close> is the SQLite database
  of package store, one field per table; \<open>world\<close> adds what the managers keep in
  memory, the random source and what the node has emitted (frames to the
  network, callbacks to the presentation layer), newest last. \<open>env\<close> collects the
  parameters: the node's keys, the libraries, the clock reading of the call and
  whether the network takes a frame. Failures of the SQL engine itself are not
  modelled; violated constraints and the driver's refusals are.
\<close>

datatype err =
  ErrSQL | ErrRand | ErrMarshal | ErrWrongKey | ErrNet
  | ErrRatchet ratchet_err | ErrEnvelope envelope_err | ErrSenderKey sk_err
  | ErrAliasUnknown | ErrSelf | ErrBlocked | ErrUnknownPeer
  | ErrBadInvite | ErrBadChecksum | ErrBadInviteLen
  | ErrPeerBlocked | ErrEmptyText | ErrTooLong | ErrNoSession
  | ErrBusy | ErrUnknownCall | ErrBadState
  | ErrGroup group_err | ErrBlob blob_err

section \<open>Records of the store\<close>

datatype status = StatusQueued | StatusSent | StatusDelivered

text \<open>The numbers the status column holds.\<close>

fun status_num :: "status \<Rightarrow> nat" where
  "status_num StatusQueued = 1"
| "status_num StatusSent = 2"
| "status_num StatusDelivered = 3"

record smsg =
  sm_peer :: peer_id
  sm_id :: msg_id
  sm_out :: bool
  sm_seq :: u64
  sm_lam :: u64
  sm_sent :: int
  sm_status :: status
  sm_deleted :: bool
  sm_body :: "bytes option"
  sm_sender :: "bytes option"

text \<open>A row of table messages is a message whose body is the sealed one.\<close>

type_synonym mrow = smsg

record orow =
  o_row :: nat
  o_peer :: peer_id
  o_id :: msg_id
  o_frame :: bytes
  o_attempts :: nat
  o_next :: int

record drow =
  dd_peer :: peer_id
  dd_id :: msg_id
  dd_seen :: int

datatype pstate = PeerNone | PeerContact | PeerBlocked

record prow =
  p_peer :: peer_id
  p_state :: pstate
  p_alias :: "bytes option"
  p_created :: int
  p_updated :: int

record frow =
  f_id :: bytes
  f_peer :: peer_id
  f_out :: bool
  f_man :: bytes
  f_path :: bytes
  f_bitmap :: bytes
  f_done :: bool
  f_created :: int
  f_updated :: int

record grow =
  g_id :: bytes
  g_name :: bytes
  g_admin :: bytes
  g_version :: u64
  g_mem :: bytes
  g_left :: bool
  g_created :: int
  g_updated :: int

record srow =
  s_row :: nat
  s_peer :: peer_id
  s_type :: etype
  s_payload :: bytes

record db =
  d_meta :: "string \<rightharpoonup> bytes"
  d_msgs :: "mrow list" \<comment> \<open>in the order of their ids: rows are never deleted\<close>
  d_outbox :: "orow list"
  d_dedup :: "drow list"
  d_ctrs :: "string \<rightharpoonup> nat"
  d_sess :: "peer_id \<rightharpoonup> bytes"
  d_hs :: "peer_id \<rightharpoonup> bytes \<times> bytes"
  d_peers :: "prow list"
  d_pend :: "(peer_id \<times> msg_id \<times> int) list"
  d_files :: "frow list"
  d_groups :: "grow list"
  d_members :: "(bytes \<times> peer_id) list"
  d_skeys :: "bytes \<times> peer_id \<rightharpoonup> bytes"
  d_sealed :: "srow list"

section \<open>The node\<close>

datatype call_state = StateRingingOut | StateRingingIn | StateActive | StateEnded

record call =
  c_id :: bytes
  c_peer :: peer_id
  c_state :: call_state
  c_out :: bool
  c_codecs :: "string list"

datatype out =
  OSend peer_id bytes \<comment> \<open>a frame the network took\<close>
  | OMessage smsg
  | OGroupMessage smsg
  | ODelivered peer_id msg_id
  | OAdded peer_id
  | OPresence peer_id bool
  | OCallIncoming call
  | OCallState call
  | OFileOffered peer_id manifest
  | OFileProgress bytes nat nat
  | OFileDone bytes bytes

text \<open>An active pull of package blob: the file descriptor is an inode number.\<close>

record pull =
  pl_peer :: peer_id
  pl_man :: manifest
  pl_bm :: bitmap
  pl_fd :: nat
  pl_window :: "u32 list"
  pl_at :: "int option" \<comment> \<open>None is the zero time\<close>
  pl_dirty :: nat

text \<open>
  The call manager shares call objects by pointer: \<open>w_calls\<close> is the store of
  objects, \<open>w_call\<close> the address of the current one, \<open>w_serial\<close> the next free address. Files
  are inodes, so that an open file stays the same file when its path is renamed
  or removed.
\<close>

record world =
  w_db :: db
  w_rnd :: reader
  w_ctr :: "string \<Rightarrow> nat" \<comment> \<open>the statistics counters, by package and name\<close>
  w_states :: "peer_id \<rightharpoonup> pstate" \<comment> \<open>the contact manager's snapshot\<close>
  w_seen :: "peer_id \<rightharpoonup> int"
  w_online :: "peer_id \<Rightarrow> bool"
  w_call :: "nat option"
  w_calls :: "nat \<Rightarrow> call"
  w_serial :: nat
  w_kicks :: "peer_id list" \<comment> \<open>the outbox's kick channel\<close>
  w_wake :: bool \<comment> \<open>the group manager's kick channel, of capacity one\<close>
  w_newpulls :: "frow list" \<comment> \<open>the blob manager's channels\<close>
  w_drops :: "bytes list"
  w_chunks :: "(peer_id \<times> envelope) list"
  w_reqs :: "(peer_id \<times> envelope) list"
  w_pulls :: "bytes \<rightharpoonup> pull" \<comment> \<open>its active pulls\<close>
  w_paths :: "bytes \<rightharpoonup> nat"
  w_inodes :: "nat \<Rightarrow> bytes"
  w_ino :: nat \<comment> \<open>the next free inode\<close>
  w_out :: "out list"

record pb_offer = po_id :: bytes  po_codecs :: "string list"
record pb_answer = pa_id :: bytes  pa_accept :: bool
record pb_hangup = ph_id :: bytes

record env =
  v_crypto :: crypto
  v_key :: bytes \<comment> \<open>the key of the database's content fields\<close>
  v_self :: peer_id
  v_ik :: bytes \<comment> \<open>the ratchet identity key\<close>
  v_now :: int \<comment> \<open>the clock in unix milliseconds\<close>
  v_link :: "peer_id \<Rightarrow> bytes \<Rightarrow> bool" \<comment> \<open>does the network take this frame now\<close>
  v_penv :: "pb_envelope pb"
  v_pmsg :: "pb_message pb"
  v_pinit :: "pb_init pb"
  v_pstate :: "pb_state pb"
  v_poffer :: "pb_offer pb"
  v_panswer :: "pb_answer pb"
  v_phangup :: "pb_hangup pb"
  v_pmem :: "pb_membership pb"
  v_pwelcome :: "pb_welcome pb"
  v_pupdate :: "pb_update pb"
  v_pkey :: "pb_sdist pb"
  v_pgmsg :: "pb_gmsg pb"
  v_pman :: "pb_manifest pb"
  v_preq :: "request pb"
  v_pchunk :: "chunk pb"
  v_admin :: bytes \<comment> \<open>the group admin key\<close>
  v_dir :: bytes \<comment> \<open>the directory of incoming files\<close>
  v_disk :: "bytes \<Rightarrow> bool" \<comment> \<open>does the disk serve this path now\<close>

section \<open>Transactions\<close>

text \<open>
  \<open>store.Tx\<close>: the handle carries the closures registered with AfterCommit.
  Code inside a transaction may touch the memory of the managers too; only the
  database is rolled back.
\<close>

type_synonym hook = "world \<Rightarrow> world"
type_synonym txs = "world \<times> hook list"
type_synonym 'a tx = "txs \<Rightarrow> (err + 'a) \<times> txs"

definition q_db :: "(db \<Rightarrow> 'a) \<Rightarrow> 'a tx" where
  "q_db f = reads (\<lambda>(w, hs). f (w_db w))"

definition q_world :: "(world \<Rightarrow> 'a) \<Rightarrow> 'a tx" where
  "q_world f = reads (\<lambda>(w, hs). f w)"

definition on_world :: "(world \<Rightarrow> world) \<Rightarrow> unit tx" where
  "on_world f = modifies (\<lambda>(w, hs). (f w, hs))"

definition on_db :: "(db \<Rightarrow> db) \<Rightarrow> unit tx" where
  "on_db f = on_world (\<lambda>w. w\<lparr>w_db := f (w_db w)\<rparr>)"

text \<open>A consumer of the random source; the tape is left where it was if it fails.\<close>

definition with_rnd :: "(reader \<Rightarrow> err + ('a \<times> reader)) \<Rightarrow> 'a tx" where
  "with_rnd f = (\<lambda>(w, hs). case f (w_rnd w) of
     Inl e \<Rightarrow> (Inl e, (w, hs)) | Inr (x, r) \<Rightarrow> (Inr x, (w\<lparr>w_rnd := r\<rparr>, hs)))"

definition draw :: "nat \<Rightarrow> bytes tx" where
  "draw n = with_rnd (\<lambda>r. of_opt ErrRand (read_full n r))"

definition bump_w :: "string \<Rightarrow> world \<Rightarrow> world" where
  "bump_w c w = w\<lparr>w_ctr := (w_ctr w)(c := w_ctr w c + 1)\<rparr>"

definition bump :: "string \<Rightarrow> unit tx" where
  "bump c = on_world (bump_w c)"

definition after_commit :: "hook \<Rightarrow> unit tx" where
  "after_commit h = modifies (\<lambda>(w, hs). (w, hs @ [h]))"

definition emit :: "out \<Rightarrow> world \<Rightarrow> world" where
  "emit x w = w\<lparr>w_out := w_out w @ [x]\<rparr>"

definition run_hooks :: "hook list \<Rightarrow> world \<Rightarrow> world" where
  "run_hooks hs w = fold (\<lambda>h. h) hs w"

definition run_tx :: "'a tx \<Rightarrow> world \<Rightarrow> (err + 'a) \<times> world" where
  "run_tx f w = (case f (w, []) of
     (Inl e, (w', hs)) \<Rightarrow> (Inl e, w'\<lparr>w_db := w_db w\<rparr>)
   | (Inr x, (w', hs)) \<Rightarrow> (Inr x, run_hooks hs w'))"

lemmas tx_defs = q_db_def q_world_def on_world_def on_db_def bump_def after_commit_def

lemma tx_run [simp]:
  "q_db f (w, hs) = (Inr (f (w_db w)), (w, hs))"
  "q_world g (w, hs) = (Inr (g w), (w, hs))"
  "on_world h (w, hs) = (Inr (), (h w, hs))"
  "on_db k (w, hs) = (Inr (), (w\<lparr>w_db := k (w_db w)\<rparr>, hs))"
  "bump c (w, hs) = (Inr (), (bump_w c w, hs))"
  "after_commit x (w, hs) = (Inr (), (w, hs @ [x]))"
  by (simp_all add: tx_defs)

lemma tx_bnd [simp]:
  "bnd (q_db f) k1 (w, hs) = k1 (f (w_db w)) (w, hs)"
  "bnd (q_world g) k2 (w, hs) = k2 (g w) (w, hs)"
  "bnd (on_world h) k3 (w, hs) = k3 () (h w, hs)"
  "bnd (on_db k) k4 (w, hs) = k4 () (w\<lparr>w_db := k (w_db w)\<rparr>, hs)"
  "bnd (bump c) k5 (w, hs) = k5 () (bump_w c w, hs)"
  "bnd (after_commit x) k6 (w, hs) = k6 () (w, hs @ [x])"
  by (simp_all add: bnd_def)

lemma tx_seq [simp]:
  "seq (on_world h) n1 (w, hs) = n1 (h w, hs)"
  "seq (on_db k) n2 (w, hs) = n2 (w\<lparr>w_db := k (w_db w)\<rparr>, hs)"
  "seq (bump c) n3 (w, hs) = n3 (bump_w c w, hs)"
  "seq (after_commit x) n4 (w, hs) = n4 (w, hs @ [x])"
  by (simp_all add: seq_def)

lemma rnd_same [simp]: "\<exists>rnd. w = w\<lparr>w_rnd := rnd\<rparr>"
  by (rule exI [of _ "w_rnd w"]) simp

lemma with_rnd_Inr_iff: "with_rnd f (w, hs) = (Inr x, s') \<longleftrightarrow>
    (\<exists>r. f (w_rnd w) = Inr (x, r) \<and> s' = (w\<lparr>w_rnd := r\<rparr>, hs))"
  by (auto simp: with_rnd_def split: sum.splits)

lemma with_rnd_Inl_iff: "with_rnd f (w, hs) = (Inl e, s') \<longleftrightarrow> f (w_rnd w) = Inl e \<and> s' = (w, hs)"
  by (auto simp: with_rnd_def split: sum.splits)

lemma bump_w_simps [simp]:
  "w_db (bump_w c w) = w_db w" "w_rnd (bump_w c w) = w_rnd w" "w_states (bump_w c w) = w_states w"
  "w_seen (bump_w c w) = w_seen w" "w_online (bump_w c w) = w_online w" "w_call (bump_w c w) = w_call w"
  "w_kicks (bump_w c w) = w_kicks w" "w_wake (bump_w c w) = w_wake w" "w_pulls (bump_w c w) = w_pulls w"
  "w_out (bump_w c w) = w_out w" "w_calls (bump_w c w) = w_calls w" "w_serial (bump_w c w) = w_serial w" "w_newpulls (bump_w c w) = w_newpulls w"
  "w_drops (bump_w c w) = w_drops w" "w_chunks (bump_w c w) = w_chunks w" "w_reqs (bump_w c w) = w_reqs w"
  "w_paths (bump_w c w) = w_paths w" "w_inodes (bump_w c w) = w_inodes w" "w_ino (bump_w c w) = w_ino w"
  by (simp_all add: bump_w_def)

lemma emit_simps [simp]:
  "w_db (emit x w) = w_db w" "w_rnd (emit x w) = w_rnd w" "w_states (emit x w) = w_states w"
  "w_ctr (emit x w) = w_ctr w"
  "w_seen (emit x w) = w_seen w" "w_online (emit x w) = w_online w" "w_call (emit x w) = w_call w"
  "w_kicks (emit x w) = w_kicks w" "w_wake (emit x w) = w_wake w" "w_pulls (emit x w) = w_pulls w"
  "w_out (emit x w) = w_out w @ [x]" "w_calls (emit x w) = w_calls w" "w_serial (emit x w) = w_serial w" "w_newpulls (emit x w) = w_newpulls w"
  "w_drops (emit x w) = w_drops w" "w_chunks (emit x w) = w_chunks w" "w_reqs (emit x w) = w_reqs w"
  "w_paths (emit x w) = w_paths w" "w_inodes (emit x w) = w_inodes w" "w_ino (emit x w) = w_ino w"
  by (simp_all add: emit_def)

text \<open>A failed transaction leaves the database as it was and runs no hook.\<close>

lemma run_tx_error: "run_tx f w = (Inl e, w') \<Longrightarrow> w_db w' = w_db w"
  by (auto simp: run_tx_def split: prod.splits sum.splits)

lemma run_tx_Inr: "f (w, []) = (Inr x, (w', hs)) \<Longrightarrow> run_tx f w = (Inr x, run_hooks hs w')"
  by (simp add: run_tx_def)

lemma run_tx_Inl: "f (w, []) = (Inl e, (w', hs)) \<Longrightarrow> run_tx f w = (Inl e, w'\<lparr>w_db := w_db w\<rparr>)"
  by (simp add: run_tx_def)

section \<open>Sealed fields\<close>

definition NonceSizeX :: nat where "NonceSizeX = 24"
definition Overhead :: nat where "Overhead = 16"

definition box_seal :: "env \<Rightarrow> bytes \<Rightarrow> bytes \<Rightarrow> bytes tx" where
  "box_seal E plain aad =
     bnd (draw NonceSizeX) (\<lambda>nonce. ret (nonce @ c_xseal (v_crypto E) (v_key E) nonce plain aad))"

definition box_open :: "env \<Rightarrow> bytes \<Rightarrow> bytes \<Rightarrow> err + bytes" where
  "box_open E blob aad =
     (if length blob < NonceSizeX + Overhead then Inl ErrWrongKey
      else of_opt ErrWrongKey
        (c_xopen (v_crypto E) (v_key E) (take NonceSizeX blob) (drop NonceSizeX blob) aad))"

lemma box_seal_run: "box_seal E p a (w, hs) = (Inr c, s') \<Longrightarrow>
    (\<exists>n r. length n = NonceSizeX \<and> c = n @ c_xseal (v_crypto E) (v_key E) n p a \<and> s' = (w\<lparr>w_rnd := r\<rparr>, hs))"
  by (auto simp: box_seal_def bnd_Inr_iff draw_def with_rnd_Inr_iff dest: read_full_length)

lemma box_seal_fails: "box_seal E p a (w, hs) = (Inl e, s') \<Longrightarrow> e = ErrRand \<and> s' = (w, hs)"
  by (auto simp: box_seal_def bnd_Inl_iff draw_def with_rnd_Inl_iff)

lemma box_open_seal:
  assumes "xaead_correct (v_crypto E)" and "box_seal E p a (w, hs) = (Inr c, s')"
  shows "box_open E c a = Inr p"
  using box_seal_run [OF assms(2)] xaead_correctD [OF assms(1)]
  by (auto simp: box_open_def Overhead_def)

section \<open>A node with a new database\<close>

definition empty_db :: db where
  "empty_db = \<lparr>d_meta = Map.empty, d_msgs = [], d_outbox = [], d_dedup = [], d_ctrs = Map.empty,
     d_sess = Map.empty, d_hs = Map.empty, d_peers = [], d_pend = [], d_files = [], d_groups = [],
     d_members = [], d_skeys = Map.empty, d_sealed = []\<rparr>"

definition new_world :: "reader \<Rightarrow> world" where
  "new_world r = \<lparr>w_db = empty_db, w_rnd = r, w_ctr = (\<lambda>_. 0), w_states = Map.empty, w_seen = Map.empty,
     w_online = (\<lambda>_. False), w_call = None, w_calls = (\<lambda>_. \<lparr>c_id = [], c_peer = PeerID [], c_state = StateEnded, c_out = False, c_codecs = []\<rparr>), w_serial = 0, w_kicks = [], w_wake = False, w_newpulls = [], w_drops = [],
     w_chunks = [], w_reqs = [], w_pulls = Map.empty, w_paths = Map.empty, w_inodes = (\<lambda>_. []), w_ino = 0, w_out = []\<rparr>"

text \<open>An environment for the witnesses: a lawful crypto library, codecs good for one message each.\<close>

definition demo_env :: env where
  "demo_env = \<lparr>v_crypto = demo_crypto, v_key = replicate 32 5, v_self = PeerID (replicate 32 1),
     v_ik = replicate 32 9, v_now = 1000, v_link = (\<lambda>_ _. True),
     v_penv = one_pb [1] \<lparr>pe_id = [], pe_type = 1, pe_seq = 0, pe_lamport = 0, pe_payload = []\<rparr>,
     v_pmsg = one_pb [2] \<lparr>pm_dh = [], pm_pn = 0, pm_n = 0, pm_ct = []\<rparr>,
     v_pinit = one_pb [3] \<lparr>pi_ik = [], pi_eph = [], pi_sid = []\<rparr>,
     v_pstate = one_pb [4] \<lparr>pt_rk = [], pt_dhs = [], pt_dhr = None, pt_cks = None, pt_ckr = None,
       pt_ns = 0, pt_nr = 0, pt_pn = 0, pt_ad = [], pt_skipped = []\<rparr>,
     v_poffer = one_pb [5] \<lparr>po_id = [], po_codecs = []\<rparr>,
     v_panswer = one_pb [6] \<lparr>pa_id = [], pa_accept = False\<rparr>,
     v_phangup = one_pb [7] \<lparr>ph_id = []\<rparr>,
     v_pmem = one_pb [8] (mem_pb demo_member), v_pwelcome = one_pb [9] \<lparr>gw_mem = None, gw_keys = []\<rparr>,
     v_pupdate = one_pb [10] \<lparr>gu_mem = None\<rparr>, v_pkey = one_pb [11] \<lparr>gd_gid = [], gd_gen = 0, gd_ck = [], gd_n = 0, gd_sign = []\<rparr>,
     v_pgmsg = one_pb [12] \<lparr>gg_gid = [], gg_gen = 0, gg_n = 0, gg_ct = [], gg_sig = []\<rparr>,
     v_pman = one_pb [13] demo_manifest, v_preq = one_pb [14] \<lparr>rq_id = [], rq_idx = []\<rparr>,
     v_pchunk = one_pb [15] \<lparr>ck_id = [], ck_index = 0, ck_payload = []\<rparr>,
     v_admin = replicate 32 3, v_dir = [47], v_disk = (\<lambda>_. True)\<rparr>"

text \<open>Codecs for a table of messages: what they write they read back.\<close>

definition table_pb :: "('m \<times> bytes) list \<Rightarrow> 'm pb" where
  "table_pb ms = \<lparr>marshal = map_of ms, unmarshal = map_of (map prod.swap ms)\<rparr>"

lemma table_pb_roundtrip: "distinct (map snd ms) \<Longrightarrow> pb_roundtrip (table_pb ms) q"
  by (auto simp: pb_roundtrip_def table_pb_def comp_def image_image map_of_eq_Some_iff
      dest!: map_of_SomeD split: option.split)

lemma table_pb_law: "distinct (map snd ms) \<Longrightarrow> pb_roundtrip (table_pb ms) = (\<lambda>q. True)"
  by (rule ext) (simp add: table_pb_roundtrip)

end
