(* ===== verification/Store.thy ===== *)
theory Store
  imports World
begin

text \<open>
  Package store: the operations on the database. Every write goes through a
  transaction (\<open>'a tx\<close>); content fields are sealed under the store key with the
  place of storage as associated data, metadata is in the clear. SQL statements
  are written out over the tables of \<open>db\<close>; an int64 column refuses a uint64 with
  its top bit set (\<open>ErrSQL\<close>). store/box.go, store/db.go, store/tx.go,
  store/session.go and store/peers.go are here, groups and files in theories
  of their own.
\<close>

definition sql_u64 :: "u64 \<Rightarrow> bool" where
  "sql_u64 v \<longleftrightarrow> unat v < 2 ^ 63"

definition aad_message :: "peer_id \<Rightarrow> msg_id \<Rightarrow> bool \<Rightarrow> bytes" where
  "aad_message p mid outgoing = str_bytes ''messages.body'' @ id_bytes p @ mid @ [if outgoing then 1 else 0]"

definition aad_outbox :: "peer_id \<Rightarrow> msg_id \<Rightarrow> bytes" where
  "aad_outbox p mid = str_bytes ''outbox.frame'' @ id_bytes p @ mid"

definition aad_meta :: "string \<Rightarrow> bytes" where
  "aad_meta k = str_bytes ''meta.'' @ str_bytes k"

definition aad_session :: "peer_id \<Rightarrow> bytes" where
  "aad_session p = str_bytes ''sessions.state'' @ id_bytes p"

definition aad_handshake :: "peer_id \<Rightarrow> bytes" where
  "aad_handshake p = str_bytes ''handshakes.hs'' @ id_bytes p"

definition aad_alias :: "peer_id \<Rightarrow> bytes" where
  "aad_alias p = str_bytes ''peers.alias'' @ id_bytes p"

text \<open>store/key.go: KeyFromSeed.\<close>

definition key_from_seed :: "crypto \<Rightarrow> bytes \<Rightarrow> bytes" where
  "key_from_seed C seed = c_hkdf C seed [] ''molva/store/v1'' 32"

section \<open>Opening: the canary\<close>

definition check_canary :: "env \<Rightarrow> unit tx" where
  "check_canary E =
     bnd (q_db (\<lambda>d. d_meta d ''canary'')) (\<lambda>v. case v of
       None \<Rightarrow> bnd (box_seal E (str_bytes ''molva'') (aad_meta ''canary''))
         (\<lambda>sealed. on_db (\<lambda>d. d\<lparr>d_meta := (d_meta d)(''canary'' \<mapsto> sealed)\<rparr>))
     | Some blob \<Rightarrow> bnd (res (box_open E blob (aad_meta ''canary''))) (\<lambda>_. ret ()))"

section \<open>History\<close>

definition msg_key :: "mrow \<Rightarrow> peer_id \<times> bool \<times> msg_id" where
  "msg_key r = (sm_peer r, sm_out r, sm_id r)"

definition insert_message :: "env \<Rightarrow> smsg \<Rightarrow> bool tx" where
  "insert_message E m =
     bnd (case sm_body m of
            Some b \<Rightarrow> if sm_deleted m then ret None
              else bnd (box_seal E b (aad_message (sm_peer m) (sm_id m) (sm_out m))) (\<lambda>ct. ret (Some ct))
          | None \<Rightarrow> ret None) (\<lambda>ct.
     bnd (q_db d_msgs) (\<lambda>rows.
     if \<not> sql_u64 (sm_seq m) \<or> \<not> sql_u64 (sm_lam m) then fail ErrSQL
     else if msg_key m \<in> msg_key ` set rows then ret False
     else seq (on_db (\<lambda>d. d\<lparr>d_msgs := d_msgs d @ [m\<lparr>sm_body := ct\<rparr>]\<rparr>)) (ret True)))"

definition scan_message :: "env \<Rightarrow> mrow \<Rightarrow> err + smsg" where
  "scan_message E r =
     (case sm_body r of None \<Rightarrow> Inr r
      | Some ct \<Rightarrow> bindR (box_open E ct (aad_message (sm_peer r) (sm_id r) (sm_out r)))
          (\<lambda>body. Inr (r\<lparr>sm_body := Some body\<rparr>)))"

definition get_message :: "env \<Rightarrow> peer_id \<Rightarrow> msg_id \<Rightarrow> bool \<Rightarrow> smsg option tx" where
  "get_message E p mid outgoing =
     bnd (q_db (\<lambda>d. find (\<lambda>r. msg_key r = (p, outgoing, mid)) (d_msgs d))) (\<lambda>r.
     case r of None \<Rightarrow> ret None
     | Some r \<Rightarrow> bnd (res (scan_message E r)) (\<lambda>m. ret (Some m)))"

definition status_up :: "peer_id \<Rightarrow> msg_id \<Rightarrow> status \<Rightarrow> unit tx" where
  "status_up p mid s = on_db (\<lambda>d. d\<lparr>d_msgs := map (\<lambda>r.
     if msg_key r = (p, True, mid) \<and> status_num (sm_status r) < status_num s
     then r\<lparr>sm_status := s\<rparr> else r) (d_msgs d)\<rparr>)"

definition delete_body :: "peer_id \<Rightarrow> msg_id \<Rightarrow> unit tx" where
  "delete_body p mid = on_db (\<lambda>d. d\<lparr>d_msgs := map (\<lambda>r.
     if sm_peer r = p \<and> sm_id r = mid then r\<lparr>sm_deleted := True, sm_body := None\<rparr> else r) (d_msgs d)\<rparr>)"

fun sequence_res :: "('e + 'a) list \<Rightarrow> 'e + 'a list" where
  "sequence_res [] = Inr []"
| "sequence_res (r # rs) = bindR r (\<lambda>x. bindR (sequence_res rs) (\<lambda>xs. Inr (x # xs)))"

text \<open>The newest \<open>limit\<close> messages of a dialog in display order: lamport, then row id.\<close>

definition list_messages :: "env \<Rightarrow> peer_id \<Rightarrow> int \<Rightarrow> db \<Rightarrow> err + smsg list" where
  "list_messages E p limit d =
     (let rows = sort_key (\<lambda>r. unat (sm_lam r)) (filter (\<lambda>r. sm_peer r = p) (d_msgs d));
          newest = (if 0 < limit then last_n (nat limit) rows else rows)
      in sequence_res (map (scan_message E) newest))"

section \<open>Counters\<close>

definition next_seq :: "string \<Rightarrow> nat tx" where
  "next_seq scope =
     bnd (q_db (\<lambda>d. case d_ctrs d scope of None \<Rightarrow> 1 | Some v \<Rightarrow> v + 1)) (\<lambda>v.
     seq (on_db (\<lambda>d. d\<lparr>d_ctrs := (d_ctrs d)(scope \<mapsto> v)\<rparr>)) (ret v))"

definition lamport_next :: "nat tx" where
  "lamport_next = next_seq ''lamport''"

definition lamportCeil :: nat where "lamportCeil = 2 ^ 53"

definition clamp_lamport :: "u64 \<Rightarrow> u64" where
  "clamp_lamport v = min v (of_nat lamportCeil)"

definition lamport_observe :: "u64 \<Rightarrow> unit tx" where
  "lamport_observe remote =
     (let r = unat (clamp_lamport remote) in
      on_db (\<lambda>d. d\<lparr>d_ctrs := (d_ctrs d)(''lamport'' \<mapsto>
        (case d_ctrs d ''lamport'' of None \<Rightarrow> r + 1 | Some v \<Rightarrow> max v r + 1))\<rparr>))"

definition recv_seq_observe :: "string \<Rightarrow> u64 \<Rightarrow> bool tx" where
  "recv_seq_observe scope sequ =
     (let s = unat (clamp_lamport sequ) in
      bnd (q_db (\<lambda>d. case d_ctrs d scope of None \<Rightarrow> 0 | Some v \<Rightarrow> v)) (\<lambda>cur.
      seq (whenM (cur < s) (on_db (\<lambda>d. d\<lparr>d_ctrs := (d_ctrs d)(scope \<mapsto> s)\<rparr>)))
        (ret (cur \<noteq> 0 \<and> cur + 1 < s))))"

section \<open>The deduplication window\<close>

definition dedup_key :: "drow \<Rightarrow> peer_id \<times> msg_id" where
  "dedup_key r = (dd_peer r, dd_id r)"

definition dedup_seen :: "peer_id \<Rightarrow> msg_id \<Rightarrow> db \<Rightarrow> bool" where
  "dedup_seen p mid d \<longleftrightarrow> (p, mid) \<in> dedup_key ` set (d_dedup d)"

definition dedup_insert :: "peer_id \<Rightarrow> msg_id \<Rightarrow> int \<Rightarrow> bool tx" where
  "dedup_insert p mid now =
     bnd (q_db (dedup_seen p mid)) (\<lambda>seen.
     if seen then seq (on_db (\<lambda>d. d\<lparr>d_dedup := map (\<lambda>r.
         if dedup_key r = (p, mid) then r\<lparr>dd_seen := now\<rparr> else r) (d_dedup d)\<rparr>)) (ret False)
     else seq (on_db (\<lambda>d. d\<lparr>d_dedup := d_dedup d @
         [\<lparr>dd_peer = p, dd_id = mid, dd_seen = now\<rparr>]\<rparr>)) (ret True))"

text \<open>By age, then by capacity: of the peer's rows the \<open>cap\<close> newest stay (equal times in row order).\<close>

definition dedup_prune :: "peer_id \<Rightarrow> int \<Rightarrow> nat \<Rightarrow> unit tx" where
  "dedup_prune p cutoff cap =
     seq (on_db (\<lambda>d. d\<lparr>d_dedup := filter (\<lambda>r. \<not> (dd_peer r = p \<and> dd_seen r < cutoff)) (d_dedup d)\<rparr>))
       (on_db (\<lambda>d. let kept = take cap (sort_key (\<lambda>r. - dd_seen r) (filter (\<lambda>r. dd_peer r = p) (d_dedup d)))
          in d\<lparr>d_dedup := filter (\<lambda>r. dd_peer r \<noteq> p \<or> r \<in> set kept) (d_dedup d)\<rparr>))"

section \<open>The outbox queue\<close>

definition outbox_key :: "orow \<Rightarrow> peer_id \<times> msg_id" where
  "outbox_key r = (o_peer r, o_id r)"

definition next_row :: "nat list \<Rightarrow> nat" where
  "next_row ids = Suc (fold max ids 0)"

definition outbox_enqueue :: "env \<Rightarrow> peer_id \<Rightarrow> msg_id \<Rightarrow> bytes \<Rightarrow> unit tx" where
  "outbox_enqueue E p mid frame =
     bnd (box_seal E frame (aad_outbox p mid)) (\<lambda>ct.
     bnd (q_db d_outbox) (\<lambda>rows.
     if (p, mid) \<in> outbox_key ` set rows then fail ErrSQL
     else on_db (\<lambda>d. d\<lparr>d_outbox := d_outbox d @ [\<lparr>o_row = next_row (map o_row (d_outbox d)), o_peer = p,
       o_id = mid, o_frame = ct, o_attempts = 0, o_next = v_now E\<rparr>]\<rparr>)))"

definition outbox_settle :: "peer_id \<Rightarrow> msg_id \<Rightarrow> bool tx" where
  "outbox_settle p mid =
     bnd (q_db (\<lambda>d. (p, mid) \<in> outbox_key ` set (d_outbox d))) (\<lambda>there.
     seq (on_db (\<lambda>d. d\<lparr>d_outbox := filter (\<lambda>r. outbox_key r \<noteq> (p, mid)) (d_outbox d)\<rparr>)) (ret there))"

definition outbox_attempt :: "nat \<Rightarrow> nat \<Rightarrow> int \<Rightarrow> unit tx" where
  "outbox_attempt row attempts next_at = on_db (\<lambda>d. d\<lparr>d_outbox := map (\<lambda>r.
     if o_row r = row then r\<lparr>o_attempts := attempts, o_next := next_at\<rparr> else r) (d_outbox d)\<rparr>)"

definition outbox_delete_row :: "nat \<Rightarrow> unit tx" where
  "outbox_delete_row row = on_db (\<lambda>d. d\<lparr>d_outbox := filter (\<lambda>r. o_row r \<noteq> row) (d_outbox d)\<rparr>)"

definition outbox_kick :: "peer_id \<Rightarrow> int \<Rightarrow> unit tx" where
  "outbox_kick p now = on_db (\<lambda>d. d\<lparr>d_outbox := map (\<lambda>r.
     if o_peer r = p \<and> now < o_next r then r\<lparr>o_attempts := 0, o_next := now\<rparr> else r) (d_outbox d)\<rparr>)"

definition outbox_purge :: "peer_id \<Rightarrow> unit tx" where
  "outbox_purge p = on_db (\<lambda>d. d\<lparr>d_outbox := filter (\<lambda>r. o_peer r \<noteq> p) (d_outbox d)\<rparr>)"

text \<open>Rows whose time has come, oldest first; the rows that do not open are returned apart.\<close>

definition outbox_due_rows :: "int \<Rightarrow> nat \<Rightarrow> db \<Rightarrow> orow list" where
  "outbox_due_rows now limit d =
     take limit (sort_key o_next (sort_key o_row (filter (\<lambda>r. o_next r \<le> now) (d_outbox d))))"

definition outbox_open :: "env \<Rightarrow> orow \<Rightarrow> err + orow" where
  "outbox_open E r = bindR (box_open E (o_frame r) (aad_outbox (o_peer r) (o_id r)))
     (\<lambda>frame. Inr (r\<lparr>o_frame := frame\<rparr>))"

definition outbox_due :: "env \<Rightarrow> int \<Rightarrow> nat \<Rightarrow> db \<Rightarrow> orow list \<times> nat list" where
  "outbox_due E now limit d =
     (let rows = outbox_due_rows now limit d
      in (concat (map (\<lambda>r. case outbox_open E r of Inr it \<Rightarrow> [it] | Inl e \<Rightarrow> []) rows),
          map o_row (filter (\<lambda>r. \<not> is_ok (outbox_open E r)) rows)))"

definition outbox_nearest :: "db \<Rightarrow> int option" where
  "outbox_nearest d = (case map o_next (d_outbox d) of [] \<Rightarrow> None | t # ts \<Rightarrow> Some (fold min ts t))"

definition outbox_pending :: "peer_id \<Rightarrow> db \<Rightarrow> nat" where
  "outbox_pending p d = length (filter (\<lambda>r. o_peer r = p) (d_outbox d))"

section \<open>Sessions and handshakes\<close>

definition session_get :: "env \<Rightarrow> peer_id \<Rightarrow> bytes option tx" where
  "session_get E p =
     bnd (q_db (\<lambda>d. d_sess d p)) (\<lambda>ct. case ct of None \<Rightarrow> ret None
     | Some ct \<Rightarrow> bnd (res (box_open E ct (aad_session p))) (\<lambda>st. ret (Some st)))"

definition session_put :: "env \<Rightarrow> peer_id \<Rightarrow> bytes \<Rightarrow> unit tx" where
  "session_put E p st =
     bnd (box_seal E st (aad_session p)) (\<lambda>ct. on_db (\<lambda>d. d\<lparr>d_sess := (d_sess d)(p \<mapsto> ct)\<rparr>))"

definition session_delete :: "peer_id \<Rightarrow> unit tx" where
  "session_delete p = on_db (\<lambda>d. d\<lparr>d_sess := (d_sess d)(p := None)\<rparr>)"

definition handshake_get :: "env \<Rightarrow> peer_id \<Rightarrow> bytes option tx" where
  "handshake_get E p =
     bnd (q_db (\<lambda>d. d_hs d p)) (\<lambda>row. case row of None \<Rightarrow> ret None
     | Some (ct, sid) \<Rightarrow> bnd (res (box_open E ct (aad_handshake p))) (\<lambda>b. ret (Some b)))"

definition handshake_put :: "env \<Rightarrow> peer_id \<Rightarrow> bytes \<Rightarrow> bytes \<Rightarrow> unit tx" where
  "handshake_put E p blob sid =
     bnd (box_seal E blob (aad_handshake p)) (\<lambda>ct. on_db (\<lambda>d. d\<lparr>d_hs := (d_hs d)(p \<mapsto> (ct, sid))\<rparr>))"

definition handshake_delete :: "peer_id \<Rightarrow> unit tx" where
  "handshake_delete p = on_db (\<lambda>d. d\<lparr>d_hs := (d_hs d)(p := None)\<rparr>)"

section \<open>Peers and texts that wait for a session\<close>

definition peer_put :: "peer_id \<Rightarrow> pstate \<Rightarrow> int \<Rightarrow> unit tx" where
  "peer_put p s now = on_db (\<lambda>d. d\<lparr>d_peers :=
     (if p \<in> p_peer ` set (d_peers d)
      then map (\<lambda>r. if p_peer r = p then r\<lparr>p_state := s, p_updated := now\<rparr> else r) (d_peers d)
      else d_peers d @ [\<lparr>p_peer = p, p_state = s, p_alias = None, p_created = now, p_updated = now\<rparr>])\<rparr>)"

definition peer_delete :: "peer_id \<Rightarrow> unit tx" where
  "peer_delete p = on_db (\<lambda>d. d\<lparr>d_peers := filter (\<lambda>r. p_peer r \<noteq> p) (d_peers d)\<rparr>)"

definition scan_peer :: "env \<Rightarrow> prow \<Rightarrow> err + prow" where
  "scan_peer E r = (case p_alias r of None \<Rightarrow> Inr r
     | Some ct \<Rightarrow> bindR (box_open E ct (aad_alias (p_peer r))) (\<lambda>a. Inr (r\<lparr>p_alias := Some a\<rparr>)))"

definition peer_row :: "peer_id \<Rightarrow> db \<Rightarrow> prow option" where
  "peer_row p d = find (\<lambda>r. p_peer r = p) (d_peers d)"

definition peer_get :: "env \<Rightarrow> peer_id \<Rightarrow> prow option tx" where
  "peer_get E p =
     bnd (q_db (peer_row p)) (\<lambda>r. case r of None \<Rightarrow> ret None
     | Some r \<Rightarrow> bnd (res (scan_peer E r)) (\<lambda>info. ret (Some info)))"

definition peer_list :: "env \<Rightarrow> db \<Rightarrow> err + prow list" where
  "peer_list E d = sequence_res (map (scan_peer E) (sort_key p_created (d_peers d)))"

definition peer_alias_set :: "env \<Rightarrow> peer_id \<Rightarrow> bytes \<Rightarrow> unit tx" where
  "peer_alias_set E p alias =
     bnd (if alias = [] then ret None
          else bnd (box_seal E alias (aad_alias p)) (\<lambda>ct. ret (Some ct))) (\<lambda>ct.
     bnd (q_db (peer_row p)) (\<lambda>r.
     if r = None then fail ErrAliasUnknown
     else on_db (\<lambda>d. d\<lparr>d_peers := map (\<lambda>r. if p_peer r = p
       then r\<lparr>p_alias := ct, p_updated := v_now E\<rparr> else r) (d_peers d)\<rparr>)))"

definition pending_add :: "peer_id \<Rightarrow> msg_id \<Rightarrow> int \<Rightarrow> unit tx" where
  "pending_add p mid now = on_db (\<lambda>d. d\<lparr>d_pend :=
     (if (p, mid) \<in> (\<lambda>(q, m, t). (q, m)) ` set (d_pend d) then d_pend d
      else d_pend d @ [(p, mid, now)])\<rparr>)"

text \<open>SQLite does not promise the order RETURNING yields; rows of one millisecond keep the row order here.\<close>

definition pending_take :: "peer_id \<Rightarrow> msg_id list tx" where
  "pending_take p =
     bnd (q_db (\<lambda>d. filter (\<lambda>(q, m, t). q = p) (d_pend d))) (\<lambda>rows.
     seq (on_db (\<lambda>d. d\<lparr>d_pend := filter (\<lambda>(q, m, t). q \<noteq> p) (d_pend d)\<rparr>))
       (ret (map (\<lambda>(q, m, t). m) (sort_key (\<lambda>(q, m, t). t) rows))))"

section \<open>Deferred rows addressed to a peer\<close>

definition sealed_purge :: "peer_id \<Rightarrow> unit tx" where
  "sealed_purge p = on_db (\<lambda>d. d\<lparr>d_sealed := filter (\<lambda>r. s_peer r \<noteq> p) (d_sealed d)\<rparr>)"

end
