(* ===== verification/StoreProps.thy ===== *)
theory StoreProps
  imports Store
begin

text \<open>
  What the store promises its clients: keyed sealed fields that return what was
  put, a history that takes a message once, a logical clock that passes every
  label it has seen, and a deduplication window that remembers.
\<close>

section \<open>Sealed fields under a key\<close>

text \<open>
  The contract of the tables that hold one sealed state per key (sessions,
  handshakes, sender keys). \<open>ok\<close> is the law of the sealing library.
\<close>

locale sealed_kv =
  fixes ok :: "'e \<Rightarrow> bool" and get :: "'e \<Rightarrow> 'k \<Rightarrow> bytes option tx"
    and put :: "'e \<Rightarrow> 'k \<Rightarrow> bytes \<Rightarrow> unit tx" and del :: "'k \<Rightarrow> unit tx"
  assumes get_frame: "snd (get E k s) = s"
    and put_get: "ok E \<Longrightarrow> put E k v s = (Inr (), s') \<Longrightarrow> fst (get E k s') = Inr (Some v)"
    and put_other: "k' \<noteq> k \<Longrightarrow> fst (get E k' (snd (put E k v s))) = fst (get E k' s)"
    and put_fail: "put E k v s = (Inl e, s') \<Longrightarrow> fst (get E k' s') = fst (get E k' s)"
    and del_get: "fst (get E k (snd (del k s))) = Inr None"
    and del_other: "k' \<noteq> k \<Longrightarrow> fst (get E k' (snd (del k s))) = fst (get E k' s)"
begin

lemma get_run: "get E k s = (fst (get E k s), s)"
  by (metis get_frame prod.collapse)

lemma put_run: "ok E \<Longrightarrow> put E k v s = (Inr (), s') \<Longrightarrow> get E k s' = (Inr (Some v), s')"
  by (metis get_run put_get)

lemma last_put_wins:
  "ok E \<Longrightarrow> put E k v s = (Inr (), s1) \<Longrightarrow> put E k v' s1 = (Inr (), s2) \<Longrightarrow> get E k s2 = (Inr (Some v'), s2)"
  by (rule put_run)

lemma put_keeps:
  "ok E \<Longrightarrow> put E k v s = (Inr (), s1) \<Longrightarrow> put E j v' s1 = (r, s2) \<Longrightarrow> j \<noteq> k
    \<Longrightarrow> get E k s2 = (Inr (Some v), s2)"
  by (metis get_run put_get put_other snd_conv)

lemma del_run: "get E k (snd (del k s)) = (Inr None, snd (del k s))"
  by (metis get_run del_get)

end

definition sealing_ok :: "env \<Rightarrow> bool" where
  "sealing_ok E \<longleftrightarrow> xaead_correct (v_crypto E)"

text \<open>Sealing and storing, once for all tables: the nonce is drawn, then one field changes.\<close>

lemma seal_store_run:
  assumes "bnd (box_seal E v a) (\<lambda>ct. on_db (f ct)) (w, hs) = (r, s')"
  shows "(r = Inl ErrRand \<and> s' = (w, hs)) \<or> (\<exists>ct rnd. r = Inr ()
    \<and> (sealing_ok E \<longrightarrow> box_open E ct a = Inr v)
    \<and> s' = (w\<lparr>w_rnd := rnd, w_db := f ct (w_db w)\<rparr>, hs))"
  using assms
proof (cases rule: bnd_cases)
  case (1 e)
  then show ?thesis using box_seal_fails by fastforce
next
  case (2 ct s1)
  from box_seal_run [OF 2(1)] obtain rnd where "s1 = (w\<lparr>w_rnd := rnd\<rparr>, hs)" by blast
  with 2 box_open_seal [OF _ 2(1)] show ?thesis by (auto simp: sealing_ok_def)
qed

text \<open>A table that looks up, stores and clears one sealed field per key meets the contract.\<close>

lemma sealed_kvI:
  assumes get: "\<And>E k. get E k = bnd (q_db (\<lambda>d. look d k)) (\<lambda>ct. case ct of None \<Rightarrow> ret None
      | Some ct \<Rightarrow> bnd (res (box_open E ct (aad k))) (\<lambda>st. ret (Some st)))"
    and put: "\<And>E k v. put E k v = bnd (box_seal E v (aad k)) (\<lambda>ct. on_db (store k v ct))"
    and del: "\<And>k. del k = on_db (clear k)"
    and look: "\<And>d k v ct. look (store k v ct d) k = Some ct" "\<And>d k. look (clear k d) k = None"
      "\<And>d k k' v ct. k' \<noteq> k \<Longrightarrow> look (store k v ct d) k' = look d k'"
      "\<And>d k k'. k' \<noteq> k \<Longrightarrow> look (clear k d) k' = look d k'"
  shows "sealed_kv sealing_ok get put del"
proof -
  have g: "get E k (w, hs) = (case look (w_db w) k of None \<Rightarrow> Inr None
      | Some ct \<Rightarrow> (case box_open E ct (aad k) of Inl e \<Rightarrow> Inl e | Inr v \<Rightarrow> Inr (Some v)), (w, hs))" for E k w hs
    by (auto simp: get bnd_def split: option.splits sum.splits)
  have p: "put E k v (w, hs) = (r, s') \<Longrightarrow> (r = Inl ErrRand \<and> s' = (w, hs)) \<or> (\<exists>ct rnd. r = Inr ()
      \<and> (sealing_ok E \<longrightarrow> box_open E ct (aad k) = Inr v)
      \<and> s' = (w\<lparr>w_rnd := rnd, w_db := store k v ct (w_db w)\<rparr>, hs))" for E k v w hs r s'
    unfolding put by (rule seal_store_run)
  show ?thesis
  proof unfold_locales
    fix E k v e k' and s s' :: txs
    obtain w hs where s: "s = (w, hs)" by (cases s)
    show "snd (get E k s) = s" by (simp add: s g)
    show "sealing_ok E \<Longrightarrow> put E k v s = (Inr (), s') \<Longrightarrow> fst (get E k s') = Inr (Some v)"
      by (auto simp: s g look dest!: p)
    show "put E k v s = (Inl e, s') \<Longrightarrow> fst (get E k' s') = fst (get E k' s)"
      by (auto simp: s dest!: p)
    show "k' \<noteq> k \<Longrightarrow> fst (get E k' (snd (put E k v s))) = fst (get E k' s)"
      using p [of E k v w hs "fst (put E k v s)" "snd (put E k v s)"] by (auto simp: s g look)
    show "fst (get E k (snd (del k s))) = Inr None" by (simp add: s del g look)
    show "k' \<noteq> k \<Longrightarrow> fst (get E k' (snd (del k s))) = fst (get E k' s)" by (simp add: s del g look)
  qed
qed

interpretation session_kv: sealed_kv sealing_ok session_get session_put session_delete
  by (rule sealed_kvI [where look = d_sess, OF session_get_def session_put_def session_delete_def]) auto

text \<open>The sid column repeats the tail of the handshake's own bytes.\<close>

interpretation handshake_kv: sealed_kv sealing_ok handshake_get
  "\<lambda>E p b. handshake_put E p b (drop 32 b)" handshake_delete
proof (rule sealed_kvI [where look = "\<lambda>d p. map_option fst (d_hs d p)"
      and store = "\<lambda>p v ct d. d\<lparr>d_hs := (d_hs d)(p \<mapsto> (ct, drop 32 v))\<rparr>"
      and clear = "\<lambda>p d. d\<lparr>d_hs := (d_hs d)(p := None)\<rparr>"])
  show "handshake_get E k = bnd (q_db (\<lambda>d. map_option fst (d_hs d k))) (\<lambda>ct. case ct of None \<Rightarrow> ret None
      | Some ct \<Rightarrow> bnd (res (box_open E ct (aad_handshake k))) (\<lambda>st. ret (Some st)))" for E k
  proof (rule ext)
    fix s :: txs
    obtain w hs where "s = (w, hs)" by (cases s)
    then show "handshake_get E k s = bnd (q_db (\<lambda>d. map_option fst (d_hs d k))) (\<lambda>ct. case ct of
        None \<Rightarrow> ret None | Some ct \<Rightarrow> bnd (res (box_open E ct (aad_handshake k))) (\<lambda>st. ret (Some st))) s"
      by (cases "d_hs (w_db w) k") (auto simp: handshake_get_def q_db_def)
  qed
qed (auto simp: handshake_put_def handshake_delete_def)

section \<open>History\<close>

lemma find_append: "find P (xs @ ys) = (case find P xs of None \<Rightarrow> find P ys | Some x \<Rightarrow> Some x)"
  by (induction xs) auto

lemma find_none_key: "k \<notin> f ` set xs \<Longrightarrow> find (\<lambda>r. f r = k) xs = None"
  by (induction xs) auto

definition body_ok :: "smsg \<Rightarrow> bool" where
  "body_ok m \<longleftrightarrow> sql_u64 (sm_seq m) \<and> sql_u64 (sm_lam m)"

lemma insert_message_run:
  assumes "insert_message E m (w, hs) = (r, s')"
  shows "(\<exists>e rnd. r = Inl e \<and> s' = (w\<lparr>w_rnd := rnd\<rparr>, hs))
    \<or> (\<exists>rnd. r = Inr False \<and> msg_key m \<in> msg_key ` set (d_msgs (w_db w)) \<and> s' = (w\<lparr>w_rnd := rnd\<rparr>, hs))
    \<or> (\<exists>rnd ct. r = Inr True \<and> msg_key m \<notin> msg_key ` set (d_msgs (w_db w)) \<and> body_ok m
      \<and> (sealing_ok E \<longrightarrow> scan_message E (m\<lparr>sm_body := ct\<rparr>) = Inr (if sm_deleted m then m\<lparr>sm_body := None\<rparr> else m))
      \<and> s' = (w\<lparr>w_rnd := rnd, w_db := (w_db w)\<lparr>d_msgs := d_msgs (w_db w) @ [m\<lparr>sm_body := ct\<rparr>]\<rparr>\<rparr>, hs))"
proof -
  let ?seal = "case sm_body m of
      Some b \<Rightarrow> if sm_deleted m then ret None
        else bnd (box_seal E b (aad_message (sm_peer m) (sm_id m) (sm_out m))) (\<lambda>ct. ret (Some ct))
    | None \<Rightarrow> ret None"
  have seal: "?seal (w, hs) = (q, t) \<Longrightarrow> \<exists>rnd. t = (w\<lparr>w_rnd := rnd\<rparr>, hs)
      \<and> (\<forall>ct. q = Inr ct \<longrightarrow> sealing_ok E \<longrightarrow>
        scan_message E (m\<lparr>sm_body := ct\<rparr>) = Inr (if sm_deleted m then m\<lparr>sm_body := None\<rparr> else m))" for q t
  proof (cases "sm_body m")
    case (Some b)
    assume q: "?seal (w, hs) = (q, t)"
    show ?thesis
    proof (cases "sm_deleted m")
      case False
      with q Some have "bnd (box_seal E b (aad_message (sm_peer m) (sm_id m) (sm_out m))) (\<lambda>ct. ret (Some ct)) (w, hs) = (q, t)"
        by simp
      then show ?thesis
      proof (cases rule: bnd_cases)
        case (1 e)
        then show ?thesis using box_seal_fails [OF 1(1)] by auto
      next
        case (2 c s')
        with box_seal_run [OF 2(1)] box_open_seal [OF _ 2(1)] Some False show ?thesis
          by (auto simp: scan_message_def sealing_ok_def)
      qed
    qed (use q Some in \<open>auto simp: scan_message_def\<close>)
  qed (auto simp: scan_message_def)
  from assms show ?thesis unfolding insert_message_def
  proof (cases rule: bnd_cases)
    case (1 e)
    then show ?thesis using seal [OF 1(1)] by auto
  next
    case (2 ct s1)
    from seal [OF 2(1)] obtain rnd where s1: "s1 = (w\<lparr>w_rnd := rnd\<rparr>, hs)"
      and sc: "sealing_ok E \<longrightarrow> scan_message E (m\<lparr>sm_body := ct\<rparr>) = Inr (if sm_deleted m then m\<lparr>sm_body := None\<rparr> else m)"
      by auto
    with 2(2) show ?thesis
      by (auto simp: bnd_Inr_iff seq_def body_ok_def split: if_splits)
  qed
qed

text \<open>The row of a key: at most one, and what reading it yields.\<close>

lemma get_message_run: "get_message E p mid d (w, hs) =
    ((case find (\<lambda>r. msg_key r = (p, d, mid)) (d_msgs (w_db w)) of None \<Rightarrow> Inr None
      | Some r \<Rightarrow> bindR (scan_message E r) (\<lambda>m. Inr (Some m))), (w, hs))"
  by (cases "find (\<lambda>r. msg_key r = (p, d, mid)) (d_msgs (w_db w))")
    (auto simp: get_message_def bnd_def tx_defs split: sum.splits)

lemma msg_key_body [simp]: "msg_key (m\<lparr>sm_body := ct\<rparr>) = msg_key m"
  by (simp add: msg_key_def)

lemma insert_then_get:
  assumes ok: "sealing_ok E" and ins: "insert_message E m s = (Inr True, s')" and live: "\<not> sm_deleted m"
  shows "get_message E (sm_peer m) (sm_id m) (sm_out m) s' = (Inr (Some m), s')"
proof -
  obtain w hs where s: "s = (w, hs)" by (cases s)
  from insert_message_run [OF ins [unfolded s]] obtain rnd ct where new: "msg_key m \<notin> msg_key ` set (d_msgs (w_db w))"
    and sc: "scan_message E (m\<lparr>sm_body := ct\<rparr>) = Inr m"
    and s': "s' = (w\<lparr>w_rnd := rnd, w_db := (w_db w)\<lparr>d_msgs := d_msgs (w_db w) @ [m\<lparr>sm_body := ct\<rparr>]\<rparr>\<rparr>, hs)"
    using ok live by auto
  have "find (\<lambda>r. msg_key r = (sm_peer m, sm_out m, sm_id m)) (d_msgs (w_db w) @ [m\<lparr>sm_body := ct\<rparr>])
      = Some (m\<lparr>sm_body := ct\<rparr>)"
    using find_none_key [OF new] by (simp add: find_append msg_key_def)
  then show ?thesis by (simp add: s' get_message_run sc)
qed

lemma insert_twice:
  assumes "insert_message E m s = (Inr True, s1)" "msg_key m' = msg_key m" "insert_message E m' s1 = (r, s2)"
  shows "r \<noteq> Inr True \<and> d_msgs (w_db (fst s2)) = d_msgs (w_db (fst s1))"
proof -
  obtain w hs where s: "s = (w, hs)" by (cases s)
  from insert_message_run [OF assms(1) [unfolded s]] obtain w1 where s1: "s1 = (w1, hs)"
    and key: "msg_key m \<in> msg_key ` set (d_msgs (w_db w1))"
    by auto
  from insert_message_run [OF assms(3) [unfolded s1]] key assms(2) show ?thesis by (auto simp: s1)
qed

section \<open>The clock\<close>

lemma lamport_next_run: "lamport_next (w, hs) = (Inr (case d_ctrs (w_db w) ''lamport'' of None \<Rightarrow> 1 | Some v \<Rightarrow> v + 1),
   (w\<lparr>w_db := (w_db w)\<lparr>d_ctrs := (d_ctrs (w_db w))(''lamport'' \<mapsto>
      (case d_ctrs (w_db w) ''lamport'' of None \<Rightarrow> 1 | Some v \<Rightarrow> v + 1))\<rparr>\<rparr>, hs))"
  by (simp add: lamport_next_def next_seq_def seq_def)

definition clock :: "db \<Rightarrow> nat" where
  "clock d = (case d_ctrs d ''lamport'' of None \<Rightarrow> 0 | Some v \<Rightarrow> v)"

lemma clamp_lamport_le: "unat (clamp_lamport v) \<le> lamportCeil"
proof -
  have "unat (of_nat lamportCeil :: u64) = lamportCeil"
    by (simp add: unat_of_nat lamportCeil_def take_bit_nat_eq_self)
  then show ?thesis by (simp add: clamp_lamport_def min_def word_le_nat_alt)
qed

lemma clock_next: "lamport_next s = (Inr t, s') \<Longrightarrow> t = clock (w_db (fst s)) + 1 \<and> clock (w_db (fst s')) = t"
  by (cases s) (auto simp: lamport_next_run clock_def split: option.splits)

lemma clock_observe: "lamport_observe v s = (r, s') \<Longrightarrow>
    r = Inr () \<and> clock (w_db (fst s')) = max (clock (w_db (fst s))) (unat (clamp_lamport v)) + 1"
  by (cases s) (auto simp: lamport_observe_def Let_def clock_def split: option.splits)

section \<open>The window\<close>

lemma dedup_insert_run: "dedup_insert p mid now (w, hs) = (Inr (\<not> dedup_seen p mid (w_db w)),
   (w\<lparr>w_db := (w_db w)\<lparr>d_dedup := (if dedup_seen p mid (w_db w)
      then map (\<lambda>r. if dedup_key r = (p, mid) then r\<lparr>dd_seen := now\<rparr> else r) (d_dedup (w_db w))
      else d_dedup (w_db w) @ [\<lparr>dd_peer = p, dd_id = mid, dd_seen = now\<rparr>])\<rparr>\<rparr>, hs))"
  by (simp add: dedup_insert_def seq_def)

lemma dedup_seen_insert: "dedup_insert p mid now s = (r, s') \<Longrightarrow> dedup_seen q m (w_db (fst s'))
    \<longleftrightarrow> dedup_seen q m (w_db (fst s)) \<or> (q, m) = (p, mid)"
proof -
  assume ins: "dedup_insert p mid now s = (r, s')"
  obtain w hs where s: "s = (w, hs)" by (cases s)
  let ?f = "\<lambda>r. if dedup_key r = (p, mid) then r\<lparr>dd_seen := now\<rparr> else r"
  have "dedup_key (?f r) = dedup_key r" for r by (simp add: dedup_key_def)
  then have map: "dedup_key ` set (map ?f rows) = dedup_key ` set rows" for rows
    by (simp only: set_map image_image)
  from ins have s': "d_dedup (w_db (fst s')) = (if dedup_seen p mid (w_db w) then map ?f (d_dedup (w_db w))
      else d_dedup (w_db w) @ [\<lparr>dd_peer = p, dd_id = mid, dd_seen = now\<rparr>])"
    by (auto simp: s dedup_insert_run)
  have new: "dedup_key \<lparr>dd_peer = p, dd_id = mid, dd_seen = now\<rparr> = (p, mid)"
    by (simp add: dedup_key_def)
  show ?thesis
  proof (cases "dedup_seen p mid (w_db w)")
    case True
    with s' map show ?thesis by (auto simp only: s fst_conv dedup_seen_def if_True)
  next
    case False
    with s' new show ?thesis by (auto simp: s dedup_seen_def)
  qed
qed

definition window :: "peer_id \<Rightarrow> db \<Rightarrow> drow list" where
  "window p d = filter (\<lambda>r. dd_peer r = p) (d_dedup d)"

lemma sorted_take_drop:
  assumes "sorted (map f xs)" "x \<in> set (take n xs)" "y \<in> set (drop n xs)"
  shows "f x \<le> (f y :: 'a :: linorder)"
proof -
  have "sorted (map f (take n xs @ drop n xs))" using assms(1) by simp
  then show ?thesis using assms(2,3) by (simp only: map_append sorted_append) auto
qed

lemma filter_mem_length: "distinct xs \<Longrightarrow> length (filter (\<lambda>r. r \<in> set ys) xs) \<le> length ys"
proof -
  assume "distinct xs"
  then have "length (filter (\<lambda>r. r \<in> set ys) xs) = card (set (filter (\<lambda>r. r \<in> set ys) xs))"
    by (simp add: distinct_card flip: distinct_card)
  also have "\<dots> \<le> card (set ys)" by (rule card_mono) auto
  finally show ?thesis using card_length [of ys] by simp
qed

definition recent :: "peer_id \<Rightarrow> int \<Rightarrow> db \<Rightarrow> drow list" where
  "recent p cutoff d = filter (\<lambda>r. cutoff \<le> dd_seen r) (window p d)"

lemma dedup_prune_run:
  assumes "dedup_prune p cutoff cap (w, hs) = (x, s')"
  shows "window p (w_db (fst s')) = filter (\<lambda>r. r \<in> set (take cap (sort_key (\<lambda>r. - dd_seen r)
      (recent p cutoff (w_db w))))) (recent p cutoff (w_db w))"
    and "q \<noteq> p \<Longrightarrow> window q (w_db (fst s')) = window q (w_db w)"
proof -
  let ?L = "filter (\<lambda>r. \<not> (dd_peer r = p \<and> dd_seen r < cutoff)) (d_dedup (w_db w))"
  let ?K = "take cap (sort_key (\<lambda>r. - dd_seen r) (recent p cutoff (w_db w)))"
  have M: "filter (\<lambda>r. dd_peer r = p) ?L = recent p cutoff (w_db w)"
    unfolding recent_def window_def filter_filter by (rule filter_cong) auto
  have s': "d_dedup (w_db (fst s')) = filter (\<lambda>r. dd_peer r \<noteq> p \<or> r \<in> set ?K) ?L"
    using assms M by (auto simp: dedup_prune_def Let_def)
  show "window p (w_db (fst s')) = filter (\<lambda>r. r \<in> set ?K) (recent p cutoff (w_db w))"
    unfolding window_def s' M [symmetric] filter_filter by (rule filter_cong) auto
  show "window q (w_db (fst s')) = window q (w_db w)" if "q \<noteq> p"
    unfolding window_def s' filter_filter by (rule filter_cong) (use that in auto)
qed

text \<open>
  The deduplication window forgets only what is old: after a prune the peer
  has at most \<open>cap\<close> entries, no other peer's entry is touched, and an entry of
  the peer that is not older than the cutoff is dropped only when \<open>cap\<close>
  entries at least as new stay.
\<close>

theorem window_forgets_the_oldest:
  assumes run: "dedup_prune p cutoff cap s = (x, s')"
    and keys: "distinct (map dedup_key (d_dedup (w_db (fst s))))"
  shows "length (window p (w_db (fst s'))) \<le> cap
    \<and> (\<forall>q. q \<noteq> p \<longrightarrow> window q (w_db (fst s')) = window q (w_db (fst s)))
    \<and> (\<forall>r \<in> set (window p (w_db (fst s))). cutoff \<le> dd_seen r \<longrightarrow> r \<notin> set (window p (w_db (fst s')))
        \<longrightarrow> length (window p (w_db (fst s'))) = cap
          \<and> (\<forall>k \<in> set (window p (w_db (fst s'))). dd_seen r \<le> dd_seen k))"
proof (intro conjI allI ballI impI)
  obtain w hs where s: "s = (w, hs)" by (cases s)
  note run' = dedup_prune_run [OF run [unfolded s]]
  let ?R = "recent p cutoff (w_db w)"
  let ?S = "sort_key (\<lambda>r. - dd_seen r) ?R"
  have dist: "distinct ?R"
    using keys by (simp add: s recent_def window_def distinct_map)
  show "length (window p (w_db (fst s'))) \<le> cap"
    unfolding run'(1) using filter_mem_length [OF dist, of "take cap ?S"] by simp
  show "q \<noteq> p \<Longrightarrow> window q (w_db (fst s')) = window q (w_db (fst s))" for q
    using run'(2) by (simp add: s)
  fix r assume r: "r \<in> set (window p (w_db (fst s)))" "cutoff \<le> dd_seen r" "r \<notin> set (window p (w_db (fst s')))"
  then have R: "r \<in> set ?R" by (simp add: s recent_def)
  then have "r \<in> set ?S" "r \<notin> set (take cap ?S)" using r(3) by (auto simp: run'(1))
  then have dr: "r \<in> set (drop cap ?S)" by (metis Un_iff append_take_drop_id set_append)
  then have long: "cap < length ?S" by (cases "cap < length ?S") auto
  have set: "set (window p (w_db (fst s'))) = set (take cap ?S)"
    unfolding run'(1) using set_take_subset [of cap ?S] by auto
  have "distinct (window p (w_db (fst s')))" unfolding run'(1) using dist by simp
  then have "length (window p (w_db (fst s'))) = card (set (take cap ?S))"
    by (simp flip: distinct_card set)
  also have "\<dots> = cap" using long dist by (simp add: distinct_card)
  finally show "length (window p (w_db (fst s'))) = cap" .
  show "dd_seen r \<le> dd_seen k" if "k \<in> set (window p (w_db (fst s')))" for k
    using sorted_take_drop [of "\<lambda>r. - dd_seen r" ?S k cap r] that dr by (simp add: set)
qed

definition demo_window :: world where
  "demo_window = (new_world [])\<lparr>w_db := empty_db\<lparr>d_dedup :=
     [\<lparr>dd_peer = PeerID [1], dd_id = [7], dd_seen = 9\<rparr>, \<lparr>dd_peer = PeerID [1], dd_id = [8], dd_seen = 7\<rparr>,
      \<lparr>dd_peer = PeerID [2], dd_id = [7], dd_seen = 1\<rparr>]\<rparr>\<rparr>"

lemma window_forgets_the_oldest_witness:
  "length (window (PeerID [1]) (w_db (fst (snd (dedup_prune (PeerID [1]) 5 1 (demo_window, [])))))) \<le> 1"
  using window_forgets_the_oldest [of "PeerID [1]" 5 1 "(demo_window, [])", OF prod.collapse [symmetric]]
  by (simp add: demo_window_def empty_db_def dedup_key_def)

text \<open>
  History takes a message once and gives it back: when an insert succeeds,
  reading the message by its key returns every field that was written (the body
  through the sealing), in whatever state the random source left the
  ciphertext; a second insert under the same key is not an error, changes no
  row and does not count as new.
\<close>

theorem history_takes_a_message_once:
  assumes "sealing_ok E" "insert_message E m s = (Inr True, s1)" "\<not> sm_deleted m"
  shows "get_message E (sm_peer m) (sm_id m) (sm_out m) s1 = (Inr (Some m), s1)
    \<and> (msg_key m' = msg_key m \<longrightarrow> fst (insert_message E m' s1) \<noteq> Inr True
        \<and> d_msgs (w_db (fst (snd (insert_message E m' s1)))) = d_msgs (w_db (fst s1)))"
  using insert_then_get [OF assms] insert_twice [OF assms(2) _ prod.collapse [symmetric], of m'] by simp

definition demo_text :: smsg where
  "demo_text = \<lparr>sm_peer = PeerID (replicate 32 2), sm_id = replicate 16 7, sm_out = True, sm_seq = 1,
     sm_lam = 4, sm_sent = 1000, sm_status = StatusQueued, sm_deleted = False, sm_body = Some [104, 105],
     sm_sender = None\<rparr>"

lemma demo_sealing_ok: "sealing_ok demo_env"
  by (simp add: sealing_ok_def demo_env_def demo_laws)

lemma demo_insert: "fst (insert_message demo_env demo_text (new_world (replicate 24 0), [])) = Inr True"
  by (simp add: insert_message_def demo_text_def seq_def bnd_def box_seal_def draw_def with_rnd_def
      read_full_def new_world_def empty_db_def sql_u64_def NonceSizeX_def)

lemma history_takes_a_message_once_witness:
  "fst (get_message demo_env (PeerID (replicate 32 2)) (replicate 16 7) True
     (snd (insert_message demo_env demo_text (new_world (replicate 24 0), [])))) = Inr (Some demo_text)"
  using history_takes_a_message_once [OF demo_sealing_ok, of demo_text "(new_world (replicate 24 0), [])"
      "snd (insert_message demo_env demo_text (new_world (replicate 24 0), []))" demo_text] demo_insert
  by (simp add: prod_eq_iff) (simp add: demo_text_def)

text \<open>
  The logical clock respects causality against any peer: a label given after
  an observation is above everything this node has labelled or observed before
  (a remote label counts as at most 2^53), and one hostile label advances the
  clock by at most the ceiling plus one, so it cannot exhaust the column.
\<close>

theorem clock_is_causal:
  assumes "lamport_observe remote s = (r, s1)" "lamport_next s1 = (Inr t, s2)"
  shows "unat (clamp_lamport remote) < t \<and> clock (w_db (fst s)) < t \<and> clock (w_db (fst s2)) = t
    \<and> t \<le> max (clock (w_db (fst s))) lamportCeil + 2"
  using clock_observe [OF assms(1)] clock_next [OF assms(2)] clamp_lamport_le [of remote] by auto

lemma clock_is_causal_witness:
  "\<exists>t s2. lamport_next (snd (lamport_observe 41 (new_world [], []))) = (Inr t, s2) \<and> 41 < t"
proof -
  let ?s = "lamport_observe 41 (new_world [], [])"
  obtain t s2 where n: "lamport_next (snd ?s) = (Inr t, s2)"
    by (cases "snd ?s") (simp add: lamport_next_run)
  have "unat (clamp_lamport 41) = 41" by (simp add: clamp_lamport_def lamportCeil_def)
  with clock_is_causal [OF prod.collapse [symmetric] n] n show ?thesis by auto
qed

end
