(* ===== verification/Outbox.thy ===== *)
theory Outbox
  imports StoreProps
begin

text \<open>
  Package outbox: reliability over a network that may lose anything. Outgoing
  envelopes wait in the persistent queue and are retried with exponential
  backoff until the peer acknowledges them; an incoming one is handled inside
  the transaction that marks it as seen and acknowledged only after the commit.
  outbox/manager.go. The handlers, the gate and the common first step are
  registered by the composition: they are the fields of \<open>engine\<close>. The workers
  that serve several peers at once work on rows of different peers; here they
  run one after the other. Times are milliseconds.
\<close>

definition retryBase :: int where "retryBase = 5000"
definition retryCap :: int where "retryCap = 3600000"
definition dueBatch :: nat where "dueBatch = 64"
definition dedupMaxAge :: int where "dedupMaxAge = 2592000000"
definition dedupCap :: nat where "dedupCap = 100000"
definition pruneEvery :: nat where "pruneEvery = 4096"
definition kickCap :: nat where "kickCap = 64"

type_synonym handler = "env \<Rightarrow> peer_id \<Rightarrow> envelope \<Rightarrow> unit tx"
type_synonym fast_handler = "env \<Rightarrow> peer_id \<Rightarrow> envelope \<Rightarrow> world \<Rightarrow> world"

record engine =
  n_handlers :: "etype \<Rightarrow> handler option"
  n_fast :: "etype \<Rightarrow> fast_handler option"
  n_gate :: "(world \<Rightarrow> peer_id \<Rightarrow> etype \<Rightarrow> bool) option"
  n_pre :: "(env \<Rightarrow> peer_id \<Rightarrow> etype \<Rightarrow> unit tx) option"

definition new_mid :: "msg_id tx" where
  "new_mid = with_rnd (\<lambda>r. map_err ErrEnvelope (new_msg_id r))"

definition enqueue_tx :: "env \<Rightarrow> peer_id \<Rightarrow> envelope \<Rightarrow> unit tx" where
  "enqueue_tx E to e =
     bnd (res (map_err ErrEnvelope (encode_env (v_penv E) e))) (\<lambda>frame. outbox_enqueue E to (e_id e) frame)"

text \<open>Flush: a non-blocking send on the kick channel.\<close>

definition flush :: "peer_id \<Rightarrow> world \<Rightarrow> world" where
  "flush p w = (if length (w_kicks w) < kickCap then w\<lparr>w_kicks := w_kicks w @ [p]\<rparr>
     else bump_w ''outbox.kicksDropped'' w)"

definition send :: "env \<Rightarrow> peer_id \<Rightarrow> bytes \<Rightarrow> world \<Rightarrow> bool \<times> world" where
  "send E to frame w = (if v_link E to frame then (True, emit (OSend to frame) w) else (False, w))"

section \<open>Retries\<close>

fun backoff_loop :: "nat \<Rightarrow> int \<Rightarrow> int" where
  "backoff_loop 0 d = d"
| "backoff_loop (Suc k) d = (let d' = d * 2 in if retryCap \<le> d' then retryCap else backoff_loop k d')"

definition backoff :: "nat \<Rightarrow> int" where
  "backoff attempts = backoff_loop (attempts - 1) retryBase"

record attempt =
  at_item :: orow
  at_sent :: bool
  at_took :: bool
  at_backoff :: bool

text \<open>One peer's share of a pass: after the first failure the rest is only put back.\<close>

fun attempt_peer :: "env \<Rightarrow> bool \<Rightarrow> orow list \<Rightarrow> world \<Rightarrow> attempt list \<times> world" where
  "attempt_peer E failed [] w = ([], w)"
| "attempt_peer E failed (it # its) w =
     (if failed then
        let q = attempt_peer E True its w
        in (\<lparr>at_item = it, at_sent = False, at_took = False, at_backoff = True\<rparr> # fst q, snd q)
      else
        let s = send E (o_peer it) (o_frame it) w;
            w1 = bump_w ''outbox.sendAttempts'' (snd s);
            w2 = (if fst s then w1 else bump_w ''outbox.sendFailures'' w1);
            q = attempt_peer E (\<not> fst s) its w2
        in (\<lparr>at_item = it, at_sent = fst s, at_took = True, at_backoff = False\<rparr> # fst q, snd q))"

fun attempt_all :: "env \<Rightarrow> orow list list \<Rightarrow> world \<Rightarrow> attempt list \<times> world" where
  "attempt_all E [] w = ([], w)"
| "attempt_all E (g # gs) w =
     (let q = attempt_peer E False g w; q' = attempt_all E gs (snd q) in (fst q @ fst q', snd q'))"

text \<open>The due items by peer, the peers in the order of their first item.\<close>

definition by_peer :: "orow list \<Rightarrow> orow list list" where
  "by_peer due = map (\<lambda>p. filter (\<lambda>it. o_peer it = p) due) (rev (remdups (rev (map o_peer due))))"

definition settle_attempt :: "env \<Rightarrow> attempt \<Rightarrow> unit tx" where
  "settle_attempt E r =
     (let it = at_item r;
          attempts = (if at_took r \<or> at_backoff r then o_attempts it + 1 else o_attempts it);
          next_at = v_now E + backoff (max attempts 1)
      in seq (outbox_attempt (o_row it) attempts next_at)
           (whenM (at_sent r) (status_up (o_peer it) (o_id it) StatusSent)))"

datatype pass_result = PassFailed | PassDone | PassAgain

definition flush_pass :: "env \<Rightarrow> world \<Rightarrow> pass_result \<times> world" where
  "flush_pass E w =
     (let due = fst (outbox_due E (v_now E) dueBatch (w_db w));
          corrupt = snd (outbox_due E (v_now E) dueBatch (w_db w));
          w1 = (if corrupt = [] then w
                else (bump_w ''outbox.outboxCorrupt'' ^^ length corrupt)
                       (snd (run_tx (eachM outbox_delete_row corrupt) w)))
      in if due = [] then (PassDone, w1)
         else let q = attempt_all E (by_peer due) w1; t = run_tx (eachM (settle_attempt E) (fst q)) (snd q)
           in case fst t of
             Inl e \<Rightarrow> (PassFailed, bump_w ''outbox.storeFailures'' (snd t))
           | Inr u \<Rightarrow> (if length due < dueBatch then PassDone else PassAgain, snd t))"

text \<open>The loop of flushDue; \<open>fuel\<close> bounds its passes (\<open>flush_due_ends\<close> gives a sufficient one).\<close>

fun flush_due :: "nat \<Rightarrow> env \<Rightarrow> world \<Rightarrow> (bool \<times> world) option" where
  "flush_due 0 E w = None"
| "flush_due (Suc k) E w =
     (case flush_pass E w of
        (PassFailed, w') \<Rightarrow> Some (False, w')
      | (PassDone, w') \<Rightarrow> Some (True, w')
      | (PassAgain, w') \<Rightarrow> flush_due k E w')"

text \<open>Run after a pass: how long to wait (None: until a kick), and what a kick does.\<close>

definition next_wait :: "env \<Rightarrow> bool \<Rightarrow> world \<Rightarrow> int option" where
  "next_wait E healthy w =
     (if \<not> healthy then Some retryBase
      else map_option (\<lambda>at. max (at - v_now E) 0) (outbox_nearest (w_db w)))"

definition take_kick :: "env \<Rightarrow> world \<Rightarrow> world" where
  "take_kick E w = (case w_kicks w of [] \<Rightarrow> w
     | p # ps \<Rightarrow> snd (run_tx (outbox_kick p (v_now E)) (w\<lparr>w_kicks := ps\<rparr>)))"

section \<open>Incoming frames\<close>

definition send_ack :: "env \<Rightarrow> peer_id \<Rightarrow> msg_id \<Rightarrow> world \<Rightarrow> world" where
  "send_ack E to orig w =
     (case new_msg_id (w_rnd w) of Inl e \<Rightarrow> bump_w ''outbox.ackSendFailures'' w
      | Inr (mid, r) \<Rightarrow>
        (let w1 = w\<lparr>w_rnd := r\<rparr> in
         case encode_env (v_penv E) \<lparr>e_id = mid, e_type = TypeAck, e_seq = 0, e_lamport = 0, e_payload = orig\<rparr> of
           Inl e \<Rightarrow> bump_w ''outbox.ackSendFailures'' w1
         | Inr frame \<Rightarrow>
             (let s = send E to frame w1
              in if fst s then bump_w ''outbox.acksSent'' (snd s)
                 else bump_w ''outbox.ackSendFailures'' (snd s))))"

definition ack_tx :: "peer_id \<Rightarrow> msg_id \<Rightarrow> bool tx" where
  "ack_tx from orig =
     bnd (outbox_settle from orig) (\<lambda>settled.
     if \<not> settled then ret False
     else seq (status_up from orig StatusDelivered) (ret True))"

definition handle_ack :: "env \<Rightarrow> peer_id \<Rightarrow> envelope \<Rightarrow> world \<Rightarrow> world" where
  "handle_ack E from e w =
     (if length (e_payload e) \<noteq> MsgIDLen then bump_w ''outbox.inboundMalformed'' w
      else case run_tx (ack_tx from (e_payload e)) w of
        (Inl err, w') \<Rightarrow> bump_w ''outbox.storeFailures'' w'
      | (Inr False, w') \<Rightarrow> bump_w ''outbox.acksUnknown'' w'
      | (Inr True, w') \<Rightarrow> emit (ODelivered from (e_payload e)) (bump_w ''outbox.delivered'' w'))"

definition reliable_tx :: "engine \<Rightarrow> handler \<Rightarrow> env \<Rightarrow> peer_id \<Rightarrow> envelope \<Rightarrow> bool tx" where
  "reliable_tx G h E from e =
     bnd (dedup_insert from (e_id e) (v_now E)) (\<lambda>fresh.
     if \<not> fresh then ret False
     else seq (bump ''outbox.dedupInserts'')
       (bnd (q_world (\<lambda>w. w_ctr w ''outbox.dedupInserts'' mod pruneEvery = 0)) (\<lambda>prune.
        seq (whenM prune (dedup_prune from (v_now E - dedupMaxAge) dedupCap))
       (seq (case n_pre G of None \<Rightarrow> ret () | Some pre \<Rightarrow> pre E from (e_type e))
       (seq (h E from e) (ret True))))))"

definition handle_reliable :: "engine \<Rightarrow> env \<Rightarrow> peer_id \<Rightarrow> envelope \<Rightarrow> world \<Rightarrow> world" where
  "handle_reliable G E from e w =
     (case n_handlers G (e_type e) of None \<Rightarrow> bump_w ''outbox.unhandled'' w
      | Some h \<Rightarrow> (case run_tx (reliable_tx G h E from e) w of
          (Inl err, w') \<Rightarrow> bump_w ''outbox.handlerErrors'' w'
        | (Inr fresh, w') \<Rightarrow> send_ack E from (e_id e)
            (if fresh then w' else bump_w ''outbox.dedupHits'' w')))"

definition handle_inbound :: "engine \<Rightarrow> env \<Rightarrow> peer_id \<Rightarrow> bytes \<Rightarrow> world \<Rightarrow> world" where
  "handle_inbound G E from frame w =
     (case decode_env (v_penv E) frame of
        Inl err \<Rightarrow> bump_w ''outbox.inboundMalformed'' w
      | Inr e \<Rightarrow>
          if (case n_gate G of None \<Rightarrow> False | Some gate \<Rightarrow> \<not> gate w from (e_type e))
          then bump_w ''outbox.gateDropped'' w
          else if e_type e = TypeAck then handle_ack E from e w
          else case n_fast G (e_type e) of
            Some f \<Rightarrow> f E from e w
          | None \<Rightarrow> handle_reliable G E from e w)"

end
