(* ===== verification/OutboxQueue.thy ===== *)
theory OutboxQueue
  imports Outbox
begin

text \<open>
  The queue of package outbox: it loses nothing on its own, a flush ends, tries
  every row that is due and puts it back to a bounded later time; an
  acknowledgement settles exactly the row it names.
\<close>

section \<open>Backoff\<close>

lemma backoff_loop_eq: "0 < d \<Longrightarrow> d < retryCap \<Longrightarrow> backoff_loop k d = min (d * 2 ^ k) retryCap"
proof (induction k arbitrary: d)
  case (Suc k)
  show ?case
  proof (cases "retryCap \<le> d * 2")
    case True
    have "d * 2 * 1 \<le> d * 2 * 2 ^ k" using Suc.prems by (intro mult_left_mono) auto
    with True show ?thesis by (simp add: Let_def min_def mult.assoc)
  next
    case False
    with Suc show ?thesis by (simp add: Let_def mult.assoc)
  qed
qed simp

lemma backoff_eq: "backoff n = min (retryBase * 2 ^ (n - 1)) retryCap"
  unfolding backoff_def by (rule backoff_loop_eq) (simp_all add: retryBase_def retryCap_def)

lemma backoff_bounds: "retryBase \<le> backoff n" "backoff n \<le> retryCap"
proof -
  have "retryBase * 1 \<le> retryBase * 2 ^ (n - 1)"
    by (rule mult_left_mono) (simp_all add: retryBase_def)
  then show "retryBase \<le> backoff n" by (simp add: backoff_eq retryBase_def retryCap_def)
  show "backoff n \<le> retryCap" by (simp add: backoff_eq)
qed

section \<open>Passes over the queue\<close>

text \<open>A loop of steps that only change the database is a fold.\<close>

lemma each_db:
  assumes "\<And>x w hs. f x (w, hs) = (Inr (), (w\<lparr>w_db := g x (w_db w)\<rparr>, hs))"
  shows "eachM f xs (w, hs) = (Inr (), (w\<lparr>w_db := fold g xs (w_db w)\<rparr>, hs))"
  by (induction xs arbitrary: w) (simp_all add: seq_def bnd_def assms)

definition openable :: "env \<Rightarrow> orow \<Rightarrow> bool" where
  "openable E r \<longleftrightarrow> is_ok (outbox_open E r)"

definition resched :: "env \<Rightarrow> attempt \<Rightarrow> orow \<Rightarrow> orow" where
  "resched E a r =
     (if o_row r = o_row (at_item a)
      then (let n = (if at_took a \<or> at_backoff a then o_attempts (at_item a) + 1 else o_attempts (at_item a))
            in r\<lparr>o_attempts := n, o_next := v_now E + backoff (max n 1)\<rparr>)
      else r)"

definition settle_db :: "env \<Rightarrow> attempt \<Rightarrow> db \<Rightarrow> db" where
  "settle_db E a d = d\<lparr>d_outbox := map (resched E a) (d_outbox d),
     d_msgs := (if at_sent a then map (\<lambda>r. if msg_key r = (o_peer (at_item a), True, o_id (at_item a))
         \<and> status_num (sm_status r) < status_num StatusSent then r\<lparr>sm_status := StatusSent\<rparr> else r) (d_msgs d)
       else d_msgs d)\<rparr>"

lemma settle_attempt_run: "settle_attempt E a (w, hs) = (Inr (), (w\<lparr>w_db := settle_db E a (w_db w)\<rparr>, hs))"
  by (simp add: settle_attempt_def Let_def seq_def bnd_def whenM_def outbox_attempt_def status_up_def
      settle_db_def resched_def [abs_def])

lemma settle_all_run: "eachM (settle_attempt E) as (w, hs)
    = (Inr (), (w\<lparr>w_db := fold (settle_db E) as (w_db w)\<rparr>, hs))"
  by (rule each_db) (rule settle_attempt_run)

lemma delete_all_run: "eachM outbox_delete_row rows (w, hs)
    = (Inr (), (w\<lparr>w_db := (w_db w)\<lparr>d_outbox := filter (\<lambda>r. o_row r \<notin> set rows) (d_outbox (w_db w))\<rparr>\<rparr>, hs))"
proof -
  have "fold (\<lambda>row d. d\<lparr>d_outbox := filter (\<lambda>r. o_row r \<noteq> row) (d_outbox d)\<rparr>) rows d
      = d\<lparr>d_outbox := filter (\<lambda>r. o_row r \<notin> set rows) (d_outbox d)\<rparr>" for d :: db
  proof (induction rows arbitrary: d)
    case (Cons a rows)
    then show ?case by (simp add: conj_commute)
  qed simp
  then show ?thesis
    using each_db [of outbox_delete_row "\<lambda>row d. d\<lparr>d_outbox := filter (\<lambda>r. o_row r \<noteq> row) (d_outbox d)\<rparr>" rows w hs]
    by (simp add: outbox_delete_row_def)
qed

text \<open>What a pass may do to a row: its place in time, nothing else.\<close>

definition same_item :: "orow \<Rightarrow> orow \<Rightarrow> bool" where
  "same_item r r' \<longleftrightarrow> o_row r' = o_row r \<and> o_peer r' = o_peer r \<and> o_id r' = o_id r \<and> o_frame r' = o_frame r"

lemma fold_settle_rows: "d_outbox (fold (settle_db E) as d) = map (fold (resched E) as) (d_outbox d)"
  by (induction as arbitrary: d) (simp_all add: settle_db_def)

lemma resched_row [simp]: "o_row (resched E a r) = o_row r"
  by (simp add: resched_def Let_def)

lemma same_item_trans: "same_item r s \<Longrightarrow> same_item s t \<Longrightarrow> same_item r t"
  by (simp add: same_item_def)

lemma same_item_resched: "same_item r (resched E a r)"
  by (simp add: same_item_def resched_def Let_def)

lemma resched_later: "o_row r = o_row (at_item a) \<Longrightarrow> v_now E < o_next (resched E a r)
    \<and> o_next (resched E a r) \<le> v_now E + retryCap"
  using backoff_bounds [of "max (if at_took a \<or> at_backoff a then o_attempts (at_item a) + 1
      else o_attempts (at_item a)) 1"]
  by (simp add: resched_def Let_def retryBase_def)

lemma fold_resched:
  "same_item r (fold (resched E) as r)"
  "o_row r \<notin> (\<lambda>a. o_row (at_item a)) ` set as \<Longrightarrow> fold (resched E) as r = r"
  "v_now E < o_next r \<and> o_next r \<le> v_now E + retryCap \<or> o_row r \<in> (\<lambda>a. o_row (at_item a)) ` set as \<Longrightarrow>
     v_now E < o_next (fold (resched E) as r) \<and> o_next (fold (resched E) as r) \<le> v_now E + retryCap"
proof -
  show "same_item r (fold (resched E) as r)"
    by (induction as arbitrary: r) (auto simp: same_item_def resched_def Let_def)
  show "o_row r \<notin> (\<lambda>a. o_row (at_item a)) ` set as \<Longrightarrow> fold (resched E) as r = r"
    by (induction as arbitrary: r) (simp_all add: resched_def)
  show "v_now E < o_next r \<and> o_next r \<le> v_now E + retryCap \<or> o_row r \<in> (\<lambda>a. o_row (at_item a)) ` set as \<Longrightarrow>
     v_now E < o_next (fold (resched E) as r) \<and> o_next (fold (resched E) as r) \<le> v_now E + retryCap"
  proof (induction as arbitrary: r)
    case (Cons a as)
    then show ?case
      using resched_later [of r a E] by (cases "o_row r = o_row (at_item a)") (auto simp: resched_def)
  qed simp
qed

section \<open>One peer's attempts\<close>

definition sends_of :: "attempt list \<Rightarrow> out list" where
  "sends_of as = map (\<lambda>a. OSend (o_peer (at_item a)) (o_frame (at_item a))) (filter at_sent as)"

lemma attempt_peer_run:
  "map at_item (fst (attempt_peer E failed its w)) = its
   \<and> w_db (snd (attempt_peer E failed its w)) = w_db w
   \<and> w_out (snd (attempt_peer E failed its w)) = w_out w @ sends_of (fst (attempt_peer E failed its w))"
  by (induction E failed its w rule: attempt_peer.induct)
    (auto simp: Let_def send_def sends_of_def)

lemma attempt_peer_up:
  "\<not> failed \<Longrightarrow> (\<And>it. it \<in> set its \<Longrightarrow> v_link E (o_peer it) (o_frame it)) \<Longrightarrow>
    \<forall>a \<in> set (fst (attempt_peer E failed its w)). at_sent a"
  by (induction E failed its w rule: attempt_peer.induct) (auto simp: Let_def send_def)

lemma attempt_all_run:
  "map at_item (fst (attempt_all E gs w)) = concat gs
   \<and> w_db (snd (attempt_all E gs w)) = w_db w
   \<and> w_out (snd (attempt_all E gs w)) = w_out w @ sends_of (fst (attempt_all E gs w))"
  by (induction E gs w rule: attempt_all.induct)
    (simp_all add: Let_def attempt_peer_run sends_of_def)

lemma set_by_peer: "set (concat (by_peer due)) = set due"
  by (auto simp: by_peer_def)

lemma attempt_all_up:
  "a \<in> set (fst (attempt_all E gs w)) \<Longrightarrow>
   (\<And>g. g \<in> set gs \<Longrightarrow> \<forall>x \<in> set g. \<forall>y \<in> set g. o_peer x = o_peer y) \<Longrightarrow>
   (\<And>f. v_link E (o_peer (at_item a)) f) \<Longrightarrow> at_sent a"
proof (induction E gs w rule: attempt_all.induct)
  case (2 E g gs w)
  show ?case
  proof (cases "a \<in> set (fst (attempt_peer E False g w))")
    case True
    then have "at_item a \<in> set g"
      using attempt_peer_run [of E False g w] by (metis image_eqI set_map)
    with 2(3) have "\<And>it. it \<in> set g \<Longrightarrow> o_peer it = o_peer (at_item a)" by auto
    with attempt_peer_up [of False g E w] 2(4) True show ?thesis by auto
  next
    case False
    with 2 show ?thesis by (auto simp: Let_def)
  qed
qed simp

section \<open>A pass\<close>

lemma bump_iter [simp]: "w_db ((bump_w c ^^ n) w) = w_db w" "w_out ((bump_w c ^^ n) w) = w_out w"
  by (induction n) simp_all

lemma emit_free_tx:
  "f (w, []) = (Inr x, (w', [])) \<Longrightarrow> run_tx f w = (Inr x, w')"
  by (simp add: run_tx_def run_hooks_def)

definition batch :: "env \<Rightarrow> db \<Rightarrow> orow list" where
  "batch E d = outbox_due_rows (v_now E) dueBatch d"

text \<open>How a pass changes the queue: rows that do not open leave it, tried ones move to a later time.\<close>

definition passed :: "env \<Rightarrow> orow list \<Rightarrow> orow list \<Rightarrow> orow list \<Rightarrow> bool" where
  "passed E tried old new \<longleftrightarrow> (\<exists>f. new = map f (filter (\<lambda>r. o_row r \<notin> o_row ` {r \<in> set tried. \<not> openable E r}) old)
     \<and> (\<forall>r. same_item r (f r)
        \<and> (o_row r \<notin> o_row ` {r \<in> set tried. openable E r} \<longrightarrow> f r = r)
        \<and> (o_row r \<in> o_row ` {r \<in> set tried. openable E r} \<longrightarrow>
             v_now E < o_next (f r) \<and> o_next (f r) \<le> v_now E + retryCap)))"

definition opened :: "env \<Rightarrow> orow \<Rightarrow> orow" where
  "opened E r = projr (outbox_open E r)"

lemma opened_same [simp]: "openable E r \<Longrightarrow> o_row (opened E r) = o_row r \<and> o_peer (opened E r) = o_peer r
    \<and> o_id (opened E r) = o_id r"
  by (auto simp: openable_def opened_def outbox_open_def is_ok_iff bindR_Inr_iff)

lemma outbox_due_eq: "outbox_due E (v_now E) dueBatch d
    = (map (opened E) (filter (openable E) (batch E d)), map o_row (filter (\<lambda>r. \<not> openable E r) (batch E d)))"
proof -
  have "concat (map (\<lambda>r. case outbox_open E r of Inr it \<Rightarrow> [it] | Inl e \<Rightarrow> []) rows)
      = map (opened E) (filter (openable E) rows)" for rows
    by (induction rows) (auto simp: openable_def opened_def is_ok_iff split: sum.splits)
  then show ?thesis
    by (simp add: outbox_due_def Let_def batch_def openable_def [abs_def])
qed

definition frames_of :: "env \<Rightarrow> orow list \<Rightarrow> out set" where
  "frames_of E rows = (\<lambda>r. OSend (o_peer r) (o_frame (opened E r))) ` {r \<in> set rows. openable E r}"

lemma flush_pass_run:
  assumes "flush_pass E w = (pr, w')"
  shows "pr = (if length (filter (openable E) (batch E (w_db w))) < dueBatch then PassDone else PassAgain)"
    and "passed E (batch E (w_db w)) (d_outbox (w_db w)) (d_outbox (w_db w'))"
    and "\<exists>new. w_out w' = w_out w @ new \<and> set new \<subseteq> frames_of E (batch E (w_db w))
      \<and> (\<forall>r \<in> set (batch E (w_db w)). openable E r \<longrightarrow> (\<forall>f. v_link E (o_peer r) f) \<longrightarrow>
           OSend (o_peer r) (o_frame (opened E r)) \<in> set new)"
proof -
  define due where "due = map (opened E) (filter (openable E) (batch E (w_db w)))"
  define bad where "bad = map o_row (filter (\<lambda>r. \<not> openable E r) (batch E (w_db w)))"
  define kept where "kept = filter (\<lambda>r. o_row r \<notin> set bad) (d_outbox (w_db w))"
  define w1 where "w1 = (if bad = [] then w
      else (bump_w ''outbox.outboxCorrupt'' ^^ length bad) (snd (run_tx (eachM outbox_delete_row bad) w)))"
  have bad_set: "set bad = o_row ` {r \<in> set (batch E (w_db w)). \<not> openable E r}"
    by (auto simp: bad_def)
  have w1: "d_outbox (w_db w1) = kept" "w_out w1 = w_out w"
    using emit_free_tx [of "eachM outbox_delete_row bad", OF delete_all_run [of bad w "[]"]] by (auto simp: w1_def kept_def)
  define q where "q = attempt_all E (by_peer due) w1"
  have items: "map at_item (fst q) = concat (by_peer due)" and q: "w_db (snd q) = w_db w1"
    "w_out (snd q) = w_out w1 @ sends_of (fst q)"
    using attempt_all_run [of E "by_peer due" w1] by (simp_all add: q_def)
  have set_items: "at_item ` set (fst q) = set due"
    using arg_cong [OF items, of set] set_by_peer [of due] by (simp only: set_map)
  have rows: "(\<lambda>a. o_row (at_item a)) ` set (fst q) = o_row ` {r \<in> set (batch E (w_db w)). openable E r}"
  proof -
    have "(\<lambda>a. o_row (at_item a)) ` set (fst q) = o_row ` set due"
      using set_items by (metis image_image)
    also have "\<dots> = o_row ` {r \<in> set (batch E (w_db w)). openable E r}"
      by (force simp: due_def image_image)
    finally show ?thesis .
  qed
  have t: "run_tx (eachM (settle_attempt E) (fst q)) (snd q)
      = (Inr (), (snd q)\<lparr>w_db := fold (settle_db E) (fst q) (w_db (snd q))\<rparr>)"
    by (rule emit_free_tx) (rule settle_all_run)
  have pass: "flush_pass E w = (if due = [] then (PassDone, w1)
      else (if length due < dueBatch then PassDone else PassAgain,
        (snd q)\<lparr>w_db := fold (settle_db E) (fst q) (w_db (snd q))\<rparr>))"
    unfolding flush_pass_def outbox_due_eq fst_conv snd_conv Let_def due_def [symmetric] bad_def [symmetric]
      w1_def [symmetric] q_def [symmetric] t by (simp del: attempt_all.simps)
  show "pr = (if length (filter (openable E) (batch E (w_db w))) < dueBatch then PassDone else PassAgain)"
    using assms pass by (auto simp: due_def dueBatch_def split: if_splits)
  have out: "d_outbox (w_db w') = map (fold (resched E) (fst q)) kept \<and> w_out w' = w_out w @ sends_of (fst q)"
  proof (cases "due = []")
    case True
    then have "fst q = []" using items by (simp add: by_peer_def)
    with assms pass True w1 show ?thesis by (simp add: sends_of_def)
  next
    case False
    with assms pass q w1 show ?thesis by (auto simp: fold_settle_rows)
  qed
  show "passed E (batch E (w_db w)) (d_outbox (w_db w)) (d_outbox (w_db w'))"
    unfolding passed_def using out fold_resched [where E = E and as = "fst q"] rows
    by (intro exI [of _ "fold (resched E) (fst q)"]) (auto simp: kept_def bad_set)
  have new: "set (sends_of (fst q)) \<subseteq> frames_of E (batch E (w_db w))"
  proof
    fix x assume "x \<in> set (sends_of (fst q))"
    then obtain a where a: "a \<in> set (fst q)" "x = OSend (o_peer (at_item a)) (o_frame (at_item a))"
      by (auto simp: sends_of_def)
    with set_items have "at_item a \<in> set due" by auto
    then obtain r where "r \<in> set (batch E (w_db w))" "openable E r" "at_item a = opened E r"
      by (auto simp: due_def)
    with a show "x \<in> frames_of E (batch E (w_db w))" by (auto simp: frames_of_def)
  qed
  have sent: "OSend (o_peer r) (o_frame (opened E r)) \<in> set (sends_of (fst q))"
    if r: "r \<in> set (batch E (w_db w))" "openable E r" "\<forall>f. v_link E (o_peer r) f" for r
  proof -
    from r have "opened E r \<in> set due" by (simp add: due_def)
    then obtain a where a: "a \<in> set (fst q)" "at_item a = opened E r" using set_items by (metis imageE)
    have "at_sent a"
    proof (rule attempt_all_up [of a E "by_peer due" w1])
      show "a \<in> set (fst (attempt_all E (by_peer due) w1))" using a q_def by simp
      show "\<And>g. g \<in> set (by_peer due) \<Longrightarrow> \<forall>x \<in> set g. \<forall>y \<in> set g. o_peer x = o_peer y"
        by (auto simp: by_peer_def)
      show "v_link E (o_peer (at_item a)) f" for f using r a by simp
    qed
    with a r show ?thesis by (force simp: sends_of_def)
  qed
  from out new sent show "\<exists>new. w_out w' = w_out w @ new \<and> set new \<subseteq> frames_of E (batch E (w_db w))
      \<and> (\<forall>r \<in> set (batch E (w_db w)). openable E r \<longrightarrow> (\<forall>f. v_link E (o_peer r) f) \<longrightarrow>
           OSend (o_peer r) (o_frame (opened E r)) \<in> set new)"
    by (intro exI [of _ "sends_of (fst q)"]) auto
qed

section \<open>The loop over passes\<close>

definition due_rows :: "env \<Rightarrow> db \<Rightarrow> orow list" where
  "due_rows E d = filter (\<lambda>r. o_next r \<le> v_now E) (d_outbox d)"

definition row_keys :: "db \<Rightarrow> bool" where
  "row_keys d \<longleftrightarrow> distinct (map o_row (d_outbox d))"

lemma batch_set: "set (batch E d) \<subseteq> set (due_rows E d)"
  using set_take_subset by (fastforce simp: batch_def outbox_due_rows_def due_rows_def)

lemma batch_length: "length (batch E d) = min (length (due_rows E d)) dueBatch"
  by (simp add: batch_def outbox_due_rows_def due_rows_def)

lemma batch_all: "length (batch E d) < dueBatch \<Longrightarrow> set (batch E d) = set (due_rows E d)"
  by (simp add: batch_def outbox_due_rows_def due_rows_def)

lemma row_keys_inj: "row_keys d \<Longrightarrow> r \<in> set (d_outbox d) \<Longrightarrow> r' \<in> set (d_outbox d) \<Longrightarrow> o_row r = o_row r' \<Longrightarrow> r = r'"
  by (auto simp: row_keys_def distinct_map dest: inj_onD)

lemma passed_due:
  assumes p: "passed E (batch E d) (d_outbox d) (d_outbox d')" and k: "row_keys d"
  shows "due_rows E d' = filter (\<lambda>r. r \<notin> set (batch E d)) (due_rows E d)" and "row_keys d'"
    and "length (due_rows E d') + length (batch E d) = length (due_rows E d)"
    and "\<And>r'. r' \<in> set (d_outbox d') \<Longrightarrow> \<exists>r \<in> set (d_outbox d). same_item r r'"
    and "\<And>r. r \<in> set (d_outbox d) \<Longrightarrow> openable E r \<Longrightarrow> \<exists>r' \<in> set (d_outbox d'). same_item r r'
       \<and> (r' = r \<or> o_next r \<le> v_now E \<and> v_now E < o_next r' \<and> o_next r' \<le> v_now E + retryCap)"
proof -
  from p obtain f where new: "d_outbox d' = map f (filter (\<lambda>r. o_row r \<notin> o_row ` {r \<in> set (batch E d). \<not> openable E r}) (d_outbox d))"
    and same: "\<And>r. same_item r (f r)"
    and stay: "\<And>r. o_row r \<notin> o_row ` {r \<in> set (batch E d). openable E r} \<Longrightarrow> f r = r"
    and move: "\<And>r. o_row r \<in> o_row ` {r \<in> set (batch E d). openable E r} \<Longrightarrow> v_now E < o_next (f r)"
      "\<And>r. o_row r \<in> o_row ` {r \<in> set (batch E d). openable E r} \<Longrightarrow> o_next (f r) \<le> v_now E + retryCap"
    by (auto simp: passed_def)
  have sub: "set (batch E d) \<subseteq> set (d_outbox d)" using batch_set by (fastforce simp: due_rows_def)
  have mem: "o_row r \<in> o_row ` {r \<in> set (batch E d). P r} \<longleftrightarrow> r \<in> set (batch E d) \<and> P r"
    if "r \<in> set (d_outbox d)" for r P
  proof
    assume "o_row r \<in> o_row ` {r \<in> set (batch E d). P r}"
    then obtain r0 where r0: "r0 \<in> set (batch E d)" "P r0" "o_row r = o_row r0" by auto
    with sub row_keys_inj [OF k that] have "r = r0" by blast
    with r0 show "r \<in> set (batch E d) \<and> P r" by simp
  qed auto
  have new': "d_outbox d' = map f (filter (\<lambda>r. r \<in> set (batch E d) \<longrightarrow> openable E r) (d_outbox d))"
    unfolding new by (rule arg_cong [where f = "map f"], rule filter_cong) (auto simp: mem)
  have due_f: "o_next (f r) \<le> v_now E \<longleftrightarrow> o_next r \<le> v_now E \<and> r \<notin> set (batch E d)"
    if "r \<in> set (d_outbox d)" "r \<in> set (batch E d) \<longrightarrow> openable E r" for r
    using that mem [of r "openable E"] stay [of r] move(1) [of r] by (cases "r \<in> set (batch E d)") auto
  have f_id: "r \<in> set (d_outbox d) \<Longrightarrow> r \<notin> set (batch E d) \<Longrightarrow> f r = r" for r
    using mem [of r "openable E"] stay by blast
  have "due_rows E d' = map f (filter (\<lambda>r. o_next (f r) \<le> v_now E)
      (filter (\<lambda>r. r \<in> set (batch E d) \<longrightarrow> openable E r) (d_outbox d)))"
    unfolding due_rows_def new' by (simp add: filter_map comp_def)
  also have "\<dots> = map f (filter (\<lambda>r. r \<notin> set (batch E d)) (due_rows E d))"
    unfolding due_rows_def filter_filter
    by (rule arg_cong [where f = "map f"], rule filter_cong) (auto simp: due_f)
  also have "\<dots> = filter (\<lambda>r. r \<notin> set (batch E d)) (due_rows E d)"
    by (rule map_idI) (auto simp: due_rows_def f_id)
  finally show dd: "due_rows E d' = filter (\<lambda>r. r \<notin> set (batch E d)) (due_rows E d)" .
  have "map o_row (d_outbox d') = map o_row (filter (\<lambda>r. r \<in> set (batch E d) \<longrightarrow> openable E r) (d_outbox d))"
    unfolding new' using same by (simp add: same_item_def)
  then show "row_keys d'" using k by (simp add: row_keys_def distinct_map_filter)
  show "r' \<in> set (d_outbox d') \<Longrightarrow> \<exists>r \<in> set (d_outbox d). same_item r r'" for r'
    using same by (auto simp: new')
  show "\<exists>r' \<in> set (d_outbox d'). same_item r r'
       \<and> (r' = r \<or> o_next r \<le> v_now E \<and> v_now E < o_next r' \<and> o_next r' \<le> v_now E + retryCap)"
    if r: "r \<in> set (d_outbox d)" "openable E r" for r
  proof (rule bexI [of _ "f r"])
    show "f r \<in> set (d_outbox d')" using r by (auto simp: new')
    have "r \<in> set (batch E d) \<Longrightarrow> o_next r \<le> v_now E" using batch_set by (fastforce simp: due_rows_def)
    with r same mem [of r "openable E"] move [of r] f_id
    show "same_item r (f r) \<and> (f r = r \<or> o_next r \<le> v_now E \<and> v_now E < o_next (f r) \<and> o_next (f r) \<le> v_now E + retryCap)"
      by blast
  qed
  have dist: "distinct (due_rows E d)" using k by (simp add: row_keys_def due_rows_def distinct_map)
  have distb: "distinct (batch E d)"
    using k by (simp add: batch_def outbox_due_rows_def row_keys_def distinct_map)
  have "set (filter (\<lambda>r. r \<in> set (batch E d)) (due_rows E d)) = set (batch E d)"
    using batch_set by fastforce
  then have "length (filter (\<lambda>r. r \<in> set (batch E d)) (due_rows E d)) = length (batch E d)"
    using dist distb by (metis distinct_card distinct_filter)
  with dd sum_length_filter_compl [of "\<lambda>r. r \<in> set (batch E d)" "due_rows E d"]
  show "length (due_rows E d') + length (batch E d) = length (due_rows E d)" by simp
qed

text \<open>What flushing does to the queue and to the network.\<close>

definition flushed :: "env \<Rightarrow> world \<Rightarrow> world \<Rightarrow> bool" where
  "flushed E w w' \<longleftrightarrow>
     (\<forall>r' \<in> set (d_outbox (w_db w')). \<exists>r \<in> set (d_outbox (w_db w)). same_item r r')
   \<and> (\<forall>r \<in> set (d_outbox (w_db w)). openable E r \<longrightarrow> (\<exists>r' \<in> set (d_outbox (w_db w')). same_item r r'
        \<and> (r' = r \<or> o_next r \<le> v_now E \<and> v_now E < o_next r' \<and> o_next r' \<le> v_now E + retryCap)))
   \<and> (\<exists>new. w_out w' = w_out w @ new \<and> set new \<subseteq> frames_of E (due_rows E (w_db w)))"

definition all_served :: "env \<Rightarrow> world \<Rightarrow> world \<Rightarrow> bool" where
  "all_served E w w' \<longleftrightarrow> due_rows E (w_db w') = []
   \<and> (\<forall>r \<in> set (due_rows E (w_db w)). (\<forall>f. v_link E (o_peer r) f) \<longrightarrow>
        OSend (o_peer r) (o_frame (opened E r)) \<in> set (w_out w'))"

lemma same_openable: "same_item r r' \<Longrightarrow> openable E r' = openable E r"
  by (auto simp: openable_def outbox_open_def same_item_def is_ok_iff bindR_Inr_iff)

lemma flush_pass_flushed:
  assumes run: "flush_pass E w = (pr, w')" and k: "row_keys (w_db w)"
  shows "flushed E w w'" and "row_keys (w_db w')" and "pr \<noteq> PassFailed"
    and "pr = PassAgain \<Longrightarrow> length (due_rows E (w_db w')) < length (due_rows E (w_db w))"
    and "\<forall>r \<in> set (d_outbox (w_db w)). openable E r \<Longrightarrow> pr = PassDone \<Longrightarrow> all_served E w w'"
    and "r \<in> set (batch E (w_db w)) \<Longrightarrow> openable E r \<Longrightarrow> \<forall>f. v_link E (o_peer r) f \<Longrightarrow>
        OSend (o_peer r) (o_frame (opened E r)) \<in> set (w_out w')"
proof -
  note P = flush_pass_run [OF run] and D = passed_due [OF flush_pass_run(2) [OF run] k]
  have "frames_of E (batch E (w_db w)) \<subseteq> frames_of E (due_rows E (w_db w))"
    using batch_set [of E "w_db w"] by (auto simp: frames_of_def)
  with P(3) D(4,5) show "flushed E w w'" unfolding flushed_def by blast
  show "row_keys (w_db w')" by (rule D(2))
  show "pr \<noteq> PassFailed" using P(1) by (auto split: if_splits)
  have len: "length (filter (openable E) (batch E (w_db w))) \<le> length (batch E (w_db w))"
    by (rule length_filter_le)
  have "0 < dueBatch" by (simp add: dueBatch_def)
  moreover from P(1) have "pr = PassAgain \<Longrightarrow> dueBatch \<le> length (filter (openable E) (batch E (w_db w)))"
    by (auto split: if_splits)
  ultimately show "pr = PassAgain \<Longrightarrow> length (due_rows E (w_db w')) < length (due_rows E (w_db w))"
    using D(3) len by linarith
  show sent: "r \<in> set (batch E (w_db w)) \<Longrightarrow> openable E r \<Longrightarrow> \<forall>f. v_link E (o_peer r) f \<Longrightarrow>
        OSend (o_peer r) (o_frame (opened E r)) \<in> set (w_out w')" for r
    using P(3) by auto
  assume op: "\<forall>r \<in> set (d_outbox (w_db w)). openable E r" and fin: "pr = PassDone"
  have "set (batch E (w_db w)) \<subseteq> set (d_outbox (w_db w))" using batch_set by (fastforce simp: due_rows_def)
  with op have "\<forall>r \<in> set (batch E (w_db w)). openable E r" by auto
  then have "filter (openable E) (batch E (w_db w)) = batch E (w_db w)" by (simp add: filter_id_conv)
  with P(1) fin have "length (batch E (w_db w)) < dueBatch" by (auto split: if_splits)
  then have all: "set (batch E (w_db w)) = set (due_rows E (w_db w))" by (rule batch_all)
  with D(1) have "due_rows E (w_db w') = []" by (simp add: filter_empty_conv)
  with all sent op batch_set show "all_served E w w'"
    unfolding all_served_def by (auto simp: due_rows_def)
qed

lemma flushed_trans:
  assumes a: "flushed E w w1" and b: "flushed E w1 w'"
    and due: "set (due_rows E (w_db w1)) \<subseteq> set (due_rows E (w_db w))"
  shows "flushed E w w'"
proof -
  from a b obtain n1 n2 where n: "w_out w1 = w_out w @ n1" "set n1 \<subseteq> frames_of E (due_rows E (w_db w))"
    "w_out w' = w_out w1 @ n2" "set n2 \<subseteq> frames_of E (due_rows E (w_db w1))"
    unfolding flushed_def by blast
  have "frames_of E (due_rows E (w_db w1)) \<subseteq> frames_of E (due_rows E (w_db w))"
    using due by (auto simp: frames_of_def)
  with n have out: "\<exists>new. w_out w' = w_out w @ new \<and> set new \<subseteq> frames_of E (due_rows E (w_db w))"
    by (intro exI [of _ "n1 @ n2"]) auto
  have old: "\<exists>r \<in> set (d_outbox (w_db w)). same_item r r'" if "r' \<in> set (d_outbox (w_db w'))" for r'
    using that a b same_item_trans unfolding flushed_def by metis
  have "\<exists>r' \<in> set (d_outbox (w_db w')). same_item r r'
      \<and> (r' = r \<or> o_next r \<le> v_now E \<and> v_now E < o_next r' \<and> o_next r' \<le> v_now E + retryCap)"
    if r: "r \<in> set (d_outbox (w_db w))" "openable E r" for r
  proof -
    from a r obtain r1 where r1: "r1 \<in> set (d_outbox (w_db w1))" "same_item r r1"
      "r1 = r \<or> o_next r \<le> v_now E \<and> v_now E < o_next r1 \<and> o_next r1 \<le> v_now E + retryCap"
      unfolding flushed_def by blast
    with b r same_openable obtain r2 where r2: "r2 \<in> set (d_outbox (w_db w'))" "same_item r1 r2"
      "r2 = r1 \<or> o_next r1 \<le> v_now E \<and> v_now E < o_next r2 \<and> o_next r2 \<le> v_now E + retryCap"
      unfolding flushed_def by blast
    with r1 same_item_trans show ?thesis by (intro bexI [of _ r2]) auto
  qed
  with old out show ?thesis unfolding flushed_def by blast
qed

lemma flush_due_ends:
  assumes "length (due_rows E (w_db w)) < fuel" "row_keys (w_db w)"
  shows "\<exists>w'. flush_due fuel E w = Some (True, w') \<and> flushed E w w' \<and> row_keys (w_db w')
    \<and> ((\<forall>r \<in> set (d_outbox (w_db w)). openable E r) \<longrightarrow> all_served E w w')"
  using assms
proof (induction fuel arbitrary: w)
  case (Suc fuel)
  obtain pr w1 where run: "flush_pass E w = (pr, w1)" by (cases "flush_pass E w")
  note F = flush_pass_flushed [OF run Suc.prems(2)]
  show ?case
  proof (cases pr)
    case PassDone
    with run F(1,2,5) show ?thesis by auto
  next
    case PassAgain
    with F(4) Suc.prems(1) have "length (due_rows E (w_db w1)) < fuel" by simp
    from Suc.IH [OF this F(2)] obtain w' where w': "flush_due fuel E w1 = Some (True, w')" "flushed E w1 w'"
      "row_keys (w_db w')" "(\<forall>r \<in> set (d_outbox (w_db w1)). openable E r) \<longrightarrow> all_served E w1 w'" by blast
    note D = passed_due [OF flush_pass_run(2) [OF run] Suc.prems(2)]
    have due: "set (due_rows E (w_db w1)) \<subseteq> set (due_rows E (w_db w))" using D(1) by auto
    have "all_served E w w'" if op: "\<forall>r \<in> set (d_outbox (w_db w)). openable E r"
    proof -
      from op D(4) same_openable have "\<forall>r \<in> set (d_outbox (w_db w1)). openable E r" by blast
      with w' have s: "all_served E w1 w'" by blast
      have "OSend (o_peer r) (o_frame (opened E r)) \<in> set (w_out w')"
        if r: "r \<in> set (due_rows E (w_db w))" "\<forall>f. v_link E (o_peer r) f" for r
      proof (cases "r \<in> set (batch E (w_db w))")
        case True
        moreover have "openable E r" using r op by (simp add: due_rows_def)
        ultimately have "OSend (o_peer r) (o_frame (opened E r)) \<in> set (w_out w1)" using F(6) r by blast
        then show ?thesis using w'(2) by (auto simp: flushed_def)
      next
        case False
        with r D(1) s show ?thesis by (auto simp: all_served_def)
      qed
      with s show ?thesis by (simp add: all_served_def)
    qed
    with run PassAgain w' flushed_trans [OF F(1) w'(2) due] show ?thesis by auto
  qed (use F(3) in simp)
qed simp


definition demo_queue :: world where
  "demo_queue = snd (run_tx (outbox_enqueue demo_env (PeerID (replicate 32 2)) (replicate 16 7) [104, 105])
     (new_world (replicate 24 0)))"

lemma demo_queue_rows: "\<exists>r. d_outbox (w_db demo_queue) = [r] \<and> openable demo_env r \<and> o_next r \<le> v_now demo_env
    \<and> o_peer r = PeerID (replicate 32 2)"
proof -
  have "\<exists>c s. box_seal demo_env [104, 105] (aad_outbox (PeerID (replicate 32 2)) (replicate 16 7))
      (new_world (replicate 24 0), []) = (Inr c, s)"
    by (simp add: box_seal_def draw_def bnd_def with_rnd_def read_full_def new_world_def NonceSizeX_def)
  then obtain c s where seal: "box_seal demo_env [104, 105] (aad_outbox (PeerID (replicate 32 2)) (replicate 16 7))
      (new_world (replicate 24 0), []) = (Inr c, s)" by blast
  from box_seal_run [OF seal] obtain rnd where s: "s = ((new_world (replicate 24 0))\<lparr>w_rnd := rnd\<rparr>, [])" by blast
  let ?p = "PeerID (replicate 32 2)" and ?m = "replicate 16 (7 :: byte)"
  have "outbox_enqueue demo_env ?p ?m [104, 105] (new_world (replicate 24 0), [])
      = (Inr (), (new_world (replicate 24 0))\<lparr>w_rnd := rnd, w_db := empty_db\<lparr>d_outbox :=
          [\<lparr>o_row = 1, o_peer = ?p, o_id = ?m, o_frame = c, o_attempts = 0, o_next = v_now demo_env\<rparr>]\<rparr>\<rparr>, [])"
    by (simp add: outbox_enqueue_def bnd_def seal s next_row_def) (simp add: new_world_def empty_db_def)
  then have q: "w_db demo_queue = empty_db\<lparr>d_outbox :=
      [\<lparr>o_row = 1, o_peer = ?p, o_id = ?m, o_frame = c, o_attempts = 0, o_next = v_now demo_env\<rparr>]\<rparr>"
    unfolding demo_queue_def by (simp add: run_tx_def run_hooks_def)
  have "xaead_correct (v_crypto demo_env)" using demo_sealing_ok by (simp add: sealing_ok_def)
  from box_open_seal [OF this seal] show ?thesis
    unfolding q by (simp add: openable_def outbox_open_def)
qed


text \<open>
  The pause after n attempts is 5 seconds doubled per attempt and cut at an
  hour: never shorter than 5 seconds, never longer than an hour, and never
  shorter than after fewer attempts.
\<close>

theorem backoff_is_capped_doubling:
  "backoff n = min (retryBase * 2 ^ (n - 1)) retryCap \<and> retryBase \<le> backoff n \<and> backoff n \<le> retryCap
   \<and> mono backoff"
proof (intro conjI monoI)
  fix m n :: nat
  assume "m \<le> n"
  then have "retryBase * 2 ^ (m - 1) \<le> retryBase * 2 ^ (n - 1)"
    by (intro mult_left_mono power_increasing) (simp_all add: retryBase_def)
  then show "backoff m \<le> backoff n" unfolding backoff_eq by (rule min.mono) simp
qed (rule backoff_eq backoff_bounds)+

section \<open>Acknowledgements\<close>

definition queued :: "peer_id \<Rightarrow> msg_id \<Rightarrow> db \<Rightarrow> bool" where
  "queued p mid d \<longleftrightarrow> (p, mid) \<in> outbox_key ` set (d_outbox d)"

definition settled_db :: "peer_id \<Rightarrow> msg_id \<Rightarrow> db \<Rightarrow> db" where
  "settled_db p mid d = d\<lparr>d_outbox := filter (\<lambda>r. outbox_key r \<noteq> (p, mid)) (d_outbox d),
     d_msgs := map (\<lambda>r. if msg_key r = (p, True, mid) then r\<lparr>sm_status := StatusDelivered\<rparr> else r) (d_msgs d)\<rparr>"

lemma delivered_up: "(if msg_key r = k \<and> status_num (sm_status r) < status_num StatusDelivered
      then r\<lparr>sm_status := StatusDelivered\<rparr> else r) = (if msg_key r = k then r\<lparr>sm_status := StatusDelivered\<rparr> else r)"
  for r :: mrow
  by (cases "sm_status r") (auto intro!: smsg.equality)

lemma ack_tx_run: "ack_tx p mid (w, hs) = (Inr (queued p mid (w_db w)),
    (if queued p mid (w_db w) then w\<lparr>w_db := settled_db p mid (w_db w)\<rparr> else w, hs))"
proof (cases "queued p mid (w_db w)")
  case True
  then show ?thesis
    by (simp add: ack_tx_def outbox_settle_def seq_def bnd_def queued_def status_up_def settled_db_def delivered_up
        del: status_num.simps)
next
  case False
  then have "filter (\<lambda>r. outbox_key r \<noteq> (p, mid)) (d_outbox (w_db w)) = d_outbox (w_db w)"
    by (metis (mono_tags, lifting) filter_True image_eqI queued_def)
  with False show ?thesis
    by (simp add: ack_tx_def outbox_settle_def seq_def bnd_def queued_def)
qed

text \<open>
  An acknowledgement settles what it names and nothing else: an ack from a
  peer for an id that waits for this very peer takes exactly that row out of the
  queue, marks exactly that outgoing message delivered and reports it once; any
  other ack (malformed, repeated, for another peer's message, invented) changes
  nothing in the database and reports nothing.
\<close>

theorem ack_settles_only_its_own:
  "w_db (handle_ack E from e w) = (if length (e_payload e) = MsgIDLen \<and> queued from (e_payload e) (w_db w)
      then settled_db from (e_payload e) (w_db w) else w_db w)
   \<and> w_out (handle_ack E from e w) = w_out w @
      (if length (e_payload e) = MsgIDLen \<and> queued from (e_payload e) (w_db w)
       then [ODelivered from (e_payload e)] else [])
   \<and> \<not> queued p mid (settled_db p mid d)
   \<and> w_db (handle_ack E from e (handle_ack E from e w)) = w_db (handle_ack E from e w)"
proof -
  have run: "run_tx (ack_tx from mid) v = (Inr (queued from mid (w_db v)),
      if queued from mid (w_db v) then v\<lparr>w_db := settled_db from mid (w_db v)\<rparr> else v)" for mid v
    by (simp add: run_tx_def ack_tx_run run_hooks_def)
  have db: "w_db (handle_ack E from e v) = (if length (e_payload e) = MsgIDLen \<and> queued from (e_payload e) (w_db v)
      then settled_db from (e_payload e) (w_db v) else w_db v)"
    and out: "w_out (handle_ack E from e v) = w_out v @
      (if length (e_payload e) = MsgIDLen \<and> queued from (e_payload e) (w_db v)
       then [ODelivered from (e_payload e)] else [])" for v
    by (auto simp: handle_ack_def run)
  have gone: "\<not> queued p mid (settled_db p mid d)" for p mid d
    by (auto simp: queued_def settled_db_def)
  show ?thesis using out gone by (simp add: db)
qed

end
