(* ===== verification/Tame.thy ===== *)
theory Tame
  imports StoreProps
begin

text \<open>
  What code that runs inside the transaction of an incoming envelope must leave
  alone, as one relation between the states before and after (\<open>tame\<close>, weaker if the
  code failed, since then the database is rolled back): the
  deduplication window, the network and the presentation layer are not touched;
  queue and history only grow at the end; a blocked peer stays blocked; what is
  registered for after the commit leaves window and peers alone, adds at the end
  of queue and history, and adds to the contact snapshot at most new contacts.
  Every handler of the node is shown to be tame in its component's theory;
  \<open>moves tame\<close> of the store's operations is here. Operations that only send are
  stricter still (\<open>sends\<close>): they do not touch peers and register nothing.
\<close>

definition peer_state :: "peer_id \<Rightarrow> db \<Rightarrow> pstate option" where
  "peer_state p d = map_option p_state (peer_row p d)"

text \<open>
  A hook of the node: it may send (in a transaction of its own), and the
  snapshot is updated regardless of the rest, at most by new contacts.
\<close>

definition db_sends :: "db \<Rightarrow> db \<Rightarrow> bool" where
  "db_sends d d' \<longleftrightarrow> d_dedup d' = d_dedup d \<and> d_peers d' = d_peers d
     \<and> (\<exists>more. d_outbox d' = d_outbox d @ more) \<and> (\<exists>more. d_msgs d' = d_msgs d @ more)"

definition hook_ok :: "hook \<Rightarrow> bool" where
  "hook_ok h \<longleftrightarrow> (\<forall>w. db_sends (w_db w) (w_db (h w)) \<and> w_online (h w) = w_online w)
     \<and> (\<exists>g. (\<forall>w. w_states (h w) = g (w_states w)) \<and> (\<forall>m p. g m p = m p \<or> g m p = Some PeerContact))"

definition quiet_hook :: "hook \<Rightarrow> bool" where
  "quiet_hook h \<longleftrightarrow> (\<forall>w. w_db (h w) = w_db w \<and> w_states (h w) = w_states w \<and> w_online (h w) = w_online w)"

text \<open>The snapshot will be what the peers table says once the hooks have run.\<close>

definition snap :: "txs \<Rightarrow> bool" where
  "snap s \<longleftrightarrow> list_all hook_ok (snd s)
     \<and> (\<forall>p. w_states (run_hooks (snd s) (fst s)) p = peer_state p (w_db (fst s)))"

definition tame :: "bool \<Rightarrow> txs \<Rightarrow> txs \<Rightarrow> bool" where
  "tame ok s s' \<longleftrightarrow>
     d_dedup (w_db (fst s')) = d_dedup (w_db (fst s)) \<and> w_out (fst s') = w_out (fst s)
   \<and> w_states (fst s') = w_states (fst s) \<and> w_online (fst s') = w_online (fst s)
   \<and> (\<exists>more. d_outbox (w_db (fst s')) = d_outbox (w_db (fst s)) @ more)
   \<and> (\<exists>more. d_msgs (w_db (fst s')) = d_msgs (w_db (fst s)) @ more)
   \<and> (\<forall>p. peer_state p (w_db (fst s)) = Some PeerBlocked \<longrightarrow> peer_state p (w_db (fst s')) = Some PeerBlocked)
   \<and> (\<exists>new. snd s' = snd s @ new \<and> list_all hook_ok new)
   \<and> (ok \<and> snap s \<longrightarrow> snap s')"

interpretation tame_order: step_order tame
proof unfold_locales
  show "tame ok s s" for ok s by (simp add: tame_def)
  show "tame ok s u" if "tame True s t" "tame ok t u" for ok s t u
  proof -
    from that obtain n1 n2 where "snd t = snd s @ n1" "list_all hook_ok n1"
      "snd u = snd t @ n2" "list_all hook_ok n2"
      unfolding tame_def by blast
    then have "snd u = snd s @ (n1 @ n2) \<and> list_all hook_ok (n1 @ n2)" by simp
    moreover have "\<exists>more. d_outbox (w_db (fst u)) = d_outbox (w_db (fst s)) @ more"
      "\<exists>more. d_msgs (w_db (fst u)) = d_msgs (w_db (fst s)) @ more"
      using that by (auto simp: tame_def)
    ultimately show ?thesis using that unfolding tame_def by metis
  qed
qed

section \<open>Hooks\<close>

lemma db_sends_refl [simp]: "db_sends d d"
  by (simp add: db_sends_def)

lemma db_sends_trans: "db_sends a b \<Longrightarrow> db_sends b c \<Longrightarrow> db_sends a c"
  by (auto simp: db_sends_def)

lemma hook_okD: "hook_ok h \<Longrightarrow> db_sends (w_db w) (w_db (h w))"
  by (simp add: hook_ok_def)

lemma quiet_hook_ok: "quiet_hook h \<Longrightarrow> hook_ok h"
  unfolding quiet_hook_def hook_ok_def by (auto intro: exI [of _ "\<lambda>x. x"])

lemma quiet_hooks [intro]:
  "quiet_hook (emit x)" "quiet_hook (bump_w c)" "quiet_hook (\<lambda>w. w)"
  "quiet_hook g \<Longrightarrow> quiet_hook h \<Longrightarrow> quiet_hook (\<lambda>w. g (h w))"
  by (simp_all add: quiet_hook_def)

lemma run_hooks_append: "run_hooks (hs @ [h]) w = h (run_hooks hs w)"
  by (simp add: run_hooks_def)

lemma run_hooks_db: "list_all hook_ok hs \<Longrightarrow> db_sends (w_db w) (w_db (run_hooks hs w))"
  by (induction hs arbitrary: w) (auto simp: run_hooks_def intro: db_sends_trans hook_okD)

lemma run_hooks_online: "list_all hook_ok hs \<Longrightarrow> w_online (run_hooks hs w) = w_online w"
  by (induction hs arbitrary: w) (simp_all add: run_hooks_def hook_ok_def)

lemma run_hooks_joins: "list_all hook_ok hs \<Longrightarrow>
    w_states (run_hooks hs w) p = w_states w p \<or> w_states (run_hooks hs w) p = Some PeerContact"
proof (induction hs arbitrary: w)
  case (Cons h hs)
  from Cons.prems have "hook_ok h" by simp
  then have "w_states (h w) p = w_states w p \<or> w_states (h w) p = Some PeerContact"
    unfolding hook_ok_def by metis
  with Cons.IH [of "h w"] Cons.prems show ?case by (auto simp: run_hooks_def)
qed (simp add: run_hooks_def)

lemma run_hooks_states:
  "list_all hook_ok hs \<Longrightarrow> w_states w = w_states v \<Longrightarrow> w_states (run_hooks hs w) = w_states (run_hooks hs v)"
proof (induction hs arbitrary: w v)
  case (Cons h hs)
  from Cons.prems(1) obtain g where "\<And>w. w_states (h w) = g (w_states w)" by (auto simp: hook_ok_def)
  with Cons show ?case by (simp add: run_hooks_def)
qed (simp add: run_hooks_def)

text \<open>Steps that leave the peers and their snapshot keep the snapshot right.\<close>

lemma snap_cong:
  assumes "w_states w' = w_states w" "d_peers (w_db w') = d_peers (w_db w)" "snap (w, hs)"
  shows "snap (w', hs)"
  using assms run_hooks_states [of hs w' w] by (simp add: snap_def peer_state_def peer_row_def)

lemma snap_quiet: "quiet_hook h \<Longrightarrow> snap (w, hs) \<Longrightarrow> snap (w, hs @ [h])"
  by (simp add: snap_def run_hooks_append quiet_hook_ok) (simp add: quiet_hook_def)

section \<open>Operations that only send\<close>

text \<open>The memory of the file transfer and the disk.\<close>

definition files_mem :: "world \<Rightarrow> (bytes \<rightharpoonup> pull) \<times> (bytes \<rightharpoonup> nat) \<times> (nat \<Rightarrow> bytes) \<times> nat \<times> frow list \<times> bytes list
    \<times> (peer_id \<times> envelope) list \<times> (peer_id \<times> envelope) list" where
  "files_mem w = (w_pulls w, w_paths w, w_inodes w, w_ino w, w_newpulls w, w_drops w, w_chunks w, w_reqs w)"

lemma files_mem_simps [simp]:
  "files_mem (w\<lparr>w_db := d\<rparr>) = files_mem w" "files_mem (w\<lparr>w_rnd := r\<rparr>) = files_mem w"
  "files_mem (w\<lparr>w_rnd := r, w_db := d\<rparr>) = files_mem w" "files_mem (w\<lparr>w_kicks := k\<rparr>) = files_mem w"
  "files_mem (bump_w c w) = files_mem w" "files_mem (emit x w) = files_mem w"
  by (simp_all add: files_mem_def)

definition sends :: "bool \<Rightarrow> txs \<Rightarrow> txs \<Rightarrow> bool" where
  "sends ok s s' \<longleftrightarrow> snd s' = snd s \<and> db_sends (w_db (fst s)) (w_db (fst s'))
   \<and> w_states (fst s') = w_states (fst s) \<and> w_online (fst s') = w_online (fst s)
   \<and> w_out (fst s') = w_out (fst s) \<and> w_call (fst s') = w_call (fst s) \<and> w_calls (fst s') = w_calls (fst s) \<and> w_serial (fst s') = w_serial (fst s)
   \<and> w_kicks (fst s') = w_kicks (fst s) \<and> files_mem (fst s') = files_mem (fst s)"

interpretation sends_order: step_order sends
  by unfold_locales (auto simp: sends_def intro: db_sends_trans)

lemma sends_tame: "sends ok s s' \<Longrightarrow> tame ok s s'"
proof -
  assume a: "sends ok s s'"
  obtain w hs where s: "s = (w, hs)" by (cases s)
  obtain w' where s': "s' = (w', hs)" using a s by (cases s') (simp add: sends_def)
  from a s s' show ?thesis
    unfolding tame_def sends_def db_sends_def
    by (auto simp: peer_state_def peer_row_def intro: snap_cong)
qed

lemma moves_sends_tame: "moves sends m \<Longrightarrow> moves tame m"
  by (simp add: moves_def sends_tame)

lemma sends_world [moves_intros]:
  assumes "\<And>w. w_db (f w) = w_db w" "\<And>w. w_out (f w) = w_out w" "\<And>w. w_states (f w) = w_states w"
    "\<And>w. w_online (f w) = w_online w" "\<And>w. w_call (f w) = w_call w" "\<And>w. w_calls (f w) = w_calls w" "\<And>w. w_serial (f w) = w_serial w"
    "\<And>w. w_kicks (f w) = w_kicks w" "\<And>w. files_mem (f w) = files_mem w"
  shows "moves sends (on_world f)"
  unfolding moves_def by (auto simp: sends_def assms)

lemma sends_db [moves_intros]:
  assumes "\<And>d. db_sends d (f d)"
  shows "moves sends (on_db f)"
  unfolding moves_def by (auto simp: sends_def assms)

lemma sends_rnd [moves_intros]: "moves sends (with_rnd f)"
  unfolding moves_def with_rnd_def by (auto simp: sends_def split: sum.splits)

lemma sends_q [moves_intros]: "moves sends (q_db f)" "moves sends (q_world g)" "moves sends (bump c)"
  unfolding moves_def by (auto simp: sends_def)

lemma sends_draw [moves_intros]: "moves sends (draw n)"
  unfolding draw_def by (rule sends_rnd)

lemma sends_seal [moves_intros]: "moves sends (box_seal E v a)"
  unfolding box_seal_def by (intro sends_order.moves_rules moves_intros)

lemma sends_store [moves_intros]:
  "moves sends (insert_message E m)" "moves sends (get_message E p mid b)" "moves sends (next_seq c)"
  "moves sends lamport_next" "moves sends (lamport_observe v)" "moves sends (recv_seq_observe c v)"
  "moves sends (outbox_enqueue E p mid frame)"
  unfolding insert_message_def get_message_def next_seq_def lamport_next_def lamport_observe_def
    recv_seq_observe_def outbox_enqueue_def Let_def
  by (intro sends_order.moves_rules moves_intros; simp add: db_sends_def)+

lemma sends_tables [moves_intros]:
  "moves sends (session_get E p)" "moves sends (session_put E p b)" "moves sends (session_delete p)"
  "moves sends (handshake_get E p)" "moves sends (handshake_put E p b sid)" "moves sends (handshake_delete p)"
  "moves sends (pending_add p mid t)" "moves sends (pending_take p)" "moves sends (peer_get E p)"
  "moves sends (sealed_purge p)"
  unfolding session_get_def session_put_def session_delete_def handshake_get_def handshake_put_def
    handshake_delete_def pending_add_def pending_take_def peer_get_def sealed_purge_def
  by (intro sends_order.moves_rules moves_intros; simp add: db_sends_def)+

text \<open>A transaction that only sends leaves the managers' memory alone, committed or not.\<close>

definition quiet_send :: "world \<Rightarrow> world \<Rightarrow> bool" where
  "quiet_send w w' \<longleftrightarrow> db_sends (w_db w) (w_db w') \<and> w_states w' = w_states w \<and> w_online w' = w_online w
   \<and> w_out w' = w_out w \<and> w_call w' = w_call w \<and> w_calls w' = w_calls w \<and> w_serial w' = w_serial w
   \<and> files_mem w' = files_mem w"

lemma run_tx_sends:
  assumes "moves sends m"
  shows "quiet_send w (snd (run_tx m w))"
proof -
  obtain r w' hs where run: "m (w, []) = (r, (w', hs))" by (metis prod.collapse)
  from movesD [OF assms run] run show ?thesis
    by (cases r) (auto simp: run_tx_def run_hooks_def sends_def quiet_send_def)
qed

lemma quiet_send_trans: "quiet_send a b \<Longrightarrow> quiet_send b c \<Longrightarrow> quiet_send a c"
  by (auto simp: quiet_send_def intro: db_sends_trans)

lemma quiet_send_refl [simp]: "quiet_send w w"
  by (simp add: quiet_send_def)

lemma quiet_send_hook: "(\<And>w. quiet_send w (h w)) \<Longrightarrow> hook_ok h"
  unfolding hook_ok_def quiet_send_def by (auto intro: exI [of _ "\<lambda>x. x"])

section \<open>Basic steps\<close>

lemma tame_world [moves_intros]:
  assumes "\<And>w. w_db (f w) = w_db w" "\<And>w. w_out (f w) = w_out w" "\<And>w. w_states (f w) = w_states w"
    "\<And>w. w_online (f w) = w_online w"
  shows "moves tame (on_world f)"
  unfolding moves_def by (auto simp: tame_def assms snap_cong)

lemma tame_db [moves_intros]:
  assumes "\<And>d. d_dedup (f d) = d_dedup d" "\<And>d. d_peers (f d) = d_peers d"
    "\<And>d. d_outbox (f d) = d_outbox d" "\<And>d. d_msgs (f d) = d_msgs d"
  shows "moves tame (on_db f)"
  unfolding moves_def by (auto simp: tame_def assms peer_state_def peer_row_def intro: snap_cong)

lemma tame_commit [moves_intros]: "quiet_hook h \<Longrightarrow> moves tame (after_commit h)"
  unfolding moves_def by (auto simp: tame_def quiet_hook_ok snap_quiet)

lemma tame_rnd [moves_intros]: "moves tame (with_rnd f)"
  unfolding moves_def with_rnd_def by (auto simp: tame_def split: sum.splits intro: snap_cong)

lemma tame_q [moves_intros]: "moves tame (q_db f)" "moves tame (q_world g)" "moves tame (bump c)"
  unfolding moves_def by (auto simp: tame_def intro: snap_cong)

section \<open>The store's operations\<close>

lemmas tame_store [moves_intros] = sends_draw [THEN moves_sends_tame] sends_seal [THEN moves_sends_tame]
  sends_store [THEN moves_sends_tame] sends_tables [THEN moves_sends_tame]

section \<open>Peers\<close>

lemma peer_row_map: "(\<And>r. p_peer (f r) = p_peer r) \<Longrightarrow> find (\<lambda>r. p_peer r = q) (map f rows)
    = map_option f (find (\<lambda>r. p_peer r = q) rows)"
  by (induction rows) auto

lemma peer_row_None: "peer_row p d = None \<longleftrightarrow> p \<notin> p_peer ` set (d_peers d)"
  by (auto simp: peer_row_def find_None_iff)

lemma peer_row_peer: "peer_row p d = Some r \<Longrightarrow> p_peer r = p"
  by (auto simp: peer_row_def find_Some_iff)

lemma peer_put_rows: "\<exists>rows. peer_put p s now (w, hs) = (Inr (), (w\<lparr>w_db := (w_db w)\<lparr>d_peers := rows\<rparr>\<rparr>, hs))"
  unfolding peer_put_def tx_run by (rule exI, rule refl)

lemma peer_put_state: "peer_put p s now (w, hs) = (r, (w', hs')) \<Longrightarrow>
    peer_state q (w_db w') = (if q = p then Some s else peer_state q (w_db w))"
proof -
  assume run: "peer_put p s now (w, hs) = (r, (w', hs'))"
  show ?thesis
  proof (cases "p \<in> p_peer ` set (d_peers (w_db w))")
    case True
    let ?f = "\<lambda>r. if p_peer r = p then r\<lparr>p_state := s, p_updated := now\<rparr> else r"
    obtain r where "peer_row p (w_db w) = Some r" using peer_row_None True by (metis not_None_eq)
    moreover have "peer_row q (w_db w') = map_option ?f (peer_row q (w_db w))"
      using run True by (auto simp: peer_put_def peer_row_def intro!: peer_row_map)
    ultimately show ?thesis using peer_row_peer
      by (cases "peer_row q (w_db w)") (auto simp: peer_state_def)
  next
    case False
    then have "find (\<lambda>r. p_peer r = p) (d_peers (w_db w)) = None" by (auto simp: find_None_iff)
    with run False show ?thesis
      by (auto simp: peer_put_def peer_state_def peer_row_def find_append split: option.splits)
  qed
qed

lemma peer_delete_state: "peer_delete p (w, hs) = (r, (w', hs')) \<Longrightarrow>
    peer_state q (w_db w') = (if q = p then None else peer_state q (w_db w))"
proof -
  have "find (\<lambda>r. p_peer r = q) (filter (\<lambda>r. p_peer r \<noteq> p) rows)
      = (if q = p then None else find (\<lambda>r. p_peer r = q) rows)" for rows :: "prow list"
    by (induction rows) auto
  then show "peer_delete p (w, hs) = (r, (w', hs')) \<Longrightarrow> ?thesis"
    by (auto simp: peer_delete_def peer_state_def peer_row_def)
qed

lemma peer_alias_state:
  assumes "peer_alias_set E p a (w, hs) = (r, (w', hs'))"
  shows "peer_state q (w_db w') = peer_state q (w_db w) \<and> w_states w' = w_states w \<and> hs' = hs
    \<and> w_out w' = w_out w \<and> w_online w' = w_online w \<and> (\<exists>rows. w_db w' = (w_db w)\<lparr>d_peers := rows\<rparr>)"
proof -
  let ?m = "if a = [] then ret None else bnd (box_seal E a (aad_alias p)) (\<lambda>ct. ret (Some ct))"
  from assms have run: "bnd ?m (\<lambda>ct. bnd (q_db (peer_row p)) (\<lambda>r. if r = None then fail ErrAliasUnknown
     else on_db (\<lambda>d. d\<lparr>d_peers := map (\<lambda>r. if p_peer r = p
       then r\<lparr>p_alias := ct, p_updated := v_now E\<rparr> else r) (d_peers d)\<rparr>))) (w, hs) = (r, (w', hs'))"
    by (simp add: peer_alias_set_def)
  have m: "?m (w, hs) = (x, s) \<Longrightarrow> \<exists>rnd. s = (w\<lparr>w_rnd := rnd\<rparr>, hs)" for x s
  proof (cases "a = []")
    case False
    assume "?m (w, hs) = (x, s)"
    with False have "bnd (box_seal E a (aad_alias p)) (\<lambda>ct. ret (Some ct)) (w, hs) = (x, s)" by simp
    then show ?thesis
    proof (cases rule: bnd_cases)
      case (1 e)
      with box_seal_fails [OF 1(1)] show ?thesis by auto
    next
      case (2 c s1)
      with box_seal_run [OF 2(1)] show ?thesis by auto
    qed
  qed auto
  from run show ?thesis
  proof (cases rule: bnd_cases)
    case (1 e)
    from m [OF 1(1)] show ?thesis by (auto intro: exI [of _ "d_peers (w_db w)"])
  next
    case (2 ct s1)
    from m [OF 2(1)] obtain rnd where s1: "s1 = (w\<lparr>w_rnd := rnd\<rparr>, hs)" by blast
    show ?thesis
    proof (cases "peer_row p (w_db w)")
      case None
      with 2 s1 show ?thesis by (auto intro: exI [of _ "d_peers (w_db w)"])
    next
      case (Some row)
      let ?f = "\<lambda>r. if p_peer r = p then r\<lparr>p_alias := ct, p_updated := v_now E\<rparr> else r"
      from 2 s1 Some have w': "w' = w\<lparr>w_rnd := rnd, w_db := (w_db w)\<lparr>d_peers := map ?f (d_peers (w_db w))\<rparr>\<rparr>" "hs' = hs"
        by auto
      have "peer_row q (w_db w') = map_option ?f (peer_row q (w_db w))"
        unfolding w' peer_row_def by (simp add: peer_row_map)
      then have "peer_state q (w_db w') = peer_state q (w_db w)"
        by (cases "peer_row q (w_db w)") (simp_all add: peer_state_def)
      then show ?thesis unfolding w' by auto
    qed
  qed
qed

section \<open>A handler's part in a transaction\<close>

text \<open>
  A handler runs inside the transaction of its envelope, which may still be
  rolled back by what surrounds it: \<open>attempted\<close> with either outcome.
\<close>

definition attempted :: "unit tx \<Rightarrow> bool \<Rightarrow> world \<Rightarrow> world" where
  "attempted m commits w = (case m (w, []) of (r, (w', hs)) \<Rightarrow>
     if commits \<and> is_ok r then run_hooks hs w' else w'\<lparr>w_db := w_db w\<rparr>)"

lemma attempted_cases: "attempted m ok w = snd (run_tx m w) \<or> w_db (attempted m ok w) = w_db w"
  by (cases ok) (auto simp: attempted_def run_tx_def split: prod.split sum.split)

lemma quiet_hooks_db: "list_all quiet_hook hs \<Longrightarrow> w_db (run_hooks hs w) = w_db w"
  by (induction hs arbitrary: w) (simp_all add: run_hooks_def quiet_hook_def)

end
