(* ===== verification/OutboxOnce.thy ===== *)
theory OutboxOnce
  imports OutboxQueue Tame
begin

text \<open>
  An incoming envelope is handled at most once per deduplication window, all or
  nothing. This rests on what the engine's handlers keep inside the transaction,
  which is the locale \<open>tame_engine\<close>; theory App interprets it for the node's engine.
\<close>

section \<open>Handling at most once\<close>

definition touch :: "peer_id \<Rightarrow> msg_id \<Rightarrow> int \<Rightarrow> db \<Rightarrow> db" where
  "touch p mid now d = d\<lparr>d_dedup := map (\<lambda>r. if dedup_key r = (p, mid) then r\<lparr>dd_seen := now\<rparr> else r) (d_dedup d)\<rparr>"

lemma touch_seen [simp]: "dedup_seen q m (touch p mid now d) = dedup_seen q m d"
proof -
  let ?f = "\<lambda>r. if dedup_key r = (p, mid) then r\<lparr>dd_seen := now\<rparr> else r"
  have "dedup_key (?f r) = dedup_key r" for r by (simp add: dedup_key_def)
  then have "dedup_key ` set (map ?f rows) = dedup_key ` set rows" for rows
    by (simp only: set_map image_image)
  then show ?thesis by (simp only: dedup_seen_def touch_def db.simps) simp
qed

lemma send_ack_frame:
  "w_db (send_ack E to mid w) = w_db w
   \<and> (w_out (send_ack E to mid w) = w_out w \<or> (\<exists>f. w_out (send_ack E to mid w) = w_out w @ [OSend to f]))"
  by (auto simp: send_ack_def send_def Let_def split: sum.split)

lemma send_ack_states [simp]: "w_states (send_ack E to mid w) = w_states w"
  "w_online (send_ack E to mid w) = w_online w"
  by (simp_all add: send_ack_def send_def Let_def split: sum.split)

text \<open>A repeated id never reaches a handler: its row's time is renewed and the ack repeated.\<close>

lemma handle_repeated:
  assumes "n_handlers G (e_type e) = Some h" "dedup_seen from (e_id e) (w_db w)"
  shows "handle_reliable G E from e w = send_ack E from (e_id e)
     (bump_w ''outbox.dedupHits'' (w\<lparr>w_db := touch from (e_id e) (v_now E) (w_db w)\<rparr>))"
  using assms
  by (simp add: handle_reliable_def reliable_tx_def run_tx_def bnd_def dedup_insert_run run_hooks_def touch_def)

text \<open>Fewer than the cap of the peer's entries are stamped at or after the present.\<close>

definition roomy :: "env \<Rightarrow> peer_id \<Rightarrow> db \<Rightarrow> bool" where
  "roomy E p d \<longleftrightarrow> length (filter (\<lambda>r. v_now E \<le> dd_seen r) (window p d)) < dedupCap"

lemma filter_le: "length (filter P (filter Q xs)) \<le> length (filter P xs)"
  by (induction xs) auto

lemma prune_keeps:
  assumes run: "dedup_prune p cutoff cap (w, hs) = (x, s')" and r: "r \<in> set (window p (w_db w))"
    and new: "cutoff \<le> dd_seen r" and few: "length (filter (\<lambda>x. dd_seen r \<le> dd_seen x) (window p (w_db w))) \<le> cap"
  shows "r \<in> set (window p (w_db (fst s')))"
proof -
  let ?R = "recent p cutoff (w_db w)" let ?S = "sort_key (\<lambda>r. - dd_seen r) ?R"
  have R: "r \<in> set ?R" using r new by (simp add: recent_def)
  have "r \<in> set (take cap ?S)"
  proof (rule ccontr)
    assume no: "r \<notin> set (take cap ?S)"
    have dr: "r \<in> set (drop cap ?S)" using R no by (metis Un_iff append_take_drop_id set_append set_sort)
    then have long: "cap < length ?S" by (cases "cap < length ?S") auto
    have "\<forall>k \<in> set (take cap ?S). dd_seen r \<le> dd_seen k"
      using sorted_take_drop [of "\<lambda>r. - dd_seen r" ?S _ cap r] dr by auto
    then have t: "filter (\<lambda>x. dd_seen r \<le> dd_seen x) (take cap ?S) = take cap ?S" by (simp add: filter_id_conv)
    have d: "0 < length (filter (\<lambda>x. dd_seen r \<le> dd_seen x) (drop cap ?S))"
      using dr by (auto simp: filter_empty_conv)
    have "filter (\<lambda>x. dd_seen r \<le> dd_seen x) ?S
        = filter (\<lambda>x. dd_seen r \<le> dd_seen x) (take cap ?S) @ filter (\<lambda>x. dd_seen r \<le> dd_seen x) (drop cap ?S)"
      by (simp only: append_take_drop_id flip: filter_append)
    with t d long have "cap < length (filter (\<lambda>x. dd_seen r \<le> dd_seen x) ?S)" by simp
    also have "\<dots> = length (filter (\<lambda>x. dd_seen r \<le> dd_seen x) ?R)"
      by (simp add: filter_sort)
    also have "\<dots> \<le> length (filter (\<lambda>x. dd_seen r \<le> dd_seen x) (window p (w_db w)))"
      unfolding recent_def by (rule filter_le)
    finally show False using few by simp
  qed
  with R show ?thesis unfolding dedup_prune_run(1) [OF run] by simp
qed

lemma insert_and_prune:
  assumes fresh: "\<not> dedup_seen from mid (w_db w)" and room: "roomy E from (w_db w)"
    and ins: "w1 = w\<lparr>w_db := (w_db w)\<lparr>d_dedup := d_dedup (w_db w) @
        [\<lparr>dd_peer = from, dd_id = mid, dd_seen = v_now E\<rparr>]\<rparr>\<rparr>"
    and prune: "dedup_prune from (v_now E - dedupMaxAge) dedupCap (w1, hs) = (x, s')"
  shows "dedup_seen from mid (w_db (fst s'))"
proof -
  let ?r = "\<lparr>dd_peer = from, dd_id = mid, dd_seen = v_now E\<rparr>"
  have win: "window from (w_db w1) = window from (w_db w) @ [?r]" by (simp add: ins window_def)
  have "?r \<in> set (window from (w_db (fst s')))"
    by (rule prune_keeps [OF prune])
      (use room in \<open>simp_all add: win roomy_def dedupMaxAge_def\<close>)
  then have "dedup_key ?r \<in> dedup_key ` set (d_dedup (w_db (fst s')))" by (auto simp: window_def)
  then show ?thesis by (simp add: dedup_seen_def dedup_key_def)
qed

text \<open>The rows of the window after a new envelope: one more, perhaps pruned.\<close>

definition rows_after :: "env \<Rightarrow> peer_id \<Rightarrow> msg_id \<Rightarrow> world \<Rightarrow> drow list \<Rightarrow> bool" where
  "rows_after E p mid w rows \<longleftrightarrow> (let more = d_dedup (w_db w) @ [\<lparr>dd_peer = p, dd_id = mid, dd_seen = v_now E\<rparr>] in
     rows = more \<or> (\<exists>w1 x s'. d_dedup (w_db w1) = more
       \<and> dedup_prune p (v_now E - dedupMaxAge) dedupCap (w1, []) = (x, s') \<and> rows = d_dedup (w_db (fst s'))))"

text \<open>The part of \<open>tame\<close> that is not about the window and the network.\<close>

definition kept :: "bool \<Rightarrow> txs \<Rightarrow> txs \<Rightarrow> bool" where
  "kept ok s s' \<longleftrightarrow> w_states (fst s') = w_states (fst s) \<and> w_online (fst s') = w_online (fst s)
   \<and> (\<exists>more. d_outbox (w_db (fst s')) = d_outbox (w_db (fst s)) @ more)
   \<and> (\<exists>more. d_msgs (w_db (fst s')) = d_msgs (w_db (fst s)) @ more)
   \<and> (\<forall>p. peer_state p (w_db (fst s)) = Some PeerBlocked \<longrightarrow> peer_state p (w_db (fst s')) = Some PeerBlocked)
   \<and> (ok \<and> snap s \<longrightarrow> snap s')"

lemma tame_kept: "tame ok s s' \<Longrightarrow> kept ok s s'"
  by (simp add: tame_def kept_def)

lemma kept_trans: "kept True s t \<Longrightarrow> kept ok t u \<Longrightarrow> kept ok s u"
  by (auto simp: kept_def)

text \<open>How a committed envelope changes a node that keeps its snapshot in step with the store.\<close>

definition synced :: "world \<Rightarrow> bool" where
  "synced w \<longleftrightarrow> (\<forall>p. w_states w p = peer_state p (w_db w))"

definition grown :: "world \<Rightarrow> world \<Rightarrow> bool" where
  "grown w w' \<longleftrightarrow> (\<exists>more. d_outbox (w_db w') = d_outbox (w_db w) @ more)
   \<and> (\<exists>more. d_msgs (w_db w') = d_msgs (w_db w) @ more)
   \<and> (\<forall>p. peer_state p (w_db w) = Some PeerBlocked \<longrightarrow> peer_state p (w_db w') = Some PeerBlocked)
   \<and> w_online w' = w_online w
   \<and> (\<forall>p. w_states w' p = w_states w p \<or> w_states w' p = Some PeerContact)
   \<and> (synced w \<longrightarrow> synced w')"

lemma grown_hooks:
  assumes "kept True (w, []) (w', hs)" "list_all hook_ok hs"
  shows "grown w (run_hooks hs w')"
  using assms run_hooks_db [OF assms(2), of w'] run_hooks_online [OF assms(2), of w']
    run_hooks_joins [OF assms(2), of w']
  by (auto simp: kept_def grown_def synced_def snap_def run_hooks_def db_sends_def peer_state_def peer_row_def)

text \<open>
  What one frame from a peer can do to the rows of others: only the peer's own
  acknowledgements take rows out of the queue and mark messages, a blocked peer
  stays blocked, and the snapshot stays in step.
\<close>

definition isolated :: "peer_id \<Rightarrow> world \<Rightarrow> world \<Rightarrow> bool" where
  "isolated from w w' \<longleftrightarrow>
     (\<forall>r \<in> set (d_outbox (w_db w)). o_peer r \<noteq> from \<longrightarrow> r \<in> set (d_outbox (w_db w')))
   \<and> (\<exists>f more. d_msgs (w_db w') = map f (d_msgs (w_db w)) @ more
        \<and> (\<forall>m. f m = m \<or> sm_peer m = from \<and> sm_out m \<and> f m = m\<lparr>sm_status := StatusDelivered\<rparr>))
   \<and> (\<forall>p. peer_state p (w_db w) = Some PeerBlocked \<longrightarrow> peer_state p (w_db w') = Some PeerBlocked)
   \<and> (synced w \<longrightarrow> synced w')"

lemma grown_isolated: "grown w w' \<Longrightarrow> isolated from w w'"
  unfolding grown_def isolated_def by (auto intro!: exI [of _ "\<lambda>m. m"])

lemma isolated_same: "w_db w' = w_db w \<Longrightarrow> w_states w' = w_states w \<Longrightarrow> isolated from w w'"
  by (auto simp: isolated_def synced_def intro!: exI [of _ "\<lambda>m. m"])

lemma isolated_settled:
  assumes "w_db w' = settled_db from mid (w_db w)" "w_states w' = w_states w"
  shows "isolated from w w'"
proof -
  have "map (\<lambda>r. if msg_key r = (from, True, mid) then r\<lparr>sm_status := StatusDelivered\<rparr> else r) (d_msgs (w_db w))
      = map (\<lambda>r. if msg_key r = (from, True, mid) then r\<lparr>sm_status := StatusDelivered\<rparr> else r) (d_msgs (w_db w)) @ []"
    by simp
  with assms show ?thesis
    unfolding isolated_def synced_def settled_db_def
    by (auto simp: outbox_key_def msg_key_def peer_state_def peer_row_def split: if_splits
        intro!: exI [of _ "\<lambda>r. if msg_key r = (from, True, mid) then r\<lparr>sm_status := StatusDelivered\<rparr> else r"])
qed

definition remembered :: "peer_id \<Rightarrow> msg_id \<Rightarrow> int \<Rightarrow> nat \<Rightarrow> world \<Rightarrow> bool" where
  "remembered p mid t k w \<longleftrightarrow> (\<exists>r \<in> set (window p (w_db w)). dd_id r = mid \<and> t \<le> dd_seen r)
     \<and> length (window p (w_db w)) \<le> k"

lemma remembered_mono: "remembered p mid t k w \<Longrightarrow> remembered p mid t (Suc k) w"
  by (auto simp: remembered_def)

lemma remembered_seen: "remembered p mid t k w \<Longrightarrow> dedup_seen p mid (w_db w)"
  by (force simp: remembered_def dedup_seen_def dedup_key_def window_def)

definition touched :: "peer_id \<Rightarrow> msg_id \<Rightarrow> int \<Rightarrow> drow \<Rightarrow> drow" where
  "touched p mid now r = (if dedup_key r = (p, mid) then r\<lparr>dd_seen := now\<rparr> else r)"

lemma touched_simps [simp]: "dd_peer (touched p mid now r) = dd_peer r" "dd_id (touched p mid now r) = dd_id r"
  "dd_seen (touched p mid now r) = (if dedup_key r = (p, mid) then now else dd_seen r)"
  by (simp_all add: touched_def)

lemma window_touch [simp]: "window p (touch q m now d) = map (touched q m now) (window p d)"
  by (induction "d_dedup d" arbitrary: d) (auto simp: window_def touch_def touched_def [symmetric] filter_map comp_def)

lemma remembered_touch:
  assumes "remembered p mid t k w" "t \<le> now"
  shows "remembered p mid t k (w\<lparr>w_db := touch q m now (w_db w)\<rparr>)"
  using assms by (auto simp: remembered_def)

lemma rows_keep:
  assumes rows: "rows_after E q m w rows" and w': "d_dedup (w_db w') = rows"
    and win: "win = filter (\<lambda>r. dd_peer r = p) (d_dedup (w_db w) @ [\<lparr>dd_peer = q, dd_id = m, dd_seen = v_now E\<rparr>])"
    and r: "r \<in> set win" "v_now E - dedupMaxAge \<le> dd_seen r" and len: "length win \<le> dedupCap"
  shows "r \<in> set (window p (w_db w')) \<and> length (window p (w_db w')) \<le> length win"
proof -
  let ?more = "d_dedup (w_db w) @ [\<lparr>dd_peer = q, dd_id = m, dd_seen = v_now E\<rparr>]"
  from rows consider "rows = ?more"
    | w1 x s' where "d_dedup (w_db w1) = ?more"
      "dedup_prune q (v_now E - dedupMaxAge) dedupCap (w1, []) = (x, s')" "rows = d_dedup (w_db (fst s'))"
    unfolding rows_after_def Let_def by blast
  then show ?thesis
  proof cases
    case 1
    with r w' win show ?thesis by (simp add: window_def)
  next
    case 2
    have w1: "window p (w_db w1) = win" by (simp only: window_def 2(1) win)
    have "r \<in> set (window p (w_db (fst s'))) \<and> length (window p (w_db (fst s'))) \<le> length win"
    proof (cases "p = q")
      case True
      note prune = 2(2) [folded True]
      have "length (filter (\<lambda>x. dd_seen r \<le> dd_seen x) win) \<le> dedupCap"
        using len by (meson length_filter_le order_trans)
      with r w1 have "r \<in> set (window p (w_db (fst s')))" by (intro prune_keeps [OF prune]) simp_all
      moreover have "length (window p (w_db (fst s'))) \<le> length win"
        unfolding dedup_prune_run(1) [OF prune] recent_def w1 by (meson length_filter_le order_trans)
      ultimately show ?thesis by simp
    next
      case False
      with dedup_prune_run(2) [OF 2(2) False] w1 r show ?thesis by simp
    qed
    then show ?thesis using w' 2(3) by (simp add: window_def)
  qed
qed

lemma remembered_rows:
  assumes rem: "remembered p mid t k w" and clock: "t \<le> v_now E" "v_now E \<le> t + dedupMaxAge" and k: "k < dedupCap"
    and rows: "rows_after E q m w rows" and w': "d_dedup (w_db w') = rows"
  shows "remembered p mid t (Suc k) w'"
proof -
  define win where "win = filter (\<lambda>r. dd_peer r = p) (d_dedup (w_db w) @ [\<lparr>dd_peer = q, dd_id = m, dd_seen = v_now E\<rparr>])"
  obtain r where r: "r \<in> set (window p (w_db w))" "dd_id r = mid" "t \<le> dd_seen r" and len: "length (window p (w_db w)) \<le> k"
    using rem by (auto simp: remembered_def)
  have "r \<in> set win" "length win \<le> Suc k" using r len by (auto simp: window_def win_def)
  with rows_keep [OF rows w' win_def, of r] clock r k show ?thesis unfolding remembered_def by fastforce
qed

lemma marked_rows:
  assumes rows: "rows_after E q m w rows" and w': "d_dedup (w_db w') = rows"
    and len: "length (window q (w_db w)) \<le> k" "k < dedupCap"
  shows "remembered q m (v_now E) (Suc k) w'"
proof -
  define win where "win = filter (\<lambda>r. dd_peer r = q) (d_dedup (w_db w) @ [\<lparr>dd_peer = q, dd_id = m, dd_seen = v_now E\<rparr>])"
  let ?n = "\<lparr>dd_peer = q, dd_id = m, dd_seen = v_now E\<rparr>"
  have "?n \<in> set win" "length win \<le> Suc k" using len by (auto simp: window_def win_def)
  with rows_keep [OF rows w' win_def, of ?n] len
  have "?n \<in> set (window q (w_db w'))" "length (window q (w_db w')) \<le> Suc k" by (simp_all add: dedupMaxAge_def)
  then show ?thesis unfolding remembered_def by force
qed

locale tame_engine =
  fixes G :: engine
  assumes handler_tame: "n_handlers G t = Some h \<Longrightarrow> moves tame (h E p e)"
    and pre_tame: "n_pre G = Some f \<Longrightarrow> moves tame (f E p t)"
    and fast_db: "n_fast G t = Some g \<Longrightarrow> w_db (g E p e w) = w_db w \<and> w_states (g E p e w) = w_states w"
begin

lemma rest_tame:
  assumes "n_handlers G (e_type e) = Some h"
  shows "moves tame (seq (case n_pre G of None \<Rightarrow> ret () | Some pre \<Rightarrow> pre E from (e_type e))
    (seq (h E from e) (ret True)))"
  using handler_tame [OF assms] pre_tame
  by (cases "n_pre G") (simp_all add: tame_order.moves_rules)

lemma reliable_tx_fresh:
  assumes h: "n_handlers G (e_type e) = Some h" and fresh: "\<not> dedup_seen from (e_id e) (w_db w)"
    and run: "reliable_tx G h E from e (w, []) = (r, (w', hs))"
  shows "w_out w' = w_out w" and "list_all hook_ok hs"
    and "roomy E from (w_db w) \<Longrightarrow> dedup_seen from (e_id e) (w_db w')" and "r \<noteq> Inr False"
    and "kept (is_ok r) (w, []) (w', hs)"
    and "rows_after E from (e_id e) w (d_dedup (w_db w'))"
proof -
  define w1 where "w1 = w\<lparr>w_db := (w_db w)\<lparr>d_dedup := d_dedup (w_db w) @
      [\<lparr>dd_peer = from, dd_id = e_id e, dd_seen = v_now E\<rparr>]\<rparr>\<rparr>"
  define w2 where "w2 = bump_w ''outbox.dedupInserts'' w1"
  define rest where "rest = seq (case n_pre G of None \<Rightarrow> ret () | Some pre \<Rightarrow> pre E from (e_type e))
    (seq (h E from e) (ret True))"
  define pr where "pr = whenM (w_ctr w2 ''outbox.dedupInserts'' mod pruneEvery = 0)
    (dedup_prune from (v_now E - dedupMaxAge) dedupCap)"
  have ins: "dedup_insert from (e_id e) (v_now E) (w, []) = (Inr True, (w1, []))"
    using fresh by (simp add: dedup_insert_run w1_def)
  have split: "reliable_tx G h E from e (w, []) = seq pr rest (w2, [])"
    by (simp add: reliable_tx_def bnd_def ins seq_def w2_def pr_def rest_def)
  obtain w3 where w3: "pr (w2, []) = (Inr (), (w3, []))" "w_out w3 = w_out w" "kept True (w, []) (w3, [])"
    by (cases "w_ctr w2 ''outbox.dedupInserts'' mod pruneEvery = 0")
      (simp_all add: pr_def whenM_def dedup_prune_def Let_def w2_def w1_def kept_def peer_state_def peer_row_def snap_def
        run_hooks_def)
  have after: "rows_after E from (e_id e) w (d_dedup (w_db w3))"
  proof (cases "w_ctr w2 ''outbox.dedupInserts'' mod pruneEvery = 0")
    case True
    with w3 have "dedup_prune from (v_now E - dedupMaxAge) dedupCap (w2, []) = (Inr (), (w3, []))"
      by (simp add: pr_def whenM_def)
    moreover have "d_dedup (w_db w2) = d_dedup (w_db w) @ [\<lparr>dd_peer = from, dd_id = e_id e, dd_seen = v_now E\<rparr>]"
      by (simp add: w2_def w1_def)
    ultimately show ?thesis unfolding rows_after_def Let_def by (metis fst_conv)
  next
    case False
    with w3 have "w3 = w2" by (simp add: pr_def whenM_def)
    then show ?thesis by (simp add: rows_after_def w2_def w1_def)
  qed
  have seen: "dedup_seen from (e_id e) (w_db w3)" if "roomy E from (w_db w)"
  proof (cases "w_ctr w2 ''outbox.dedupInserts'' mod pruneEvery = 0")
    case True
    with w3 have "dedup_prune from (v_now E - dedupMaxAge) dedupCap (w2, []) = (Inr (), (w3, []))"
      by (simp add: pr_def whenM_def)
    moreover have "w_db w2 = w_db w1" by (simp add: w2_def)
    ultimately obtain w4 where "dedup_prune from (v_now E - dedupMaxAge) dedupCap (w1, []) = (Inr (), (w4, []))"
      "w_db w4 = w_db w3"
      by (auto simp: dedup_prune_def Let_def)
    with insert_and_prune [OF fresh that w1_def this(1)] show ?thesis by simp
  next
    case False
    with w3 have "w3 = w2" by (simp add: pr_def whenM_def)
    then show ?thesis by (simp add: w2_def w1_def dedup_seen_def dedup_key_def)
  qed
  have fin: "rest (w3, []) = (r, (w', hs))" using run split w3(1) by (simp add: seq_def bnd_def)
  from movesD [OF rest_tame [OF h] fin [unfolded rest_def]] have t: "tame (is_ok r) (w3, []) (w', hs)" .
  with w3(2) show "w_out w' = w_out w" "list_all hook_ok hs"
    by (auto simp: tame_def)
  show "kept (is_ok r) (w, []) (w', hs)" by (rule kept_trans [OF w3(3) tame_kept [OF t]])
  show "rows_after E from (e_id e) w (d_dedup (w_db w'))" using after t by (simp add: tame_def)
  show "roomy E from (w_db w) \<Longrightarrow> dedup_seen from (e_id e) (w_db w')"
    using seen t by (simp add: tame_def dedup_seen_def)
  show "r \<noteq> Inr False" using fin by (auto simp: rest_def seq_def bnd_def split: sum.splits)
qed

text \<open>All or nothing: either the handler's effect and the mark are there, or the node is as it was.\<close>

lemma handle_fresh:
  assumes h: "n_handlers G (e_type e) = Some h" and fresh: "\<not> dedup_seen from (e_id e) (w_db w)"
  shows "(\<exists>err w'. run_tx (reliable_tx G h E from e) w = (Inl err, w')
      \<and> w_db (handle_reliable G E from e w) = w_db w \<and> w_out (handle_reliable G E from e w) = w_out w
      \<and> w_states (handle_reliable G E from e w) = w_states w
      \<and> w_online (handle_reliable G E from e w) = w_online w)
    \<or> (\<exists>w'. run_tx (reliable_tx G h E from e) w = (Inr True, w')
      \<and> handle_reliable G E from e w = send_ack E from (e_id e) w'
      \<and> (roomy E from (w_db w) \<longrightarrow> dedup_seen from (e_id e) (w_db w')) \<and> grown w w')"
proof -
  obtain r w' hs where run: "reliable_tx G h E from e (w, []) = (r, (w', hs))" by (metis prod.collapse)
  note R = reliable_tx_fresh [OF h fresh run]
  show ?thesis
  proof (cases r)
    case (Inl err)
    with run R(1,5) h show ?thesis
      by (simp add: handle_reliable_def run_tx_def kept_def)
  next
    case (Inr b)
    with R(4) have b: "b = True" by simp
    with R(2,3) run_hooks_db [OF R(2), of w'] have "roomy E from (w_db w) \<longrightarrow> dedup_seen from (e_id e) (w_db (run_hooks hs w'))"
      by (simp add: dedup_seen_def db_sends_def)
    moreover have "grown w (run_hooks hs w')" by (rule grown_hooks [OF _ R(2)]) (use R(5) Inr in simp)
    ultimately show ?thesis using run Inr b h
      by (simp add: handle_reliable_def run_tx_def)
  qed
qed

text \<open>
  A peer's id stays in the window while the clock stays within the age limit and
  the window below its cap, whoever sends what meanwhile.
\<close>

lemma reliable_remembers:
  assumes rem: "remembered p mid t k w" and clock: "t \<le> v_now E" "v_now E \<le> t + dedupMaxAge" and k: "k < dedupCap"
  shows "remembered p mid t (Suc k) (handle_reliable G E from e w)"
proof (cases "n_handlers G (e_type e)")
  case None
  then show ?thesis using remembered_mono [OF rem] by (simp add: handle_reliable_def remembered_def window_def)
next
  case (Some h)
  show ?thesis
  proof (cases "dedup_seen from (e_id e) (w_db w)")
    case True
    have "remembered p mid t (Suc k) (w\<lparr>w_db := touch from (e_id e) (v_now E) (w_db w)\<rparr>)"
      using remembered_mono [OF remembered_touch [OF rem clock(1)]] .
    then show ?thesis
      using handle_repeated [where G = G, OF Some True] send_ack_frame by (simp add: remembered_def)
  next
    case False
    obtain r w' hs where run: "reliable_tx G h E from e (w, []) = (r, (w', hs))" by (metis prod.collapse)
    note R = reliable_tx_fresh [OF Some False run]
    show ?thesis
    proof (cases r)
      case (Inl err)
      with run Some remembered_mono [OF rem] show ?thesis
        by (simp add: handle_reliable_def run_tx_def remembered_def)
    next
      case (Inr b)
      have "d_dedup (w_db (run_hooks hs w')) = d_dedup (w_db w')"
        using run_hooks_db [OF R(2), of w'] by (simp add: db_sends_def)
      moreover have "d_dedup (w_db (handle_reliable G E from e w)) = d_dedup (w_db (run_hooks hs w'))"
        using run Some Inr R(4) send_ack_frame by (cases b) (simp_all add: handle_reliable_def run_tx_def)
      moreover have "remembered p mid t (Suc k) w'" by (rule remembered_rows [OF rem clock k R(6) refl])
      ultimately show ?thesis by (simp add: remembered_def window_def)
    qed
  qed
qed

text \<open>An envelope whose transaction commits is in the window from then on.\<close>

lemma reliable_marks:
  assumes h: "n_handlers G (e_type e) = Some h" and ok: "is_ok (fst (run_tx (reliable_tx G h E from e) w))"
    and k: "length (window from (w_db w)) \<le> k" "k < dedupCap"
  shows "remembered from (e_id e) (v_now E) (Suc k) (handle_reliable G E from e w)"
proof (cases "dedup_seen from (e_id e) (w_db w)")
  case True
  obtain r where r: "r \<in> set (d_dedup (w_db w))" "dedup_key r = (from, e_id e)"
    using True by (force simp: dedup_seen_def)
  have db: "w_db (handle_reliable G E from e w) = touch from (e_id e) (v_now E) (w_db w)"
    using handle_repeated [where G = G, OF h True] send_ack_frame by simp
  have "touched from (e_id e) (v_now E) r \<in> set (window from (touch from (e_id e) (v_now E) (w_db w)))"
    using r by (simp add: dedup_key_def) (auto simp: window_def)
  moreover have "dd_id (touched from (e_id e) (v_now E) r) = e_id e" "dd_seen (touched from (e_id e) (v_now E) r) = v_now E"
    using r(2) by (simp_all add: dedup_key_def)
  moreover have "length (window from (touch from (e_id e) (v_now E) (w_db w))) \<le> Suc k" using k by simp
  ultimately show ?thesis unfolding remembered_def db by (metis order_refl)
next
  case False
  obtain r w' hs where run: "reliable_tx G h E from e (w, []) = (r, (w', hs))" by (metis prod.collapse)
  note R = reliable_tx_fresh [OF h False run]
  from ok run obtain b where r: "r = Inr b" by (cases r) (simp_all add: run_tx_def)
  have "d_dedup (w_db (run_hooks hs w')) = d_dedup (w_db w')"
    using run_hooks_db [OF R(2), of w'] by (simp add: db_sends_def)
  moreover have "d_dedup (w_db (handle_reliable G E from e w)) = d_dedup (w_db (run_hooks hs w'))"
    using run h r R(4) send_ack_frame by (cases b) (simp_all add: handle_reliable_def run_tx_def)
  moreover have "remembered from (e_id e) (v_now E) (Suc k) w'" by (rule marked_rows [OF R(6) refl k])
  ultimately show ?thesis by (simp add: remembered_def window_def)
qed

lemma handled_once:
  assumes h: "n_handlers G (e_type e) = Some h" and h': "n_handlers G (e_type e') = Some h'"
    and same: "e_id e' = e_id e" and ok: "is_ok (fst (run_tx (reliable_tx G h E from e) w))"
    and room: "roomy E from (w_db w)"
  shows "\<exists>w2. handle_reliable G E' from e' (handle_reliable G E from e w) = send_ack E' from (e_id e) w2
    \<and> w_db w2 = touch from (e_id e) (v_now E') (w_db (handle_reliable G E from e w))
    \<and> w_out w2 = w_out (handle_reliable G E from e w)"
proof -
  have "dedup_seen from (e_id e') (w_db (handle_reliable G E from e w))"
  proof (cases "dedup_seen from (e_id e) (w_db w)")
    case True
    then show ?thesis
      using True handle_repeated [OF h True] send_ack_frame same by simp
  next
    case False
    from handle_fresh [OF h False, of E] ok room send_ack_frame same show ?thesis
      by (auto simp: dedup_seen_def is_ok_iff)
  qed
  from handle_repeated [where G = G, OF h' this, of E'] same show ?thesis by auto
qed

lemma reliable_grown:
  assumes h: "n_handlers G (e_type e) = Some h"
  shows "grown w (handle_reliable G E from e w)"
proof (cases "dedup_seen from (e_id e) (w_db w)")
  case True
  show ?thesis
    using send_ack_frame send_ack_states handle_repeated [where G = G, OF h True]
    by (simp add: grown_def synced_def touch_def peer_state_def peer_row_def)
next
  case False
  from handle_fresh [OF h False, of E] send_ack_frame send_ack_states show ?thesis
    by (auto simp: grown_def synced_def)
qed

lemma inbound_isolated:
  "isolated from w (handle_inbound G E from frame w)"
proof (cases "decode_env (v_penv E) frame")
  case (Inl err)
  then show ?thesis by (simp add: handle_inbound_def isolated_same)
next
  case (Inr e)
  have "isolated from w (handle_ack E from e w)"
  proof -
    have "isolated from w (emit x (bump_w c (w\<lparr>w_db := settled_db from mid (w_db w)\<rparr>)))" for x c mid
      by (rule isolated_settled) simp_all
    moreover have "isolated from w (bump_w c w)" for c by (rule isolated_same) simp_all
    ultimately show ?thesis by (simp add: handle_ack_def run_tx_def ack_tx_run run_hooks_def)
  qed
  moreover have "isolated from w (g E from e w)" if g: "n_fast G (e_type e) = Some g" for g
    using fast_db [OF g] by (simp add: isolated_same)
  moreover have "isolated from w (handle_reliable G E from e w)"
    using reliable_grown [of e _ w E "from"]
    by (cases "n_handlers G (e_type e)") (auto simp: handle_reliable_def isolated_same intro: grown_isolated)
  ultimately show ?thesis
    by (simp add: Inr handle_inbound_def isolated_same split: option.split)
qed

end

end
