(* ===== verification/Contact.thy ===== *)
theory Contact
  imports OutboxOnce Invite
begin

text \<open>
  Package contact: the circle of a node. contact/manager.go and
  contact/presence.go. The store is authoritative; \<open>w_states\<close> is the snapshot for
  quick checks, updated by hooks after the commit. Go iterates over maps in an
  unspecified order: where an operation does, the order is its argument. The
  monotonic clock of the presence marks is the clock of \<open>env\<close>.
\<close>

definition probeInterval :: int where "probeInterval = 60000"
definition onlineTTL :: int where "onlineTTL = 90000"

text \<open>A Go conversion of bytes to string keeps the bytes.\<close>

definition bytes_str :: "bytes \<Rightarrow> string" where
  "bytes_str b = map (\<lambda>x. char_of (unat x)) b"

fun invite_to_err :: "invite_err \<Rightarrow> err" where
  "invite_to_err IErrBadInvite = ErrBadInvite"
| "invite_to_err IErrBadChecksum = ErrBadChecksum"
| "invite_to_err IErrBadInviteLen = ErrBadInviteLen"

section \<open>The snapshot\<close>

definition state :: "world \<Rightarrow> peer_id \<Rightarrow> pstate" where
  "state w p = (case w_states w p of None \<Rightarrow> PeerNone | Some s \<Rightarrow> s)"

definition set_state :: "peer_id \<Rightarrow> pstate \<Rightarrow> world \<Rightarrow> world" where
  "set_state p s w = w\<lparr>w_states := (w_states w)(p := (if s = PeerNone then None else Some s))\<rparr>"

definition load_contacts :: "env \<Rightarrow> world \<Rightarrow> err + world" where
  "load_contacts E w = bindR (peer_list E (w_db w)) (\<lambda>infos.
     Inr (w\<lparr>w_states := fold (\<lambda>info m. m(p_peer info \<mapsto> p_state info)) infos Map.empty\<rparr>))"

definition contact_ids :: "peer_id list \<Rightarrow> world \<Rightarrow> peer_id list" where
  "contact_ids order w = filter (\<lambda>p. w_states w p = Some PeerContact) order"

definition gate :: "world \<Rightarrow> peer_id \<Rightarrow> etype \<Rightarrow> bool" where
  "gate w from t \<longleftrightarrow> state w from \<noteq> PeerBlocked"

section \<open>Presence\<close>

definition online :: "env \<Rightarrow> world \<Rightarrow> peer_id \<Rightarrow> bool" where
  "online E w p \<longleftrightarrow> w_online w p \<and> (case w_seen w p of None \<Rightarrow> False | Some t \<Rightarrow> v_now E - t \<le> onlineTTL)"

definition forget :: "peer_id \<Rightarrow> world \<Rightarrow> world" where
  "forget p w = w\<lparr>w_seen := (w_seen w)(p := None), w_online := (w_online w)(p := False)\<rparr>"

definition mark_activity :: "env \<Rightarrow> peer_id \<Rightarrow> world \<Rightarrow> world" where
  "mark_activity E p w =
     (if state w p \<noteq> PeerContact then w
      else let w1 = w\<lparr>w_seen := (w_seen w)(p \<mapsto> v_now E), w_online := (w_online w)(p := True)\<rparr>
        in if \<not> w_online w p then emit (OPresence p True) (flush p w1) else w1)"

definition send_signal :: "env \<Rightarrow> peer_id \<Rightarrow> etype \<Rightarrow> world \<Rightarrow> world" where
  "send_signal E to t w =
     (case new_msg_id (w_rnd w) of Inl e \<Rightarrow> w
      | Inr (mid, r) \<Rightarrow>
        (let w1 = w\<lparr>w_rnd := r\<rparr> in
         case encode_env (v_penv E) \<lparr>e_id = mid, e_type = t, e_seq = 0, e_lamport = 0, e_payload = []\<rparr> of
           Inl e \<Rightarrow> w1 | Inr frame \<Rightarrow> snd (send E to frame w1)))"

definition handle_probe :: fast_handler where
  "handle_probe E from e w =
     (if state w from \<noteq> PeerContact then w else mark_activity E from (send_signal E from TypePong w))"

definition handle_pong :: fast_handler where
  "handle_pong E from e w = mark_activity E from w"

fun probe_all :: "env \<Rightarrow> peer_id list \<Rightarrow> world \<Rightarrow> world" where
  "probe_all E [] w = w"
| "probe_all E (p # ps) w =
     (let w1 = send_signal E p TypeProbe w
      in probe_all E ps (if online E w1 p then w1 else flush p w1))"

definition expired :: "env \<Rightarrow> world \<Rightarrow> peer_id \<Rightarrow> bool" where
  "expired E w p \<longleftrightarrow> w_online w p \<and> (case w_seen w p of None \<Rightarrow> False | Some t \<Rightarrow> onlineTTL < v_now E - t)"

definition sweep :: "env \<Rightarrow> peer_id list \<Rightarrow> world \<Rightarrow> world" where
  "sweep E order w =
     (let gone = filter (expired E w) order
      in fold (\<lambda>p. emit (OPresence p False)) gone (w\<lparr>w_online := (\<lambda>p. w_online w p \<and> p \<notin> set gone)\<rparr>))"

text \<open>One tick of Presence.run.\<close>

definition presence_tick :: "env \<Rightarrow> peer_id list \<Rightarrow> world \<Rightarrow> world" where
  "presence_tick E order w = sweep E order (probe_all E (contact_ids order w) w)"

section \<open>The circle\<close>

definition my_invite :: "env \<Rightarrow> string \<Rightarrow> string" where
  "my_invite E alias = encode_invite (v_self E) alias"

definition add_tx :: "env \<Rightarrow> peer_id \<Rightarrow> string \<Rightarrow> unit tx" where
  "add_tx E p alias =
     seq (peer_put p PeerContact (v_now E))
    (seq (whenM (alias \<noteq> []) (peer_alias_set E p (str_bytes alias)))
       (after_commit (\<lambda>w. emit (OAdded p) (set_state p PeerContact w))))"

definition add_by_invite :: "env \<Rightarrow> string \<Rightarrow> world \<Rightarrow> (err + peer_id) \<times> world" where
  "add_by_invite E invite w =
     (case parse_invite invite of Inl e \<Rightarrow> (Inl (invite_to_err e), w)
      | Inr (p, alias) \<Rightarrow>
        if p = v_self E then (Inl ErrSelf, w)
        else case state w p of
          PeerBlocked \<Rightarrow> (Inl ErrBlocked, w)
        | PeerContact \<Rightarrow> (Inr p, w)
        | PeerNone \<Rightarrow> (case run_tx (add_tx E p alias) w of
            (Inl e, w') \<Rightarrow> (Inl e, w') | (Inr u, w') \<Rightarrow> (Inr p, w')))"

definition ensure_known :: "env \<Rightarrow> peer_id \<Rightarrow> string \<Rightarrow> unit tx" where
  "ensure_known E from suggested =
     (if from = v_self E then ret ()
      else bnd (peer_get E from) (\<lambda>info.
        if (case info of None \<Rightarrow> False | Some r \<Rightarrow> p_state r \<noteq> PeerNone) then ret ()
        else seq (peer_put from PeerContact (v_now E))
            (seq (whenM (suggested \<noteq> []) (peer_alias_set E from (str_bytes suggested)))
            (after_commit (\<lambda>w. emit (OAdded from) (flush from (set_state from PeerContact w)))))))"

definition block_tx :: "env \<Rightarrow> peer_id \<Rightarrow> unit tx" where
  "block_tx E p =
     seq (peer_put p PeerBlocked (v_now E))
    (seq (outbox_purge p)
    (seq (sealed_purge p)
    (seq (pending_take p)
    (seq (session_delete p)
    (seq (handshake_delete p)
       (after_commit (\<lambda>w. forget p (set_state p PeerBlocked w))))))))"

definition block :: "env \<Rightarrow> peer_id \<Rightarrow> world \<Rightarrow> (err + unit) \<times> world" where
  "block E p w = (if p = v_self E then (Inl ErrSelf, w) else run_tx (block_tx E p) w)"

definition unblock :: "env \<Rightarrow> peer_id \<Rightarrow> world \<Rightarrow> (err + unit) \<times> world" where
  "unblock E p w =
     (if state w p \<noteq> PeerBlocked then (Inl ErrUnknownPeer, w)
      else run_tx (seq (peer_delete p) (after_commit (set_state p PeerNone))) w)"

definition set_alias :: "env \<Rightarrow> peer_id \<Rightarrow> string \<Rightarrow> world \<Rightarrow> (err + unit) \<times> world" where
  "set_alias E p alias w = run_tx (peer_alias_set E p (str_bytes (clamp_alias alias))) w"

section \<open>Envelopes of old builds\<close>

definition enqueue_signal :: "env \<Rightarrow> peer_id \<Rightarrow> etype \<Rightarrow> bytes \<Rightarrow> unit tx" where
  "enqueue_signal E to t payload = bnd new_mid (\<lambda>mid.
     enqueue_tx E to \<lparr>e_id = mid, e_type = t, e_seq = 0, e_lamport = 0, e_payload = payload\<rparr>)"

definition on_contact_request :: handler where
  "on_contact_request E from e =
     seq (ensure_known E from (clamp_alias (bytes_str (e_payload e))))
    (seq (enqueue_signal E from TypeContactAccept [])
       (after_commit (flush from)))"

definition on_contact_accept :: handler where
  "on_contact_accept E from e = ensure_known E from ''''"

section \<open>Handlers are tame\<close>

lemma quiet_flush [intro]: "quiet_hook (flush p)"
  by (simp add: quiet_hook_def flush_def)

lemma sends_enqueue [moves_intros]:
  "moves sends new_mid" "moves sends (enqueue_tx E to e)" "moves sends (enqueue_signal E to t b)"
  unfolding new_mid_def enqueue_tx_def enqueue_signal_def
  by (intro sends_order.moves_rules moves_intros)+

lemmas tame_enqueue [moves_intros] = sends_enqueue [THEN moves_sends_tame]

lemma flush_simps [simp]: "w_db (flush p w) = w_db w" "w_states (flush p w) = w_states w"
  "w_online (flush p w) = w_online w" "w_out (flush p w) = w_out w" "w_call (flush p w) = w_call w" "w_calls (flush p w) = w_calls w"
  "w_serial (flush p w) = w_serial w"
  by (simp_all add: flush_def)

lemma set_state_simps [simp]: "w_db (set_state p s w) = w_db w" "w_out (set_state p s w) = w_out w"
  "w_online (set_state p s w) = w_online w"
  "w_states (set_state p s w) = (w_states w)(p := (if s = PeerNone then None else Some s))"
  by (simp_all add: set_state_def)

text \<open>Joining the circle: the row, perhaps the alias, then the hook that follows the row.\<close>

lemma join_run:
  assumes run: "seq (peer_put p PeerContact now) (seq (whenM b (peer_alias_set E p a)) (after_commit h)) (w, hs) = (r, (w', hs'))"
  shows "(\<forall>q. peer_state q (w_db w') = (if q = p then Some PeerContact else peer_state q (w_db w)))
    \<and> w_states w' = w_states w \<and> w_out w' = w_out w \<and> w_online w' = w_online w \<and> (\<exists>rows. w_db w' = (w_db w)\<lparr>d_peers := rows\<rparr>)
    \<and> ((\<exists>e. r = Inl e) \<and> hs' = hs \<or> r = Inr () \<and> hs' = hs @ [h])"
proof -
  obtain rows1 where "peer_put p PeerContact now (w, hs) = (Inr (), (w\<lparr>w_db := (w_db w)\<lparr>d_peers := rows1\<rparr>\<rparr>, hs))"
    using peer_put_rows by blast
  then obtain w1 where put: "peer_put p PeerContact now (w, hs) = (Inr (), (w1, hs))" and
    w1: "w_states w1 = w_states w \<and> w_online w1 = w_online w" "w_out w1 = w_out w" "\<exists>rows. w_db w1 = (w_db w)\<lparr>d_peers := rows\<rparr>"
    by (rule that) auto
  note S = peer_put_state [OF put]
  show ?thesis
  proof (cases b)
    case False
    with run put have "r = Inr ()" "w' = w1" "hs' = hs @ [h]" by (simp_all add: seq_def bnd_def whenM_def)
    with S w1 show ?thesis by simp
  next
    case True
    obtain r2 w2 hs2 where al: "peer_alias_set E p a (w1, hs) = (r2, (w2, hs2))" by (metis prod.collapse)
    note A = peer_alias_state [OF al]
    have rows: "\<exists>rows. w_db w2 = (w_db w)\<lparr>d_peers := rows\<rparr>" using A w1(3) by auto
    have "seq (peer_put p PeerContact now) (seq (whenM b (peer_alias_set E p a)) (after_commit h)) (w, hs)
        = (case r2 of Inl e \<Rightarrow> (Inl e, (w2, hs2)) | Inr u \<Rightarrow> (Inr (), (w2, hs2 @ [h])))"
      by (cases r2) (simp_all add: seq_def bnd_def whenM_def True put al)
    with run have fin: "(r, (w', hs')) = (case r2 of Inl e \<Rightarrow> (Inl e, (w2, hs2)) | Inr u \<Rightarrow> (Inr (), (w2, hs2 @ [h])))"
      by simp
    have st: "peer_state q (w_db w2) = (if q = p then Some PeerContact else peer_state q (w_db w))" for q
      using A [of q] S [of q] by simp
    have other: "w_states w2 = w_states w" "w_online w2 = w_online w" "w_out w2 = w_out w" "hs2 = hs" using A w1(1,2) by simp_all
    show ?thesis
    proof (cases r2)
      case (Inl e)
      with fin have "r = Inl e" "w' = w2" "hs' = hs2" by simp_all
      with st other rows show ?thesis by simp
    next
      case (Inr u)
      with fin have "r = Inr ()" "w' = w2" "hs' = hs2 @ [h]" by simp_all
      with st other rows show ?thesis by simp
    qed
  qed
qed

lemma set_state_hook_ok: "quiet_hook g \<Longrightarrow> hook_ok (\<lambda>w. g (set_state p PeerContact w))"
  unfolding hook_ok_def quiet_hook_def
  by (auto intro!: exI [of _ "\<lambda>m. m(p := Some PeerContact)"])

lemma snap_join:
  assumes "snap (w, hs)" "w_states w' = w_states w"
    and "\<forall>q. peer_state q (w_db w') = (if q = p then Some PeerContact else peer_state q (w_db w))"
    and "quiet_hook g"
  shows "snap (w', hs @ [\<lambda>w. g (set_state p PeerContact w)])"
  using assms run_hooks_states [of hs w' w]
  by (auto simp: snap_def set_state_hook_ok run_hooks_append quiet_hook_def)

end
