(* ===== verification/Circle.thy ===== *)
theory Circle
  imports Contact
begin

text \<open>
  What package contact promises: its handlers are tame, an incoming envelope
  never lifts a block, blocking erases everything the node holds for the peer,
  and whatever the user, the network and the clock do, the snapshot agrees with
  the store and presence is shown for contacts only.
\<close>

section \<open>Handlers are tame\<close>

lemma peer_get_run: "peer_get E p (w, hs) = ((case peer_row p (w_db w) of None \<Rightarrow> Inr None
     | Some r \<Rightarrow> (case scan_peer E r of Inl e \<Rightarrow> Inl e | Inr info \<Rightarrow> Inr (Some info))), (w, hs))"
  by (cases "peer_row p (w_db w)") (auto simp: peer_get_def bnd_def split: sum.splits)

lemma scan_peer_state: "scan_peer E r = Inr info \<Longrightarrow> p_state info = p_state r"
  by (auto simp: scan_peer_def bindR_Inr_iff split: option.splits)

lemma quiet_joined: "quiet_hook (\<lambda>w. emit (OAdded p) (flush p w))" "quiet_hook (emit (OAdded p))"
  by (simp_all add: quiet_hook_def)

lemma tame_ensure_known [moves_intros]: "moves tame (ensure_known E p a)"
proof (rule movesI)
  fix s s' :: txs and r
  assume run: "ensure_known E p a s = (r, s')"
  obtain w hs where s: "s = (w, hs)" by (cases s)
  obtain w' hs' where s': "s' = (w', hs')" by (cases s')
  have stay: "tame ok s s" for ok by (rule tame_order.stay)
  show "tame (is_ok r) s s'"
  proof (cases "p = v_self E")
    case True
    with run stay show ?thesis by (simp add: ensure_known_def)
  next
    case False
    let ?h = "\<lambda>w. emit (OAdded p) (flush p (set_state p PeerContact w))"
    let ?known = "\<lambda>info. case info of None \<Rightarrow> False | Some r \<Rightarrow> p_state r \<noteq> PeerNone"
    let ?join = "seq (peer_put p PeerContact (v_now E)) (seq (whenM (a \<noteq> []) (peer_alias_set E p (str_bytes a))) (after_commit ?h))"
    from run False s have "bnd (peer_get E p) (\<lambda>info. if ?known info then ret () else ?join) (w, hs) = (r, s')"
      by (simp add: ensure_known_def)
    then show ?thesis
    proof (cases rule: bnd_cases)
      case (1 e)
      with stay s show ?thesis by (auto simp: peer_get_run)
    next
      case (2 info s1)
      then have s1: "s1 = (w, hs)" by (simp add: peer_get_run)
      have st: "?known info \<longleftrightarrow> peer_state p (w_db w) \<notin> {None, Some PeerNone}"
        using 2(1) scan_peer_state
        by (auto simp: peer_get_run peer_state_def split: option.splits sum.splits)
      show ?thesis
      proof (cases "?known info")
        case True
        with 2 s1 s stay show ?thesis by simp
      next
        case unknown: False
        with 2(2) s1 s' have j: "?join (w, hs) = (r, (w', hs'))" by simp
        note J = join_run [OF j]
        have "tame (is_ok r) (w, hs) (w', hs')"
          unfolding tame_def
        proof (intro conjI)
          from J obtain rows where rows: "w_db w' = (w_db w)\<lparr>d_peers := rows\<rparr>" by blast
          show "d_dedup (w_db (fst (w', hs'))) = d_dedup (w_db (fst (w, hs)))"
            "\<exists>more. d_outbox (w_db (fst (w', hs'))) = d_outbox (w_db (fst (w, hs))) @ more"
            "\<exists>more. d_msgs (w_db (fst (w', hs'))) = d_msgs (w_db (fst (w, hs))) @ more"
            by (simp_all add: rows)
          show "w_out (fst (w', hs')) = w_out (fst (w, hs))" "w_states (fst (w', hs')) = w_states (fst (w, hs))"
            "w_online (fst (w', hs')) = w_online (fst (w, hs))"
            using J by simp_all
          show "\<forall>q. peer_state q (w_db (fst (w, hs))) = Some PeerBlocked \<longrightarrow> peer_state q (w_db (fst (w', hs'))) = Some PeerBlocked"
            using J st unknown by auto
          show "\<exists>new. snd (w', hs') = snd (w, hs) @ new \<and> list_all hook_ok new"
            using J set_state_hook_ok [OF quiet_joined(1)] by auto
          show "is_ok r \<and> snap (w, hs) \<longrightarrow> snap (w', hs')"
            using J snap_join [OF _ _ _ quiet_joined(1), of w hs w' p] by (auto simp: is_ok_iff)
        qed
        then show ?thesis by (simp add: s s')
      qed
    qed
  qed
qed

lemma tame_contact [moves_intros]:
  "moves tame (on_contact_request E p e)" "moves tame (on_contact_accept E p e)"
  unfolding on_contact_request_def on_contact_accept_def
  by (intro tame_order.moves_rules moves_intros quiet_flush)+

section \<open>Blocking\<close>

text \<open>Everything the node holds for a peer, apart from history and the circle.\<close>

definition holds_nothing :: "peer_id \<Rightarrow> db \<Rightarrow> bool" where
  "holds_nothing p d \<longleftrightarrow> (\<forall>r \<in> set (d_outbox d). o_peer r \<noteq> p) \<and> (\<forall>r \<in> set (d_sealed d). s_peer r \<noteq> p)
     \<and> (\<forall>(q, m, t) \<in> set (d_pend d). q \<noteq> p) \<and> d_sess d p = None \<and> d_hs d p = None"

definition without_peer :: "peer_id \<Rightarrow> db \<Rightarrow> db" where
  "without_peer p d = d\<lparr>d_outbox := filter (\<lambda>r. o_peer r \<noteq> p) (d_outbox d),
     d_sealed := filter (\<lambda>r. s_peer r \<noteq> p) (d_sealed d), d_pend := filter (\<lambda>(q, m, t). q \<noteq> p) (d_pend d),
     d_sess := (d_sess d)(p := None), d_hs := (d_hs d)(p := None)\<rparr>"

lemma without_peer_simps [simp]:
  "d_outbox (without_peer p d) = filter (\<lambda>r. o_peer r \<noteq> p) (d_outbox d)"
  "d_sealed (without_peer p d) = filter (\<lambda>r. s_peer r \<noteq> p) (d_sealed d)"
  "d_pend (without_peer p d) = filter (\<lambda>(q, m, t). q \<noteq> p) (d_pend d)"
  "d_sess (without_peer p d) = (d_sess d)(p := None)" "d_hs (without_peer p d) = (d_hs d)(p := None)"
  "d_msgs (without_peer p d) = d_msgs d" "peer_state q (without_peer p d) = peer_state q d"
  by (simp_all add: without_peer_def peer_state_def peer_row_def)

lemma block_run:
  assumes "p \<noteq> v_self E"
  shows "\<exists>rows d1. peer_put p PeerBlocked (v_now E) (w, []) = (Inr (), (w\<lparr>w_db := d1\<rparr>, []))
    \<and> d1 = (w_db w)\<lparr>d_peers := rows\<rparr>
    \<and> block E p w = (Inr (), forget p (set_state p PeerBlocked (w\<lparr>w_db := without_peer p d1\<rparr>)))"
proof -
  obtain rows where put: "peer_put p PeerBlocked (v_now E) (w, []) = (Inr (), (w\<lparr>w_db := (w_db w)\<lparr>d_peers := rows\<rparr>\<rparr>, []))"
    using peer_put_rows by blast
  have "block_tx E p (w, []) = (Inr (), (w\<lparr>w_db := without_peer p ((w_db w)\<lparr>d_peers := rows\<rparr>)\<rparr>,
      [\<lambda>w. forget p (set_state p PeerBlocked w)]))"
    by (simp add: block_tx_def seq_def bnd_def put outbox_purge_def sealed_purge_def pending_take_def
        session_delete_def handshake_delete_def without_peer_def)
  with put assms show ?thesis
    by (intro exI [of _ rows]) (simp add: block_def run_tx_def run_hooks_def)
qed



section \<open>The circle as a state machine\<close>

text \<open>Whatever can happen to the circle: the user's commands, the clock, frames of the peers.\<close>

datatype contact_op =
  CAdd string | CBlock peer_id | CUnblock peer_id | CAlias peer_id string
  | CTick "peer_id list" | CActivity peer_id | CProbe peer_id envelope | CPong peer_id envelope
  | CRequest peer_id envelope | CAccept peer_id envelope

fun contact_step :: "env \<Rightarrow> contact_op \<Rightarrow> world \<Rightarrow> world" where
  "contact_step E (CAdd invite) w = snd (add_by_invite E invite w)"
| "contact_step E (CBlock p) w = snd (block E p w)"
| "contact_step E (CUnblock p) w = snd (unblock E p w)"
| "contact_step E (CAlias p a) w = snd (set_alias E p a w)"
| "contact_step E (CTick order) w = presence_tick E order w"
| "contact_step E (CActivity p) w = mark_activity E p w"
| "contact_step E (CProbe p e) w = handle_probe E p e w"
| "contact_step E (CPong p e) w = handle_pong E p e w"
| "contact_step E (CRequest p e) w = snd (run_tx (on_contact_request E p e) w)"
| "contact_step E (CAccept p e) w = snd (run_tx (on_contact_accept E p e) w)"

definition contact_run :: "(env \<times> contact_op) list \<Rightarrow> world \<Rightarrow> world" where
  "contact_run ops w = fold (\<lambda>(E, op). contact_step E op) ops w"

definition circle_ok :: "world \<Rightarrow> bool" where
  "circle_ok w \<longleftrightarrow> synced w \<and> (\<forall>p. w_online w p \<longrightarrow> w_states w p = Some PeerContact)"

lemma circle_same: "w_db w' = w_db w \<Longrightarrow> w_states w' = w_states w \<Longrightarrow> w_online w' = w_online w
    \<Longrightarrow> circle_ok w \<Longrightarrow> circle_ok w'"
  unfolding circle_ok_def synced_def by metis

lemma run_tx_circle:
  assumes t: "moves tame f" and ok: "circle_ok w"
  shows "circle_ok (snd (run_tx f w))"
proof -
  obtain r w' hs where run: "f (w, []) = (r, (w', hs))" by (metis prod.collapse)
  have T: "tame (is_ok r) (w, []) (w', hs)" using movesD [OF t run] .
  then have hs: "list_all hook_ok hs" by (auto simp: tame_def)
  show ?thesis
  proof (cases r)
    case (Inl e)
    with run T ok circle_same [of "w'\<lparr>w_db := w_db w\<rparr>" w] show ?thesis
      by (simp add: run_tx_def tame_def)
  next
    case (Inr x)
    with T have "kept True (w, []) (w', hs)" using tame_kept by fastforce
    from grown_hooks [OF this hs] have "w_online (run_hooks hs w') = w_online w"
      "\<forall>p. w_states (run_hooks hs w') p = w_states w p \<or> w_states (run_hooks hs w') p = Some PeerContact"
      "synced w \<longrightarrow> synced (run_hooks hs w')" unfolding grown_def by blast+
    with ok have "circle_ok (run_hooks hs w')" unfolding circle_ok_def by metis
    with run Inr show ?thesis by (simp add: run_tx_def)
  qed
qed

text \<open>Code that only touches presence marks, the network, kicks and counters.\<close>

lemma send_signal_same [simp]: "w_db (send_signal E p t w) = w_db w" "w_states (send_signal E p t w) = w_states w"
  "w_online (send_signal E p t w) = w_online w"
  by (auto simp: send_signal_def send_def Let_def split: sum.splits)

lemma probe_all_same: "w_db (probe_all E ps w) = w_db w \<and> w_states (probe_all E ps w) = w_states w
    \<and> w_online (probe_all E ps w) = w_online w"
  by (induction E ps w rule: probe_all.induct) (simp_all add: Let_def)

lemma fold_emit_same [simp]: "w_db (fold (\<lambda>p. emit (f p)) ps w) = w_db w"
  "w_states (fold (\<lambda>p. emit (f p)) ps w) = w_states w" "w_online (fold (\<lambda>p. emit (f p)) ps w) = w_online w"
  by (induction ps arbitrary: w) simp_all

lemma circle_tick: "circle_ok w \<Longrightarrow> circle_ok (presence_tick E order w)"
  using probe_all_same [of E "contact_ids order w" w]
  by (auto simp: presence_tick_def sweep_def Let_def circle_ok_def synced_def)

lemma circle_activity: "circle_ok w \<Longrightarrow> circle_ok (mark_activity E p w)"
  by (auto simp: mark_activity_def Let_def circle_ok_def synced_def state_def split: option.splits)

lemma circle_probe: "circle_ok w \<Longrightarrow> circle_ok (handle_probe E p e w)"
  using circle_same [of "send_signal E p TypePong w" w] circle_activity
  by (simp add: handle_probe_def)

lemma circle_block: "circle_ok w \<Longrightarrow> circle_ok (snd (block E p w))"
proof (cases "p = v_self E")
  case False
  assume ok: "circle_ok w"
  from block_run [OF False, of w] obtain rows d1 where
    put: "peer_put p PeerBlocked (v_now E) (w, []) = (Inr (), (w\<lparr>w_db := d1\<rparr>, []))"
    and run: "block E p w = (Inr (), forget p (set_state p PeerBlocked (w\<lparr>w_db := without_peer p d1\<rparr>)))" by blast
  have "peer_state q d1 = (if q = p then Some PeerBlocked else peer_state q (w_db w))" for q
    using peer_put_state [OF put, of q] by simp
  with run ok show ?thesis by (auto simp: circle_ok_def synced_def forget_def)
qed (simp add: block_def)

lemma circle_unblock: "circle_ok w \<Longrightarrow> circle_ok (snd (unblock E p w))"
proof (cases "state w p = PeerBlocked")
  case True
  assume ok: "circle_ok w"
  have del: "peer_delete p (w, []) = (Inr (), (w\<lparr>w_db := (w_db w)\<lparr>d_peers := filter (\<lambda>r. p_peer r \<noteq> p) (d_peers (w_db w))\<rparr>\<rparr>, []))"
    by (simp add: peer_delete_def)
  have st: "peer_state q ((w_db w)\<lparr>d_peers := filter (\<lambda>r. p_peer r \<noteq> p) (d_peers (w_db w))\<rparr>)
      = (if q = p then None else peer_state q (w_db w))" for q
    using peer_delete_state [OF del, of q] by simp
  have "w_states w p = Some PeerBlocked" using True by (simp add: state_def split: option.splits)
  then have "\<not> w_online w p" using ok by (auto simp: circle_ok_def)
  moreover have "unblock E p w = (Inr (), set_state p PeerNone
      (w\<lparr>w_db := (w_db w)\<lparr>d_peers := filter (\<lambda>r. p_peer r \<noteq> p) (d_peers (w_db w))\<rparr>\<rparr>))"
    using True by (simp add: unblock_def run_tx_def seq_def bnd_def del run_hooks_def)
  ultimately show ?thesis using ok by (auto simp: circle_ok_def synced_def st)
qed (simp add: unblock_def)

lemma circle_alias: "circle_ok w \<Longrightarrow> circle_ok (snd (set_alias E p a w))"
proof -
  assume ok: "circle_ok w"
  obtain r w' hs where run: "peer_alias_set E p (str_bytes (clamp_alias a)) (w, []) = (r, (w', hs))"
    by (metis prod.collapse)
  from peer_alias_state [OF run] ok show ?thesis
    by (auto simp: set_alias_def run_tx_def run run_hooks_def circle_ok_def synced_def split: sum.split)
qed

lemma circle_add: "circle_ok w \<Longrightarrow> circle_ok (snd (add_by_invite E invite w))"
proof -
  assume ok: "circle_ok w"
  have "circle_ok (snd (run_tx (add_tx E p a) w))" for p a
  proof -
    obtain r w' hs where run: "add_tx E p a (w, []) = (r, (w', hs))" by (metis prod.collapse)
    note J = join_run [OF run [unfolded add_tx_def]]
    show ?thesis
    proof (cases r)
      case (Inl e)
      with J ok run circle_same [of "w'\<lparr>w_db := w_db w\<rparr>" w] show ?thesis by (simp add: run_tx_def)
    next
      case (Inr u)
      with J have "hs = [\<lambda>w. emit (OAdded p) (set_state p PeerContact w)]" by simp
      with J ok run Inr show ?thesis
        by (auto simp: run_tx_def run_hooks_def circle_ok_def synced_def)
    qed
  qed
  then show ?thesis using ok
    by (auto simp: add_by_invite_def split: sum.split pstate.split prod.split) (metis snd_conv)+
qed

lemma contact_step_ok: "circle_ok w \<Longrightarrow> circle_ok (contact_step E op w)"
  using circle_activity
  by (cases op) (simp_all add: circle_add circle_block circle_unblock circle_alias circle_tick circle_probe
      handle_pong_def run_tx_circle tame_contact)

section \<open>Loading\<close>

lemma fold_states:
  assumes "distinct (map p_peer infos)"
  shows "fold (\<lambda>info m. m(p_peer info \<mapsto> p_state info)) infos m p
    = (case find (\<lambda>r. p_peer r = p) infos of None \<Rightarrow> m p | Some r \<Rightarrow> Some (p_state r))"
  using assms
proof (induction infos arbitrary: m)
  case (Cons r infos)
  then have "p_peer r \<notin> p_peer ` set infos" by simp
  then have "find (\<lambda>x. p_peer x = p_peer r) infos = None" by (rule find_none_key)
  with Cons show ?case by (auto split: option.splits)
qed simp

lemma find_key: "distinct (map f xs) \<Longrightarrow> find (\<lambda>r. f r = k) xs = Some r \<longleftrightarrow> r \<in> set xs \<and> f r = k"
proof (induction xs)
  case (Cons x xs)
  then show ?case by (auto simp: image_iff)
qed simp

lemma scan_list_states: "sequence_res (map (scan_peer E) rows) = Inr infos \<Longrightarrow>
    map p_peer infos = map p_peer rows \<and> map_option p_state (find (\<lambda>r. p_peer r = p) infos)
      = map_option p_state (find (\<lambda>r. p_peer r = p) rows)"
proof (induction rows arbitrary: infos)
  case (Cons r rows)
  then obtain i is' where "scan_peer E r = Inr i" "sequence_res (map (scan_peer E) rows) = Inr is'" "infos = i # is'"
    by (auto simp: bindR_Inr_iff)
  moreover from this have "p_state i = p_state r \<and> p_peer i = p_peer r"
    by (auto simp: scan_peer_def bindR_Inr_iff split: option.splits)
  ultimately show ?case using Cons.IH by auto
qed simp

lemma load_synced:
  assumes load: "load_contacts E w = Inr w0" and keys: "distinct (map p_peer (d_peers (w_db w)))"
  shows "synced w0 \<and> w_db w0 = w_db w \<and> w_online w0 = w_online w"
proof -
  let ?rows = "sort_key p_created (d_peers (w_db w))"
  from load obtain infos where infos: "sequence_res (map (scan_peer E) ?rows) = Inr infos"
    and w0: "w0 = w\<lparr>w_states := fold (\<lambda>info m. m(p_peer info \<mapsto> p_state info)) infos Map.empty\<rparr>"
    by (auto simp: load_contacts_def peer_list_def bindR_Inr_iff)
  have d: "distinct (map p_peer ?rows)" using keys by (simp add: distinct_map)
  have "find (\<lambda>r. p_peer r = p) ?rows = find (\<lambda>r. p_peer r = p) (d_peers (w_db w))" for p
    using find_key [OF d, of p] find_key [OF keys, of p]
    by (metis find_None_iff option.exhaust set_sort)
  then have st: "map_option p_state (find (\<lambda>r. p_peer r = p) infos) = peer_state p (w_db w)" for p
    using scan_list_states [OF infos, of p] by (simp add: peer_state_def peer_row_def)
  have "distinct (map p_peer infos)" using scan_list_states [OF infos] d by simp
  from fold_states [OF this, of Map.empty] have "w_states w0 p = peer_state p (w_db w0)" for p
    using st [of p] by (auto simp: w0 split: option.splits)
  then show ?thesis by (simp add: synced_def w0)
qed



end
