(* ===== verification/Chat.thy ===== *)
theory Chat
  imports Circle
begin

text \<open>
  Package chat: personal dialogs, the composition of ratchet, envelope and
  outbox. chat/manager.go. Sending encrypts with the stored session and queues
  the envelope in the transaction that writes the history; receiving decrypts,
  writes the history and saves the session in the transaction of the envelope.
  A session is established on the first send; texts wait for it. The random
  source is left where it was when a ratchet operation fails.
\<close>

definition MaxTextLen :: nat where "MaxTextLen = 32 * 1024"

text \<open>A handler of decrypted payloads (file manifests, group keys, call signals).\<close>

type_synonym sealed_handler = "env \<Rightarrow> peer_id \<Rightarrow> bytes \<Rightarrow> unit tx"

text \<open>The gate of outgoing traffic that the composition passes in: nobody blocked.\<close>

definition may_send :: "world \<Rightarrow> peer_id \<Rightarrow> bool" where
  "may_send w p \<longleftrightarrow> state w p \<noteq> PeerBlocked"

section \<open>Sessions\<close>

definition load_session :: "env \<Rightarrow> peer_id \<Rightarrow> ratchet option tx" where
  "load_session E p =
     bnd (session_get E p) (\<lambda>raw. case raw of None \<Rightarrow> ret None
     | Some b \<Rightarrow> bnd (res (map_err ErrRatchet (state_unmarshal (v_pstate E) b))) (\<lambda>st. ret (Some st)))"

definition save_session :: "env \<Rightarrow> peer_id \<Rightarrow> ratchet \<Rightarrow> unit tx" where
  "save_session E p st =
     bnd (res (of_opt ErrMarshal (state_marshal (v_pstate E) st))) (\<lambda>raw. session_put E p raw)"

definition chat_envelope :: "msg_id \<Rightarrow> etype \<Rightarrow> bytes \<Rightarrow> envelope" where
  "chat_envelope mid t payload = \<lparr>e_id = mid, e_type = t, e_seq = 0, e_lamport = 0, e_payload = payload\<rparr>"

definition ensure_handshake :: "env \<Rightarrow> peer_id \<Rightarrow> unit tx" where
  "ensure_handshake E to =
     bnd (handshake_get E to) (\<lambda>hs.
     if hs \<noteq> None then ret ()
     else bnd (with_rnd (\<lambda>r. map_err ErrRatchet (new_handshake (v_crypto E) r (v_ik E)))) (\<lambda>hs.
       seq (handshake_put E to (hs_marshal hs) (hs_sid hs))
      (bnd (res (map_err ErrRatchet (encode_init (v_pinit E) (hs_init (v_crypto E) hs)))) (\<lambda>payload.
       bnd new_mid (\<lambda>mid.
       seq (enqueue_tx E to (chat_envelope mid TypeSessionInit payload))
         (bump ''chat.sessionsInitiated''))))))"

section \<open>Sending\<close>

definition encrypt_enqueue :: "env \<Rightarrow> ratchet \<Rightarrow> peer_id \<Rightarrow> msg_id \<Rightarrow> u64 \<Rightarrow> u64 \<Rightarrow> bytes \<Rightarrow> ratchet tx" where
  "encrypt_enqueue E st to mid sequ lam body =
     bnd (res (map_err ErrRatchet (encrypt (v_crypto E) st body))) (\<lambda>(rm, st').
     bnd (res (map_err ErrRatchet (encode_message (v_pmsg E) rm))) (\<lambda>payload.
     seq (enqueue_tx E to \<lparr>e_id = mid, e_type = TypeChat, e_seq = sequ, e_lamport = lam, e_payload = payload\<rparr>)
       (ret st')))"

fun drain_each :: "env \<Rightarrow> peer_id \<Rightarrow> msg_id list \<Rightarrow> ratchet \<Rightarrow> ratchet tx" where
  "drain_each E to [] st = ret st"
| "drain_each E to (mid # mids) st =
     bnd (get_message E to mid True) (\<lambda>m.
     case m of None \<Rightarrow> drain_each E to mids st
     | Some msg \<Rightarrow> (case sm_body msg of
         None \<Rightarrow> drain_each E to mids st
       | Some body \<Rightarrow>
           if sm_deleted msg then drain_each E to mids st
           else bnd (encrypt_enqueue E st to mid (sm_seq msg) (sm_lam msg) body) (\<lambda>st'.
                seq (bump ''chat.pendingDrained'') (drain_each E to mids st'))))"

definition drain_pending :: "env \<Rightarrow> peer_id \<Rightarrow> ratchet \<Rightarrow> ratchet tx" where
  "drain_pending E to st =
     (if \<not> can_send st then ret st
      else bnd (pending_take to) (\<lambda>mids. drain_each E to mids st))"

definition send_text_tx :: "env \<Rightarrow> peer_id \<Rightarrow> bytes \<Rightarrow> msg_id \<Rightarrow> unit tx" where
  "send_text_tx E to text mid =
     bnd (next_seq (''seq:'' @ peer_string to)) (\<lambda>sequ.
     bnd lamport_next (\<lambda>lam.
     bnd (insert_message E \<lparr>sm_peer = to, sm_id = mid, sm_out = True, sm_seq = of_nat sequ, sm_lam = of_nat lam,
            sm_sent = v_now E, sm_status = StatusQueued, sm_deleted = False, sm_body = Some text,
            sm_sender = None\<rparr>) (\<lambda>fresh.
     bnd (load_session E to) (\<lambda>sess. case sess of
       Some st \<Rightarrow>
         if can_send st then
           bnd (encrypt_enqueue E st to mid (of_nat sequ) (of_nat lam) text) (\<lambda>st'. save_session E to st')
         else seq (pending_add to mid (v_now E)) (ensure_handshake E to)
     | None \<Rightarrow> seq (pending_add to mid (v_now E)) (ensure_handshake E to)))))"

definition send_text :: "env \<Rightarrow> peer_id \<Rightarrow> bytes \<Rightarrow> world \<Rightarrow> (err + msg_id) \<times> world" where
  "send_text E to text w =
     (if \<not> may_send w to then (Inl ErrPeerBlocked, w)
      else if text = [] then (Inl ErrEmptyText, w)
      else if MaxTextLen < length text then (Inl ErrTooLong, w)
      else case new_msg_id (w_rnd w) of
        Inl e \<Rightarrow> (Inl (ErrEnvelope e), w)
      | Inr (mid, r) \<Rightarrow> (case run_tx (send_text_tx E to text mid) (w\<lparr>w_rnd := r\<rparr>) of
          (Inl e, w') \<Rightarrow> (Inl e, w')
        | (Inr u, w') \<Rightarrow> (Inr mid, flush to w')))"

text \<open>The flag tells that there was no session to send with.\<close>

definition send_sealed_tx :: "env \<Rightarrow> peer_id \<Rightarrow> etype \<Rightarrow> bytes \<Rightarrow> msg_id \<Rightarrow> bool tx" where
  "send_sealed_tx E to t plaintext mid =
     bnd (load_session E to) (\<lambda>sess.
     case sess of None \<Rightarrow> seq (ensure_handshake E to) (ret True)
     | Some st \<Rightarrow>
        if \<not> can_send st then seq (ensure_handshake E to) (ret True)
        else bnd (res (map_err ErrRatchet (encrypt (v_crypto E) st plaintext))) (\<lambda>(rm, st').
          bnd (res (map_err ErrRatchet (encode_message (v_pmsg E) rm))) (\<lambda>payload.
          seq (enqueue_tx E to (chat_envelope mid t payload))
         (seq (save_session E to st') (ret False)))))"

definition send_sealed :: "env \<Rightarrow> peer_id \<Rightarrow> etype \<Rightarrow> bytes \<Rightarrow> world \<Rightarrow> (err + msg_id) \<times> world" where
  "send_sealed E to t plaintext w =
     (if \<not> may_send w to then (Inl ErrPeerBlocked, w)
      else case new_msg_id (w_rnd w) of
        Inl e \<Rightarrow> (Inl (ErrEnvelope e), w)
      | Inr (mid, r) \<Rightarrow> (case run_tx (send_sealed_tx E to t plaintext mid) (w\<lparr>w_rnd := r\<rparr>) of
          (Inl e, w') \<Rightarrow> (Inl e, w')
        | (Inr no_session, w') \<Rightarrow>
            (if no_session then Inl ErrNoSession else Inr mid, flush to w')))"

definition session_ready_tx :: "env \<Rightarrow> peer_id \<Rightarrow> bool tx" where
  "session_ready_tx E p = bnd (load_session E p) (\<lambda>sess.
     ret (case sess of None \<Rightarrow> False | Some st \<Rightarrow> can_send st))"

definition session_ready :: "env \<Rightarrow> peer_id \<Rightarrow> world \<Rightarrow> (err + bool) \<times> world" where
  "session_ready E p w = run_tx (session_ready_tx E p) w"

definition delete_text :: "peer_id \<Rightarrow> msg_id \<Rightarrow> world \<Rightarrow> (err + unit) \<times> world" where
  "delete_text p mid w = run_tx (delete_body p mid) w"

definition messages :: "env \<Rightarrow> peer_id \<Rightarrow> int \<Rightarrow> world \<Rightarrow> err + smsg list" where
  "messages E p limit w = list_messages E p limit (w_db w)"

section \<open>Receiving\<close>

text \<open>None: the envelope is consumed (rubbish, or the states diverged and the cure is under way).\<close>

definition decrypt_incoming :: "env \<Rightarrow> peer_id \<Rightarrow> envelope \<Rightarrow> (bytes \<times> ratchet) option tx" where
  "decrypt_incoming E from e =
     (case decode_message (v_pmsg E) (e_payload e) of
        Inl err \<Rightarrow> seq (bump ''chat.malformed'') (ret None)
      | Inr rm \<Rightarrow>
          bnd (load_session E from) (\<lambda>sess. case sess of
            None \<Rightarrow> seq (bump ''chat.noSession'') (seq (ensure_handshake E from) (ret None))
          | Some st \<Rightarrow>
              bnd (q_world (\<lambda>w. decrypt (v_crypto E) (w_rnd w) st rm)) (\<lambda>opened. case opened of
                Inl err \<Rightarrow> seq (bump ''chat.decryptFailures'') (seq (ensure_handshake E from) (ret None))
              | Inr (body, st', r) \<Rightarrow> seq (on_world (\<lambda>w. w\<lparr>w_rnd := r\<rparr>)) (ret (Some (body, st'))))))"

definition register_sealed :: "sealed_handler \<Rightarrow> handler" where
  "register_sealed h E from e =
     bnd (decrypt_incoming E from e) (\<lambda>opened. case opened of
       None \<Rightarrow> ret ()
     | Some (body, st) \<Rightarrow>
         seq (h E from body)
           (bnd (drain_pending E from st) (\<lambda>st'. save_session E from st')))"

definition incoming_text :: "env \<Rightarrow> peer_id \<Rightarrow> envelope \<Rightarrow> bytes \<Rightarrow> smsg" where
  "incoming_text E from e body = \<lparr>sm_peer = from, sm_id = e_id e, sm_out = False, sm_seq = e_seq e,
     sm_lam = clamp_lamport (e_lamport e), sm_sent = v_now E, sm_status = StatusDelivered,
     sm_deleted = False, sm_body = Some body, sm_sender = None\<rparr>"

definition on_chat :: handler where
  "on_chat E from e =
     bnd (decrypt_incoming E from e) (\<lambda>opened. case opened of
       None \<Rightarrow> ret ()
     | Some (body, st) \<Rightarrow>
         seq (lamport_observe (e_lamport e))
        (bnd (recv_seq_observe (''rseq:'' @ peer_string from) (e_seq e)) (\<lambda>gap.
         seq (whenM gap (bump ''chat.seqGaps''))
        (bnd (insert_message E (incoming_text E from e body)) (\<lambda>fresh.
         bnd (drain_pending E from st) (\<lambda>st'.
         seq (save_session E from st')
           (after_commit (emit (OMessage (incoming_text E from e body))))))))))"

definition on_session_init :: handler where
  "on_session_init E from e =
     (case decode_init (v_pinit E) (e_payload e) of
        Inl err \<Rightarrow> bump ''chat.malformed''
      | Inr init \<Rightarrow>
          bnd (handshake_get E from) (\<lambda>ours.
          if ours \<noteq> None \<and> chat_less (v_self E) from then bump ''chat.collisionsIgnored''
          else bnd (q_world (\<lambda>w. accept_handshake (v_crypto E) (w_rnd w) (v_ik E) init from (v_self E))) (\<lambda>acc.
            case acc of Inl err \<Rightarrow> bump ''chat.malformed''
            | Inr (st, ack, r) \<Rightarrow>
                seq (on_world (\<lambda>w. w\<lparr>w_rnd := r\<rparr>))
               (seq (handshake_delete from)
               (bnd (res (map_err ErrRatchet (encode_init_ack (v_pinit E) ack))) (\<lambda>payload.
                bnd new_mid (\<lambda>mid.
                seq (enqueue_tx E from (chat_envelope mid TypeSessionInitAck payload))
               (seq (save_session E from st)
               (seq (bump ''chat.sessionsAccepted'')
                 (after_commit (flush from)))))))))))"

definition on_session_init_ack :: handler where
  "on_session_init_ack E from e =
     (case decode_init_ack (v_pinit E) (e_payload e) of
        Inl err \<Rightarrow> bump ''chat.malformed''
      | Inr ack \<Rightarrow>
          bnd (handshake_get E from) (\<lambda>blob. case blob of
            None \<Rightarrow> bump ''chat.staleAcks''
          | Some b \<Rightarrow>
              bnd (res (map_err ErrRatchet (hs_unmarshal b (v_ik E)))) (\<lambda>hs.
              bnd (q_world (\<lambda>w. hs_finish (v_crypto E) (w_rnd w) hs ack (v_self E) from)) (\<lambda>fin.
              case fin of Inl err \<Rightarrow> bump ''chat.staleAcks''
              | Inr (st, r) \<Rightarrow>
                  seq (on_world (\<lambda>w. w\<lparr>w_rnd := r\<rparr>))
                 (seq (handshake_delete from)
                 (bnd (drain_pending E from st) (\<lambda>st'.
                  seq (save_session E from st')
                 (seq (bump ''chat.sessionsEstablished'')
                   (after_commit (flush from))))))))))"

section \<open>Handlers are tame\<close>

lemma sends_session [moves_intros]:
  "moves sends (load_session E p)" "moves sends (save_session E p st)" "moves sends (ensure_handshake E p)"
  unfolding load_session_def save_session_def ensure_handshake_def
  by (intro sends_order.moves_rules moves_intros)+

lemma sends_encrypt [moves_intros]: "moves sends (encrypt_enqueue E st to mid a b body)"
  unfolding encrypt_enqueue_def by (intro sends_order.moves_rules moves_intros)+

lemma sends_drain_each [moves_intros]: "moves sends (drain_each E to mids st)"
  by (induction mids arbitrary: st) (simp_all only: drain_each.simps; intro sends_order.moves_rules moves_intros; simp)+

lemma sends_drain [moves_intros]: "moves sends (drain_pending E to st)"
  unfolding drain_pending_def by (intro sends_order.moves_rules moves_intros)

lemma sends_text [moves_intros]: "moves sends (send_text_tx E p b mid)" "moves sends (send_sealed_tx E p t b mid)"
  unfolding send_text_tx_def send_sealed_tx_def by (intro sends_order.moves_rules moves_intros)+

lemma sends_decrypt [moves_intros]: "moves sends (decrypt_incoming E p e)"
  unfolding decrypt_incoming_def by (intro sends_order.moves_rules moves_intros; simp)+

lemmas tame_sends [moves_intros] = sends_session [THEN moves_sends_tame] sends_encrypt [THEN moves_sends_tame]
  sends_drain [THEN moves_sends_tame] sends_decrypt [THEN moves_sends_tame]

text \<open>Sending from outside a transaction: the row may grow the queue, the managers' memory stays.\<close>

lemma quiet_send_flush: "quiet_send w (flush p w)"
  by (simp add: quiet_send_def flush_def)

lemma quiet_send_sealed: "quiet_send w (snd (send_sealed E to t b w))"
proof -
  have tx: "quiet_send w (snd (run_tx (send_sealed_tx E to t b mid) (w\<lparr>w_rnd := r\<rparr>)))" for mid r
    using run_tx_sends [OF sends_text(2), of "w\<lparr>w_rnd := r\<rparr>"] by (simp add: quiet_send_def)
  show ?thesis
  proof (cases "new_msg_id (w_rnd w)")
    case (Inr x)
    obtain mid r where x: "x = (mid, r)" by (cases x)
    obtain y v where v: "run_tx (send_sealed_tx E to t b mid) (w\<lparr>w_rnd := r\<rparr>) = (y, v)" by (metis prod.collapse)
    from tx [of mid r] v have "quiet_send w v" by simp
    with quiet_send_trans [OF this quiet_send_flush] show ?thesis
      by (cases y) (simp_all add: send_sealed_def Inr x v)
  qed (simp add: send_sealed_def)
qed

lemma tame_sealed:
  "(\<And>E p b. moves tame (h E p b)) \<Longrightarrow> moves tame (register_sealed h E p e)"
  unfolding register_sealed_def by (intro tame_order.moves_rules moves_intros; simp)

lemma tame_chat [moves_intros]:
  "moves tame (on_chat E p e)" "moves tame (on_session_init E p e)" "moves tame (on_session_init_ack E p e)"
  unfolding on_chat_def on_session_init_def on_session_init_ack_def
  by (intro tame_order.moves_rules moves_intros; simp add: quiet_flush quiet_hooks)+

end
