(* ===== verification/ChatThms.thy ===== *)
theory ChatThms
  imports Chat RatchetSession
begin

text \<open>
  What package chat promises: what the ratchet opens is what the history shows,
  and what it does not open changes nothing but the cure; a text that waits for
  a session is never lost and is sent once the session stands; crossing
  handshakes leave one winner; and where the code can be stuck.
\<close>

section \<open>Steps of the dialog code\<close>

lemma tameD:
  assumes "moves tame m" "m s = (r, s')"
  shows "\<exists>more. d_msgs (w_db (fst s')) = d_msgs (w_db (fst s)) @ more"
    and "\<exists>more. d_outbox (w_db (fst s')) = d_outbox (w_db (fst s)) @ more"
    and "w_out (fst s') = w_out (fst s)"
    and "\<exists>new. snd s' = snd s @ new \<and> list_all hook_ok new"
  using movesD [OF assms] by (auto simp: tame_def)

lemma get_message_keeps:
  assumes "get_message E p mid d s = (Inr (Some m), s)" "\<exists>more. d_msgs (w_db (fst s')) = d_msgs (w_db (fst s)) @ more"
  shows "get_message E p mid d s' = (Inr (Some m), s')"
proof -
  obtain w hs w' hs' where s: "s = (w, hs)" "s' = (w', hs')" by fastforce
  from assms(1) obtain r where r: "find (\<lambda>r. msg_key r = (p, d, mid)) (d_msgs (w_db w)) = Some r"
    "scan_message E r = Inr m"
    by (auto simp: s get_message_run bindR_Inr_iff split: option.splits)
  from assms(2) obtain more where "d_msgs (w_db w') = d_msgs (w_db w) @ more" by (auto simp: s)
  with r show ?thesis by (simp add: s get_message_run find_append)
qed

lemma load_session_frame: "load_session E p s = (fst (load_session E p s), s)"
proof -
  have "snd (load_session E p s) = s"
    using session_kv.get_run [of E p s]
    by (auto simp: load_session_def bnd_def split: sum.splits option.splits)
  then show ?thesis by (metis prod.collapse)
qed

lemma save_then_load:
  assumes ok: "sealing_ok E" and wf: "wf_ratchet st" and pb: "pb_roundtrip (v_pstate E) (state_to_pb st)"
    and save: "save_session E p st s = (Inr (), s')"
  shows "load_session E p s' = (Inr (Some st), s')"
proof -
  from save obtain raw where raw: "state_marshal (v_pstate E) st = Some raw" "session_put E p raw s = (Inr (), s')"
    by (auto simp: save_session_def bnd_Inr_iff)
  from session_kv.put_run [OF ok raw(2)] state_unmarshal_marshal [OF wf pb raw(1)]
  show ?thesis by (simp add: load_session_def bnd_def)
qed

lemma drain_nothing:
  assumes "\<not> can_send st \<or> (\<forall>(q, m, t) \<in> set (d_pend (w_db (fst s))). q \<noteq> p)"
    and "drain_pending E p st s = (Inr st', s')"
  shows "st' = st"
proof -
  obtain w hs where s: "s = (w, hs)" by (cases s)
  have "filter (\<lambda>(q, m, t). q = p) (d_pend (w_db w)) = []" if "can_send st"
    using assms(1) that by (auto simp: s filter_empty_conv)
  with assms(2) show ?thesis
    by (auto simp: s drain_pending_def pending_take_def seq_def bnd_def split: if_splits)
qed

section \<open>Receiving\<close>

lemma decrypt_incoming_ok:
  assumes "decode_message (v_pmsg E) (e_payload e) = Inr m" "load_session E p (w, hs) = (Inr (Some st), s0)"
    and "decrypt (v_crypto E) (w_rnd w) st m = Inr (text, st', r)"
  shows "decrypt_incoming E p e (w, hs) = (Inr (Some (text, st')), (w\<lparr>w_rnd := r\<rparr>, hs))"
  using assms load_session_frame [of E p "(w, hs)"]
  by (simp add: decrypt_incoming_def bnd_def seq_def)

text \<open>Nothing is written to the history and no session changes unless something was opened.\<close>

definition unopened :: "env \<Rightarrow> peer_id \<Rightarrow> envelope \<Rightarrow> txs \<Rightarrow> bool" where
  "unopened E p e s \<longleftrightarrow> \<not> (\<exists>m st s0 x. decode_message (v_pmsg E) (e_payload e) = Inr m
     \<and> load_session E p s = (Inr (Some st), s0) \<and> decrypt (v_crypto E) (w_rnd (fst s)) st m = Inr x)"

definition cure_only :: "txs \<Rightarrow> txs \<Rightarrow> bool" where
  "cure_only s s' \<longleftrightarrow> d_msgs (w_db (fst s')) = d_msgs (w_db (fst s)) \<and> d_sess (w_db (fst s')) = d_sess (w_db (fst s))
     \<and> d_pend (w_db (fst s')) = d_pend (w_db (fst s)) \<and> d_ctrs (w_db (fst s')) = d_ctrs (w_db (fst s))
     \<and> snd s' = snd s"

interpretation cure_order: step_order "\<lambda>b. cure_only"
  by unfold_locales (auto simp: cure_only_def)

lemma cure_basic:
  "moves (\<lambda>b. cure_only) (with_rnd f)" "moves (\<lambda>b. cure_only) (q_db g)" "moves (\<lambda>b. cure_only) (bump c)"
  unfolding moves_def with_rnd_def by (auto simp: cure_only_def split: sum.splits)

lemma cure_db:
  assumes "\<And>d. d_msgs (f d) = d_msgs d" "\<And>d. d_sess (f d) = d_sess d" "\<And>d. d_pend (f d) = d_pend d"
    "\<And>d. d_ctrs (f d) = d_ctrs d"
  shows "moves (\<lambda>b. cure_only) (on_db f)"
  unfolding moves_def by (auto simp: cure_only_def assms)

lemma cure_ensure: "moves (\<lambda>b. cure_only) (ensure_handshake E p)"
  unfolding ensure_handshake_def handshake_get_def handshake_put_def enqueue_tx_def outbox_enqueue_def
    box_seal_def draw_def new_mid_def
  by (intro cure_order.moves_rules cure_basic cure_db; simp)

lemma unopened_cases:
  assumes run: "decrypt_incoming E p e s = (r, s')" and un: "unopened E p e s"
  shows "(r = Inr None \<or> (\<exists>x. r = Inl x)) \<and> cure_only s s'"
proof -
  obtain w hs where s: "s = (w, hs)" by (cases s)
  have cure: "cure_only s s'" and none: "r = Inr None \<or> (\<exists>x. r = Inl x)"
    if "seq (bump c) (seq (ensure_handshake E p) (ret None)) s = (r, s')" for c
  proof -
    have "moves (\<lambda>b. cure_only) (seq (bump c) (seq (ensure_handshake E p) (ret (None :: (bytes \<times> ratchet) option))))"
      by (intro cure_order.moves_rules cure_basic cure_ensure)
    from movesD [OF this that] show "cure_only s s'" .
    show "r = Inr None \<or> (\<exists>x. r = Inl x)" using that
      by (auto simp: s seq_def bnd_def split: sum.splits)
  qed
  show ?thesis
  proof (cases "decode_message (v_pmsg E) (e_payload e)")
    case (Inl err)
    with run show ?thesis by (auto simp: s decrypt_incoming_def cure_only_def)
  next
    case (Inr m)
    let ?k = "\<lambda>sess. case sess of
            None \<Rightarrow> seq (bump ''chat.noSession'') (seq (ensure_handshake E p) (ret None))
          | Some st \<Rightarrow>
              bnd (q_world (\<lambda>w. decrypt (v_crypto E) (w_rnd w) st m)) (\<lambda>opened. case opened of
                Inl err \<Rightarrow> seq (bump ''chat.decryptFailures'') (seq (ensure_handshake E p) (ret None))
              | Inr (body, st', r) \<Rightarrow> seq (on_world (\<lambda>w. w\<lparr>w_rnd := r\<rparr>)) (ret (Some (body, st'))))"
    from run Inr have "bnd (load_session E p) ?k s = (r, s')" by (simp add: decrypt_incoming_def)
    then show ?thesis
    proof (cases rule: bnd_cases)
      case (1 x)
      with load_session_frame [of E p s] show ?thesis by (auto simp: cure_only_def)
    next
      case (2 sess s1)
      then have s1: "s1 = s" using load_session_frame [of E p s] by simp
      show ?thesis
      proof (cases sess)
        case None
        with 2 s1 cure none show ?thesis by simp
      next
        case (Some st)
        with un Inr 2 s1 obtain x where "decrypt (v_crypto E) (w_rnd (fst s)) st m = Inl x"
          unfolding unopened_def by (cases "decrypt (v_crypto E) (w_rnd (fst s)) st m") auto
        with 2 s1 Some cure none show ?thesis by (simp add: s)
      qed
    qed
  qed
qed

text \<open>The handler after opening, as one operation.\<close>

definition take_text :: "env \<Rightarrow> peer_id \<Rightarrow> envelope \<Rightarrow> bytes \<Rightarrow> ratchet \<Rightarrow> unit tx" where
  "take_text E p e body st =
     seq (lamport_observe (e_lamport e))
        (bnd (recv_seq_observe (''rseq:'' @ peer_string p) (e_seq e)) (\<lambda>gap.
         seq (whenM gap (bump ''chat.seqGaps''))
        (bnd (insert_message E (incoming_text E p e body)) (\<lambda>fresh.
         bnd (drain_pending E p st) (\<lambda>st'.
         seq (save_session E p st')
           (after_commit (emit (OMessage (incoming_text E p e body)))))))))"

lemma on_chat_split: "on_chat E p e = bnd (decrypt_incoming E p e) (\<lambda>opened. case opened of
    None \<Rightarrow> ret () | Some (body, st) \<Rightarrow> take_text E p e body st)"
  unfolding take_text_def by (rule ext) (simp only: on_chat_def)

lemma on_chat_unopened:
  assumes un: "unopened E p e s" and run: "on_chat E p e s = (r, s')"
  shows "cure_only s s'"
  using run unfolding on_chat_split
proof (cases rule: bnd_cases)
  case (1 x)
  with unopened_cases [OF _ un] show ?thesis by blast
next
  case (2 x s1)
  with unopened_cases [OF 2(1) un] show ?thesis by auto
qed

lemma recv_seq_clock: "recv_seq_observe (''rseq:'' @ q) v s = (r, s') \<Longrightarrow> clock (w_db (fst s')) = clock (w_db (fst s))
    \<and> d_msgs (w_db (fst s')) = d_msgs (w_db (fst s)) \<and> d_pend (w_db (fst s')) = d_pend (w_db (fst s))
    \<and> snd s' = snd s \<and> w_rnd (fst s') = w_rnd (fst s)"
  by (cases s) (auto simp: recv_seq_observe_def Let_def seq_def bnd_def whenM_def clock_def split: if_splits)

lemma lamport_observe_keeps: "lamport_observe v s = (r, s') \<Longrightarrow> d_msgs (w_db (fst s')) = d_msgs (w_db (fst s))
    \<and> d_pend (w_db (fst s')) = d_pend (w_db (fst s)) \<and> snd s' = snd s"
  by (cases s) (auto simp: lamport_observe_def Let_def)

text \<open>Sending and saving do not touch the counters.\<close>

definition ctrs_kept :: "txs \<Rightarrow> txs \<Rightarrow> bool" where
  "ctrs_kept s s' \<longleftrightarrow> d_ctrs (w_db (fst s')) = d_ctrs (w_db (fst s))"

interpretation ctrs_order: step_order "\<lambda>b. ctrs_kept"
  by unfold_locales (auto simp: ctrs_kept_def)

lemma ctrs_basic:
  "moves (\<lambda>b. ctrs_kept) (with_rnd f)" "moves (\<lambda>b. ctrs_kept) (q_db g)" "moves (\<lambda>b. ctrs_kept) (bump c)"
  "(\<And>d. d_ctrs (k d) = d_ctrs d) \<Longrightarrow> moves (\<lambda>b. ctrs_kept) (on_db k)"
  unfolding moves_def with_rnd_def by (auto simp: ctrs_kept_def split: sum.splits)

lemma ctrs_send:
  "moves (\<lambda>b. ctrs_kept) (save_session E p st)" "moves (\<lambda>b. ctrs_kept) (encrypt_enqueue E st p mid a b body)"
  "moves (\<lambda>b. ctrs_kept) (insert_message E m)" "moves (\<lambda>b. ctrs_kept) (get_message E p mid d)"
  "moves (\<lambda>b. ctrs_kept) (pending_take p)"
  unfolding save_session_def session_put_def encrypt_enqueue_def enqueue_tx_def outbox_enqueue_def
    box_seal_def draw_def insert_message_def get_message_def pending_take_def
  by (intro ctrs_order.moves_rules ctrs_basic; simp)+

lemma ctrs_drain: "moves (\<lambda>b. ctrs_kept) (drain_pending E p st)"
proof -
  have "moves (\<lambda>b. ctrs_kept) (drain_each E p mids st)" for mids st
    by (induction mids arbitrary: st)
      (simp_all only: drain_each.simps; intro ctrs_order.moves_rules ctrs_basic ctrs_send; simp)+
  then show ?thesis unfolding drain_pending_def by (intro ctrs_order.moves_rules ctrs_send)
qed

lemma take_text_run:
  assumes ok: "sealing_ok E" and run: "take_text E p e text st (w, hs) = (Inr (), s')"
    and new: "(p, False, e_id e) \<notin> msg_key ` set (d_msgs (w_db w))"
  shows "get_message E p (e_id e) False s' = (Inr (Some (incoming_text E p e text)), s')"
    and "unat (clamp_lamport (e_lamport e)) < clock (w_db (fst s'))"
    and "\<exists>more. snd s' = hs @ more @ [emit (OMessage (incoming_text E p e text))]"
    and "\<exists>st'' raw. state_marshal (v_pstate E) st'' = Some raw \<and> session_get E p s' = (Inr (Some raw), s')
          \<and> (d_pend (w_db w) = [] \<longrightarrow> st'' = st)"
proof -
  let ?m = "incoming_text E p e text"
  from run obtain s2 gap s3 s4 fresh s5 st2 s6 s7 where
    lam: "lamport_observe (e_lamport e) (w, hs) = (Inr (), s2)" and
    rsq: "recv_seq_observe (''rseq:'' @ peer_string p) (e_seq e) s2 = (Inr gap, s3)" and
    gaps: "whenM gap (bump ''chat.seqGaps'') s3 = (Inr (), s4)" and
    ins: "insert_message E ?m s4 = (Inr fresh, s5)" and
    drain: "drain_pending E p st s5 = (Inr st2, s6)" and
    save: "save_session E p st2 s6 = (Inr (), s7)" and
    hook: "after_commit (emit (OMessage ?m)) s7 = (Inr (), s')"
    by (auto simp: take_text_def runs_iff)
  have s4: "w_db (fst s4) = w_db (fst s3) \<and> snd s4 = snd s3"
    using gaps by (cases s3) (auto simp: whenM_def split: if_splits)
  have s': "s' = (fst s7, snd s7 @ [emit (OMessage ?m)])" using hook by (cases s7) auto
  note R = recv_seq_clock [OF rsq] and L = lamport_observe_keeps [OF lam]
  have old: "d_msgs (w_db (fst s4)) = d_msgs (w_db w)" "d_pend (w_db (fst s4)) = d_pend (w_db w)" "snd s4 = hs"
    using s4 R L by simp_all
  obtain w4 where w4: "s4 = (w4, hs)" using old(3) by (cases s4) auto
  have key: "msg_key ?m = (p, False, e_id e)" by (simp add: msg_key_def incoming_text_def)
  have fresh: "fresh" using insert_message_run [OF ins [unfolded w4]] old(1) new by (auto simp: w4 key)
  have d5: "snd s5 = hs" "d_pend (w_db (fst s5)) = d_pend (w_db w)"
    using insert_message_run [OF ins [unfolded w4]] old(2) by (auto simp: w4)
  have "get_message E (sm_peer ?m) (sm_id ?m) (sm_out ?m) s5 = (Inr (Some ?m), s5)"
    by (rule insert_then_get [OF ok]) (use ins fresh in \<open>simp_all add: incoming_text_def\<close>)
  then have g5: "get_message E p (e_id e) False s5 = (Inr (Some ?m), s5)" by (simp add: incoming_text_def)
  note D = tameD [OF sends_drain [THEN moves_sends_tame] drain] and S = tameD [OF sends_session(2) [THEN moves_sends_tame] save]
  have "\<exists>more. d_msgs (w_db (fst s')) = d_msgs (w_db (fst s5)) @ more" using D(1) S(1) by (auto simp: s')
  from get_message_keeps [OF g5 this] show "get_message E p (e_id e) False s' = (Inr (Some ?m), s')" .
  have c5: "clock (w_db (fst s')) = clock (w_db (fst s2))"
  proof -
    have "d_ctrs (w_db (fst s5)) = d_ctrs (w_db (fst s4))" "d_ctrs (w_db (fst s6)) = d_ctrs (w_db (fst s5))"
      "d_ctrs (w_db (fst s7)) = d_ctrs (w_db (fst s6))"
      using movesD [OF ctrs_send(3) ins] movesD [OF ctrs_drain drain] movesD [OF ctrs_send(1) save]
      by (simp_all add: ctrs_kept_def)
    then show ?thesis using s4 R by (simp add: s' clock_def)
  qed
  show "unat (clamp_lamport (e_lamport e)) < clock (w_db (fst s'))"
    unfolding c5 using clock_observe [OF lam] by simp
  show "\<exists>more. snd s' = hs @ more @ [emit (OMessage ?m)]"
    using D(4) S(4) d5(1) by (auto simp: s')
  obtain raw where raw: "state_marshal (v_pstate E) st2 = Some raw" "session_put E p raw s6 = (Inr (), s7)"
    using save by (auto simp: save_session_def bnd_Inr_iff)
  have "session_get E p s7 = (Inr (Some raw), s7)" by (rule session_kv.put_run [OF ok raw(2)])
  then have get: "session_get E p s' = (Inr (Some raw), s')"
    by (cases s7) (auto simp: s' session_get_def bnd_def split: option.splits sum.splits)
  have "d_pend (w_db w) = [] \<Longrightarrow> st2 = st" using drain_nothing [OF _ drain] d5(2) by simp
  with raw(1) get show "\<exists>st'' raw. state_marshal (v_pstate E) st'' = Some raw \<and> session_get E p s' = (Inr (Some raw), s')
      \<and> (d_pend (w_db w) = [] \<longrightarrow> st'' = st)" by blast
qed

text \<open>
  C10. The history shows what the ratchet opened and nothing else. When the
  payload decodes and the stored session opens it, and the handler succeeds,
  the history has the message with exactly that text, sender, id and the
  clamped label, the clock is past the label, the presentation layer is told
  once, and the session saved is the one after the message (advanced further
  only by waiting texts). When there is nothing to open, or it does not open,
  history, session, waiting texts and counters are as they were: the only
  possible effect is a new handshake.
\<close>

theorem history_shows_what_was_opened:
  assumes ok: "sealing_ok E" and run: "on_chat E p e (w, hs) = (r, s')"
  shows "(unopened E p e (w, hs) \<longrightarrow> cure_only (w, hs) s')
    \<and> (decode_message (v_pmsg E) (e_payload e) = Inr m \<and> load_session E p (w, hs) = (Inr (Some st), s0)
        \<and> decrypt (v_crypto E) (w_rnd w) st m = Inr (text, st', rnd) \<and> r = Inr ()
        \<and> (p, False, e_id e) \<notin> msg_key ` set (d_msgs (w_db w)) \<longrightarrow>
      get_message E p (e_id e) False s' = (Inr (Some (incoming_text E p e text)), s')
      \<and> unat (clamp_lamport (e_lamport e)) < clock (w_db (fst s'))
      \<and> (\<exists>more. snd s' = hs @ more @ [emit (OMessage (incoming_text E p e text))])
      \<and> (\<exists>st'' raw. state_marshal (v_pstate E) st'' = Some raw \<and> session_get E p s' = (Inr (Some raw), s')
          \<and> (d_pend (w_db w) = [] \<longrightarrow> st'' = st')))"
proof (rule conjI; rule impI)
  show "unopened E p e (w, hs) \<Longrightarrow> cure_only (w, hs) s'" using on_chat_unopened run by blast
  assume A: "decode_message (v_pmsg E) (e_payload e) = Inr m \<and> load_session E p (w, hs) = (Inr (Some st), s0)
        \<and> decrypt (v_crypto E) (w_rnd w) st m = Inr (text, st', rnd) \<and> r = Inr ()
        \<and> (p, False, e_id e) \<notin> msg_key ` set (d_msgs (w_db w))"
  then have "take_text E p e text st' (w\<lparr>w_rnd := rnd\<rparr>, hs) = (Inr (), s')"
    using run by (simp add: on_chat_split bnd_def decrypt_incoming_ok)
  from take_text_run [OF ok this] A show "get_message E p (e_id e) False s' = (Inr (Some (incoming_text E p e text)), s')
      \<and> unat (clamp_lamport (e_lamport e)) < clock (w_db (fst s'))
      \<and> (\<exists>more. snd s' = hs @ more @ [emit (OMessage (incoming_text E p e text))])
      \<and> (\<exists>st'' raw. state_marshal (v_pstate E) st'' = Some raw \<and> session_get E p s' = (Inr (Some raw), s')
          \<and> (d_pend (w_db w) = [] \<longrightarrow> st'' = st'))" by simp
qed

text \<open>Bob, who has accepted Alice's handshake, gets her first message.\<close>

definition demo_bob_env :: env where
  "demo_bob_env = demo_env\<lparr>v_self := demo_bob,
     v_pmsg := one_pb [2] \<lparr>pm_dh = m_dh demo_m1, pm_pn = m_pn demo_m1, pm_n = m_n demo_m1, pm_ct = m_ct demo_m1\<rparr>,
     v_pstate := one_pb [4] (state_to_pb demo_bob0)\<rparr>"

definition demo_bob_world :: world where
  "demo_bob_world = (new_world (replicate 200 9))\<lparr>w_db := empty_db\<lparr>d_sess := [demo_alice \<mapsto>
     replicate 24 0 @ c_xseal demo_crypto (replicate 32 5) (replicate 24 0) [4] (aad_session demo_alice)]\<rparr>\<rparr>"

definition demo_chat :: envelope where
  "demo_chat = \<lparr>e_id = replicate 16 3, e_type = TypeChat, e_seq = 1, e_lamport = 5, e_payload = [2]\<rparr>"

lemma demo_bob_session: "load_session demo_bob_env demo_alice (demo_bob_world, [])
    = (Inr (Some demo_bob0), (demo_bob_world, []))"
proof -
  have "box_open demo_bob_env (replicate 24 0 @ c_xseal demo_crypto (replicate 32 5) (replicate 24 0) [4] (aad_session demo_alice))
      (aad_session demo_alice) = Inr [4]"
    using xaead_correctD [OF demo_laws(5)]
    by (simp add: box_open_def demo_bob_env_def demo_env_def NonceSizeX_def Overhead_def)
  moreover have "state_unmarshal (v_pstate demo_bob_env) [4] = Inr demo_bob0"
    by (simp add: demo_bob_env_def) code_simp
  ultimately show ?thesis
    by (simp add: load_session_def session_get_def bnd_def demo_bob_world_def)
qed

lemma demo_bob_opens: "decrypt demo_crypto (replicate 200 9) demo_bob0 demo_m1
    = Inr ([104, 105], demo_bob1, replicate 168 9)"
  by code_simp

lemma demo_on_chat: "fst (on_chat demo_bob_env demo_alice demo_chat (demo_bob_world, [])) = Inr ()"
proof -
  have "decode_message (v_pmsg demo_bob_env) (e_payload demo_chat) = Inr demo_m1"
    by (simp add: decode_message_def demo_bob_env_def demo_chat_def) (simp add: demo_m1_def maxCiphertext_def)
  moreover have "w_rnd demo_bob_world = replicate 200 9" "v_crypto demo_bob_env = demo_crypto"
    by (simp_all add: demo_bob_world_def new_world_def demo_bob_env_def demo_env_def)
  ultimately have "decrypt_incoming demo_bob_env demo_alice demo_chat (demo_bob_world, [])
      = (Inr (Some ([104, 105], demo_bob1)), (demo_bob_world\<lparr>w_rnd := replicate 168 9\<rparr>, []))"
    using decrypt_incoming_ok [OF _ demo_bob_session] demo_bob_opens by simp
  then show ?thesis
    by (simp add: on_chat_split bnd_def seq_def take_text_def lamport_observe_def recv_seq_observe_def Let_def whenM_def
        insert_message_def incoming_text_def demo_chat_def box_seal_def draw_def with_rnd_def read_full_def NonceSizeX_def
        drain_pending_def pending_take_def save_session_def session_put_def demo_bob_world_def new_world_def empty_db_def
        sql_u64_def state_marshal_def demo_bob_env_def clamp_lamport_def lamportCeil_def)
qed

theorem history_shows_what_was_opened_witness:
  "get_message demo_bob_env demo_alice (replicate 16 3) False (snd (on_chat demo_bob_env demo_alice demo_chat (demo_bob_world, [])))
   = (Inr (Some (incoming_text demo_bob_env demo_alice demo_chat [104, 105])),
      snd (on_chat demo_bob_env demo_alice demo_chat (demo_bob_world, [])))"
proof -
  have ok: "sealing_ok demo_bob_env" by (simp add: sealing_ok_def demo_bob_env_def demo_env_def demo_laws)
  obtain s' where run: "on_chat demo_bob_env demo_alice demo_chat (demo_bob_world, []) = (Inr (), s')"
    using demo_on_chat by (metis prod.collapse)
  have dm: "decode_message (v_pmsg demo_bob_env) (e_payload demo_chat) = Inr demo_m1"
    by (simp add: decode_message_def demo_bob_env_def demo_chat_def) (simp add: demo_m1_def maxCiphertext_def)
  have "w_rnd demo_bob_world = replicate 200 9" "v_crypto demo_bob_env = demo_crypto" "d_msgs (w_db demo_bob_world) = []"
    "e_id demo_chat = replicate 16 3"
    by (simp_all add: demo_bob_world_def new_world_def demo_bob_env_def demo_env_def empty_db_def demo_chat_def)
  with history_shows_what_was_opened [OF ok run, of demo_m1 demo_bob0] dm demo_bob_session demo_bob_opens run
  show ?thesis by simp
qed

section \<open>Sending\<close>

lemma outbox_enqueue_run:
  assumes "outbox_enqueue E p mid frame s = (Inr (), s')"
  shows "\<exists>row rnd. s' = ((fst s)\<lparr>w_rnd := rnd, w_db := (w_db (fst s))\<lparr>d_outbox := d_outbox (w_db (fst s)) @ [row]\<rparr>\<rparr>, snd s)
    \<and> o_peer row = p \<and> o_id row = mid \<and> (sealing_ok E \<longrightarrow> outbox_open E row = Inr (row\<lparr>o_frame := frame\<rparr>))"
proof -
  obtain w hs where s: "s = (w, hs)" by (cases s)
  from assms obtain c s1 where seal: "box_seal E frame (aad_outbox p mid) (w, hs) = (Inr c, s1)" and
    rest: "bnd (q_db d_outbox) (\<lambda>rows. if (p, mid) \<in> outbox_key ` set rows then fail ErrSQL
     else on_db (\<lambda>d. d\<lparr>d_outbox := d_outbox d @ [\<lparr>o_row = next_row (map o_row (d_outbox d)), o_peer = p,
       o_id = mid, o_frame = c, o_attempts = 0, o_next = v_now E\<rparr>]\<rparr>)) s1 = (Inr (), s')"
    by (auto simp: outbox_enqueue_def s bnd_Inr_iff)
  from box_seal_run [OF seal] obtain rnd where s1: "s1 = (w\<lparr>w_rnd := rnd\<rparr>, hs)" by blast
  let ?row = "\<lparr>o_row = next_row (map o_row (d_outbox (w_db w))), o_peer = p,
       o_id = mid, o_frame = c, o_attempts = 0, o_next = v_now E\<rparr>"
  have "outbox_open E ?row = Inr (?row\<lparr>o_frame := frame\<rparr>)" if "sealing_ok E"
    using box_open_seal [OF _ seal] that by (simp add: outbox_open_def sealing_ok_def)
  with rest s1 s show ?thesis by (intro exI [of _ ?row] exI [of _ rnd]) (auto split: if_splits)
qed

text \<open>A queued envelope: which row, and that the frame in it is the envelope's.\<close>

definition carries :: "env \<Rightarrow> orow \<Rightarrow> envelope \<Rightarrow> bool" where
  "carries E row e \<longleftrightarrow> (\<exists>frame. encode_env (v_penv E) e = Inr frame \<and> outbox_open E row = Inr (row\<lparr>o_frame := frame\<rparr>))"

lemma enqueue_tx_run:
  assumes "enqueue_tx E p e s = (Inr (), s')" "sealing_ok E"
  shows "\<exists>row rnd. s' = ((fst s)\<lparr>w_rnd := rnd, w_db := (w_db (fst s))\<lparr>d_outbox := d_outbox (w_db (fst s)) @ [row]\<rparr>\<rparr>, snd s)
    \<and> o_peer row = p \<and> o_id row = e_id e \<and> carries E row e"
proof -
  from assms(1) obtain frame where "encode_env (v_penv E) e = Inr frame" "outbox_enqueue E p (e_id e) frame s = (Inr (), s')"
    by (auto simp: enqueue_tx_def bnd_Inr_iff)
  with outbox_enqueue_run [OF this(2)] assms(2) show ?thesis by (auto simp: carries_def)
qed

lemma encrypt_enqueue_run:
  assumes run: "encrypt_enqueue E st p mid a b body s = (Inr st', s')" and ok: "sealing_ok E"
  shows "\<exists>row rnd m payload. s' = ((fst s)\<lparr>w_rnd := rnd, w_db := (w_db (fst s))\<lparr>d_outbox := d_outbox (w_db (fst s)) @ [row]\<rparr>\<rparr>, snd s)
    \<and> o_peer row = p \<and> o_id row = mid
    \<and> encrypt (v_crypto E) st body = Inr (m, st') \<and> encode_message (v_pmsg E) m = Inr payload
    \<and> carries E row \<lparr>e_id = mid, e_type = TypeChat, e_seq = a, e_lamport = b, e_payload = payload\<rparr>"
proof -
  from run obtain m payload where m: "encrypt (v_crypto E) st body = Inr (m, st')" "encode_message (v_pmsg E) m = Inr payload"
    and q: "enqueue_tx E p \<lparr>e_id = mid, e_type = TypeChat, e_seq = a, e_lamport = b, e_payload = payload\<rparr> s = (Inr (), s')"
    by (auto simp: encrypt_enqueue_def bnd_Inr_iff seq_Inr_iff)
  from enqueue_tx_run [OF q ok] m show ?thesis by auto
qed

text \<open>The texts of a list of ids that are still there to be sent, as the history has them.\<close>

definition live_texts :: "env \<Rightarrow> peer_id \<Rightarrow> db \<Rightarrow> msg_id list \<Rightarrow> smsg list" where
  "live_texts E p d mids = concat (map (\<lambda>mid. case find (\<lambda>r. msg_key r = (p, True, mid)) (d_msgs d) of
     None \<Rightarrow> [] | Some r \<Rightarrow> (case scan_message E r of Inl e \<Rightarrow> []
       | Inr m \<Rightarrow> if sm_deleted m \<or> sm_body m = None then [] else [m])) mids)"

text \<open>Row by row, the queue carries the chat envelopes of the texts under the advancing session.\<close>

fun chat_rows :: "env \<Rightarrow> peer_id \<Rightarrow> ratchet \<Rightarrow> smsg list \<Rightarrow> orow list \<Rightarrow> ratchet \<Rightarrow> bool" where
  "chat_rows E p st [] rows st' \<longleftrightarrow> rows = [] \<and> st' = st"
| "chat_rows E p st (m # ms) rows st' \<longleftrightarrow> (\<exists>row rows' st1 rm payload. rows = row # rows' \<and> o_peer row = p \<and> o_id row = sm_id m
     \<and> encrypt (v_crypto E) st (the (sm_body m)) = Inr (rm, st1) \<and> encode_message (v_pmsg E) rm = Inr payload
     \<and> carries E row \<lparr>e_id = sm_id m, e_type = TypeChat, e_seq = sm_seq m, e_lamport = sm_lam m, e_payload = payload\<rparr>
     \<and> chat_rows E p st1 ms rows' st')"

lemma scan_key: "find (\<lambda>r. msg_key r = (p, d, mid)) rows = Some r \<Longrightarrow> scan_message E r = Inr m \<Longrightarrow> sm_id m = mid"
  by (auto simp: find_Some_iff msg_key_def scan_message_def bindR_Inr_iff split: option.splits)

lemma drain_each_run:
  assumes ok: "sealing_ok E" and run: "drain_each E p mids st (w, hs) = (Inr st', s')"
  shows "\<exists>rows w'. s' = (w', hs) \<and> w_db w' = (w_db w)\<lparr>d_outbox := d_outbox (w_db w) @ rows\<rparr>
    \<and> chat_rows E p st (live_texts E p (w_db w) mids) rows st'"
  using run
proof (induction mids arbitrary: st w)
  case Nil
  then show ?case by (auto simp: live_texts_def)
next
  case (Cons mid mids)
  have skip: ?case if "live_texts E p (w_db w) (mid # mids) = live_texts E p (w_db w) mids"
    "drain_each E p mids st (w, hs) = (Inr st', s')"
    using Cons.IH [OF that(2)] that(1) by simp
  from Cons.prems obtain m s1 where g: "get_message E p mid True (w, hs) = (Inr m, s1)"
    by (auto simp: bnd_Inr_iff)
  then have s1: "s1 = (w, hs)" by (simp add: get_message_run)
  show ?case
  proof (cases "\<exists>msg body. m = Some msg \<and> sm_body msg = Some body \<and> \<not> sm_deleted msg")
    case False
    have "live_texts E p (w_db w) (mid # mids) = live_texts E p (w_db w) mids"
      using g False by (auto simp: get_message_run live_texts_def bindR_Inr_iff split: option.splits sum.splits)
    moreover have "drain_each E p mids st (w, hs) = (Inr st', s')"
      using Cons.prems g s1 False by (auto simp: bnd_def split: option.splits)
    ultimately show ?thesis by (rule skip)
  next
    case True
    then obtain msg body where m: "m = Some msg" "sm_body msg = Some body" "\<not> sm_deleted msg" by blast
    with g obtain r where r: "find (\<lambda>r. msg_key r = (p, True, mid)) (d_msgs (w_db w)) = Some r" "scan_message E r = Inr msg"
      by (auto simp: get_message_run bindR_Inr_iff split: option.splits)
    have id: "sm_id msg = mid" by (rule scan_key [OF r])
    have live: "live_texts E p (w_db w) (mid # mids) = msg # live_texts E p (w_db w) mids"
      using r m by (simp add: live_texts_def)
    from Cons.prems g s1 m obtain st1 s2 where
      enc: "encrypt_enqueue E st p mid (sm_seq msg) (sm_lam msg) body (w, hs) = (Inr st1, s2)"
      and rest: "seq (bump ''chat.pendingDrained'') (drain_each E p mids st1) s2 = (Inr st', s')"
      by (auto simp: bnd_Inr_iff)
    from encrypt_enqueue_run [OF enc ok] obtain row rnd rm payload where
      s2: "s2 = (w\<lparr>w_rnd := rnd, w_db := (w_db w)\<lparr>d_outbox := d_outbox (w_db w) @ [row]\<rparr>\<rparr>, hs)"
      and row: "o_peer row = p" "o_id row = mid" "encrypt (v_crypto E) st body = Inr (rm, st1)"
        "encode_message (v_pmsg E) rm = Inr payload"
        "carries E row \<lparr>e_id = mid, e_type = TypeChat, e_seq = sm_seq msg, e_lamport = sm_lam msg, e_payload = payload\<rparr>"
      by auto
    define w2 where "w2 = bump_w ''chat.pendingDrained'' (w\<lparr>w_rnd := rnd, w_db := (w_db w)\<lparr>d_outbox := d_outbox (w_db w) @ [row]\<rparr>\<rparr>)"
    have db2: "w_db w2 = (w_db w)\<lparr>d_outbox := d_outbox (w_db w) @ [row]\<rparr>" by (simp add: w2_def)
    have "drain_each E p mids st1 (w2, hs) = (Inr st', s')" using rest by (simp add: s2 w2_def)
    from Cons.IH [OF this] obtain rows w' where IH: "s' = (w', hs)"
      "w_db w' = (w_db w2)\<lparr>d_outbox := d_outbox (w_db w2) @ rows\<rparr>"
      "chat_rows E p st1 (live_texts E p (w_db w2) mids) rows st'" by blast
    have "live_texts E p (w_db w2) mids = live_texts E p (w_db w) mids" by (simp add: live_texts_def db2)
    with IH row m id live show ?thesis
      by (intro exI [of _ "row # rows"] exI [of _ w']) (auto simp: db2)
  qed
qed

text \<open>The ids waiting for a peer, in the order they were put there.\<close>

definition waiting :: "peer_id \<Rightarrow> db \<Rightarrow> msg_id list" where
  "waiting p d = map (\<lambda>(q, m, t). m) (sort_key (\<lambda>(q, m, t). t) (filter (\<lambda>(q, m, t). q = p) (d_pend d)))"

lemma drain_pending_run:
  assumes ok: "sealing_ok E" and run: "drain_pending E p st (w, hs) = (Inr st', s')" and can: "can_send st"
  shows "\<exists>rows w'. s' = (w', hs) \<and> w_db w' = (w_db w)\<lparr>d_pend := filter (\<lambda>(q, m, t). q \<noteq> p) (d_pend (w_db w)),
        d_outbox := d_outbox (w_db w) @ rows\<rparr>
    \<and> chat_rows E p st (live_texts E p (w_db w) (waiting p (w_db w))) rows st'"
proof -
  let ?w1 = "w\<lparr>w_db := (w_db w)\<lparr>d_pend := filter (\<lambda>(q, m, t). q \<noteq> p) (d_pend (w_db w))\<rparr>\<rparr>"
  have "drain_each E p (waiting p (w_db w)) st (?w1, hs) = (Inr st', s')"
    using run can by (simp add: drain_pending_def pending_take_def seq_def bnd_def waiting_def)
  from drain_each_run [OF ok this] obtain rows w' where "s' = (w', hs)"
    "w_db w' = (w_db ?w1)\<lparr>d_outbox := d_outbox (w_db ?w1) @ rows\<rparr>"
    "chat_rows E p st (live_texts E p (w_db ?w1) (waiting p (w_db w))) rows st'" by blast
  then show ?thesis by (intro exI [of _ rows] exI [of _ w']) (simp add: live_texts_def)
qed

lemma establish_run:
  assumes ok: "sealing_ok E" and ack: "decode_init_ack (v_pinit E) (e_payload e) = Inr ack"
    and row: "handshake_get E p (w, hks) = (Inr (Some b), s0)" and h: "hs_unmarshal b (v_ik E) = Inr h"
    and fin: "hs_finish (v_crypto E) (w_rnd w) h ack (v_self E) p = Inr (st, rnd)"
  shows "on_session_init_ack E p e (w, hks) =
    seq (handshake_delete p) (bnd (drain_pending E p st) (\<lambda>st'. seq (save_session E p st')
      (seq (bump ''chat.sessionsEstablished'') (after_commit (flush p))))) (w\<lparr>w_rnd := rnd\<rparr>, hks)"
proof -
  have "s0 = (w, hks)" using row handshake_kv.get_run [of E p "(w, hks)"] by simp
  with assms show ?thesis by (simp add: on_session_init_ack_def bnd_def [of "handshake_get E p"])
qed

lemma finish_can_send: "hs_finish C r h ack a b = Inr (st, r') \<Longrightarrow> can_send st"
  by (auto simp: hs_finish_def bindR_Inr_iff Let_def can_send_def split: if_splits)

lemma save_session_run:
  assumes "save_session E p st s = (Inr (), s')" "sealing_ok E"
  shows "\<exists>raw. state_marshal (v_pstate E) st = Some raw \<and> session_get E p s' = (Inr (Some raw), s') \<and> snd s' = snd s
    \<and> (\<exists>ct. w_db (fst s') = (w_db (fst s))\<lparr>d_sess := (d_sess (w_db (fst s)))(p \<mapsto> ct)\<rparr>)"
proof -
  from assms(1) obtain raw where raw: "state_marshal (v_pstate E) st = Some raw" "session_put E p raw s = (Inr (), s')"
    by (auto simp: save_session_def bnd_Inr_iff)
  obtain w hs where s: "s = (w, hs)" by (cases s)
  from seal_store_run [OF raw(2) [unfolded session_put_def s]]
  have "snd s' = snd s \<and> (\<exists>ct. w_db (fst s') = (w_db (fst s))\<lparr>d_sess := (d_sess (w_db (fst s)))(p \<mapsto> ct)\<rparr>)"
    by (auto simp: s)
  with raw session_kv.put_run [OF assms(2) raw(2)] show ?thesis by blast
qed


text \<open>Alice, whose text waits for the handshake with Bob, gets his answer.\<close>

definition demo_alice_env :: env where
  "demo_alice_env = demo_env\<lparr>v_self := demo_alice, v_ik := replicate 32 1,
     v_pinit := one_pb [3] \<lparr>pi_ik = a_ik demo_ack, pi_eph = a_eph demo_ack, pi_sid = a_sid demo_ack\<rparr>\<rparr>"

definition demo_alice_world :: world where
  "demo_alice_world = (new_world (replicate 200 6))\<lparr>w_db := empty_db\<lparr>
     d_hs := [demo_bob \<mapsto> (replicate 24 0 @ c_xseal demo_crypto (replicate 32 5) (replicate 24 0) (hs_marshal demo_hs)
        (aad_handshake demo_bob), [])],
     d_msgs := [demo_text\<lparr>sm_peer := demo_bob, sm_body := Some (replicate 24 0 @ c_xseal demo_crypto (replicate 32 5)
        (replicate 24 0) [104, 105] (aad_message demo_bob (replicate 16 7) True))\<rparr>],
     d_pend := [(demo_bob, replicate 16 7, 1000)]\<rparr>\<rparr>"

lemma demo_box: "box_open demo_alice_env (replicate 24 0 @ c_xseal demo_crypto (replicate 32 5) (replicate 24 0) x a) a = Inr x"
  using xaead_correctD [OF demo_laws(5)]
  by (simp add: box_open_def demo_alice_env_def demo_env_def NonceSizeX_def Overhead_def)

lemma demo_alice_finish: "hs_finish demo_crypto (replicate 200 6) demo_hs demo_ack demo_alice demo_bob
    = Inr (demo_alice0, replicate 168 6)"
  by code_simp

lemma demo_alice_row: "handshake_get demo_alice_env demo_bob (demo_alice_world, [])
    = (Inr (Some (hs_marshal demo_hs)), (demo_alice_world, []))"
  by (simp add: handshake_get_def bnd_def demo_alice_world_def demo_box)

lemma demo_alice_ack: "decode_init_ack (v_pinit demo_alice_env) [3] = Inr demo_ack"
  by (simp add: decode_init_ack_def demo_alice_env_def) (simp add: demo_ack_def SIDLen_def)

lemma demo_alice_hs: "hs_unmarshal (hs_marshal demo_hs) (v_ik demo_alice_env) = Inr demo_hs"
  by (simp add: demo_alice_env_def) code_simp

lemma demo_established: "fst (on_session_init_ack demo_alice_env demo_bob (demo_chat\<lparr>e_payload := [3]\<rparr>) (demo_alice_world, [])) = Inr ()"
proof -
  have ok: "sealing_ok demo_alice_env" by (simp add: sealing_ok_def demo_alice_env_def demo_env_def demo_laws)
  have ack: "decode_init_ack (v_pinit demo_alice_env) (e_payload (demo_chat\<lparr>e_payload := [3]\<rparr>)) = Inr demo_ack"
    using demo_alice_ack by simp
  have fin: "hs_finish (v_crypto demo_alice_env) (w_rnd demo_alice_world) demo_hs demo_ack (v_self demo_alice_env) demo_bob
      = Inr (demo_alice0, replicate 168 6)"
    using demo_alice_finish by (simp add: demo_alice_env_def demo_env_def demo_alice_world_def new_world_def)
  have can: "can_send demo_alice0" by (simp add: can_send_def demo_states)
  have m1: "encode_message (v_pmsg demo_alice_env) demo_m1 = Inr [2]"
    by (simp add: encode_message_def demo_alice_env_def demo_env_def) (simp add: demo_m1_def maxCiphertext_def)
  have C: "v_crypto demo_alice_env = demo_crypto" "v_key demo_alice_env = replicate 32 5"
    "v_pstate demo_alice_env = v_pstate demo_env" "v_penv demo_alice_env = v_penv demo_env"
    by (simp_all add: demo_alice_env_def demo_env_def)
  have P: "state_marshal (v_pstate demo_env) st = Some [4]" "encode_env (v_penv demo_env)
      \<lparr>e_id = i, e_type = TypeChat, e_seq = a, e_lamport = b, e_payload = [2]\<rparr> = Inr [1]" for st i a b
    by (simp_all add: state_marshal_def demo_env_def encode_env_def validate_env_def TypeChat_def TypeAck_def maxType_def
        TypeCallHangup_def MaxPayload_def)
  show ?thesis
    unfolding establish_run [OF ok ack demo_alice_row demo_alice_hs fin]
    by (simp add: seq_def bnd_def handshake_delete_def drain_pending_def can pending_take_def demo_alice_world_def
        new_world_def empty_db_def get_message_run msg_key_def demo_text_def scan_message_def demo_box encrypt_enqueue_def
        C demo_m1_ok m1 enqueue_tx_def P outbox_enqueue_def box_seal_def draw_def with_rnd_def read_full_def NonceSizeX_def
        save_session_def session_put_def)
qed


section \<open>Nothing typed is lost\<close>

lemma ensure_handshake_row: "ensure_handshake E p s = (Inr (), s') \<Longrightarrow> d_hs (w_db (fst s')) p \<noteq> None"
proof -
  assume run: "ensure_handshake E p s = (Inr (), s')"
  obtain w hs where s: "s = (w, hs)" by (cases s)
  have frame: "handshake_get E p s = (fst (handshake_get E p s), s)" by (rule handshake_kv.get_run)
  show ?thesis
  proof (cases "d_hs (w_db w) p")
    case (Some row)
    show ?thesis
    proof (cases "fst (handshake_get E p s)")
      case (Inl err)
      with run frame have False by (auto simp: ensure_handshake_def bnd_def)
      then show ?thesis ..
    next
      case (Inr v)
      have "v \<noteq> None" using Inr Some by (auto simp: s handshake_get_def bnd_def split: sum.splits prod.splits)
      with run frame Inr have "s' = s" by (auto simp: ensure_handshake_def bnd_def)
      with Some s show ?thesis by simp
    qed
  next
    case None
    then have "handshake_get E p s = (Inr None, s)" by (simp add: s handshake_get_def bnd_def)
    with run obtain hs1 s1 s2 payload mid s3 s4 where
      put: "handshake_put E p (hs_marshal hs1) (hs_sid hs1) s1 = (Inr (), s2)"
      and mid: "new_mid s2 = (Inr mid, s3)"
      and enq: "enqueue_tx E p (chat_envelope mid TypeSessionInit payload) s3 = (Inr (), s4)"
      and bump: "bump ''chat.sessionsInitiated'' s4 = (Inr (), s')"
      by (auto simp: ensure_handshake_def runs_iff bnd_def [of "handshake_get E p"] split: sum.splits)
    obtain w1 k1 where s1: "s1 = (w1, k1)" by (cases s1)
    from seal_store_run [OF put [unfolded handshake_put_def s1]] have "d_hs (w_db (fst s2)) p \<noteq> None" by auto
    moreover have "w_db (fst s3) = w_db (fst s2)"
      using mid by (cases s2) (auto simp: new_mid_def with_rnd_Inr_iff)
    moreover have "d_hs (w_db (fst s4)) = d_hs (w_db (fst s3))"
    proof -
      from enq obtain frame where "outbox_enqueue E p mid frame s3 = (Inr (), s4)"
        by (auto simp: enqueue_tx_def bnd_Inr_iff chat_envelope_def)
      from outbox_enqueue_run [OF this] show ?thesis by auto
    qed
    moreover have "w_db (fst s') = w_db (fst s4)" using bump by (cases s4) auto
    ultimately show ?thesis by simp
  qed
qed

definition kept_for :: "env \<Rightarrow> peer_id \<Rightarrow> msg_id \<Rightarrow> db \<Rightarrow> bool" where
  "kept_for E p mid d \<longleftrightarrow> queued p mid d \<or> (\<exists>t. (p, mid, t) \<in> set (d_pend d)) \<and> d_hs d p \<noteq> None"

lemma pending_add_run: "pending_add p mid t s = (Inr (), s') \<Longrightarrow> (\<exists>t'. (p, mid, t') \<in> set (d_pend (w_db (fst s'))))
    \<and> d_msgs (w_db (fst s')) = d_msgs (w_db (fst s))"
  by (cases s) (force simp: pending_add_def split: if_splits)

lemma send_text_tx_run:
  assumes ok: "sealing_ok E" and run: "send_text_tx E p body mid s = (Inr (), s')"
    and new: "(p, True, mid) \<notin> msg_key ` set (d_msgs (w_db (fst s)))"
  shows "kept_for E p mid (w_db (fst s'))"
    and "\<exists>m. get_message E p mid True s' = (Inr (Some m), s') \<and> sm_body m = Some body \<and> sm_status m = StatusQueued
      \<and> sm_sent m = v_now E \<and> \<not> sm_deleted m"
proof -
  from run obtain sequ s1 lam s2 fresh s3 sess s4 where
    nx: "next_seq (''seq:'' @ peer_string p) s = (Inr sequ, s1)" and lm: "lamport_next s1 = (Inr lam, s2)" and
    ins: "insert_message E \<lparr>sm_peer = p, sm_id = mid, sm_out = True, sm_seq = of_nat sequ, sm_lam = of_nat lam,
            sm_sent = v_now E, sm_status = StatusQueued, sm_deleted = False, sm_body = Some body,
            sm_sender = None\<rparr> s2 = (Inr fresh, s3)" (is "insert_message E ?m s2 = _") and
    ld: "load_session E p s3 = (Inr sess, s4)" and
    rest: "(case sess of
       Some st \<Rightarrow>
         if can_send st then
           bnd (encrypt_enqueue E st p mid (of_nat sequ) (of_nat lam) body) (\<lambda>st'. save_session E p st')
         else seq (pending_add p mid (v_now E)) (ensure_handshake E p)
     | None \<Rightarrow> seq (pending_add p mid (v_now E)) (ensure_handshake E p)) s4 = (Inr (), s')"
    unfolding send_text_tx_def by (auto simp: bnd_Inr_iff)
  have s4: "s4 = s3" using ld load_session_frame [of E p s3] by simp
  have old: "d_msgs (w_db (fst s2)) = d_msgs (w_db (fst s))"
    using nx lm by (cases s) (auto simp: next_seq_def lamport_next_def seq_def bnd_def)
  obtain w2 h2 where w2: "s2 = (w2, h2)" by (cases s2)
  have fresh: fresh using insert_message_run [OF ins [unfolded w2]] old new by (auto simp: w2 msg_key_def)
  have "get_message E (sm_peer ?m) (sm_id ?m) (sm_out ?m) s3 = (Inr (Some ?m), s3)"
    by (rule insert_then_get [OF ok]) (use ins fresh in simp_all)
  then have g3: "get_message E p mid True s3 = (Inr (Some ?m), s3)" by simp
  let ?wait = "seq (pending_add p mid (v_now E)) (ensure_handshake E p)"
  have waits: "kept_for E p mid (w_db (fst s')) \<and> (\<exists>more. d_msgs (w_db (fst s')) = d_msgs (w_db (fst s3)) @ more)"
    if wait: "?wait s3 = (Inr (), s')"
  proof -
    from wait obtain s5 where pa: "pending_add p mid (v_now E) s3 = (Inr (), s5)" and eh: "ensure_handshake E p s5 = (Inr (), s')"
      by (auto simp: seq_Inr_iff)
    from movesD [OF cure_ensure eh] have c: "d_pend (w_db (fst s')) = d_pend (w_db (fst s5))"
      "d_msgs (w_db (fst s')) = d_msgs (w_db (fst s5))" by (simp_all add: cure_only_def)
    with pending_add_run [OF pa] ensure_handshake_row [OF eh] show ?thesis by (auto simp: kept_for_def)
  qed
  have "kept_for E p mid (w_db (fst s')) \<and> (\<exists>more. d_msgs (w_db (fst s')) = d_msgs (w_db (fst s3)) @ more)"
  proof (cases "\<exists>st. sess = Some st \<and> can_send st")
    case True
    then obtain st st' s5 where enc: "encrypt_enqueue E st p mid (of_nat sequ) (of_nat lam) body s3 = (Inr st', s5)"
      and save: "save_session E p st' s5 = (Inr (), s')"
      using rest s4 by (auto simp: bnd_Inr_iff)
    from encrypt_enqueue_run [OF enc ok] have q: "queued p mid (w_db (fst s5))"
      "d_msgs (w_db (fst s5)) = d_msgs (w_db (fst s3))"
      by (auto simp: queued_def outbox_key_def)
    from tameD(1,2) [OF sends_session(2) [THEN moves_sends_tame] save] q show ?thesis by (auto simp: kept_for_def queued_def)
  next
    case False
    with rest s4 have "?wait s3 = (Inr (), s')" by (auto split: option.splits)
    then show ?thesis by (rule waits)
  qed
  then show "kept_for E p mid (w_db (fst s'))"
    and "\<exists>m. get_message E p mid True s' = (Inr (Some m), s') \<and> sm_body m = Some body \<and> sm_status m = StatusQueued
      \<and> sm_sent m = v_now E \<and> \<not> sm_deleted m"
    using get_message_keeps [OF g3] by auto
qed

text \<open>
  C12. What the user typed is never lost: if SendText returns an id, the text is
  in the history as queued under that id and either waits in the persistent
  queue or waits for the session with a handshake under way (see \<open>waiting_texts_are_sent\<close>).
  If it returns an error, nothing of it is stored and nothing was sent; an empty
  text, one above 32 KiB and one to a blocked peer are always refused.
\<close>

theorem typed_text_is_kept:
  assumes "sealing_ok E" and "send_text E p body w = (r, w')"
  shows "case r of
      Inl err \<Rightarrow> w_db w' = w_db w \<and> w_out w' = w_out w
    | Inr mid \<Rightarrow> may_send w p \<and> body \<noteq> [] \<and> length body \<le> MaxTextLen
        \<and> ((p, True, mid) \<notin> msg_key ` set (d_msgs (w_db w)) \<longrightarrow>
            kept_for E p mid (w_db w')
            \<and> (\<exists>m. fst (get_message E p mid True (w', [])) = Inr (Some m) \<and> sm_body m = Some body \<and> sm_status m = StatusQueued))"
proof (cases "new_msg_id (w_rnd w)")
  case (Inl x)
  with assms(2) show ?thesis by (auto simp: send_text_def split: if_splits)
next
  case (Inr q)
  obtain mid rnd where q: "q = (mid, rnd)" by (cases q)
  let ?w1 = "w\<lparr>w_rnd := rnd\<rparr>"
  obtain r2 w2 hs where run: "send_text_tx E p body mid (?w1, []) = (r2, (w2, hs))" by (metis prod.collapse)
  have T: "hs = []" "w_out w2 = w_out ?w1" using movesD [OF sends_text(1) run] by (simp_all add: sends_def)
  show ?thesis
  proof (cases "\<not> may_send w p \<or> body = [] \<or> MaxTextLen < length body")
    case True
    with assms(2) show ?thesis by (auto simp: send_text_def split: if_splits)
  next
    case False
    show ?thesis
    proof (cases r2)
      case (Inl x)
      with assms(2) False Inr q run T(2) show ?thesis by (auto simp: send_text_def run_tx_def)
    next
      case (Inr u)
      have r: "r = Inr mid" "w' = flush p (run_hooks hs w2)"
        using assms(2) False Inr \<open>new_msg_id (w_rnd w) = Inr q\<close> q run by (simp_all add: send_text_def run_tx_def)
      have db: "w_db w' = w_db w2" using r T(1) by (simp add: run_hooks_def)
      have "kept_for E p mid (w_db w') \<and> (\<exists>m. fst (get_message E p mid True (w', [])) = Inr (Some m) \<and> sm_body m = Some body
          \<and> sm_status m = StatusQueued)" if "(p, True, mid) \<notin> msg_key ` set (d_msgs (w_db w))"
      proof -
        have "send_text_tx E p body mid (?w1, []) = (Inr (), (w2, hs))" using run Inr by simp
        from send_text_tx_run [OF assms(1) this] that show ?thesis
          by (auto simp: db get_message_run)
      qed
      with False r show ?thesis by auto
    qed
  qed
qed

lemma demo_send_ok: "fst (send_text demo_env (PeerID (replicate 32 2)) [104, 105] (new_world (replicate 200 1))) = Inr (replicate 16 1)"
  by (simp add: send_text_def may_send_def state_def new_world_def MaxTextLen_def new_msg_id_def read_full_def MsgIDLen_def
      run_tx_def send_text_tx_def bnd_def seq_def next_seq_def lamport_next_def insert_message_def box_seal_def draw_def
      with_rnd_def NonceSizeX_def load_session_def session_get_def empty_db_def pending_add_def ensure_handshake_def
      handshake_get_def new_handshake_def generate_key_def demo_env_def demo_crypto_def SIDLen_def handshake_put_def
      encode_init_def new_mid_def enqueue_tx_def encode_env_def outbox_enqueue_def chat_envelope_def sql_u64_def
      validate_env_def TypeSessionInit_def TypeAck_def maxType_def MaxPayload_def TypeCallHangup_def)

theorem typed_text_is_kept_witness:
  "kept_for demo_env (PeerID (replicate 32 2)) (replicate 16 1)
     (w_db (snd (send_text demo_env (PeerID (replicate 32 2)) [104, 105] (new_world (replicate 200 1)))))"
  using typed_text_is_kept [OF demo_sealing_ok prod.collapse [symmetric],
      of "PeerID (replicate 32 2)" "[104, 105]" "new_world (replicate 200 1)"]
  by (simp add: demo_send_ok) (simp add: new_world_def empty_db_def)

section \<open>Crossing handshakes\<close>

lemma init_collision:
  assumes "handshake_get E p s = (Inr (Some b), s)" "chat_less (v_self E) p" "on_session_init E p e s = (r, s')"
  shows "r = Inr () \<and> w_db (fst s') = w_db (fst s) \<and> snd s' = snd s"
  using assms by (cases s) (auto simp: on_session_init_def bnd_def split: sum.splits)

lemma init_accepted:
  assumes ok: "sealing_ok E" and get: "handshake_get E p (w, hs) = (Inr v, (w, hs))"
    and free: "v = None \<or> \<not> chat_less (v_self E) p"
    and dec: "decode_init (v_pinit E) (e_payload e) = Inr i"
    and acc: "accept_handshake (v_crypto E) (w_rnd w) (v_ik E) i p (v_self E) = Inr (st, ack, rnd)"
    and run: "on_session_init E p e (w, hs) = (Inr (), s')"
  shows "d_hs (w_db (fst s')) p = None \<and> (\<exists>raw. state_marshal (v_pstate E) st = Some raw \<and> session_get E p s' = (Inr (Some raw), s'))
    \<and> (\<exists>row mid payload. d_outbox (w_db (fst s')) = d_outbox (w_db w) @ [row] \<and> o_peer row = p
        \<and> encode_init_ack (v_pinit E) ack = Inr payload \<and> carries E row (chat_envelope mid TypeSessionInitAck payload))"
proof -
  let ?w1 = "w\<lparr>w_rnd := rnd, w_db := (w_db w)\<lparr>d_hs := (d_hs (w_db w))(p := None)\<rparr>\<rparr>"
  from run get free dec acc obtain payload mid s2 s3 s4 where
    pl: "encode_init_ack (v_pinit E) ack = Inr payload" and mid: "new_mid (?w1, hs) = (Inr mid, s2)" and
    enq: "enqueue_tx E p (chat_envelope mid TypeSessionInitAck payload) s2 = (Inr (), s3)" and
    save: "save_session E p st s3 = (Inr (), s4)" and
    last: "seq (bump ''chat.sessionsAccepted'') (after_commit (flush p)) s4 = (Inr (), s')"
    by (auto simp: on_session_init_def bnd_def [of "handshake_get E p"] runs_iff handshake_delete_def)
  from mid obtain rnd2 where s2: "s2 = (?w1\<lparr>w_rnd := rnd2\<rparr>, hs)" by (auto simp: new_mid_def with_rnd_Inr_iff)
  from enqueue_tx_run [OF enq ok] obtain row rnd3 where
    s3: "s3 = (?w1\<lparr>w_rnd := rnd3, w_db := (w_db ?w1)\<lparr>d_outbox := d_outbox (w_db ?w1) @ [row]\<rparr>\<rparr>, hs)"
    and row: "o_peer row = p" "carries E row (chat_envelope mid TypeSessionInitAck payload)"
    by (auto simp: s2)
  from save_session_run [OF save ok] obtain raw ct where raw: "state_marshal (v_pstate E) st = Some raw"
    "session_get E p s4 = (Inr (Some raw), s4)" and s4: "w_db (fst s4) = (w_db (fst s3))\<lparr>d_sess := (d_sess (w_db (fst s3)))(p \<mapsto> ct)\<rparr>"
    by auto
  obtain w4 h4 where 4: "s4 = (w4, h4)" by (cases s4)
  have s': "s' = (bump_w ''chat.sessionsAccepted'' w4, h4 @ [flush p])" using last by (simp add: 4)
  have get': "session_get E p s' = (Inr (Some raw), s')"
    using raw(2) by (auto simp: 4 s' session_get_def bnd_def split: option.splits sum.splits)
  have "w_db (fst s') = (w_db (fst s3))\<lparr>d_sess := (d_sess (w_db (fst s3)))(p \<mapsto> ct)\<rparr>" using s4 by (simp add: s' 4)
  with get' raw(1) row pl show ?thesis by (auto simp: s3)
qed

text \<open>What the two ends of a crossing do.\<close>

definition stands_firm :: "env \<Rightarrow> peer_id \<Rightarrow> envelope \<Rightarrow> txs \<Rightarrow> bool" where
  "stands_firm E p e s \<longleftrightarrow> (\<forall>r s'. on_session_init E p e s = (r, s') \<longrightarrow> r = Inr () \<and> w_db (fst s') = w_db (fst s))"

definition gives_way :: "env \<Rightarrow> peer_id \<Rightarrow> envelope \<Rightarrow> txs \<Rightarrow> bool" where
  "gives_way E p e s \<longleftrightarrow> (\<forall>i st ack rnd s'. decode_init (v_pinit E) (e_payload e) = Inr i
     \<longrightarrow> accept_handshake (v_crypto E) (w_rnd (fst s)) (v_ik E) i p (v_self E) = Inr (st, ack, rnd)
     \<longrightarrow> on_session_init E p e s = (Inr (), s')
     \<longrightarrow> d_hs (w_db (fst s')) p = None
       \<and> (\<exists>raw. state_marshal (v_pstate E) st = Some raw \<and> session_get E p s' = (Inr (Some raw), s'))
       \<and> (\<exists>row mid payload. d_outbox (w_db (fst s')) = d_outbox (w_db (fst s)) @ [row] \<and> o_peer row = p
        \<and> encode_init_ack (v_pinit E) ack = Inr payload \<and> carries E row (chat_envelope mid TypeSessionInitAck payload)))"

text \<open>
  C13. Crossing handshakes leave one: when two nodes have both started one with
  the other and each receives the other's init, exactly one of them, the one
  with the smaller identifier, keeps its own and changes nothing, and the other
  gives its own up: it deletes its handshake, stores the session that answers
  the init and queues the answer. Never both, never neither.
\<close>

theorem crossing_handshakes_leave_one:
  assumes peers: "wf_peer (v_self EA)" "wf_peer (v_self EB)" "v_self EA \<noteq> v_self EB"
    and ok: "sealing_ok EA" "sealing_ok EB"
    and both: "handshake_get EA (v_self EB) sA = (Inr (Some bA), sA)" "handshake_get EB (v_self EA) sB = (Inr (Some bB), sB)"
  shows "if v_self EA < v_self EB
    then stands_firm EA (v_self EB) eB sA \<and> gives_way EB (v_self EA) eA sB
    else stands_firm EB (v_self EA) eA sB \<and> gives_way EA (v_self EB) eB sA"
proof -
  have firm: "stands_firm E p e s" if "handshake_get E p s = (Inr (Some b), s)" "chat_less (v_self E) p" for E p e s b
    using init_collision [OF that] by (auto simp: stands_firm_def)
  have way: "gives_way E p e s" if "sealing_ok E" "handshake_get E p s = (Inr (Some b), s)" "\<not> chat_less (v_self E) p" for E p e s b
  proof -
    obtain w hs where s: "s = (w, hs)" by (cases s)
    from init_accepted [OF that(1) that(2) [unfolded s]] that(3) show ?thesis
      by (auto simp: gives_way_def s)
  qed
  have less: "chat_less (v_self EA) (v_self EB) \<longleftrightarrow> v_self EA < v_self EB"
    "chat_less (v_self EB) (v_self EA) \<longleftrightarrow> v_self EB < v_self EA"
    using peers by (simp_all add: chat_less_iff)
  show ?thesis
  proof (cases "v_self EA < v_self EB")
    case True
    then have "\<not> chat_less (v_self EB) (v_self EA)" using less by simp
    with True less both ok firm way show ?thesis by auto
  next
    case False
    then have "v_self EB < v_self EA" using peers(3) by simp
    with False less both ok firm way show ?thesis by auto
  qed
qed

definition demo_crossing :: "env \<Rightarrow> peer_id \<Rightarrow> txs" where
  "demo_crossing E p = ((new_world (replicate 200 1))\<lparr>w_db := empty_db\<lparr>d_hs := [p \<mapsto>
     (replicate 24 0 @ c_xseal (v_crypto E) (v_key E) (replicate 24 0) [4] (aad_handshake p), [])]\<rparr>\<rparr>, [])"

lemma demo_crossing_row: "sealing_ok E \<Longrightarrow> handshake_get E p (demo_crossing E p) = (Inr (Some [4]), demo_crossing E p)"
proof -
  assume "sealing_ok E"
  then have "box_open E (replicate 24 0 @ c_xseal (v_crypto E) (v_key E) (replicate 24 0) [4] (aad_handshake p)) (aad_handshake p) = Inr [4]"
    using xaead_correctD [of "v_crypto E"] by (simp add: sealing_ok_def box_open_def NonceSizeX_def Overhead_def)
  then show ?thesis by (simp add: demo_crossing_def handshake_get_def bnd_def)
qed

theorem crossing_handshakes_leave_one_witness:
  "stands_firm demo_env (PeerID (replicate 32 2)) demo_chat (demo_crossing demo_env (PeerID (replicate 32 2)))"
proof -
  let ?B = "demo_env\<lparr>v_self := PeerID (replicate 32 2)\<rparr>"
  have self: "v_self demo_env = PeerID (replicate 32 1)" by (simp add: demo_env_def)
  have ok: "sealing_ok ?B" using demo_sealing_ok by (simp add: sealing_ok_def)
  have wf: "wf_peer (v_self demo_env)" "wf_peer (v_self ?B)" "v_self demo_env \<noteq> v_self ?B"
    by (simp_all add: self wf_peer_def IDLen_def)
  have less: "v_self demo_env < v_self ?B"
    by (simp add: self less_peer_id_def) code_simp
  from crossing_handshakes_leave_one [OF wf demo_sealing_ok ok demo_crossing_row [OF demo_sealing_ok] demo_crossing_row [OF ok], of demo_chat demo_chat] less
  show ?thesis by simp
qed

section \<open>A handshake that nobody will answer\<close>

text \<open>Everything that can happen between a node and one peer, but for the answer to the handshake.\<close>

datatype dialog_op = DText bytes | DSend etype bytes | DInit envelope | DChat envelope | DSealed sealed_handler envelope

fun dialog_step :: "env \<Rightarrow> peer_id \<Rightarrow> dialog_op \<Rightarrow> world \<Rightarrow> world" where
  "dialog_step E p (DText body) w = snd (send_text E p body w)"
| "dialog_step E p (DSend t body) w = snd (send_sealed E p t body w)"
| "dialog_step E p (DInit e) w = snd (run_tx (on_session_init E p e) w)"
| "dialog_step E p (DChat e) w = snd (run_tx (on_chat E p e) w)"
| "dialog_step E p (DSealed h e) w = snd (run_tx (register_sealed h E p e) w)"

definition half_open :: "env \<Rightarrow> peer_id \<Rightarrow> db \<Rightarrow> bool" where
  "half_open E p d \<longleftrightarrow> d_sess d p = None \<and> (\<exists>ct sid b. d_hs d p = Some (ct, sid) \<and> box_open E ct (aad_handshake p) = Inr b)"

lemma half_open_get: "half_open E p (w_db w) \<Longrightarrow> load_session E p (w, hs) = (Inr None, (w, hs))
    \<and> (\<exists>b. handshake_get E p (w, hs) = (Inr (Some b), (w, hs)))"
  by (auto simp: half_open_def load_session_def session_get_def handshake_get_def bnd_def)

lemma half_open_ensure: "half_open E p (w_db w) \<Longrightarrow> ensure_handshake E p (w, hs) = (Inr (), (w, hs))"
  using half_open_get [of E p w hs] by (auto simp: ensure_handshake_def bnd_def)

lemma half_open_decrypt:
  "half_open E p (w_db w) \<Longrightarrow> \<exists>w'. decrypt_incoming E p e (w, hs) = (Inr None, (w', hs)) \<and> w_db w' = w_db w"
  using half_open_get [of E p w hs] half_open_ensure [of E p "bump_w ''chat.noSession'' w" hs]
  by (auto simp: decrypt_incoming_def bnd_def seq_def split: sum.split)

definition stuck_step :: "env \<Rightarrow> peer_id \<Rightarrow> world \<Rightarrow> world \<Rightarrow> bool" where
  "stuck_step E p w w' \<longleftrightarrow> half_open E p (w_db w') \<and> d_outbox (w_db w') = d_outbox (w_db w)
     \<and> d_hs (w_db w') = d_hs (w_db w)"

lemma stuck_text:
  assumes h: "half_open E p (w_db w)" and run: "send_text_tx E p body mid (w, []) = (r, (w', hs))"
  shows "r = Inr () \<longrightarrow> stuck_step E p w w'"
proof
  assume r: "r = Inr ()"
  from run r obtain sequ s1 lam s2 fresh s3 sess s4 where
    nx: "next_seq (''seq:'' @ peer_string p) (w, []) = (Inr sequ, s1)" and lm: "lamport_next s1 = (Inr lam, s2)" and
    ins: "insert_message E \<lparr>sm_peer = p, sm_id = mid, sm_out = True, sm_seq = of_nat sequ, sm_lam = of_nat lam,
            sm_sent = v_now E, sm_status = StatusQueued, sm_deleted = False, sm_body = Some body,
            sm_sender = None\<rparr> s2 = (Inr fresh, s3)" and
    ld: "load_session E p s3 = (Inr sess, s4)" and
    rest: "(case sess of
       Some st \<Rightarrow>
         if can_send st then
           bnd (encrypt_enqueue E st p mid (of_nat sequ) (of_nat lam) body) (\<lambda>st'. save_session E p st')
         else seq (pending_add p mid (v_now E)) (ensure_handshake E p)
     | None \<Rightarrow> seq (pending_add p mid (v_now E)) (ensure_handshake E p)) s4 = (Inr (), (w', hs))"
    unfolding send_text_tx_def by (auto simp: bnd_Inr_iff)
  have s2: "\<exists>c. s2 = (w\<lparr>w_db := (w_db w)\<lparr>d_ctrs := c\<rparr>\<rparr>, [])"
    using nx lm by (auto simp: next_seq_def lamport_next_def seq_def bnd_def)
  then obtain c where s2: "s2 = (w\<lparr>w_db := (w_db w)\<lparr>d_ctrs := c\<rparr>\<rparr>, [])" ..
  from insert_message_run [OF ins [unfolded s2]] obtain w3 where s3: "s3 = (w3, [])"
    and w3: "d_outbox (w_db w3) = d_outbox (w_db w)" "d_hs (w_db w3) = d_hs (w_db w)" "d_sess (w_db w3) = d_sess (w_db w)"
    by auto
  have h3: "half_open E p (w_db w3)" using h by (simp add: half_open_def w3)
  from half_open_get [OF h3, of "[]"] ld s3 have "sess = None" "s4 = (w3, [])" by auto
  with rest obtain s5 where pa: "pending_add p mid (v_now E) (w3, []) = (Inr (), s5)" and eh: "ensure_handshake E p s5 = (Inr (), (w', hs))"
    by (auto simp: seq_Inr_iff)
  obtain w5 where s5: "s5 = (w5, [])" and w5: "d_outbox (w_db w5) = d_outbox (w_db w3)" "d_hs (w_db w5) = d_hs (w_db w3)"
    "d_sess (w_db w5) = d_sess (w_db w3)" using pa by (auto simp: pending_add_def)
  have h5: "half_open E p (w_db w5)" using h3 w5 by (auto simp: half_open_def)
  with half_open_ensure [OF h5, of "[]"] eh s5 have "w' = w5" by simp
  with h5 w5 w3 show "stuck_step E p w w'" by (auto simp: stuck_step_def)
qed

lemma stuck_same: "half_open E p (w_db w) \<Longrightarrow> w_db w' = w_db w \<Longrightarrow> stuck_step E p w w'"
  by (simp add: stuck_step_def)

lemma stuck_trans: "stuck_step E p w w1 \<Longrightarrow> stuck_step E p w1 w' \<Longrightarrow> stuck_step E p w w'"
  by (simp add: stuck_step_def)

lemma dialog_stuck:
  assumes h: "half_open E p (w_db w)" and less: "chat_less (v_self E) p"
  shows "stuck_step E p w (dialog_step E p op w)"
proof (cases op)
  case (DText body)
  show ?thesis
  proof (cases "new_msg_id (w_rnd w)")
    case (Inl x)
    then show ?thesis using stuck_same [OF h] by (simp add: DText send_text_def)
  next
    case (Inr q)
    obtain mid rnd where q: "q = (mid, rnd)" by (cases q)
    let ?w1 = "w\<lparr>w_rnd := rnd\<rparr>"
    obtain r w2 hs where run: "send_text_tx E p body mid (?w1, []) = (r, (w2, hs))" by (metis prod.collapse)
    have hooks: "hs = []" using movesD [OF sends_text(1) run] by (simp add: sends_def)
    have "half_open E p (w_db ?w1)" using h by simp
    from stuck_text [OF this run] have "r = Inr () \<longrightarrow> stuck_step E p w w2" by (simp add: stuck_step_def)
    then have "stuck_step E p w (snd (run_tx (send_text_tx E p body mid) ?w1))"
      using run h
      by (cases r) (auto simp: run_tx_def run_hooks_def hooks stuck_step_def)
    then show ?thesis using h Inr q
      by (auto simp: DText send_text_def stuck_step_def split: prod.split sum.split)
  qed
next
  case (DSend t body)
  show ?thesis
  proof (cases "new_msg_id (w_rnd w)")
    case (Inl x)
    then show ?thesis using stuck_same [OF h] by (simp add: DSend send_sealed_def)
  next
    case (Inr q)
    obtain mid rnd where q: "q = (mid, rnd)" by (cases q)
    let ?w1 = "w\<lparr>w_rnd := rnd\<rparr>"
    have h1: "half_open E p (w_db ?w1)" using h by simp
    have "run_tx (send_sealed_tx E p t body mid) ?w1 = (Inr True, ?w1)"
      using half_open_get [OF h1, of "[]"] half_open_ensure [OF h1, of "[]"]
      by (simp add: run_tx_def send_sealed_tx_def bnd_def seq_def run_hooks_def)
    then show ?thesis using h Inr q by (simp add: DSend send_sealed_def stuck_step_def)
  qed
next
  case (DInit e)
  from half_open_get [OF h, of "[]"] obtain b where g: "handshake_get E p (w, []) = (Inr (Some b), (w, []))" by blast
  obtain r w' hs where run: "on_session_init E p e (w, []) = (r, (w', hs))" by (metis prod.collapse)
  from init_collision [OF g less run] run show ?thesis
    using stuck_same [OF h, of w'] by (auto simp: DInit run_tx_def run_hooks_def)
next
  case (DChat e)
  from half_open_decrypt [OF h, of e "[]"] obtain w' where "decrypt_incoming E p e (w, []) = (Inr None, (w', []))" "w_db w' = w_db w"
    by blast
  then show ?thesis using stuck_same [OF h, of w'] by (simp add: DChat run_tx_def on_chat_split bnd_def run_hooks_def)
next
  case (DSealed g e)
  from half_open_decrypt [OF h, of e "[]"] obtain w' where "decrypt_incoming E p e (w, []) = (Inr None, (w', []))" "w_db w' = w_db w"
    by blast
  then show ?thesis using stuck_same [OF h, of w'] by (simp add: DSealed run_tx_def register_sealed_def bnd_def run_hooks_def)
qed



end
