(* ===== verification/Callsig.thy ===== *)
theory Callsig
  imports Chat "HOL-Library.Sublist"
begin

text \<open>
  Package callsig: the signalling of calls over ratchet sessions, and the gate
  that lets a media session in only during an accepted call with that peer.
  callsig/manager.go. Calls live in memory, as objects shared by pointer. The
  lock is not held while an offer is being sent: what other goroutines do in
  the meantime is the argument \<open>during\<close> of the two operations that look at the
  current call again afterwards.
\<close>

definition offerRetryInterval :: int where "offerRetryInterval = 1000"
definition offerWaitMax :: int where "offerWaitMax = 30000"

definition call_less :: "peer_id \<Rightarrow> peer_id \<Rightarrow> bool" where
  "call_less a b = less_bytes (id_bytes a) (id_bytes b)"

definition current_call :: "world \<Rightarrow> call option" where
  "current_call w = map_option (w_calls w) (w_call w)"

definition consent :: "peer_id \<Rightarrow> world \<Rightarrow> bool \<times> world" where
  "consent remote w =
     (let ok = (case w_call w of None \<Rightarrow> False
         | Some r \<Rightarrow> c_peer (w_calls w r) = remote \<and> c_state (w_calls w r) = StateActive)
      in (ok, if \<not> ok then bump_w ''callsig.consentRefused'' w else w))"

definition call_busy :: "world \<Rightarrow> bool" where
  "call_busy w \<longleftrightarrow> (case w_call w of None \<Rightarrow> False | Some r \<Rightarrow> c_state (w_calls w r) \<noteq> StateEnded)"

text \<open>Allocation of a call object that becomes the current one.\<close>

definition new_call :: "call \<Rightarrow> world \<Rightarrow> world" where
  "new_call c w = w\<lparr>w_calls := (w_calls w)(w_serial w := c), w_call := Some (w_serial w), w_serial := w_serial w + 1\<rparr>"

definition set_call :: "nat \<Rightarrow> call_state \<Rightarrow> world \<Rightarrow> world" where
  "set_call r s w = w\<lparr>w_calls := (w_calls w)(r := (w_calls w r)\<lparr>c_state := s\<rparr>)\<rparr>"

definition clear_if :: "nat \<Rightarrow> world \<Rightarrow> world" where
  "clear_if r w = (if w_call w = Some r then w\<lparr>w_call := None\<rparr> else w)"

definition emit_state :: "call \<Rightarrow> world \<Rightarrow> world" where
  "emit_state c = emit (OCallState c)"

definition send_answer :: "env \<Rightarrow> peer_id \<Rightarrow> bytes \<Rightarrow> bool \<Rightarrow> world \<Rightarrow> (err + unit) \<times> world" where
  "send_answer E to cid acc w =
     (case marshal (v_panswer E) \<lparr>pa_id = cid, pa_accept = acc\<rparr> of None \<Rightarrow> (Inl ErrMarshal, w)
      | Some payload \<Rightarrow> (case send_sealed E to TypeCallAnswer payload w of
          (Inl e, w') \<Rightarrow> (Inl e, w') | (Inr mid, w') \<Rightarrow> (Inr (), w')))"

section \<open>The user's operations\<close>

text \<open>The flag of the result: the offer waits for a session and is to be retried.\<close>

definition start_call :: "env \<Rightarrow> (world \<Rightarrow> world) \<Rightarrow> peer_id \<Rightarrow> string list \<Rightarrow> world \<Rightarrow> (err + bytes \<times> bool) \<times> world" where
  "start_call E during to codecs w =
     (case read_full 16 (w_rnd w) of None \<Rightarrow> (Inl ErrRand, w)
      | Some (cid, rnd) \<Rightarrow>
        let w0 = w\<lparr>w_rnd := rnd\<rparr> in
        if call_busy w0 then (Inl ErrBusy, w0)
        else let r = w_serial w0;
                 w1 = new_call \<lparr>c_id = cid, c_peer = to, c_state = StateRingingOut, c_out = True, c_codecs = codecs\<rparr> w0 in
          case marshal (v_poffer E) \<lparr>po_id = cid, po_codecs = codecs\<rparr> of
            None \<Rightarrow> (Inl ErrMarshal, clear_if r w1)
          | Some payload \<Rightarrow>
              let q = send_sealed E to TypeCallOffer payload w1; w2 = during (snd q) in
              (case fst q of
                 Inl e \<Rightarrow> if e \<noteq> ErrNoSession then (Inl e, clear_if r w2)
                          else (Inr (cid, True), emit_state (w_calls w2 r) w2)
               | Inr mid \<Rightarrow> (Inr (cid, False), emit_state (w_calls w2 r) w2)))"

text \<open>One turn of offerWhenReady: true if it goes on.\<close>

definition offer_retry :: "env \<Rightarrow> int \<Rightarrow> (world \<Rightarrow> world) \<Rightarrow> nat \<Rightarrow> bytes \<Rightarrow> world \<Rightarrow> bool \<times> world" where
  "offer_retry E deadline during r payload w =
     (if \<not> (w_call w = Some r \<and> c_state (w_calls w r) = StateRingingOut) then (False, w)
      else let to = c_peer (w_calls w r); q = send_sealed E to TypeCallOffer payload w; w2 = during (snd q) in
        case fst q of
          Inr mid \<Rightarrow>
            (if w_call w2 \<noteq> Some r then
               (case marshal (v_phangup E) \<lparr>ph_id = c_id (w_calls w2 r)\<rparr> of None \<Rightarrow> (False, w2)
                | Some hp \<Rightarrow> (False, snd (send_sealed E to TypeCallHangup hp w2)))
             else (False, w2))
        | Inl e \<Rightarrow>
            if e = ErrNoSession \<and> v_now E < deadline then (True, w2)
            else if w_call w2 \<noteq> Some r then (False, w2)
            else let w3 = (set_call r StateEnded w2)\<lparr>w_call := None\<rparr>
              in (False, emit_state (w_calls w3 r) w3))"

text \<open>The loop, over the turns it gets: each has the environment and the interference of its second.\<close>

fun offer_when_ready :: "int \<Rightarrow> nat \<Rightarrow> bytes \<Rightarrow> (env \<times> (world \<Rightarrow> world)) list \<Rightarrow> world \<Rightarrow> bool \<times> world" where
  "offer_when_ready deadline r payload [] w = (True, w)"
| "offer_when_ready deadline r payload ((E, during) # turns) w =
     (case offer_retry E deadline during r payload w of
        (False, w') \<Rightarrow> (False, w') | (True, w') \<Rightarrow> offer_when_ready deadline r payload turns w')"

definition accept_call :: "env \<Rightarrow> bytes \<Rightarrow> world \<Rightarrow> (err + unit) \<times> world" where
  "accept_call E cid w =
     (case w_call w of None \<Rightarrow> (Inl ErrUnknownCall, w)
      | Some r \<Rightarrow>
        if c_id (w_calls w r) \<noteq> cid then (Inl ErrUnknownCall, w)
        else if c_state (w_calls w r) \<noteq> StateRingingIn then (Inl ErrBadState, w)
        else let w1 = set_call r StateActive w; snapshot = w_calls w1 r in
          (case send_answer E (c_peer snapshot) cid True w1 of
             (Inl e, w2) \<Rightarrow> (Inl e, w2) | (Inr u, w2) \<Rightarrow> (Inr (), emit_state snapshot w2)))"

definition reject_call :: "env \<Rightarrow> bytes \<Rightarrow> world \<Rightarrow> (err + unit) \<times> world" where
  "reject_call E cid w =
     (case w_call w of None \<Rightarrow> (Inl ErrUnknownCall, w)
      | Some r \<Rightarrow>
        if c_id (w_calls w r) \<noteq> cid then (Inl ErrUnknownCall, w)
        else if c_state (w_calls w r) \<noteq> StateRingingIn then (Inl ErrBadState, w)
        else let w1 = (set_call r StateEnded w)\<lparr>w_call := None\<rparr>; snapshot = w_calls w1 r in
          (case send_answer E (c_peer snapshot) cid False w1 of
             (Inl e, w2) \<Rightarrow> (Inl e, w2) | (Inr u, w2) \<Rightarrow> (Inr (), emit_state snapshot w2)))"

definition hangup_call :: "env \<Rightarrow> bytes \<Rightarrow> world \<Rightarrow> (err + unit) \<times> world" where
  "hangup_call E cid w =
     (case w_call w of None \<Rightarrow> (Inl ErrUnknownCall, w)
      | Some r \<Rightarrow>
        if c_id (w_calls w r) \<noteq> cid then (Inl ErrUnknownCall, w)
        else let w1 = (set_call r StateEnded w)\<lparr>w_call := None\<rparr>; snapshot = w_calls w1 r in
          case marshal (v_phangup E) \<lparr>ph_id = cid\<rparr> of None \<Rightarrow> (Inl ErrMarshal, w1)
          | Some payload \<Rightarrow>
              let q = send_sealed E (c_peer snapshot) TypeCallHangup payload w1 in
              (case fst q of
                 Inl e \<Rightarrow> if e \<noteq> ErrNoSession then (Inl e, snd q) else (Inr (), emit_state snapshot (snd q))
               | Inr mid \<Rightarrow> (Inr (), emit_state snapshot (snd q))))"

section \<open>The peer's signals\<close>

text \<open>The critical section of onOffer: the new call, or None if we are busy.\<close>

definition take_offer :: "env \<Rightarrow> peer_id \<Rightarrow> pb_offer \<Rightarrow> world \<Rightarrow> call option \<times> world" where
  "take_offer E from pb w =
     (let c = \<lparr>c_id = po_id pb, c_peer = from, c_state = StateRingingIn, c_out = False, c_codecs = po_codecs pb\<rparr> in
      if call_busy w then
        (case current_call w of
           Some cur \<Rightarrow>
             if c_peer cur = from \<and> c_state cur = StateRingingOut \<and> call_less from (v_self E)
             then (Some c, new_call c w) else (None, w)
         | None \<Rightarrow> (None, w))
      else (Some c, new_call c w))"

definition on_offer :: sealed_handler where
  "on_offer E from body =
     (case unmarshal (v_poffer E) body of None \<Rightarrow> bump ''callsig.malformed''
      | Some pb \<Rightarrow>
        if length (po_id pb) \<noteq> 16 \<or> 8 < length (po_codecs pb) then bump ''callsig.malformed''
        else bnd (q_world (\<lambda>w. fst (take_offer E from pb w))) (\<lambda>taken.
          seq (on_world (\<lambda>w. snd (take_offer E from pb w)))
            (case taken of
               None \<Rightarrow> seq (bump ''callsig.busyRejects'')
                 (after_commit (\<lambda>w. snd (send_answer E from (po_id pb) False w)))
             | Some c \<Rightarrow> after_commit (emit (OCallIncoming c)))))"

definition answer_call :: "peer_id \<Rightarrow> pb_answer \<Rightarrow> world \<Rightarrow> call option \<times> world" where
  "answer_call from pb w =
     (case w_call w of None \<Rightarrow> (None, w)
      | Some r \<Rightarrow>
        if c_id (w_calls w r) \<noteq> pa_id pb \<or> c_peer (w_calls w r) \<noteq> from \<or> c_state (w_calls w r) \<noteq> StateRingingOut
        then (None, w)
        else let w1 = (if pa_accept pb then set_call r StateActive w else (set_call r StateEnded w)\<lparr>w_call := None\<rparr>)
          in (Some (w_calls w1 r), w1))"

definition on_answer :: sealed_handler where
  "on_answer E from body =
     (case unmarshal (v_panswer E) body of None \<Rightarrow> bump ''callsig.malformed''
      | Some pb \<Rightarrow>
        if length (pa_id pb) \<noteq> 16 then bump ''callsig.malformed''
        else bnd (q_world (\<lambda>w. fst (answer_call from pb w))) (\<lambda>snapshot.
          seq (on_world (\<lambda>w. snd (answer_call from pb w)))
            (case snapshot of None \<Rightarrow> bump ''callsig.stale'' | Some c \<Rightarrow> after_commit (emit_state c))))"

definition drop_call :: "peer_id \<Rightarrow> pb_hangup \<Rightarrow> world \<Rightarrow> call option \<times> world" where
  "drop_call from pb w =
     (case w_call w of None \<Rightarrow> (None, w)
      | Some r \<Rightarrow>
        if c_id (w_calls w r) \<noteq> ph_id pb \<or> c_peer (w_calls w r) \<noteq> from then (None, w)
        else let w1 = (set_call r StateEnded w)\<lparr>w_call := None\<rparr> in (Some (w_calls w1 r), w1))"

definition on_hangup :: sealed_handler where
  "on_hangup E from body =
     (case unmarshal (v_phangup E) body of None \<Rightarrow> bump ''callsig.malformed''
      | Some pb \<Rightarrow>
        if length (ph_id pb) \<noteq> 16 then bump ''callsig.malformed''
        else bnd (q_world (\<lambda>w. fst (drop_call from pb w))) (\<lambda>snapshot.
          seq (on_world (\<lambda>w. snd (drop_call from pb w)))
            (case snapshot of None \<Rightarrow> bump ''callsig.stale'' | Some c \<Rightarrow> after_commit (emit_state c))))"

section \<open>Handlers are tame\<close>

lemma quiet_send_answer: "quiet_send w (snd (send_answer E to cid acc w))"
  using quiet_send_sealed [of w E to TypeCallAnswer]
  by (auto simp: send_answer_def split: option.split prod.split sum.split) (metis snd_conv)+

lemma call_steps_same [simp]:
  "w_db (snd (take_offer E p pb w)) = w_db w" "w_out (snd (take_offer E p pb w)) = w_out w"
  "w_states (snd (take_offer E p pb w)) = w_states w" "w_online (snd (take_offer E p pb w)) = w_online w"
  "w_db (snd (answer_call p pa w)) = w_db w" "w_out (snd (answer_call p pa w)) = w_out w"
  "w_states (snd (answer_call p pa w)) = w_states w" "w_online (snd (answer_call p pa w)) = w_online w"
  "w_db (snd (drop_call p ph w)) = w_db w" "w_out (snd (drop_call p ph w)) = w_out w"
  "w_states (snd (drop_call p ph w)) = w_states w" "w_online (snd (drop_call p ph w)) = w_online w"
  by (auto simp: take_offer_def answer_call_def drop_call_def new_call_def set_call_def Let_def split: option.split)

lemma tame_hook: "hook_ok h \<Longrightarrow> (\<And>w. w_states (h w) = w_states w) \<Longrightarrow> moves tame (after_commit h)"
  unfolding moves_def
  by (auto simp: tame_def snap_def run_hooks_append db_sends_def peer_state_def peer_row_def)

lemma tame_calls [moves_intros]:
  "moves tame (on_offer E p b)" "moves tame (on_answer E p b)" "moves tame (on_hangup E p b)"
proof -
  have rej: "moves tame (after_commit (\<lambda>w. snd (send_answer E p cid acc w)))" for cid acc
    using quiet_send_hook [of "\<lambda>w. snd (send_answer E p cid acc w)"] quiet_send_answer
    by (intro tame_hook) (simp_all add: quiet_send_def)
  show "moves tame (on_offer E p b)" "moves tame (on_answer E p b)" "moves tame (on_hangup E p b)"
    unfolding on_offer_def on_answer_def on_hangup_def
    by (intro tame_order.moves_rules moves_intros rej; simp add: quiet_hooks emit_state_def)+
qed

end
