(* ===== verification/CallsigThms.thy ===== *)
theory CallsigThms
  imports Callsig ChatThms
begin

text \<open>
  What package callsig promises, over every interleaving of the user's
  operations, the retries of a waiting offer and the peers' signals, failed
  transactions included: consent only after both sides agreed, a hang-up ends
  it, crossing calls leave one, a waiting offer ends. And where it errs: an
  offer whose transaction is rolled back is refused when it comes again.
\<close>

section \<open>Runs\<close>

text \<open>
  The operations, each with the environment of its moment; those that send an
  offer contain what others do meanwhile. The flag of a signal says whether the
  transaction around its handler commits.
\<close>

datatype call_op =
  CStart env peer_id "string list" "call_op list"
  | CRetry env int nat bytes "call_op list"
  | CAccept env bytes
  | CReject env bytes
  | CHangup env bytes
  | COffer env peer_id bytes bool
  | CAnswer env peer_id bytes bool
  | CDrop env peer_id bytes bool

definition deliver :: "sealed_handler \<Rightarrow> bool \<Rightarrow> env \<Rightarrow> peer_id \<Rightarrow> bytes \<Rightarrow> world \<Rightarrow> world" where
  "deliver h commits E from body w =
     (case h E from body (w, []) of (r, (w', hs)) \<Rightarrow>
        if commits \<and> is_ok r then run_hooks hs w' else w'\<lparr>w_db := w_db w\<rparr>)"

fun call_step :: "call_op \<Rightarrow> world \<Rightarrow> world" and call_steps :: "call_op list \<Rightarrow> world \<Rightarrow> world" where
  "call_step (CStart E to codecs ops) w = snd (start_call E (call_steps ops) to codecs w)"
| "call_step (CRetry E deadline r payload ops) w = snd (offer_retry E deadline (call_steps ops) r payload w)"
| "call_step (CAccept E cid) w = snd (accept_call E cid w)"
| "call_step (CReject E cid) w = snd (reject_call E cid w)"
| "call_step (CHangup E cid) w = snd (hangup_call E cid w)"
| "call_step (COffer E from body ok) w = deliver on_offer ok E from body w"
| "call_step (CAnswer E from body ok) w = deliver on_answer ok E from body w"
| "call_step (CDrop E from body ok) w = deliver on_hangup ok E from body w"
| "call_steps [] w = w"
| "call_steps (op # ops) w = call_steps ops (call_step op w)"

text \<open>What was agreed to, in order.\<close>

datatype call_event = Called peer_id | Offered peer_id bytes | Accepted bytes | Answered peer_id bytes

fun event_of :: "call_op \<Rightarrow> call_event list" and events :: "call_op list \<Rightarrow> call_event list" where
  "event_of (CStart E to codecs ops) = Called to # events ops"
| "event_of (CRetry E deadline r payload ops) = events ops"
| "event_of (CAccept E cid) = [Accepted cid]"
| "event_of (COffer E from body ok) =
     (case unmarshal (v_poffer E) body of None \<Rightarrow> [] | Some pb \<Rightarrow> [Offered from (po_id pb)])"
| "event_of (CAnswer E from body ok) =
     (case unmarshal (v_panswer E) body of None \<Rightarrow> []
      | Some pb \<Rightarrow> if pa_accept pb then [Answered from (pa_id pb)] else [])"
| "event_of op = []"
| "events [] = []"
| "events (op # ops) = event_of op @ events ops"

text \<open>The current call is backed by what happened.\<close>

definition backed :: "call_event list \<Rightarrow> call \<Rightarrow> bool" where
  "backed evs c \<longleftrightarrow> (case c_state c of
     StateRingingOut \<Rightarrow> c_out c \<and> subseq [Called (c_peer c)] evs
   | StateRingingIn \<Rightarrow> \<not> c_out c \<and> subseq [Offered (c_peer c) (c_id c)] evs
   | StateActive \<Rightarrow> (if c_out c then subseq [Called (c_peer c), Answered (c_peer c) (c_id c)] evs
       else subseq [Offered (c_peer c) (c_id c), Accepted (c_id c)] evs)
   | StateEnded \<Rightarrow> False)"

definition calls_ok :: "call_event list \<Rightarrow> world \<Rightarrow> bool" where
  "calls_ok evs w \<longleftrightarrow> (\<forall>r. w_call w = Some r \<longrightarrow> r < w_serial w \<and> backed evs (w_calls w r))"

lemma backed_later: "backed evs c \<Longrightarrow> backed (evs @ later) c"
  by (auto simp: backed_def split: call_state.splits if_splits intro: list_emb_prefix)

lemma calls_later: "calls_ok evs w \<Longrightarrow> calls_ok (evs @ later) w"
  by (auto simp: calls_ok_def backed_later)

lemma calls_same: "w_call w' = w_call w \<Longrightarrow> w_calls w' = w_calls w \<Longrightarrow> w_serial w' = w_serial w
    \<Longrightarrow> calls_ok evs w' = calls_ok evs w"
  by (simp add: calls_ok_def)

lemma calls_none: "w_call w = None \<Longrightarrow> calls_ok evs w"
  by (simp add: calls_ok_def)

lemma calls_quiet: "quiet_send w w' \<Longrightarrow> calls_ok evs w' = calls_ok evs w"
  by (rule calls_same) (simp_all add: quiet_send_def)

lemma sealed_calls [simp]:
  "w_call (snd (send_sealed E to t b w)) = w_call w" "w_calls (snd (send_sealed E to t b w)) = w_calls w"
  "w_serial (snd (send_sealed E to t b w)) = w_serial w"
  using quiet_send_sealed [of w E to t b] by (simp_all add: quiet_send_def)

lemma answer_sent_calls [simp]:
  "w_call (snd (send_answer E to cid acc w)) = w_call w" "w_calls (snd (send_answer E to cid acc w)) = w_calls w"
  "w_serial (snd (send_answer E to cid acc w)) = w_serial w"
  using quiet_send_answer [of w E to cid acc] by (simp_all add: quiet_send_def)

lemma calls_update [simp]:
  "w_call (set_call r s w) = w_call w" "w_serial (set_call r s w) = w_serial w"
  "w_calls (set_call r s w) = (w_calls w)(r := (w_calls w r)\<lparr>c_state := s\<rparr>)"
  "w_call (emit_state c w) = w_call w" "w_calls (emit_state c w) = w_calls w" "w_serial (emit_state c w) = w_serial w"
  by (simp_all add: set_call_def emit_state_def)

lemma calls_new: "backed evs c \<Longrightarrow> calls_ok evs (new_call c w)"
  by (simp add: calls_ok_def new_call_def)

section \<open>Every step keeps the current call backed\<close>

lemma snoc_subseq: "subseq [a] evs \<Longrightarrow> subseq [a, b] (evs @ [b])"
  by (metis append_Cons append_Nil list_emb_append_mono subseq_order.order_refl)

text \<open>The usual end of an operation: on success the state is announced.\<close>

lemma snd_announced: "snd (case p of (Inl e, w2) \<Rightarrow> (Inl e, w2) | (Inr u, w2) \<Rightarrow> (Inr (), f w2))
    = (if is_ok (fst p) then f (snd p) else snd p)"
  by (cases p; cases "fst p") auto

lemma accept_ok:
  assumes "calls_ok evs w"
  shows "calls_ok (evs @ [Accepted cid]) (snd (accept_call E cid w))"
proof -
  have "calls_ok (evs @ [Accepted cid]) (set_call r StateActive w)"
    if "w_call w = Some r" "c_id (w_calls w r) = cid" "c_state (w_calls w r) = StateRingingIn" for r
    using assms that by (auto simp: calls_ok_def backed_def intro: snoc_subseq)
  with calls_later [OF assms] show ?thesis
    by (auto simp: accept_call_def Let_def snd_announced calls_ok_def split: option.split)
qed

lemma reject_ok: "calls_ok evs w \<Longrightarrow> calls_ok evs (snd (reject_call E cid w))"
  by (auto simp: reject_call_def Let_def snd_announced calls_ok_def split: option.split)

lemma hangup_ok: "calls_ok evs w \<Longrightarrow> calls_ok evs (snd (hangup_call E cid w))"
  by (auto simp: hangup_call_def Let_def calls_ok_def split: option.split sum.split)

lemma clear_ok: "calls_ok evs w \<Longrightarrow> calls_ok evs (clear_if r w)"
  by (simp add: clear_if_def calls_ok_def)

lemma start_ok:
  assumes "calls_ok evs w" and later: "\<And>v. calls_ok (evs @ [Called to]) v \<Longrightarrow> calls_ok (evs @ [Called to] @ more') (during v)"
  shows "calls_ok (evs @ [Called to] @ more') (snd (start_call E during to codecs w))"
proof (cases "read_full 16 (w_rnd w)")
  case None
  with calls_later [OF assms(1)] show ?thesis by (simp add: start_call_def)
next
  case (Some q)
  obtain cid rnd where q: "q = (cid, rnd)" by (cases q)
  let ?c = "\<lparr>c_id = cid, c_peer = to, c_state = StateRingingOut, c_out = True, c_codecs = codecs\<rparr>"
  let ?w1 = "new_call ?c (w\<lparr>w_rnd := rnd\<rparr>)"
  have "subseq [Called to] (evs @ [Called to])" by (metis append_Nil subseq_drop_many subseq_order.order_refl)
  then have new: "calls_ok (evs @ [Called to]) ?w1" by (intro calls_new) (simp add: backed_def)
  have sent: "calls_ok (evs @ [Called to] @ more') (during (snd (send_sealed E to TypeCallOffer b ?w1)))" for b
    using later [of "snd (send_sealed E to TypeCallOffer b ?w1)"] new by (simp add: calls_ok_def)
  have announced: "calls_ok e (emit_state c v) = calls_ok e v" for e c v by (simp add: calls_ok_def)
  show ?thesis
    using calls_later [OF assms(1), of "Called to # more'"] calls_later [OF clear_ok [OF new], of more'] sent [THEN clear_ok]
      sent calls_same [of "w\<lparr>w_rnd := rnd\<rparr>" w]
    by (auto simp: start_call_def Some q Let_def announced split: option.split sum.split)
qed

lemma retry_ok:
  assumes "calls_ok evs w" and later: "\<And>v. calls_ok evs v \<Longrightarrow> calls_ok (evs @ more') (during v)"
  shows "calls_ok (evs @ more') (snd (offer_retry E deadline during r payload w))"
proof -
  have sent: "calls_ok (evs @ more') (during (snd (send_sealed E to t b w)))" for to t b
    using later [of "snd (send_sealed E to t b w)"] assms(1) by (simp add: calls_ok_def)
  have sent2: "calls_ok (evs @ more') (snd (send_sealed E to' t' b' (during (snd (send_sealed E to t b w)))))" for to t b to' t' b'
    using sent by (simp add: calls_ok_def)
  show ?thesis
    using calls_later [OF assms(1), of more'] sent sent2
    by (auto simp: offer_retry_def Let_def calls_none split: option.split sum.split)
qed

text \<open>Signals: the memory is the same whether the transaction commits or not.\<close>

lemma deliver_calls:
  assumes "h E from body (w, []) = (r, (w', hs))"
    and "\<And>x. x \<in> set hs \<Longrightarrow> (\<forall>v. w_call (x v) = w_call v \<and> w_calls (x v) = w_calls v \<and> w_serial (x v) = w_serial v)"
    and "calls_ok evs w'"
  shows "calls_ok evs (deliver h ok E from body w)"
proof -
  have "calls_ok evs v \<Longrightarrow> calls_ok evs (run_hooks hs v)" for v
    using assms(2) unfolding run_hooks_def
    by (induction hs arbitrary: v) (auto simp: calls_ok_def)
  with assms(1,3) show ?thesis by (simp add: deliver_def calls_ok_def)
qed

lemma offer_run: "unmarshal (v_poffer E) body = Some pb \<Longrightarrow> length (po_id pb) = 16 \<Longrightarrow> length (po_codecs pb) \<le> 8 \<Longrightarrow>
    on_offer E from body (w, hs) = (Inr (), case take_offer E from pb w of
      (None, w1) \<Rightarrow> (bump_w ''callsig.busyRejects'' w1, hs @ [\<lambda>w. snd (send_answer E from (po_id pb) False w)])
    | (Some c, w1) \<Rightarrow> (w1, hs @ [emit (OCallIncoming c)]))"
  by (cases "take_offer E from pb w") (auto simp: on_offer_def split: option.split)

lemma offer_rubbish: "unmarshal (v_poffer E) body = None \<or> (\<exists>pb. unmarshal (v_poffer E) body = Some pb
      \<and> (length (po_id pb) \<noteq> 16 \<or> 8 < length (po_codecs pb))) \<Longrightarrow>
    on_offer E from body (w, hs) = (Inr (), (bump_w ''callsig.malformed'' w, hs))"
  by (auto simp: on_offer_def)

lemma take_offer_ok:
  assumes "calls_ok evs w" "subseq [Offered from (po_id pb)] evs"
  shows "calls_ok evs (snd (take_offer E from pb w))"
  using assms(1) calls_new [of evs _ w] assms(2)
  by (auto simp: take_offer_def Let_def backed_def split: option.split)

lemma offer_ok:
  assumes "calls_ok evs w"
  shows "calls_ok (evs @ event_of (COffer E from body ok)) (deliver on_offer ok E from body w)"
proof (cases "unmarshal (v_poffer E) body = None \<or> (\<exists>pb. unmarshal (v_poffer E) body = Some pb
      \<and> (length (po_id pb) \<noteq> 16 \<or> 8 < length (po_codecs pb)))")
  case True
  from offer_rubbish [OF True] show ?thesis
    by (rule deliver_calls) (use calls_later [OF assms] in \<open>simp_all add: calls_ok_def\<close>)
next
  case False
  then obtain pb where pb: "unmarshal (v_poffer E) body = Some pb" "length (po_id pb) = 16" "length (po_codecs pb) \<le> 8"
    by (auto simp: not_less)
  let ?evs = "evs @ [Offered from (po_id pb)]"
  have ok': "calls_ok ?evs (snd (take_offer E from pb w))"
    by (rule take_offer_ok [OF calls_later [OF assms]]) (metis append_Nil subseq_drop_many subseq_order.order_refl)
  obtain c w1 where c: "take_offer E from pb w = (c, w1)" by fastforce
  have "calls_ok ?evs (deliver on_offer ok E from body w)"
  proof (cases c)
    case None
    have "on_offer E from body (w, []) = (Inr (), (bump_w ''callsig.busyRejects'' w1,
        [\<lambda>w. snd (send_answer E from (po_id pb) False w)]))"
      using offer_run [OF pb] c None by simp
    then show ?thesis by (rule deliver_calls) (use ok' c in \<open>auto simp: calls_ok_def\<close>)
  next
    case (Some x)
    have "on_offer E from body (w, []) = (Inr (), (w1, [emit (OCallIncoming x)]))"
      using offer_run [OF pb] c Some by simp
    then show ?thesis by (rule deliver_calls) (use ok' c in \<open>auto simp: calls_ok_def\<close>)
  qed
  then show ?thesis by (simp add: pb)
qed

lemma answer_run: "unmarshal (v_panswer E) body = Some pb \<Longrightarrow> length (pa_id pb) = 16 \<Longrightarrow>
    on_answer E from body (w, []) = (Inr (), case answer_call from pb w of
      (None, w1) \<Rightarrow> (bump_w ''callsig.stale'' w1, []) | (Some c, w1) \<Rightarrow> (w1, [emit_state c]))"
  by (cases "answer_call from pb w") (auto simp: on_answer_def split: option.split)

lemma answer_rubbish: "unmarshal (v_panswer E) body = None \<or> (\<exists>pb. unmarshal (v_panswer E) body = Some pb
      \<and> length (pa_id pb) \<noteq> 16) \<Longrightarrow>
    on_answer E from body (w, hs) = (Inr (), (bump_w ''callsig.malformed'' w, hs))"
  by (auto simp: on_answer_def)

lemma drop_run: "unmarshal (v_phangup E) body = Some pb \<Longrightarrow> length (ph_id pb) = 16 \<Longrightarrow>
    on_hangup E from body (w, []) = (Inr (), case drop_call from pb w of
      (None, w1) \<Rightarrow> (bump_w ''callsig.stale'' w1, []) | (Some c, w1) \<Rightarrow> (w1, [emit_state c]))"
  by (cases "drop_call from pb w") (auto simp: on_hangup_def split: option.split)

lemma drop_rubbish: "unmarshal (v_phangup E) body = None \<or> (\<exists>pb. unmarshal (v_phangup E) body = Some pb
      \<and> length (ph_id pb) \<noteq> 16) \<Longrightarrow>
    on_hangup E from body (w, hs) = (Inr (), (bump_w ''callsig.malformed'' w, hs))"
  by (auto simp: on_hangup_def)

lemma stale_or_announced:
  assumes "h E from body (w, []) = (Inr (), case x of
      (None, w1) \<Rightarrow> (bump_w ''callsig.stale'' w1, []) | (Some c, w1) \<Rightarrow> (w1, [emit_state c]))"
    and "calls_ok evs (snd x)"
  shows "calls_ok evs (deliver h ok E from body w)"
proof (cases x)
  case (Pair c w1)
  show ?thesis
  proof (cases c)
    case None
    with assms(1) Pair have "h E from body (w, []) = (Inr (), (bump_w ''callsig.stale'' w1, []))" by simp
    then show ?thesis by (rule deliver_calls) (use assms(2) Pair in \<open>auto simp: calls_ok_def\<close>)
  next
    case (Some y)
    with assms(1) Pair have "h E from body (w, []) = (Inr (), (w1, [emit_state y]))" by simp
    then show ?thesis by (rule deliver_calls) (use assms(2) Pair in \<open>auto simp: calls_ok_def\<close>)
  qed
qed

lemma answer_call_ok:
  assumes "calls_ok evs w"
  shows "calls_ok (evs @ (if pa_accept pb then [Answered from (pa_id pb)] else [])) (snd (answer_call from pb w))"
proof -
  have "calls_ok (evs @ [Answered from (pa_id pb)]) (set_call r StateActive w)"
    if "w_call w = Some r" "c_id (w_calls w r) = pa_id pb" "c_peer (w_calls w r) = from"
      "c_state (w_calls w r) = StateRingingOut" for r
    using assms that by (auto simp: calls_ok_def backed_def intro: snoc_subseq)
  with assms calls_later [OF assms] show ?thesis
    by (auto simp: answer_call_def Let_def calls_none split: option.split)
qed

lemma answer_ok:
  assumes "calls_ok evs w"
  shows "calls_ok (evs @ event_of (CAnswer E from body ok)) (deliver on_answer ok E from body w)"
proof (cases "unmarshal (v_panswer E) body = None \<or> (\<exists>pb. unmarshal (v_panswer E) body = Some pb \<and> length (pa_id pb) \<noteq> 16)")
  case True
  from answer_rubbish [OF True] show ?thesis
    by (rule deliver_calls) (use calls_later [OF assms] in \<open>simp_all add: calls_ok_def\<close>)
next
  case False
  then obtain pb where pb: "unmarshal (v_panswer E) body = Some pb" "length (pa_id pb) = 16" by auto
  from stale_or_announced [of on_answer E "from" body w "answer_call from pb w", OF answer_run [OF pb] answer_call_ok [OF assms]] show ?thesis by (simp add: pb)
qed

lemma drop_ok:
  assumes "calls_ok evs w"
  shows "calls_ok evs (deliver on_hangup ok E from body w)"
proof (cases "unmarshal (v_phangup E) body = None \<or> (\<exists>pb. unmarshal (v_phangup E) body = Some pb \<and> length (ph_id pb) \<noteq> 16)")
  case True
  from drop_rubbish [OF True] show ?thesis
    by (rule deliver_calls) (use assms in \<open>simp_all add: calls_ok_def\<close>)
next
  case False
  then obtain pb where pb: "unmarshal (v_phangup E) body = Some pb" "length (ph_id pb) = 16" by auto
  have "calls_ok evs (snd (drop_call from pb w))"
    using assms by (auto simp: drop_call_def Let_def calls_none split: option.split)
  from stale_or_announced [of on_hangup E "from" body w "drop_call from pb w", OF drop_run [OF pb] this] show ?thesis .
qed

lemma call_steps_ok:
  "calls_ok evs w \<Longrightarrow> calls_ok (evs @ event_of op) (call_step op w)"
  "calls_ok evs w \<Longrightarrow> calls_ok (evs @ events ops) (call_steps ops w)"
proof (induction op and ops arbitrary: evs w and evs w rule: event_of_events.induct)
  case (1 E to codecs ops)
  have "calls_ok (evs @ [Called to] @ events ops) (call_steps ops v)" if "calls_ok (evs @ [Called to]) v" for v
    using 1(1) [OF that] by simp
  from start_ok [OF 1(2) this] show ?case by simp
next
  case (2 E deadline r payload ops)
  from retry_ok [OF 2(2), of "events ops" "call_steps ops"] 2(1) show ?case by simp
qed (simp_all only: event_of.simps events.simps call_step.simps call_steps.simps accept_ok reject_ok hangup_ok append_Nil2
    offer_ok [unfolded event_of.simps] answer_ok [unfolded event_of.simps] drop_ok append_assoc [symmetric])

section \<open>Consent\<close>

lemma consent_iff: "fst (consent p w) \<longleftrightarrow> (\<exists>c. current_call w = Some c \<and> c_peer c = p \<and> c_state c = StateActive)"
  by (auto simp: consent_def current_call_def Let_def split: option.split)

text \<open>
  C28. A media session is let in only after both sides agreed. Start from a node
  without calls and let anything happen, in any interleaving: the user starting,
  accepting, rejecting and hanging up, waiting offers being retried, offers,
  answers and hang-ups of any peers with any bytes, some of them in transactions
  that are rolled back. Whenever the gate lets a peer in, then either we called
  that peer and it answered yes to that very call afterwards, or it offered this
  call and the user then accepted it.
\<close>

theorem consent_needs_both_sides:
  assumes "w_call w = None" and "fst (consent p (call_steps ops w))"
  shows "\<exists>c. current_call (call_steps ops w) = Some c \<and> c_peer c = p
    \<and> (if c_out c then subseq [Called p, Answered p (c_id c)] (events ops)
       else subseq [Offered p (c_id c), Accepted (c_id c)] (events ops))"
proof -
  from assms(2) obtain r where r: "w_call (call_steps ops w) = Some r" and
    c: "c_peer (w_calls (call_steps ops w) r) = p" "c_state (w_calls (call_steps ops w) r) = StateActive"
    by (auto simp: consent_iff current_call_def)
  from call_steps_ok(2) [OF calls_none [OF assms(1)], of "[]" ops] r
  have "backed (events ops) (w_calls (call_steps ops w) r)" by (simp add: calls_ok_def)
  with c r show ?thesis by (auto simp: backed_def current_call_def split: if_splits)
qed

definition demo_callee :: env where
  "demo_callee = demo_env\<lparr>v_poffer := one_pb [5] \<lparr>po_id = replicate 16 9, po_codecs = [''opus'']\<rparr>\<rparr>"

definition demo_caller_id :: peer_id where "demo_caller_id = PeerID (replicate 32 2)"

definition demo_ringing :: world where
  "demo_ringing = new_call \<lparr>c_id = replicate 16 9, c_peer = demo_caller_id, c_state = StateRingingIn, c_out = False,
     c_codecs = [''opus'']\<rparr> (new_world [])"

lemma demo_offer: "deliver on_offer True demo_callee demo_caller_id [5] (new_world [])
    = emit (OCallIncoming \<lparr>c_id = replicate 16 9, c_peer = demo_caller_id, c_state = StateRingingIn, c_out = False,
        c_codecs = [''opus'']\<rparr>) demo_ringing"
  by (simp add: deliver_def demo_callee_def on_offer_def take_offer_def call_busy_def demo_ringing_def Let_def
      new_world_def run_hooks_def demo_env_def)

theorem consent_needs_both_sides_witness:
  "fst (consent demo_caller_id (call_steps [COffer demo_callee demo_caller_id [5] True, CAccept demo_callee (replicate 16 9)] (new_world [])))
   \<and> subseq [Offered demo_caller_id (replicate 16 9), Accepted (replicate 16 9)]
       (events [COffer demo_callee demo_caller_id [5] True, CAccept demo_callee (replicate 16 9)])"
proof -
  let ?ops = "[COffer demo_callee demo_caller_id [5] True, CAccept demo_callee (replicate 16 9)]"
  let ?w = "call_steps ?ops (new_world [])"
  have "?w = snd (accept_call demo_callee (replicate 16 9) (deliver on_offer True demo_callee demo_caller_id [5] (new_world [])))"
    by simp
  then have w: "w_call ?w = Some 0" "c_peer (w_calls ?w 0) = demo_caller_id" "c_state (w_calls ?w 0) = StateActive"
    "c_id (w_calls ?w 0) = replicate 16 9" "\<not> c_out (w_calls ?w 0)"
    unfolding demo_offer
    by (simp_all add: accept_call_def demo_ringing_def new_call_def new_world_def Let_def snd_announced)
  then have "fst (consent demo_caller_id ?w)" by (auto simp: consent_iff current_call_def)
  moreover have "w_call (new_world []) = None" by (simp add: new_world_def)
  ultimately show ?thesis
    using consent_needs_both_sides [of "new_world []" demo_caller_id ?ops] w
    by (auto simp: current_call_def)
qed

section \<open>A third party, and the end of a call\<close>

lemma offer_busy:
  assumes "call_busy w" "current_call w = Some c" "c_peer c \<noteq> from"
  shows "take_offer E from pb w = (None, w)"
  using assms by (simp add: take_offer_def Let_def)

lemma run_busy_hook: "w_call (run_hooks [\<lambda>w. snd (send_answer E p cid acc w)] v) = w_call v
    \<and> w_calls (run_hooks [\<lambda>w. snd (send_answer E p cid acc w)] v) = w_calls v"
  by (simp add: run_hooks_def)

text \<open>
  Only the two parties of a call can change it. While a call with one peer
  is under way, nothing another peer sends (offers, answers, hang-ups, rubbish;
  committed or rolled back) changes the current call or the gate, and the other
  peer's offer is refused as busy; the user's commands about any other call
  identifier fail without effect. The two parties can always end it: after the
  user hangs up, or a hang-up of the peer for this call, the gate refuses
  everyone, even if the notification of the other side cannot be sent.
\<close>

theorem only_the_parties_change_a_call:
  assumes cur: "current_call w = Some c" and live: "c_state c \<noteq> StateEnded"
  shows "(q \<noteq> c_peer c \<longrightarrow> (\<forall>h \<in> {on_offer, on_answer, on_hangup}.
        current_call (deliver h ok E q body w) = Some c \<and> w_call (deliver h ok E q body w) = w_call w))
    \<and> (cid \<noteq> c_id c \<longrightarrow> accept_call E cid w = (Inl ErrUnknownCall, w)
        \<and> reject_call E cid w = (Inl ErrUnknownCall, w) \<and> hangup_call E cid w = (Inl ErrUnknownCall, w))
    \<and> (\<forall>p. \<not> fst (consent p (snd (hangup_call E (c_id c) w))))
    \<and> (unmarshal (v_phangup E) body = Some \<lparr>ph_id = c_id c\<rparr> \<longrightarrow> length (c_id c) = 16
        \<longrightarrow> (\<forall>p. \<not> fst (consent p (deliver on_hangup ok E (c_peer c) body w))))"
proof -
  from cur obtain r where r: "w_call w = Some r" "w_calls w r = c" by (auto simp: current_call_def)
  have busy: "call_busy w" using r live by (simp add: call_busy_def)
  have stay: "current_call v = Some c \<and> w_call v = w_call w" if "w_call v = w_call w" "w_calls v = w_calls w" for v
    using that r by (simp add: current_call_def)
  have "current_call (deliver h ok E q body w) = Some c \<and> w_call (deliver h ok E q body w) = w_call w"
    if q: "q \<noteq> c_peer c" and h: "h \<in> {on_offer, on_answer, on_hangup}" for h
  proof -
    have "answer_call q pb w = (None, w)" "drop_call q ph w = (None, w)" for pb ph
      using r q by (simp_all add: answer_call_def drop_call_def)
    then have "\<exists>w' hs. h E q body (w, []) = (Inr (), (w', hs)) \<and> w_call w' = w_call w \<and> w_calls w' = w_calls w
        \<and> hs \<in> {[], [\<lambda>w. snd (send_answer E q (po_id (the (unmarshal (v_poffer E) body))) False w)]}"
      using h offer_busy [OF busy cur q [symmetric]]
      by (auto simp: on_offer_def on_answer_def on_hangup_def split: option.split)
    then show ?thesis using run_busy_hook by (auto simp: deliver_def run_hooks_def intro!: stay)
  qed
  moreover have "\<not> fst (consent p (snd (hangup_call E (c_id c) w)))" for p
    using r by (auto simp: hangup_call_def Let_def consent_def split: option.split sum.split)
  moreover have "\<not> fst (consent p (deliver on_hangup ok E (c_peer c) body w))"
    if "unmarshal (v_phangup E) body = Some \<lparr>ph_id = c_id c\<rparr>" "length (c_id c) = 16" for p
    using r that drop_run [OF that(1), of "c_peer c" w]
    by (simp add: drop_call_def Let_def deliver_def run_hooks_def consent_def)
  moreover have "cid \<noteq> c_id c \<longrightarrow> accept_call E cid w = (Inl ErrUnknownCall, w)
        \<and> reject_call E cid w = (Inl ErrUnknownCall, w) \<and> hangup_call E cid w = (Inl ErrUnknownCall, w)"
    using r by (simp add: accept_call_def reject_call_def hangup_call_def)
  ultimately show ?thesis by blast
qed

theorem only_the_parties_change_a_call_witness:
  "current_call (deliver on_hangup True demo_callee (PeerID (replicate 32 7)) [5] demo_ringing) = current_call demo_ringing"
proof -
  have "current_call demo_ringing = Some \<lparr>c_id = replicate 16 9, c_peer = demo_caller_id, c_state = StateRingingIn,
      c_out = False, c_codecs = [''opus'']\<rparr>"
    by (simp add: demo_ringing_def new_call_def new_world_def current_call_def)
  from only_the_parties_change_a_call [OF this, of "PeerID (replicate 32 7)" True demo_callee "[5]" "[]"] this
  show ?thesis by (simp add: demo_caller_id_def)
qed

section \<open>Crossing calls\<close>

interpretation call_order: tie_break call_less wf_peer
proof unfold_locales
  show "\<not> call_less p p" for p by (simp add: call_less_def less_bytes_irrefl)
  show "call_less p q \<Longrightarrow> \<not> call_less q p" for p q
    by (simp add: call_less_def less_bytes_asym)
  show "wf_peer p \<Longrightarrow> wf_peer q \<Longrightarrow> p \<noteq> q \<Longrightarrow> call_less p q \<or> call_less q p" for p q
    using chat_order.lt_total [of p q] by (simp add: call_less_def chat_less_def)
qed

lemma deliver_answer:
  assumes "unmarshal (v_panswer E) body = Some pb" "length (pa_id pb) = 16"
  shows "current_call (deliver on_answer ok E p body w) = current_call (snd (answer_call p pb w))"
proof -
  obtain c w1 where c: "answer_call p pb w = (c, w1)" by fastforce
  show ?thesis
    using answer_run [OF assms, of p w] c
    by (cases c) (simp_all add: deliver_def run_hooks_def current_call_def)
qed

lemma deliver_offer:
  assumes "unmarshal (v_poffer E) body = Some pb" "length (po_id pb) = 16" "length (po_codecs pb) \<le> 8"
  shows "current_call (deliver on_offer ok E p body w) = current_call (snd (take_offer E p pb w))"
proof -
  obtain c w1 where c: "take_offer E p pb w = (c, w1)" by fastforce
  show ?thesis
    using offer_run [OF assms, of p w "[]"] c
    by (cases c) (simp_all add: deliver_def run_hooks_def current_call_def)
qed

text \<open>
  Crossing calls: two peers call each other at once, and each receives the
  other's offer while its own call rings. The call of the smaller identifier
  survives on both sides: its owner keeps its call, the other replaces its own by
  the incoming one, so both hold the same call identifier; the automatic
  rejection of the call that lost has no effect when it arrives; and once the
  callee's acceptance arrives, both gates let each other in.
\<close>

theorem crossing_calls_leave_one:
  assumes less: "call_less (v_self A) (v_self B)"
    and a: "current_call w = Some \<lparr>c_id = ida, c_peer = v_self B, c_state = StateRingingOut, c_out = True, c_codecs = ca\<rparr>"
    and b: "current_call v = Some \<lparr>c_id = idb, c_peer = v_self A, c_state = StateRingingOut, c_out = True, c_codecs = cb\<rparr>"
    and offers: "unmarshal (v_poffer B) offa = Some \<lparr>po_id = ida, po_codecs = ca\<rparr>"
      "unmarshal (v_poffer A) offb = Some \<lparr>po_id = idb, po_codecs = cb\<rparr>"
    and answers: "unmarshal (v_panswer B) no = Some \<lparr>pa_id = idb, pa_accept = False\<rparr>"
      "unmarshal (v_panswer A) yes = Some \<lparr>pa_id = ida, pa_accept = True\<rparr>"
    and sizes: "length ida = 16" "length idb = 16" "ida \<noteq> idb" "length ca \<le> 8" "length cb \<le> 8"
  shows "let w1 = deliver on_offer oka A (v_self B) offb w; v1 = deliver on_offer okb B (v_self A) offa v;
      v2 = deliver on_answer okc B (v_self A) no v1; v3 = snd (accept_call B ida v2);
      w2 = deliver on_answer okd A (v_self B) yes w1
    in current_call w1 = current_call w
     \<and> current_call v1 = Some \<lparr>c_id = ida, c_peer = v_self A, c_state = StateRingingIn, c_out = False, c_codecs = ca\<rparr>
     \<and> current_call v2 = current_call v1
     \<and> fst (consent (v_self A) v3) \<and> fst (consent (v_self B) w2)"
proof -
  define w1 where "w1 = deliver on_offer oka A (v_self B) offb w"
  define v1 where "v1 = deliver on_offer okb B (v_self A) offa v"
  define v2 where "v2 = deliver on_answer okc B (v_self A) no v1"
  define w2 where "w2 = deliver on_answer okd A (v_self B) yes w1"
  let ?in = "\<lparr>c_id = ida, c_peer = v_self A, c_state = StateRingingIn, c_out = False, c_codecs = ca\<rparr>"
  have not: "\<not> call_less (v_self B) (v_self A)" using less by (simp add: call_less_def less_bytes_asym)
  from a have busyw: "call_busy w" by (auto simp: call_busy_def current_call_def)
  from b have busyv: "call_busy v" by (auto simp: call_busy_def current_call_def)
  have w1: "current_call w1 = current_call w"
    unfolding w1_def using deliver_offer [OF offers(2), of oka "v_self B" w] sizes not a busyw
    by (simp add: take_offer_def Let_def)
  have v1: "current_call v1 = Some ?in"
    unfolding v1_def using deliver_offer [OF offers(1), of okb "v_self A" v] sizes less b busyv
    by (simp add: take_offer_def Let_def) (simp add: current_call_def new_call_def)
  then obtain r where r: "w_call v1 = Some r" "w_calls v1 r = ?in" by (auto simp: current_call_def)
  have v2: "current_call v2 = current_call v1"
    unfolding v2_def using deliver_answer [OF answers(1), of okc "v_self A" v1] sizes r
    by (simp add: answer_call_def)
  with v1 obtain r2 where r2: "w_call v2 = Some r2" "w_calls v2 r2 = ?in" by (auto simp: current_call_def)
  then have "fst (consent (v_self A) (snd (accept_call B ida v2)))"
    by (simp add: consent_iff current_call_def accept_call_def Let_def snd_announced)
  moreover have "fst (consent (v_self B) w2)"
    unfolding w2_def using deliver_answer [OF answers(2), of okd "v_self B" w1] sizes w1 a
    by (auto simp: consent_iff answer_call_def Let_def current_call_def)
  ultimately show ?thesis
    using w1 v1 v2 by (simp add: w1_def v1_def v2_def w2_def Let_def)
qed

definition demo_side :: "peer_id \<Rightarrow> bytes \<Rightarrow> pb_answer \<Rightarrow> env" where
  "demo_side self other a = demo_env\<lparr>v_self := self, v_poffer := one_pb [5] \<lparr>po_id = other, po_codecs = []\<rparr>,
     v_panswer := one_pb [6] a\<rparr>"

definition demo_calling :: "peer_id \<Rightarrow> bytes \<Rightarrow> world" where
  "demo_calling to cid = new_call \<lparr>c_id = cid, c_peer = to, c_state = StateRingingOut, c_out = True, c_codecs = []\<rparr> (new_world [])"

theorem crossing_calls_leave_one_witness:
  "let A = demo_side (PeerID [1]) (replicate 16 8) \<lparr>pa_id = replicate 16 7, pa_accept = True\<rparr>;
       B = demo_side (PeerID [2]) (replicate 16 7) \<lparr>pa_id = replicate 16 8, pa_accept = False\<rparr>
   in map_option c_id (current_call (deliver on_offer True A (PeerID [2]) [5] (demo_calling (PeerID [2]) (replicate 16 7))))
    = map_option c_id (current_call (deliver on_offer True B (PeerID [1]) [5] (demo_calling (PeerID [1]) (replicate 16 8))))"
proof -
  let ?A = "demo_side (PeerID [1]) (replicate 16 8) \<lparr>pa_id = replicate 16 7, pa_accept = True\<rparr>"
  let ?B = "demo_side (PeerID [2]) (replicate 16 7) \<lparr>pa_id = replicate 16 8, pa_accept = False\<rparr>"
  have "call_less (v_self ?A) (v_self ?B)" by (simp add: call_less_def demo_side_def)
  moreover have "current_call (demo_calling (PeerID [2]) (replicate 16 7)) = Some \<lparr>c_id = replicate 16 7, c_peer = v_self ?B,
      c_state = StateRingingOut, c_out = True, c_codecs = []\<rparr>"
    "current_call (demo_calling (PeerID [1]) (replicate 16 8)) = Some \<lparr>c_id = replicate 16 8, c_peer = v_self ?A,
      c_state = StateRingingOut, c_out = True, c_codecs = []\<rparr>"
    by (simp_all add: demo_calling_def new_call_def new_world_def current_call_def demo_side_def)
  moreover have "unmarshal (v_poffer ?B) [5] = Some \<lparr>po_id = replicate 16 7, po_codecs = []\<rparr>"
    "unmarshal (v_poffer ?A) [5] = Some \<lparr>po_id = replicate 16 8, po_codecs = []\<rparr>"
    "unmarshal (v_panswer ?B) [6] = Some \<lparr>pa_id = replicate 16 8, pa_accept = False\<rparr>"
    "unmarshal (v_panswer ?A) [6] = Some \<lparr>pa_id = replicate 16 7, pa_accept = True\<rparr>"
    by (simp_all add: demo_side_def)
  moreover have "replicate 16 7 \<noteq> (replicate 16 8 :: bytes)" by (simp add: eval_nat_numeral)
  ultimately show ?thesis
    using crossing_calls_leave_one [where A = ?A and B = ?B and ida = "replicate 16 7" and idb = "replicate 16 8"
        and oka = True and okb = True]
    by (simp add: Let_def demo_side_def)
qed

section \<open>A waiting offer\<close>

lemma sealed_sent:
  assumes "send_sealed E to t b w = (Inr mid, w')"
  shows "queued to mid (w_db w') \<and> \<not> queued to mid (w_db w)"
proof -
  from assms obtain rnd where rnd: "new_msg_id (w_rnd w) = Inr (mid, rnd)" and
    tx: "fst (run_tx (send_sealed_tx E to t b mid) (w\<lparr>w_rnd := rnd\<rparr>)) = Inr False"
    and w': "w' = flush to (snd (run_tx (send_sealed_tx E to t b mid) (w\<lparr>w_rnd := rnd\<rparr>)))"
    by (auto simp: send_sealed_def split: if_splits sum.splits prod.splits)
  let ?w = "w\<lparr>w_rnd := rnd\<rparr>"
  obtain r v hs where run: "send_sealed_tx E to t b mid (?w, []) = (r, (v, hs))" by (metis prod.collapse)
  with tx have r: "r = Inr False" by (cases r) (simp_all add: run_tx_def)
  have hs: "hs = []" using movesD [OF sends_text(2) run] by (simp add: sends_def)
  from run [unfolded send_sealed_tx_def r] obtain sess s1 where
    s1: "load_session E to (?w, []) = (Inr sess, s1)" and
    rest: "(case sess of None \<Rightarrow> seq (ensure_handshake E to) (ret True)
     | Some st \<Rightarrow>
        if \<not> can_send st then seq (ensure_handshake E to) (ret True)
        else bnd (res (map_err ErrRatchet (encrypt (v_crypto E) st b))) (\<lambda>(rm, st').
          bnd (res (map_err ErrRatchet (encode_message (v_pmsg E) rm))) (\<lambda>payload.
          seq (enqueue_tx E to (chat_envelope mid t payload))
         (seq (save_session E to st') (ret False))))) s1 = (Inr False, (v, hs))"
    by (auto simp: bnd_Inr_iff)
  have s1': "s1 = (?w, [])" using load_session_frame [of E to "(?w, [])"] s1 by simp
  from rest obtain st where st: "sess = Some st" "can_send st"
    by (auto simp: seq_Inr_iff split: option.splits if_splits)
  with rest obtain st' payload s2 s3 where
    enq: "enqueue_tx E to (chat_envelope mid t payload) (?w, []) = (Inr (), s2)" and
    save: "save_session E to st' s2 = (Inr (), s3)" and v: "s3 = (v, hs)"
    by (auto simp: bnd_Inr_iff seq_Inr_iff s1' split: prod.splits)
  from enq obtain frame where enq': "outbox_enqueue E to mid frame (?w, []) = (Inr (), s2)"
    by (auto simp: enqueue_tx_def bnd_Inr_iff chat_envelope_def)
  from outbox_enqueue_run [OF enq'] have "queued to mid (w_db (fst s2))"
    by (auto simp: queued_def outbox_key_def)
  moreover have "\<exists>rows. d_outbox (w_db v) = d_outbox (w_db (fst s2)) @ rows"
    using movesD [OF sends_session(2) save] v by (simp add: sends_def db_sends_def)
  ultimately have "queued to mid (w_db v)" by (auto simp: queued_def)
  moreover have "\<not> queued to mid (w_db w)"
    using enq' by (auto simp: outbox_enqueue_def bnd_Inr_iff queued_def dest!: box_seal_run)
  ultimately show ?thesis using run hs r w' by (simp add: run_tx_def run_hooks_def)
qed

lemma retry_late:
  assumes "deadline \<le> v_now E"
  shows "fst (offer_retry E deadline during r payload w) = False"
  using assms by (simp add: offer_retry_def Let_def split: option.split sum.split)

lemma loop_ends:
  assumes "\<exists>t \<in> set turns. deadline \<le> v_now (fst t)"
  shows "fst (offer_when_ready deadline r payload turns w) = False"
  using assms
proof (induction turns arbitrary: w)
  case (Cons t turns)
  obtain E during where t: "t = (E, during)" by (cases t)
  obtain on w' where step: "offer_retry E deadline during r payload w = (on, w')" by fastforce
  show ?case
  proof (cases on)
    case True
    then have "\<not> deadline \<le> v_now E" using retry_late [of deadline E during r payload w] step by auto
    with Cons show ?thesis using True t step by simp
  qed (use t step in simp)
qed simp

lemma retry_alone:
  assumes "w_call w = Some r" "c_state (w_calls w r) = StateRingingOut"
  shows "offer_retry E deadline (\<lambda>w. w) r payload w =
    (let q = send_sealed E (c_peer (w_calls w r)) TypeCallOffer payload w in
     case fst q of Inr mid \<Rightarrow> (False, snd q)
     | Inl e \<Rightarrow> if e = ErrNoSession \<and> v_now E < deadline then (True, snd q)
       else (False, emit_state ((w_calls w r)\<lparr>c_state := StateEnded\<rparr>) ((set_call r StateEnded (snd q))\<lparr>w_call := None\<rparr>)))"
  using assms by (simp add: offer_retry_def Let_def split: sum.split)

text \<open>
  C29. A call to a fresh contact does not ring for ever. Whatever others do
  meanwhile, the loop that resends the offer is over after the first turn at or
  past its deadline. Left alone, it ends in one of two ways: the offer is in the
  persistent queue, which keeps trying, and the call still rings; or the call is
  over and the user was told last.
\<close>

theorem waiting_offer_ends:
  assumes "\<exists>t \<in> set turns. deadline \<le> v_now (fst t)" and "w_call w = Some r" "c_state (w_calls w r) = StateRingingOut"
    and "\<exists>E \<in> set envs. deadline \<le> v_now E"
  shows "fst (offer_when_ready deadline r payload turns w) = False
    \<and> (let w' = snd (offer_when_ready deadline r payload (map (\<lambda>E. (E, \<lambda>w. w)) envs) w) in
        (\<exists>mid. queued (c_peer (w_calls w r)) mid (w_db w') \<and> \<not> queued (c_peer (w_calls w r)) mid (w_db w)
            \<and> w_call w' = Some r \<and> w_calls w' = w_calls w \<and> w_out w' = w_out w)
      \<or> (w_call w' = None \<and> w_out w' = w_out w @ [OCallState ((w_calls w r)\<lparr>c_state := StateEnded\<rparr>)]))"
proof -
  have "let w' = snd (offer_when_ready deadline r payload (map (\<lambda>E. (E, \<lambda>w. w)) envs) v) in
        (\<exists>mid. queued (c_peer (w_calls w r)) mid (w_db w') \<and> \<not> queued (c_peer (w_calls w r)) mid (w_db w)
            \<and> w_call w' = Some r \<and> w_calls w' = w_calls w \<and> w_out w' = w_out w)
      \<or> (w_call w' = None \<and> w_out w' = w_out w @ [OCallState ((w_calls w r)\<lparr>c_state := StateEnded\<rparr>)])"
    if "quiet_send w v" "\<exists>E \<in> set envs. deadline \<le> v_now E" for v
    using that
  proof (induction envs arbitrary: v)
    case (Cons E envs)
    from Cons.prems(1) assms(2,3) have v: "w_call v = Some r" "c_state (w_calls v r) = StateRingingOut"
      "w_calls v = w_calls w" "w_out v = w_out w" by (simp_all add: quiet_send_def)
    note step = retry_alone [OF v(1,2), of E deadline payload]
    let ?q = "send_sealed E (c_peer (w_calls v r)) TypeCallOffer payload v"
    have quiet: "quiet_send w (snd ?q)" using Cons.prems(1) quiet_send_sealed by (rule quiet_send_trans)
    then have q: "w_call (snd ?q) = Some r" "w_calls (snd ?q) = w_calls w" "w_out (snd ?q) = w_out w"
      using assms(2) unfolding quiet_send_def by (metis (no_types))+
    show ?case
    proof (cases "fst ?q")
      case (Inr mid)
      then have sent: "send_sealed E (c_peer (w_calls v r)) TypeCallOffer payload v = (Inr mid, snd ?q)" by (metis prod.collapse)
      have "queued p mid (w_db w) \<Longrightarrow> queued p mid (w_db v)" for p
        using Cons.prems(1) by (auto simp: quiet_send_def db_sends_def queued_def)
      with sealed_sent [OF sent] v(3) have "queued (c_peer (w_calls w r)) mid (w_db (snd ?q))"
        "\<not> queued (c_peer (w_calls w r)) mid (w_db w)" by auto
      then show ?thesis using step Inr q by (auto simp: Let_def)
    next
      case (Inl e)
      show ?thesis
      proof (cases "e = ErrNoSession \<and> v_now E < deadline")
        case True
        with Cons.prems(2) have "\<exists>E \<in> set envs. deadline \<le> v_now E" by auto
        with Cons.IH [OF quiet] step Inl True show ?thesis by (simp add: Let_def)
      next
        case False
        have "offer_retry E deadline (\<lambda>w. w) r payload v = (False, emit_state ((w_calls v r)\<lparr>c_state := StateEnded\<rparr>)
            ((set_call r StateEnded (snd ?q))\<lparr>w_call := None\<rparr>))"
          unfolding step by (simp only: Let_def Inl sum.case if_not_P [OF False])
        then show ?thesis using q v(3) by (simp add: Let_def emit_state_def set_call_def)
      qed
    qed
  qed simp
  from this [OF quiet_send_refl assms(4)] loop_ends [OF assms(1)] show ?thesis by simp
qed

theorem waiting_offer_ends_witness:
  "fst (offer_when_ready 900 0 [5] [(demo_env, \<lambda>w. w)] (demo_calling demo_caller_id (replicate 16 7))) = False"
proof -
  let ?w = "demo_calling demo_caller_id (replicate 16 7)"
  have "w_call ?w = Some 0" "c_state (w_calls ?w 0) = StateRingingOut"
    by (simp_all add: demo_calling_def new_call_def new_world_def)
  with waiting_offer_ends [of "[(demo_env, \<lambda>w. w)]" 900 ?w 0 "[demo_env]" "[5]"] show ?thesis
    by (simp add: demo_env_def)
qed

section \<open>Where the signalling errs\<close>

text \<open>
  C30. The handler of an offer changes the current call at once, although its
  transaction may still be rolled back (the session cannot be saved, a waiting
  text cannot be encrypted). Then nothing is announced and nothing is stored, yet
  the node counts as ringing: when the peer's outbox delivers the same offer
  again, it is refused as busy, also in an environment of a later time, and so
  is everyone else's; the user never learns of the call.
\<close>

theorem rolled_back_offer_is_refused:
  assumes idle: "\<not> call_busy w"
    and offer: "unmarshal (v_poffer E) body = Some pb" "length (po_id pb) = 16" "length (po_codecs pb) \<le> 8"
    and again: "unmarshal (v_poffer E') body' = Some pb'" "length (po_id pb') = 16" "length (po_codecs pb') \<le> 8"
  shows "let w1 = deliver on_offer False E p body w in
    w_db w1 = w_db w \<and> w_out w1 = w_out w \<and> map_option c_state (current_call w1) = Some StateRingingIn
    \<and> on_offer E' q body' (w1, []) = (Inr (), (bump_w ''callsig.busyRejects'' w1,
        [\<lambda>w. snd (send_answer E' q (po_id pb') False w)]))"
proof -
  let ?c = "\<lparr>c_id = po_id pb, c_peer = p, c_state = StateRingingIn, c_out = False, c_codecs = po_codecs pb\<rparr>"
  have "on_offer E p body (w, []) = (Inr (), (new_call ?c w, [emit (OCallIncoming ?c)]))"
    using offer_run [OF offer, of p w "[]"] idle by (simp add: take_offer_def Let_def)
  then have w1: "deliver on_offer False E p body w = new_call ?c w"
    by (simp add: deliver_def new_call_def)
  have "take_offer E' q pb' (new_call ?c w) = (None, new_call ?c w)"
    by (simp add: take_offer_def Let_def call_busy_def current_call_def new_call_def)
  from offer_run [OF again, of q "new_call ?c w" "[]"] this show ?thesis
    by (simp add: Let_def w1) (simp add: new_call_def current_call_def)
qed

theorem rolled_back_offer_is_refused_witness:
  "\<exists>w1. w_out w1 = [] \<and> fst (on_offer demo_callee demo_caller_id [5] (w1, [])) = Inr ()
     \<and> map_option c_state (current_call w1) = Some StateRingingIn"
proof -
  let ?pb = "\<lparr>po_id = replicate 16 9, po_codecs = [''opus'']\<rparr>"
  have "\<not> call_busy (new_world [])" by (simp add: call_busy_def new_world_def)
  moreover have "unmarshal (v_poffer demo_callee) [5] = Some ?pb" by (simp add: demo_callee_def)
  ultimately have "w_out (deliver on_offer False demo_callee demo_caller_id [5] (new_world [])) = []
    \<and> fst (on_offer demo_callee demo_caller_id [5] (deliver on_offer False demo_callee demo_caller_id [5] (new_world []), [])) = Inr ()
    \<and> map_option c_state (current_call (deliver on_offer False demo_callee demo_caller_id [5] (new_world []))) = Some StateRingingIn"
    using rolled_back_offer_is_refused [of "new_world []" demo_callee "[5]" ?pb demo_callee "[5]" ?pb demo_caller_id demo_caller_id]
    by (simp add: Let_def) (simp add: new_world_def)
  then show ?thesis by blast
qed

text \<open>
  C31. Accept opens the gate before the answer is on its way. If the answer cannot
  be sent (the peer was blocked meanwhile, the session is gone, the disk is full),
  Accept returns the error, announces nothing, and the call stays accepted: the
  gate lets the caller's media in, a second Accept or a Reject fails as unfit for
  the state, while the caller was never told.
\<close>

theorem failed_accept_stays_open:
  assumes "current_call w = Some c" "c_state c = StateRingingIn"
    and "w_call w = Some r" "fst (send_answer E (c_peer c) (c_id c) True (set_call r StateActive w)) = Inl e"
  shows "\<exists>w'. accept_call E (c_id c) w = (Inl e, w') \<and> w_out w' = w_out w \<and> fst (consent (c_peer c) w')
    \<and> accept_call E' (c_id c) w' = (Inl ErrBadState, w') \<and> reject_call E' (c_id c) w' = (Inl ErrBadState, w')"
proof -
  from assms have c: "w_calls w r = c" by (simp add: current_call_def)
  let ?q = "send_answer E (c_peer c) (c_id c) True (set_call r StateActive w)"
  obtain w2 where q: "?q = (Inl e, w2)" using assms(4) by (metis prod.collapse)
  have "accept_call E (c_id c) w = (Inl e, snd ?q)"
    using assms(2,3) c by (simp add: accept_call_def Let_def q)
  moreover have "w_out (snd ?q) = w_out w" using quiet_send_answer [of "set_call r StateActive w"]
    by (simp add: quiet_send_def set_call_def)
  moreover have "w_call (snd ?q) = Some r" "w_calls (snd ?q) r = c\<lparr>c_state := StateActive\<rparr>" using assms(3) c by simp_all
  ultimately show ?thesis by (simp add: consent_def accept_call_def reject_call_def)
qed

theorem failed_accept_stays_open_witness:
  "\<exists>w'. fst (accept_call demo_callee (replicate 16 9) demo_ringing) = Inl (ErrEnvelope EErrRand) \<and> fst (consent demo_caller_id w')"
proof -
  let ?c = "\<lparr>c_id = replicate 16 9, c_peer = demo_caller_id, c_state = StateRingingIn, c_out = False, c_codecs = [''opus'']\<rparr>"
  have r: "current_call demo_ringing = Some ?c" "w_call demo_ringing = Some 0"
    by (simp_all add: demo_ringing_def new_call_def new_world_def current_call_def)
  have "fst (send_answer demo_callee demo_caller_id (replicate 16 9) True (set_call 0 StateActive demo_ringing)) = Inl (ErrEnvelope EErrRand)"
    by (simp add: send_answer_def demo_callee_def demo_env_def send_sealed_def may_send_def state_def demo_ringing_def new_call_def
        set_call_def new_world_def new_msg_id_def read_full_def MsgIDLen_def)
  with failed_accept_stays_open [OF r(1) _ r(2), of demo_callee] show ?thesis by fastforce
qed

end
