(* ===== verification/IpcCodec.thy ===== *)
theory IpcCodec
  imports CryptoIface Codec
begin

text \<open>
  ipc/codec.go: the two kinds of binary frames between the node and its user
  interface. A frame of commands and events is a tag and a protobuf message; a
  frame of call media is a tag, a channel, a time and the payload. Frames that
  come from the interface are untrusted. A message without its kind is \<open>None\<close>.
\<close>

datatype ipc_err = IpcTooBig | IpcMalformed | IpcEncode

definition MaxFrameLen :: nat where "MaxFrameLen = 256 * 1024"
definition TagProto :: byte where "TagProto = 0"
definition TagMedia :: byte where "TagMedia = 1"
definition mediaHeaderLen :: nat where "mediaHeaderLen = 1 + 1 + 8"
definition MaxMediaPayload :: nat where "MaxMediaPayload = 2 ^ 20"

definition encode_frame :: "'k option pb \<Rightarrow> 'k option \<Rightarrow> ipc_err + bytes" where
  "encode_frame P f =
     bindR (of_opt IpcEncode (marshal P f)) (\<lambda>b.
     if MaxFrameLen < length b + 1 then Inl IpcTooBig else Inr (TagProto # b))"

definition decode_frame :: "'k option pb \<Rightarrow> bytes \<Rightarrow> ipc_err + 'k" where
  "decode_frame P b =
     (if MaxFrameLen < length b then Inl IpcTooBig
      else if length b < 1 \<or> b ! 0 \<noteq> TagProto then Inl IpcMalformed
      else bindR (of_opt IpcMalformed (unmarshal P (tl b))) (\<lambda>f. of_opt IpcMalformed f))"

text \<open>The receive time is an int64, here as its 64 bits.\<close>

definition encode_media_frame :: "byte \<Rightarrow> u64 \<Rightarrow> bytes \<Rightarrow> ipc_err + bytes" where
  "encode_media_frame ch rx payload =
     (if payload = [] \<or> MaxMediaPayload < length payload then Inl IpcMalformed
      else Inr ([TagMedia, ch] @ be64 rx @ payload))"

definition decode_media_frame :: "bytes \<Rightarrow> ipc_err + (byte \<times> u64 \<times> bytes)" where
  "decode_media_frame b =
     (if length b \<le> mediaHeaderLen \<or> mediaHeaderLen + MaxMediaPayload < length b \<or> b ! 0 \<noteq> TagMedia
      then Inl IpcMalformed
      else Inr (b ! 1, un_be64 (drop 2 b), drop mediaHeaderLen b))"

section \<open>Both directions agree\<close>

definition media_valid :: "byte \<times> u64 \<times> bytes \<Rightarrow> bool" where
  "media_valid = (\<lambda>(ch, rx, payload). payload \<noteq> [] \<and> length payload \<le> MaxMediaPayload)"

definition media_bytes :: "byte \<times> u64 \<times> bytes \<Rightarrow> bytes" where
  "media_bytes = (\<lambda>(ch, rx, payload). [TagMedia, ch] @ be64 rx @ payload)"

interpretation media: codec media_bytes decode_media_frame media_valid
proof unfold_locales
  show "media_valid x \<Longrightarrow> decode_media_frame (media_bytes x) = Inr x" for x
    by (auto simp: media_valid_def media_bytes_def decode_media_frame_def mediaHeaderLen_def split: prod.splits)
  show "media_valid x \<and> media_bytes x = b" if d: "decode_media_frame b = Inr x" for b x
  proof -
    from d have len: "10 < length b" "length b \<le> 10 + MaxMediaPayload" "b ! 0 = TagMedia"
      and x: "x = (b ! 1, un_be64 (drop 2 b), drop 10 b)"
      by (auto simp: decode_media_frame_def mediaHeaderLen_def not_le not_less split: if_splits)
    then obtain p q r where b: "b = p # q # r" by (cases b; cases "tl b") auto
    have "be64 (un_be64 r) @ drop 8 r = r" using be64_take [of r] len(1) by (simp add: b)
    with len x show ?thesis by (simp add: b media_valid_def media_bytes_def)
  qed
qed

lemma encode_media_valid: "encode_media_frame ch rx p = Inr b \<longleftrightarrow> media_valid (ch, rx, p) \<and> b = media_bytes (ch, rx, p)"
  by (auto simp: encode_media_frame_def media_valid_def media_bytes_def)

text \<open>
  The frames of the local interface: a media frame is decoded exactly when
  it is what the encoder writes for its channel, time and payload, so no two
  byte strings mean the same frame and no accepted payload is empty or above
  1 MiB; a command or event frame that the encoder produces is read back, is
  never taken for a media frame, and no frame above 256 KiB is produced or
  accepted.
\<close>

theorem local_frames_are_exact:
  assumes "pb_roundtrip P f"
  shows "(decode_media_frame b = Inr (ch, rx, p) \<longleftrightarrow> encode_media_frame ch rx p = Inr b)
    \<and> (encode_frame P f = Inr b \<longrightarrow> length b \<le> 256 * 1024 \<and> decode_frame P b = of_opt IpcMalformed f
        \<and> \<not> is_ok (decode_media_frame b))
    \<and> (decode_frame P b' = Inr k \<longrightarrow> length b' \<le> 256 * 1024 \<and> unmarshal P (tl b') = Some (Some k))"
proof -
  have media: "decode_media_frame b = Inr (ch, rx, p) \<longleftrightarrow> encode_media_frame ch rx p = Inr b"
    by (auto simp: encode_media_valid media.dec_iff)
  have enc: "length b \<le> 256 * 1024 \<and> decode_frame P b = of_opt IpcMalformed f \<and> \<not> is_ok (decode_media_frame b)"
    if e: "encode_frame P f = Inr b"
  proof -
    from e obtain c where c: "marshal P f = Some c" "length c + 1 \<le> MaxFrameLen" "b = TagProto # c"
      by (auto simp: encode_frame_def bindR_Inr_iff not_less split: if_splits)
    from pb_roundtripD [OF assms c(1)] c(2,3) show ?thesis
      by (simp add: decode_frame_def decode_media_frame_def MaxFrameLen_def TagProto_def TagMedia_def)
  qed
  have "length b' \<le> 256 * 1024 \<and> unmarshal P (tl b') = Some (Some k)" if "decode_frame P b' = Inr k"
    using that by (auto simp: decode_frame_def bindR_Inr_iff MaxFrameLen_def split: if_splits)
  with media enc show ?thesis by blast
qed

theorem local_frames_are_exact_witness:
  "decode_frame (one_pb [7] (Some True)) [0, 7] = Inr True"
proof -
  have "encode_frame (one_pb [7] (Some True)) (Some True) = Inr [0, 7]"
    by (simp add: encode_frame_def MaxFrameLen_def TagProto_def)
  with local_frames_are_exact [OF one_pb_roundtrip, where f = "Some True" and b = "[0, 7]"] show ?thesis by simp
qed

end
