(* ===== verification/StoreGroups.thy ===== *)
theory StoreGroups
  imports Tame
begin

text \<open>
  store/groups.go: the tables of groups, their members, the sender keys and the
  queue of service messages that wait for a session (sealed_outbox). The name
  and the document of a group, the key states and the waiting payloads are
  sealed under the store key. A row of table groups holds the sealed fields, the
  record the operations take and return holds the opened ones.
\<close>

definition aad_group_name :: "bytes \<Rightarrow> bytes" where
  "aad_group_name gid = str_bytes ''groups.name'' @ gid"

definition aad_group_membership :: "bytes \<Rightarrow> bytes" where
  "aad_group_membership gid = str_bytes ''groups.membership'' @ gid"

definition aad_sender_key :: "bytes \<times> peer_id \<Rightarrow> bytes" where
  "aad_sender_key k = str_bytes ''sender_keys.state'' @ fst k @ id_bytes (snd k)"

definition aad_sealed_outbox :: "peer_id \<Rightarrow> etype \<Rightarrow> bytes" where
  "aad_sealed_outbox p t = str_bytes ''sealed_outbox.payload'' @ id_bytes p @ [t]"

section \<open>Groups\<close>

text \<open>On conflict the admin's key and the time of creation keep their first values.\<close>

definition group_put :: "env \<Rightarrow> grow \<Rightarrow> unit tx" where
  "group_put E g =
     bnd (box_seal E (g_name g) (aad_group_name (g_id g))) (\<lambda>name.
     bnd (box_seal E (g_mem g) (aad_group_membership (g_id g))) (\<lambda>mem.
     if \<not> sql_u64 (g_version g) then fail ErrSQL
     else on_db (\<lambda>d. d\<lparr>d_groups :=
       (if g_id g \<in> g_id ` set (d_groups d)
        then map (\<lambda>r. if g_id r = g_id g
          then r\<lparr>g_name := name, g_version := g_version g, g_mem := mem, g_left := g_left g,
                 g_updated := g_updated g\<rparr> else r) (d_groups d)
        else d_groups d @ [g\<lparr>g_name := name, g_mem := mem\<rparr>])\<rparr>)))"

definition scan_group :: "env \<Rightarrow> grow \<Rightarrow> err + grow" where
  "scan_group E r =
     bindR (box_open E (g_name r) (aad_group_name (g_id r))) (\<lambda>name.
     bindR (box_open E (g_mem r) (aad_group_membership (g_id r))) (\<lambda>mem.
     Inr (r\<lparr>g_name := name, g_mem := mem\<rparr>)))"

definition group_row :: "bytes \<Rightarrow> db \<Rightarrow> grow option" where
  "group_row gid d = find (\<lambda>r. g_id r = gid) (d_groups d)"

definition group_get :: "env \<Rightarrow> bytes \<Rightarrow> grow option tx" where
  "group_get E gid =
     bnd (q_db (group_row gid)) (\<lambda>r. case r of None \<Rightarrow> ret None
     | Some r \<Rightarrow> bnd (res (scan_group E r)) (\<lambda>g. ret (Some g)))"

definition group_list :: "env \<Rightarrow> db \<Rightarrow> err + grow list" where
  "group_list E d = sequence_res (map (scan_group E) (sort_key g_created (d_groups d)))"

text \<open>The members are replaced one by one: a repeated one violates the primary key.\<close>

definition member_insert :: "bytes \<Rightarrow> peer_id \<Rightarrow> unit tx" where
  "member_insert gid m =
     bnd (q_db d_members) (\<lambda>rows.
     if (gid, m) \<in> set rows then fail ErrSQL
     else on_db (\<lambda>d. d\<lparr>d_members := d_members d @ [(gid, m)]\<rparr>))"

definition group_members_set :: "bytes \<Rightarrow> peer_id list \<Rightarrow> unit tx" where
  "group_members_set gid ms =
     seq (on_db (\<lambda>d. d\<lparr>d_members := filter (\<lambda>(g, m). g \<noteq> gid) (d_members d)\<rparr>))
       (eachM (member_insert gid) ms)"

definition group_members :: "bytes \<Rightarrow> peer_id list tx" where
  "group_members gid = q_db (\<lambda>d. sort (map snd (filter (\<lambda>(g, m). g = gid) (d_members d))))"

definition group_is_member :: "bytes \<Rightarrow> peer_id \<Rightarrow> bool tx" where
  "group_is_member gid p = q_db (\<lambda>d. (gid, p) \<in> set (d_members d))"

section \<open>Sender keys\<close>

definition sender_key_put :: "env \<Rightarrow> bytes \<times> peer_id \<Rightarrow> bytes \<Rightarrow> unit tx" where
  "sender_key_put E k st =
     bnd (box_seal E st (aad_sender_key k)) (\<lambda>ct. on_db (\<lambda>d. d\<lparr>d_skeys := (d_skeys d)(k \<mapsto> ct)\<rparr>))"

definition sender_key_get :: "env \<Rightarrow> bytes \<times> peer_id \<Rightarrow> bytes option tx" where
  "sender_key_get E k =
     bnd (q_db (\<lambda>d. d_skeys d k)) (\<lambda>ct. case ct of None \<Rightarrow> ret None
     | Some ct \<Rightarrow> bnd (res (box_open E ct (aad_sender_key k))) (\<lambda>st. ret (Some st)))"

definition sender_key_delete :: "bytes \<times> peer_id \<Rightarrow> unit tx" where
  "sender_key_delete k = on_db (\<lambda>d. d\<lparr>d_skeys := (d_skeys d)(k := None)\<rparr>)"

section \<open>Messages that wait for a session\<close>

definition sealed_add :: "env \<Rightarrow> peer_id \<Rightarrow> etype \<Rightarrow> bytes \<Rightarrow> unit tx" where
  "sealed_add E p t payload =
     bnd (box_seal E payload (aad_sealed_outbox p t)) (\<lambda>ct.
     on_db (\<lambda>d. d\<lparr>d_sealed := d_sealed d @ [\<lparr>s_row = next_row (map s_row (d_sealed d)), s_peer = p, s_type = t,
       s_payload = ct\<rparr>]\<rparr>))"

definition sealed_delete :: "nat \<Rightarrow> unit tx" where
  "sealed_delete row = on_db (\<lambda>d. d\<lparr>d_sealed := filter (\<lambda>r. s_row r \<noteq> row) (d_sealed d)\<rparr>)"

definition sealed_open :: "env \<Rightarrow> srow \<Rightarrow> err + srow" where
  "sealed_open E r = bindR (box_open E (s_payload r) (aad_sealed_outbox (s_peer r) (s_type r)))
     (\<lambda>payload. Inr (r\<lparr>s_payload := payload\<rparr>))"

definition sealed_list :: "env \<Rightarrow> nat \<Rightarrow> db \<Rightarrow> err + srow list" where
  "sealed_list E limit d = sequence_res (map (sealed_open E) (take limit (sort_key s_row (d_sealed d))))"

section \<open>Contracts\<close>

interpretation sender_kv: sealed_kv sealing_ok sender_key_get sender_key_put sender_key_delete
  by (rule sealed_kvI [where look = d_skeys, OF sender_key_get_def sender_key_put_def sender_key_delete_def]) auto

lemma sends_groups [moves_intros]:
  "moves sends (group_put E g)" "moves sends (group_get E gid)" "moves sends (group_members_set gid ms)"
  "moves sends (group_members gid)" "moves sends (group_is_member gid p)"
  "moves sends (sender_key_put E k st)" "moves sends (sender_key_get E k)" "moves sends (sender_key_delete k)"
  "moves sends (sealed_add E p t b)" "moves sends (sealed_delete row)"
  unfolding group_put_def group_get_def group_members_set_def group_members_def group_is_member_def
    sender_key_put_def sender_key_get_def sender_key_delete_def sealed_add_def sealed_delete_def member_insert_def
  by (intro sends_order.moves_rules moves_intros; simp add: db_sends_def)+

lemmas tame_groups [moves_intros] = sends_groups [THEN moves_sends_tame]

text \<open>Outcomes of the writes, one case each.\<close>

lemma sealed_add_run: "sealed_add E p t b (w, hs) = (Inr (), s') \<Longrightarrow>
    \<exists>ct r. s' = (w\<lparr>w_rnd := r, w_db := (w_db w)\<lparr>d_sealed := d_sealed (w_db w) @ [\<lparr>s_row = next_row (map s_row (d_sealed (w_db w))),
      s_peer = p, s_type = t, s_payload = ct\<rparr>]\<rparr>\<rparr>, hs) \<and> (sealing_ok E \<longrightarrow> box_open E ct (aad_sealed_outbox p t) = Inr b)"
  unfolding sealed_add_def by (drule seal_store_run) auto

text \<open>What a group's row will be after the upsert.\<close>

definition put_group :: "grow \<Rightarrow> bytes \<Rightarrow> bytes \<Rightarrow> grow list \<Rightarrow> grow list" where
  "put_group g name mem rows =
     (if g_id g \<in> g_id ` set rows
      then map (\<lambda>r. if g_id r = g_id g
        then r\<lparr>g_name := name, g_version := g_version g, g_mem := mem, g_left := g_left g,
               g_updated := g_updated g\<rparr> else r) rows
      else rows @ [g\<lparr>g_name := name, g_mem := mem\<rparr>])"

lemma group_put_run: "group_put E g (w, hs) = (Inr (), s') \<Longrightarrow>
    \<exists>name mem r. s' = (w\<lparr>w_rnd := r, w_db := (w_db w)\<lparr>d_groups := put_group g name mem (d_groups (w_db w))\<rparr>\<rparr>, hs)
      \<and> sql_u64 (g_version g)
      \<and> (sealing_ok E \<longrightarrow> box_open E name (aad_group_name (g_id g)) = Inr (g_name g)
          \<and> box_open E mem (aad_group_membership (g_id g)) = Inr (g_mem g))"
proof -
  assume "group_put E g (w, hs) = (Inr (), s')"
  then obtain name s1 mem s2 where name: "box_seal E (g_name g) (aad_group_name (g_id g)) (w, hs) = (Inr name, s1)"
    and mem: "box_seal E (g_mem g) (aad_group_membership (g_id g)) s1 = (Inr mem, s2)"
    and put: "(if \<not> sql_u64 (g_version g) then fail ErrSQL
       else on_db (\<lambda>d. d\<lparr>d_groups := put_group g name mem (d_groups d)\<rparr>)) s2 = (Inr (), s')"
    unfolding group_put_def runs_iff put_group_def [symmetric] by blast
  from box_seal_run [OF name] obtain r1 where s1: "s1 = (w\<lparr>w_rnd := r1\<rparr>, hs)" by blast
  from box_seal_run [OF mem [unfolded s1]] obtain r2 where s2: "s2 = (w\<lparr>w_rnd := r2\<rparr>, hs)" by auto
  from put have v: "sql_u64 (g_version g)" by (cases "sql_u64 (g_version g)") auto
  with put s2 have "s' = (w\<lparr>w_rnd := r2, w_db := (w_db w)\<lparr>d_groups := put_group g name mem (d_groups (w_db w))\<rparr>\<rparr>, hs)"
    by simp
  moreover have "sealing_ok E \<longrightarrow> box_open E name (aad_group_name (g_id g)) = Inr (g_name g)
      \<and> box_open E mem (aad_group_membership (g_id g)) = Inr (g_mem g)"
    using box_open_seal [OF _ name] box_open_seal [OF _ mem [unfolded s1]] by (simp add: sealing_ok_def)
  ultimately show ?thesis using v by blast
qed

lemma find_put_group:
  "find (\<lambda>r. g_id r = gid) (put_group g name mem rows) =
    (if gid = g_id g then Some (case find (\<lambda>r. g_id r = gid) rows of None \<Rightarrow> g\<lparr>g_name := name, g_mem := mem\<rparr>
       | Some r \<Rightarrow> r\<lparr>g_name := name, g_version := g_version g, g_mem := mem, g_left := g_left g, g_updated := g_updated g\<rparr>)
     else find (\<lambda>r. g_id r = gid) rows)"
proof -
  have m: "find (\<lambda>r. g_id r = gid) (map (\<lambda>r. if g_id r = g_id g then f r else r) rows) =
      (if gid = g_id g then map_option f (find (\<lambda>r. g_id r = gid) rows) else find (\<lambda>r. g_id r = gid) rows)"
    if "\<And>r. g_id (f r) = g_id r" for f :: "grow \<Rightarrow> grow"
    using that by (induction rows) auto
  show ?thesis
  proof (cases "g_id g \<in> g_id ` set rows")
    case True
    then obtain r where "find (\<lambda>r. g_id r = g_id g) rows = Some r"
      by (metis (mono_tags, lifting) find_None_iff imageE not_None_eq)
    with True show ?thesis by (auto simp: put_group_def m)
  next
    case False
    then have "find (\<lambda>r. g_id r = g_id g) rows = None" by (rule find_none_key)
    with False show ?thesis by (auto simp: put_group_def find_append split: option.split)
  qed
qed

text \<open>A group that was put is read back, with the admin and the creation time of its first version.\<close>

lemma group_put_get:
  assumes "sealing_ok E" "group_put E g (w, hs) = (Inr (), (w', hs'))"
  shows "group_get E (g_id g) (w', hs') = (Inr (Some (case group_row (g_id g) (w_db w) of None \<Rightarrow> g
    | Some r \<Rightarrow> g\<lparr>g_admin := g_admin r, g_created := g_created r\<rparr>)), (w', hs'))"
proof -
  from group_put_run [OF assms(2)] assms(1) obtain name mem r where
    s': "w' = w\<lparr>w_rnd := r, w_db := (w_db w)\<lparr>d_groups := put_group g name mem (d_groups (w_db w))\<rparr>\<rparr>" "hs' = hs"
    and o: "box_open E name (aad_group_name (g_id g)) = Inr (g_name g)"
      "box_open E mem (aad_group_membership (g_id g)) = Inr (g_mem g)" by auto
  show ?thesis
  proof (cases "find (\<lambda>r. g_id r = g_id g) (d_groups (w_db w))")
    case None
    then show ?thesis by (simp add: s' group_get_def group_row_def find_put_group scan_group_def o)
  next
    case (Some r)
    then have "g_id r = g_id g" by (auto simp: find_Some_iff)
    with Some show ?thesis by (simp add: s' group_get_def group_row_def find_put_group scan_group_def o)
  qed
qed

lemma group_put_other: "group_put E g (w, hs) = (Inr (), (w', hs')) \<Longrightarrow> gid \<noteq> g_id g \<Longrightarrow>
    group_row gid (w_db w') = group_row gid (w_db w)"
  by (drule group_put_run) (auto simp: group_row_def find_put_group)

text \<open>The members after a replacement: exactly the given ones, which must be distinct.\<close>

lemma member_insert_run: "member_insert gid m (w, hs) =
    (if (gid, m) \<in> set (d_members (w_db w)) then (Inl ErrSQL, (w, hs))
     else (Inr (), (w\<lparr>w_db := (w_db w)\<lparr>d_members := d_members (w_db w) @ [(gid, m)]\<rparr>\<rparr>, hs)))"
  by (simp add: member_insert_def)

lemma each_insert: "eachM (member_insert gid) ms (w, hs) = (Inr (), s') \<Longrightarrow>
    s' = (w\<lparr>w_db := (w_db w)\<lparr>d_members := d_members (w_db w) @ map (Pair gid) ms\<rparr>\<rparr>, hs)
    \<and> distinct ms \<and> (\<forall>m \<in> set ms. (gid, m) \<notin> set (d_members (w_db w)))"
proof (induction ms arbitrary: w)
  case (Cons m ms)
  let ?w = "w\<lparr>w_db := (w_db w)\<lparr>d_members := d_members (w_db w) @ [(gid, m)]\<rparr>\<rparr>"
  from Cons.prems have new: "(gid, m) \<notin> set (d_members (w_db w))"
    by (auto simp: member_insert_run seq_def bnd_def split: if_splits)
  with Cons.prems have "eachM (member_insert gid) ms (?w, hs) = (Inr (), s')"
    by (simp add: member_insert_run seq_def bnd_def)
  from Cons.IH [OF this] new show ?case by auto
qed simp

lemma members_set_run: "group_members_set gid ms (w, hs) = (Inr (), s') \<Longrightarrow>
    s' = (w\<lparr>w_db := (w_db w)\<lparr>d_members := filter (\<lambda>(g, m). g \<noteq> gid) (d_members (w_db w)) @ map (Pair gid) ms\<rparr>\<rparr>, hs)
    \<and> distinct ms"
  unfolding group_members_set_def tx_seq by (drule each_insert) simp

lemma members_set_repeated: "\<not> distinct ms \<Longrightarrow> \<exists>s'. group_members_set gid ms s = (Inl ErrSQL, s')"
proof -
  assume no: "\<not> distinct ms"
  have f: "fst (eachM (member_insert gid) xs s) = Inl e \<Longrightarrow> e = ErrSQL" for xs e s
  proof (induction xs arbitrary: s)
    case (Cons x xs)
    obtain w hs where "s = (w, hs)" by (cases s)
    with Cons show ?case by (auto simp: member_insert_run seq_def bnd_def split: if_splits)
  qed simp
  obtain w hs where s: "s = (w, hs)" by (cases s)
  obtain r s' where run: "group_members_set gid ms s = (r, s')" by (metis prod.collapse)
  show ?thesis
  proof (cases r)
    case (Inl e)
    from run f [of ms "(w\<lparr>w_db := (w_db w)\<lparr>d_members := filter (\<lambda>(g, m). g \<noteq> gid) (d_members (w_db w))\<rparr>\<rparr>, hs)" e]
    show ?thesis by (simp add: s Inl group_members_set_def)
  next
    case (Inr u)
    with members_set_run run s no show ?thesis by auto
  qed
qed

section \<open>Success\<close>

text \<open>The writes succeed while the random source yields; the rows are written out.\<close>

lemma box_seal_ok: "NonceSizeX \<le> length (w_rnd w) \<Longrightarrow> box_seal E v a (w, hs) =
    (Inr (take NonceSizeX (w_rnd w) @ c_xseal (v_crypto E) (v_key E) (take NonceSizeX (w_rnd w)) v a),
     (w\<lparr>w_rnd := drop NonceSizeX (w_rnd w)\<rparr>, hs))"
  by (simp add: box_seal_def draw_def with_rnd_def bnd_def read_full_def)

lemma group_put_ok:
  assumes "2 * NonceSizeX \<le> length (w_rnd w)" "sql_u64 (g_version g)"
  shows "\<exists>name mem. group_put E g (w, hs) = (Inr (), (w\<lparr>w_rnd := drop (2 * NonceSizeX) (w_rnd w),
     w_db := (w_db w)\<lparr>d_groups := put_group g name mem (d_groups (w_db w))\<rparr>\<rparr>, hs))"
  using assms by (simp add: group_put_def bnd_def box_seal_ok put_group_def [symmetric] mult_2 drop_drop
      del: drop_drop [symmetric]) blast

lemma each_insert_ok: "distinct ms \<Longrightarrow> \<forall>m \<in> set ms. (gid, m) \<notin> set (d_members (w_db w)) \<Longrightarrow>
    eachM (member_insert gid) ms (w, hs) =
      (Inr (), (w\<lparr>w_db := (w_db w)\<lparr>d_members := d_members (w_db w) @ map (Pair gid) ms\<rparr>\<rparr>, hs))"
proof (induction ms arbitrary: w)
  case (Cons m ms)
  let ?w = "w\<lparr>w_db := (w_db w)\<lparr>d_members := d_members (w_db w) @ [(gid, m)]\<rparr>\<rparr>"
  have "\<forall>x \<in> set ms. (gid, x) \<notin> set (d_members (w_db ?w))" using Cons.prems by auto
  from Cons.IH [OF _ this] Cons.prems show ?case by (simp add: member_insert_run seq_def bnd_def)
qed simp

lemma members_set_ok: "distinct ms \<Longrightarrow> group_members_set gid ms (w, hs) =
    (Inr (), (w\<lparr>w_db := (w_db w)\<lparr>d_members := filter (\<lambda>(g, m). g \<noteq> gid) (d_members (w_db w)) @ map (Pair gid) ms\<rparr>\<rparr>, hs))"
  by (simp add: group_members_set_def each_insert_ok)

lemma sender_key_put_ok: "NonceSizeX \<le> length (w_rnd w) \<Longrightarrow> \<exists>ct. sender_key_put E k st (w, hs) =
    (Inr (), (w\<lparr>w_rnd := drop NonceSizeX (w_rnd w), w_db := (w_db w)\<lparr>d_skeys := (d_skeys (w_db w))(k \<mapsto> ct)\<rparr>\<rparr>, hs))"
  by (simp add: sender_key_put_def bnd_def box_seal_ok) blast

lemma sealed_add_ok: "NonceSizeX \<le> length (w_rnd w) \<Longrightarrow> \<exists>row. sealed_add E p t b (w, hs) =
    (Inr (), (w\<lparr>w_rnd := drop NonceSizeX (w_rnd w), w_db := (w_db w)\<lparr>d_sealed := d_sealed (w_db w) @ [row]\<rparr>\<rparr>, hs))"
  by (simp add: sealed_add_def bnd_def box_seal_ok) blast

end
