(* ===== verification/Group.thy ===== *)
theory Group
  imports Chat StoreGroups
begin

text \<open>
  Package group: the membership document signed by the admin, the fan-out of
  messages through the common queue, the obligatory change of keys when a member
  is removed. group/manager.go. Service messages (invitations, documents, keys)
  wait in the sealed queue until there is a session with their addressee. The
  admin's Ed25519 key is \<open>v_admin\<close>; the code derives it from \<open>admin_seed\<close>. A handler
  that fails rolls its transaction back and is not acknowledged, so the envelope
  comes again; one that returns has consumed it.
\<close>

definition sealedFlushTick :: int where "sealedFlushTick = 30000"
definition sealedBatch :: nat where "sealedBatch = 128"
definition labelAdmin :: string where "labelAdmin = ''molva/group/admin/v1''"

definition admin_seed :: "crypto \<Rightarrow> bytes \<Rightarrow> bytes" where
  "admin_seed C seed = c_hkdf C seed [] labelAdmin 32"

definition admin_pub :: "env \<Rightarrow> bytes" where
  "admin_pub E = c_edpub (v_crypto E) (v_admin E)"

section \<open>Messages that wait for a session\<close>

definition wake :: "world \<Rightarrow> world" where
  "wake w = w\<lparr>w_wake := True\<rparr>"

definition flush_one :: "env \<Rightarrow> srow \<Rightarrow> world \<Rightarrow> world" where
  "flush_one E it w =
     (case send_sealed E (s_peer it) (s_type it) (s_payload it) w of
        (Inr mid, w1) \<Rightarrow>
          bump_w ''group.sealedSent'' (case run_tx (sealed_delete (s_row it)) w1 of
            (Inl e, w2) \<Rightarrow> bump_w ''group.storeFailures'' w2 | (Inr u, w2) \<Rightarrow> w2)
      | (Inl e, w1) \<Rightarrow> if e = ErrNoSession then w1 else bump_w ''group.sealedFailures'' w1)"

definition flush_sealed :: "env \<Rightarrow> world \<Rightarrow> world" where
  "flush_sealed E w =
     (case sealed_list E sealedBatch (w_db w) of
        Inl e \<Rightarrow> bump_w ''group.storeFailures'' w
      | Inr items \<Rightarrow> fold (flush_one E) items w)"

text \<open>One round of Run: a pass, then the wait that a kick or the ticker ends.\<close>

definition group_round :: "env \<Rightarrow> world \<Rightarrow> world" where
  "group_round E w = (flush_sealed E w)\<lparr>w_wake := False\<rparr>"

fun sealed_each :: "env \<Rightarrow> etype \<Rightarrow> bytes \<Rightarrow> peer_id list \<Rightarrow> unit tx" where
  "sealed_each E t b [] = ret ()"
| "sealed_each E t b (p # ps) =
     (if p = v_self E then sealed_each E t b ps else seq (sealed_add E p t b) (sealed_each E t b ps))"

section \<open>The user's operations\<close>

definition group_rec :: "env \<Rightarrow> membership \<Rightarrow> bytes \<Rightarrow> grow" where
  "group_rec E m b = \<lparr>g_id = mb_gid m, g_name = str_bytes (mb_name m), g_admin = mb_admin m, g_version = mb_version m,
     g_mem = b, g_left = False, g_created = v_now E, g_updated = v_now E\<rparr>"

definition create_group_tx :: "env \<Rightarrow> membership \<Rightarrow> bytes \<Rightarrow> sk_sender \<Rightarrow> unit tx" where
  "create_group_tx E m b sender =
     seq (group_put E (group_rec E m b))
    (seq (group_members_set (mb_gid m) (mb_members m))
      (sender_key_put E (mb_gid m, v_self E) (sender_marshal sender)))"

definition create_group :: "env \<Rightarrow> string \<Rightarrow> world \<Rightarrow> (err + bytes) \<times> world" where
  "create_group E name w =
     (case read_full 32 (w_rnd w) of None \<Rightarrow> (Inl ErrRand, w)
      | Some (gid, r) \<Rightarrow>
        (let m = mem_sign (v_crypto E) (v_admin E) \<lparr>mb_gid = gid, mb_version = 1, mb_name = name,
               mb_admin = admin_pub E, mb_members = [v_self E], mb_sig = []\<rparr>
         in case encode_membership (v_pmem E) m of Inl e \<Rightarrow> (Inl (ErrGroup e), w\<lparr>w_rnd := r\<rparr>)
            | Inr b \<Rightarrow>
              (case new_sender (v_crypto E) r 1 of Inl e \<Rightarrow> (Inl (ErrSenderKey e), w\<lparr>w_rnd := r\<rparr>)
               | Inr (sender, r') \<Rightarrow>
                 (case run_tx (create_group_tx E m b sender) (w\<lparr>w_rnd := r'\<rparr>) of
                    (Inl e, w') \<Rightarrow> (Inl e, w') | (Inr u, w') \<Rightarrow> (Inr gid, w')))))"

text \<open>The points of the known keys, for an invitation.\<close>

fun collect_dists :: "env \<Rightarrow> bytes \<Rightarrow> peer_id list \<Rightarrow> peer_id \<Rightarrow> (peer_id \<times> dist) list tx" where
  "collect_dists E gid [] exclude = ret []"
| "collect_dists E gid (p # ps) exclude =
     (if p = exclude then collect_dists E gid ps exclude
      else bnd (sender_key_get E (gid, p)) (\<lambda>raw. case raw of
        None \<Rightarrow> collect_dists E gid ps exclude
      | Some b \<Rightarrow>
          bnd (res (map_err ErrSenderKey
            (if p = v_self E then bindR (sender_unmarshal b) (\<lambda>s. Inr (sender_dist (v_crypto E) s))
             else bindR (receiver_unmarshal b) (\<lambda>r. Inr (receiver_dist r))))) (\<lambda>d.
          bnd (collect_dists E gid ps exclude) (\<lambda>ds. ret ((p, d) # ds)))))"

definition rekey_tx :: "env \<Rightarrow> bytes \<Rightarrow> peer_id list \<Rightarrow> unit tx" where
  "rekey_tx E gid ms =
     bnd (sender_key_get E (gid, v_self E)) (\<lambda>raw.
     let gen = (case raw of None \<Rightarrow> 1
       | Some b \<Rightarrow> (case sender_unmarshal b of Inl e \<Rightarrow> 1 | Inr old \<Rightarrow> ss_gen old + 1)) in
     bnd (with_rnd (\<lambda>r. map_err ErrSenderKey (new_sender (v_crypto E) r gen))) (\<lambda>sender.
     seq (sender_key_put E (gid, v_self E) (sender_marshal sender))
    (bnd (res (map_err ErrGroup (encode_key_dist (v_pkey E) gid (sender_dist (v_crypto E) sender)))) (\<lambda>payload.
     seq (sealed_each E TypeGroupKey payload ms) (bump ''group.rekeys'')))))"

text \<open>The admin's next version of a document.\<close>

definition next_document :: "env \<Rightarrow> bytes \<Rightarrow> membership \<Rightarrow> peer_id list \<Rightarrow> membership" where
  "next_document E gid old ms = mem_sign (v_crypto E) (v_admin E) \<lparr>mb_gid = gid, mb_version = mb_version old + 1,
     mb_name = mb_name old, mb_admin = mb_admin old, mb_members = ms, mb_sig = []\<rparr>"

definition store_document :: "env \<Rightarrow> grow \<Rightarrow> membership \<Rightarrow> unit tx" where
  "store_document E rec m =
     bnd (res (map_err ErrGroup (encode_membership (v_pmem E) m))) (\<lambda>b.
     seq (group_put E (rec\<lparr>g_version := mb_version m, g_mem := b, g_updated := v_now E\<rparr>))
       (group_members_set (mb_gid m) (mb_members m)))"

definition add_member_tx :: "env \<Rightarrow> bytes \<Rightarrow> peer_id \<Rightarrow> unit tx" where
  "add_member_tx E gid member =
     bnd (group_get E gid) (\<lambda>g. case g of None \<Rightarrow> fail (ErrGroup GErrUnknown)
     | Some rec \<Rightarrow>
       if g_left rec then fail (ErrGroup GErrLeft)
       else if g_admin rec \<noteq> admin_pub E then fail (ErrGroup GErrNotAdmin)
       else bnd (res (map_err ErrGroup (decode_membership (v_pmem E) (g_mem rec)))) (\<lambda>old.
         if mem_has old member then ret ()
         else if MaxMembers < length (mb_members old) + 1 then fail (ErrGroup GErrTooBig)
         else let m = next_document E gid old (mb_members old @ [member]) in
           seq (store_document E rec m)
          (bnd (collect_dists E gid (mb_members m) member) (\<lambda>keys.
           bnd (res (map_err ErrGroup (encode_welcome (v_pwelcome E) \<lparr>we_mem = m, we_keys = keys\<rparr>))) (\<lambda>welc.
           seq (sealed_add E member TypeGroupWelcome welc)
          (bnd (res (map_err ErrGroup (encode_update (v_pupdate E) m))) (\<lambda>update.
           sealed_each E TypeGroupUpdate update (mb_members old))))))))"

definition add_member :: "env \<Rightarrow> bytes \<Rightarrow> peer_id \<Rightarrow> world \<Rightarrow> (err + unit) \<times> world" where
  "add_member E gid member w =
     (case run_tx (add_member_tx E gid member) w of (Inl e, w') \<Rightarrow> (Inl e, w') | (Inr u, w') \<Rightarrow> (Inr (), wake w'))"

definition remove_member_tx :: "env \<Rightarrow> bytes \<Rightarrow> peer_id \<Rightarrow> unit tx" where
  "remove_member_tx E gid member =
     bnd (group_get E gid) (\<lambda>g. case g of None \<Rightarrow> fail (ErrGroup GErrUnknown)
     | Some rec \<Rightarrow>
       if g_admin rec \<noteq> admin_pub E then fail (ErrGroup GErrNotAdmin)
       else bnd (res (map_err ErrGroup (decode_membership (v_pmem E) (g_mem rec)))) (\<lambda>old.
         if \<not> mem_has old member \<or> member = v_self E then fail (ErrGroup GErrNotMember)
         else let m = next_document E gid old (filter (\<lambda>p. p \<noteq> member) (mb_members old)) in
           seq (store_document E rec m)
          (seq (sender_key_delete (gid, member))
          (bnd (res (map_err ErrGroup (encode_update (v_pupdate E) m))) (\<lambda>update.
           seq (sealed_each E TypeGroupUpdate update (mb_members old))
             (rekey_tx E gid (mb_members m)))))))"

definition remove_member :: "env \<Rightarrow> bytes \<Rightarrow> peer_id \<Rightarrow> world \<Rightarrow> (err + unit) \<times> world" where
  "remove_member E gid member w =
     (case run_tx (remove_member_tx E gid member) w of (Inl e, w') \<Rightarrow> (Inl e, w') | (Inr u, w') \<Rightarrow> (Inr (), wake w'))"

text \<open>One envelope per member, all with the same id; the result is whom to flush.\<close>

fun fan_out :: "env \<Rightarrow> envelope \<Rightarrow> peer_id list \<Rightarrow> peer_id list tx" where
  "fan_out E e [] = ret []"
| "fan_out E e (p # ps) =
     (if p = v_self E then fan_out E e ps
      else seq (enqueue_tx E p e) (bnd (fan_out E e ps) (\<lambda>qs. ret (p # qs))))"

definition group_text :: "env \<Rightarrow> bytes \<Rightarrow> msg_id \<Rightarrow> nat \<Rightarrow> nat \<Rightarrow> bytes \<Rightarrow> smsg" where
  "group_text E gid mid sequ lam text = \<lparr>sm_peer = PeerID gid, sm_id = mid, sm_out = True, sm_seq = of_nat sequ,
     sm_lam = of_nat lam, sm_sent = v_now E, sm_status = StatusSent, sm_deleted = False, sm_body = Some text,
     sm_sender = Some (id_bytes (v_self E))\<rparr>"

definition send_group_tx :: "env \<Rightarrow> bytes \<Rightarrow> bytes \<Rightarrow> msg_id \<Rightarrow> peer_id list tx" where
  "send_group_tx E gid text mid =
     bnd (group_get E gid) (\<lambda>g. case g of None \<Rightarrow> fail (ErrGroup GErrUnknown)
     | Some rec \<Rightarrow>
       if g_left rec then fail (ErrGroup GErrLeft)
       else bnd (group_members gid) (\<lambda>ms.
         bnd (sender_key_get E (gid, v_self E)) (\<lambda>raw. case raw of
           None \<Rightarrow> fail (ErrGroup GErrNoOwnKey)
         | Some b \<Rightarrow>
           bnd (res (map_err ErrSenderKey (sender_unmarshal b))) (\<lambda>sender.
           bnd (next_seq (''gseq:'' @ peer_string (PeerID gid))) (\<lambda>sequ.
           bnd lamport_next (\<lambda>lam.
           let (n, ct, sig, sender') = sk_encrypt (v_crypto E) sender gid text in
           bnd (res (map_err ErrGroup (encode_msg (v_pgmsg E)
             \<lparr>gs_gid = gid, gs_gen = ss_gen sender', gs_n = n, gs_ct = ct, gs_sig = sig\<rparr>))) (\<lambda>payload.
           seq (sender_key_put E (gid, v_self E) (sender_marshal sender'))
          (bnd (insert_message E (group_text E gid mid sequ lam text)) (\<lambda>fresh.
           fan_out E \<lparr>e_id = mid, e_type = TypeGroup, e_seq = of_nat sequ, e_lamport = of_nat lam,
             e_payload = payload\<rparr> ms))))))))) "

definition send_group_text :: "env \<Rightarrow> bytes \<Rightarrow> bytes \<Rightarrow> world \<Rightarrow> (err + msg_id) \<times> world" where
  "send_group_text E gid text w =
     (if text = [] then (Inl ErrEmptyText, w)
      else if MaxTextLen < length text then (Inl ErrTooLong, w)
      else case new_msg_id (w_rnd w) of
        Inl e \<Rightarrow> (Inl (ErrEnvelope e), w)
      | Inr (mid, r) \<Rightarrow> (case run_tx (send_group_tx E gid text mid) (w\<lparr>w_rnd := r\<rparr>) of
          (Inl e, w') \<Rightarrow> (Inl e, w')
        | (Inr fanout, w') \<Rightarrow> (Inr mid, fold flush fanout w')))"

definition groups :: "env \<Rightarrow> world \<Rightarrow> err + grow list" where
  "groups E w = group_list E (w_db w)"

definition group_history :: "env \<Rightarrow> bytes \<Rightarrow> int \<Rightarrow> world \<Rightarrow> err + smsg list" where
  "group_history E gid limit w = list_messages E (PeerID gid) limit (w_db w)"

section \<open>Incoming messages\<close>

definition group_incoming :: "env \<Rightarrow> peer_id \<Rightarrow> bytes \<Rightarrow> envelope \<Rightarrow> bytes \<Rightarrow> smsg" where
  "group_incoming E from gid e body = \<lparr>sm_peer = PeerID gid, sm_id = e_id e, sm_out = False, sm_seq = e_seq e,
     sm_lam = clamp_lamport (e_lamport e), sm_sent = v_now E, sm_status = StatusDelivered, sm_deleted = False,
     sm_body = Some body, sm_sender = Some (id_bytes from)\<rparr>"

definition on_group_message :: handler where
  "on_group_message E from e =
     (case decode_msg (v_pgmsg E) (e_payload e) of Inl err \<Rightarrow> bump ''group.malformed''
      | Inr msg \<Rightarrow>
        bnd (group_get E (gs_gid msg)) (\<lambda>g. case g of
          None \<Rightarrow> seq (bump ''group.keyMisses'') (fail (ErrGroup GErrUnknownYet))
        | Some rec \<Rightarrow>
          if g_left rec then bump ''group.refused''
          else bnd (group_is_member (gs_gid msg) from) (\<lambda>is_member.
            if \<not> is_member then seq (bump ''group.keyMisses'') (fail (ErrGroup GErrNotMemberYet))
            else bnd (sender_key_get E (gs_gid msg, from)) (\<lambda>raw. case raw of
              None \<Rightarrow> seq (bump ''group.keyMisses'') (fail (ErrGroup GErrNoKeyYet))
            | Some b \<Rightarrow>
              bnd (res (map_err ErrSenderKey (receiver_unmarshal b))) (\<lambda>receiver.
              case sk_decrypt (v_crypto E) receiver (gs_gid msg) (gs_gen msg) (gs_n msg) (gs_ct msg) (gs_sig msg) of
                Inl err \<Rightarrow>
                  if err = SErrFutureKey then seq (bump ''group.keyMisses'') (fail (ErrSenderKey err))
                  else bump ''group.undecryptable''
              | Inr (body, receiver') \<Rightarrow>
                  seq (sender_key_put E (gs_gid msg, from) (receiver_marshal receiver'))
                 (seq (lamport_observe (e_lamport e))
                 (bnd (insert_message E (group_incoming E from (gs_gid msg) e body)) (\<lambda>fresh.
                  after_commit (emit (OGroupMessage (group_incoming E from (gs_gid msg) e body)))))))))))"

text \<open>Our current point, for members who joined.\<close>

definition distribute_self_key :: "env \<Rightarrow> bytes \<Rightarrow> peer_id list \<Rightarrow> unit tx" where
  "distribute_self_key E gid to =
     bnd (sender_key_get E (gid, v_self E)) (\<lambda>raw. case raw of None \<Rightarrow> ret ()
     | Some b \<Rightarrow>
       bnd (res (map_err ErrSenderKey (sender_unmarshal b))) (\<lambda>sender.
       bnd (res (map_err ErrGroup (encode_key_dist (v_pkey E) gid (sender_dist (v_crypto E) sender)))) (\<lambda>payload.
       eachM (\<lambda>p. sealed_add E p TypeGroupKey payload) to)))"

text \<open>The keys after a change of members: those removed lose theirs, the rest get a new one from us or our point.\<close>

definition changed_keys :: "env \<Rightarrow> membership \<Rightarrow> membership \<Rightarrow> bool \<Rightarrow> unit tx" where
  "changed_keys E old m left' =
     (let removed = filter (\<lambda>p. \<not> mem_has m p) (mb_members old);
          added = filter (\<lambda>p. \<not> mem_has old p \<and> p \<noteq> v_self E) (mb_members m) in
      seq (eachM (\<lambda>p. sender_key_delete (mb_gid m, p)) removed)
     (seq (whenM (removed \<noteq> [] \<and> \<not> left')
            (seq (rekey_tx E (mb_gid m) (mb_members m)) (after_commit wake)))
       (whenM (added \<noteq> [] \<and> \<not> left' \<and> removed = [])
            (seq (distribute_self_key E (mb_gid m) added) (after_commit wake)))))"

definition apply_membership :: "env \<Rightarrow> grow \<Rightarrow> membership \<Rightarrow> unit tx" where
  "apply_membership E rec m =
     (if mb_admin m \<noteq> g_admin rec \<or> \<not> mem_verify (v_crypto E) m then bump ''group.refused''
      else bnd (res (map_err ErrGroup (decode_membership (v_pmem E) (g_mem rec)))) (\<lambda>old.
       bnd (res (map_err ErrGroup (encode_membership (v_pmem E) m))) (\<lambda>b.
       seq (group_put E (rec\<lparr>g_version := mb_version m, g_mem := b, g_name := str_bytes (mb_name m),
              g_updated := v_now E, g_left := (\<not> mem_has m (v_self E))\<rparr>))
      (seq (group_members_set (mb_gid m) (mb_members m))
        (changed_keys E old m (\<not> mem_has m (v_self E)))))))"

text \<open>Of the keys in an invitation only the sender's own is taken: the session vouches for no other.\<close>

fun welcome_keys :: "env \<Rightarrow> peer_id \<Rightarrow> membership \<Rightarrow> (peer_id \<times> dist) list \<Rightarrow> unit tx" where
  "welcome_keys E from m [] = ret ()"
| "welcome_keys E from m ((p, d) # ks) =
     (if p \<noteq> from \<or> \<not> mem_has m p then welcome_keys E from m ks
      else seq (sender_key_put E (mb_gid m, p) (receiver_marshal (new_receiver d))) (welcome_keys E from m ks))"

definition on_welcome :: sealed_handler where
  "on_welcome E from body =
     (case decode_welcome (v_pwelcome E) body of Inl err \<Rightarrow> bump ''group.malformed''
      | Inr wl \<Rightarrow>
        (let m = we_mem wl in
         if \<not> mem_verify (v_crypto E) m \<or> \<not> mem_has m (v_self E) then bump ''group.refused''
         else bnd (group_get E (mb_gid m)) (\<lambda>g. case g of
           Some rec \<Rightarrow> if mb_version m \<le> g_version rec then ret () else apply_membership E rec m
         | None \<Rightarrow>
             bnd (res (map_err ErrGroup (encode_membership (v_pmem E) m))) (\<lambda>b.
             seq (group_put E (group_rec E m b))
            (seq (group_members_set (mb_gid m) (mb_members m))
            (seq (welcome_keys E from m (we_keys wl))
            (seq (rekey_tx E (mb_gid m) (mb_members m))
              (after_commit (\<lambda>w. wake (bump_w ''group.welcomes'' w))))))))))"

definition on_update :: sealed_handler where
  "on_update E from body =
     (case decode_update (v_pupdate E) body of Inl err \<Rightarrow> bump ''group.malformed''
      | Inr m \<Rightarrow>
        bnd (group_get E (mb_gid m)) (\<lambda>g. case g of
          None \<Rightarrow> seq (bump ''group.keyMisses'') (fail (ErrGroup GErrUnknownYet))
        | Some rec \<Rightarrow> if mb_version m \<le> g_version rec then ret () else apply_membership E rec m))"

definition on_key :: sealed_handler where
  "on_key E from body =
     (case decode_key_dist (v_pkey E) body of Inl err \<Rightarrow> bump ''group.malformed''
      | Inr (gid, d) \<Rightarrow>
        bnd (group_get E gid) (\<lambda>g. case g of
          None \<Rightarrow> seq (bump ''group.keyMisses'') (fail (ErrGroup GErrUnknownYet))
        | Some rec \<Rightarrow>
          bnd (group_is_member gid from) (\<lambda>is_member.
          if \<not> is_member then seq (bump ''group.keyMisses'') (fail (ErrGroup GErrNotMemberYet))
          else bnd (sender_key_get E (gid, from)) (\<lambda>raw.
            if (case raw of None \<Rightarrow> False | Some b \<Rightarrow> (case receiver_unmarshal b of Inl err \<Rightarrow> False
                  | Inr cur \<Rightarrow> d_gen d < sr_gen cur))
            then bump ''group.refused''
            else seq (sender_key_put E (gid, from) (receiver_marshal (new_receiver d)))
                   (bump ''group.keysReceived'')))))"

section \<open>Handlers are tame\<close>

lemma sends_enqueue_one [moves_intros]: "moves sends (enqueue_tx E p e)"
  unfolding enqueue_tx_def by (intro sends_order.moves_rules moves_intros)

lemma sends_sealed_each [moves_intros]: "moves sends (sealed_each E t b ps)"
  by (induction ps) (simp_all only: sealed_each.simps; intro sends_order.moves_rules moves_intros; simp)+

lemma sends_collect [moves_intros]: "moves sends (collect_dists E gid ps p)"
  by (induction ps) (simp_all only: collect_dists.simps; intro sends_order.moves_rules moves_intros; simp)+

lemma sends_fan_out [moves_intros]: "moves sends (fan_out E e ps)"
  by (induction ps) (simp_all only: fan_out.simps; intro sends_order.moves_rules moves_intros; simp)+

lemma sends_rekey [moves_intros]: "moves sends (rekey_tx E gid ms)" "moves sends (distribute_self_key E gid ps)"
  "moves sends (store_document E rec m)"
  unfolding rekey_tx_def distribute_self_key_def store_document_def Let_def
  by (intro sends_order.moves_rules moves_intros)+

lemma sends_keys [moves_intros]: "moves sends (welcome_keys E p m ks)"
proof (induction ks)
  case (Cons k ks)
  obtain q d where "k = (q, d)" by (cases k)
  with Cons show ?case by (simp only: welcome_keys.simps) (intro sends_order.moves_rules moves_intros; simp)
qed (simp only: welcome_keys.simps sends_order.moves_rules)

lemma sends_group_ops [moves_intros]: "moves sends (create_group_tx E m b s)" "moves sends (add_member_tx E gid p)"
  "moves sends (remove_member_tx E gid p)" "moves sends (send_group_tx E gid text mid)" "moves sends (on_key E p b)"
  unfolding create_group_tx_def add_member_tx_def remove_member_tx_def send_group_tx_def on_key_def Let_def
  by (intro sends_order.moves_rules moves_intros)+

lemmas tame_group_parts [moves_intros] = sends_rekey [THEN moves_sends_tame] sends_keys [THEN moves_sends_tame]
  sends_group_ops [THEN moves_sends_tame]

lemma quiet_wake [intro]: "quiet_hook wake" "quiet_hook (\<lambda>w. wake (bump_w c w))"
  by (simp_all add: quiet_hook_def wake_def)

lemma tame_apply [moves_intros]: "moves tame (apply_membership E rec m)"
  unfolding apply_membership_def changed_keys_def Let_def
  by (intro tame_order.moves_rules moves_intros quiet_wake)

lemma tame_group [moves_intros]:
  "moves tame (on_group_message E p e)" "moves tame (on_welcome E p b)" "moves tame (on_update E p b)"
  "moves tame (on_key E p b)"
  unfolding on_group_message_def on_welcome_def on_update_def Let_def
  by (intro tame_order.moves_rules moves_intros quiet_wake quiet_hooks)+

end
