(* ===== verification/GroupDocs.thy ===== *)
theory GroupDocs
  imports Group ChatThms
begin

text \<open>
  The documents of package group: the stored document of a group is always one
  its admin signed and only moves to later versions, whatever peers send and in
  whatever order. \<open>documented\<close> is the relation every operation and handler keeps;
  it holds trivially where the tables of groups and members are untouched
  (\<open>docs_kept\<close>), so only the replacement of a document needs an argument.
\<close>

section \<open>Operations that leave documents alone\<close>

definition hooked :: "bool \<Rightarrow> txs \<Rightarrow> txs \<Rightarrow> bool" where
  "hooked ok s s' \<longleftrightarrow> (\<exists>new. snd s' = snd s @ new \<and> list_all quiet_hook new)"

interpretation hooked_order: step_order hooked
proof unfold_locales
  show "hooked ok s s" for ok s by (simp add: hooked_def)
  show "hooked ok s u" if st: "hooked True s t" and tu: "hooked ok t u" for ok s t u
  proof -
    obtain a b where "snd t = snd s @ a" "list_all quiet_hook a" "snd u = snd t @ b" "list_all quiet_hook b"
      using st tu unfolding hooked_def by blast
    then have "snd u = snd s @ (a @ b) \<and> list_all quiet_hook (a @ b)" by simp
    then show ?thesis unfolding hooked_def by blast
  qed
qed

lemma moves_hooked: "moves sends m \<Longrightarrow> moves hooked m"
  by (simp add: moves_def sends_def hooked_def)

lemma hooked_commit: "quiet_hook h \<Longrightarrow> moves hooked (after_commit h)"
  unfolding moves_def by (auto simp: hooked_def)

definition docs_kept :: "bool \<Rightarrow> txs \<Rightarrow> txs \<Rightarrow> bool" where
  "docs_kept ok s s' \<longleftrightarrow> d_groups (w_db (fst s')) = d_groups (w_db (fst s))
     \<and> d_members (w_db (fst s')) = d_members (w_db (fst s))"

interpretation docs_kept_order: step_order docs_kept
  by unfold_locales (simp_all add: docs_kept_def)

named_theorems docs_intros \<open>operations that keep the documents\<close>

lemma docs_basic [docs_intros]:
  "moves docs_kept (with_rnd f)" "moves docs_kept (q_db g)" "moves docs_kept (q_world h)" "moves docs_kept (bump c)"
  unfolding moves_def with_rnd_def by (auto simp: docs_kept_def split: sum.splits)

lemma docs_db [docs_intros]:
  assumes "\<And>d. d_groups (f d) = d_groups d" "\<And>d. d_members (f d) = d_members d"
  shows "moves docs_kept (on_db f)"
  unfolding moves_def by (auto simp: docs_kept_def assms)

lemma docs_commit [docs_intros]: "moves docs_kept (after_commit h)"
  unfolding moves_def by (auto simp: docs_kept_def)

lemma docs_store [docs_intros]:
  "moves docs_kept (box_seal E b a)" "moves docs_kept (insert_message E m)" "moves docs_kept (next_seq c)"
  "moves docs_kept lamport_next" "moves docs_kept (lamport_observe v)" "moves docs_kept (enqueue_tx E p e)"
  "moves docs_kept (sender_key_put E k st)" "moves docs_kept (sender_key_get E k)"
  "moves docs_kept (sender_key_delete k)" "moves docs_kept (sealed_add E p t b)" "moves docs_kept (sealed_delete n)"
  "moves docs_kept (group_get E gid)" "moves docs_kept (group_members gid)" "moves docs_kept (group_is_member gid p)"
  unfolding box_seal_def draw_def insert_message_def next_seq_def lamport_next_def lamport_observe_def enqueue_tx_def
    outbox_enqueue_def sender_key_put_def sender_key_get_def sender_key_delete_def sealed_add_def sealed_delete_def
    group_get_def group_members_def group_is_member_def Let_def
  by (intro docs_kept_order.moves_rules docs_intros; simp)+

lemma docs_sessions [docs_intros]: "moves docs_kept (send_sealed_tx E p t b mid)"
  unfolding send_sealed_tx_def load_session_def save_session_def session_get_def session_put_def ensure_handshake_def
    handshake_get_def handshake_put_def new_mid_def
  by (intro docs_kept_order.moves_rules docs_intros; simp)

lemma docs_loops [docs_intros]:
  "moves docs_kept (sealed_each E t b ps)" "moves docs_kept (collect_dists E gid ps p)" "moves docs_kept (fan_out E e ps)"
proof -
  show "moves docs_kept (sealed_each E t b ps)"
    by (induction ps) (simp_all only: sealed_each.simps; intro docs_kept_order.moves_rules docs_intros; simp)+
  show "moves docs_kept (collect_dists E gid ps p)"
    by (induction ps) (simp_all only: collect_dists.simps; intro docs_kept_order.moves_rules docs_intros; simp)+
  show "moves docs_kept (fan_out E e ps)"
    by (induction ps) (simp_all only: fan_out.simps; intro docs_kept_order.moves_rules docs_intros; simp)+
qed

lemma docs_keys [docs_intros]: "moves docs_kept (welcome_keys E p m ks)"
proof (induction ks)
  case (Cons k ks)
  obtain q d where "k = (q, d)" by (cases k)
  with Cons show ?case by (simp only: welcome_keys.simps) (intro docs_kept_order.moves_rules docs_intros; simp)
qed (simp only: welcome_keys.simps docs_kept_order.moves_rules)

lemma docs_parts [docs_intros]:
  "moves docs_kept (rekey_tx E gid ms)" "moves docs_kept (distribute_self_key E gid ps)"
  "moves docs_kept (send_group_tx E gid text mid)" "moves docs_kept (on_key E p b)" "moves docs_kept (on_group_message E p e)"
  unfolding rekey_tx_def distribute_self_key_def send_group_tx_def on_key_def on_group_message_def Let_def
  by (intro docs_kept_order.moves_rules docs_intros quiet_hooks)+

lemma docs_changed [docs_intros]: "moves docs_kept (changed_keys E old m b)"
  unfolding changed_keys_def Let_def by (intro docs_kept_order.moves_rules docs_intros)

section \<open>The documents of a node\<close>

definition document_ok :: "env \<Rightarrow> db \<Rightarrow> grow \<Rightarrow> bool" where
  "document_ok E d r \<longleftrightarrow> (\<exists>g m. scan_group E r = Inr g \<and> decode_membership (v_pmem E) (g_mem g) = Inr m
     \<and> mem_verify (v_crypto E) m \<and> mb_gid m = g_id r \<and> mb_admin m = g_admin r \<and> mb_version m = g_version r
     \<and> g_left r = (\<not> mem_has m (v_self E)) \<and> map snd (filter (\<lambda>(g, p). g = g_id r) (d_members d)) = mb_members m)"

definition documents_ok :: "env \<Rightarrow> db \<Rightarrow> bool" where
  "documents_ok E d \<longleftrightarrow> (\<forall>gid r. group_row gid d = Some r \<longrightarrow> sql_u64 (g_version r) \<and> document_ok E d r)"

definition documents_grow :: "db \<Rightarrow> db \<Rightarrow> bool" where
  "documents_grow d d' \<longleftrightarrow> (\<forall>gid r. group_row gid d = Some r \<longrightarrow>
     (\<exists>r'. group_row gid d' = Some r' \<and> g_admin r' = g_admin r \<and> g_version r \<le> g_version r'))"

lemma documents_grow_refl [simp]: "documents_grow d d"
  by (simp add: documents_grow_def)

lemma documents_grow_trans:
  assumes "documents_grow a b" "documents_grow b c"
  shows "documents_grow a c"
  unfolding documents_grow_def
proof (intro allI impI)
  fix gid r
  assume "group_row gid a = Some r"
  with assms(1) obtain s where s: "group_row gid b = Some s" "g_admin s = g_admin r" "g_version r \<le> g_version s"
    by (auto simp: documents_grow_def)
  with assms(2) obtain q where "group_row gid c = Some q" "g_admin q = g_admin s" "g_version s \<le> g_version q"
    unfolding documents_grow_def by blast
  with s show "\<exists>q. group_row gid c = Some q \<and> g_admin q = g_admin r \<and> g_version r \<le> g_version q"
    by (metis order_trans)
qed

lemma documents_cong:
  assumes "d_groups d' = d_groups d" "d_members d' = d_members d"
  shows "documents_ok E d' = documents_ok E d" "documents_grow d d'"
  using assms by (simp_all add: documents_ok_def document_ok_def documents_grow_def group_row_def)

lemma group_row_id: "group_row gid d = Some r \<Longrightarrow> g_id r = gid"
  by (auto simp: group_row_def find_Some_iff)

definition documented :: "env \<Rightarrow> bool \<Rightarrow> txs \<Rightarrow> txs \<Rightarrow> bool" where
  "documented E ok s s' \<longleftrightarrow> (ok \<and> documents_ok E (w_db (fst s)) \<longrightarrow>
       documents_ok E (w_db (fst s')) \<and> documents_grow (w_db (fst s)) (w_db (fst s')))"

lemma documented_kept: "docs_kept ok s s' \<Longrightarrow> documented E ok s s'"
  unfolding docs_kept_def documented_def by (metis documents_cong)

interpretation documented_order: step_order "documented E" for E
  by unfold_locales (auto simp: documented_def intro: documents_grow_trans)

lemma moves_documented: "moves docs_kept m \<Longrightarrow> moves (documented E) m"
  by (simp add: moves_def documented_kept)

text \<open>The one way a document changes: row and members together.\<close>

definition replace_document :: "env \<Rightarrow> grow \<Rightarrow> membership \<Rightarrow> unit tx" where
  "replace_document E g m = seq (group_put E g) (group_members_set (mb_gid m) (mb_members m))"

definition replaceable :: "env \<Rightarrow> db \<Rightarrow> grow \<Rightarrow> membership \<Rightarrow> bool" where
  "replaceable E d g m \<longleftrightarrow> decode_membership (v_pmem E) (g_mem g) = Inr m \<and> mem_verify (v_crypto E) m
     \<and> mb_gid m = g_id g \<and> mb_version m = g_version g \<and> g_left g = (\<not> mem_has m (v_self E))
     \<and> (case group_row (g_id g) d of None \<Rightarrow> mb_admin m = g_admin g
        | Some r \<Rightarrow> mb_admin m = g_admin r \<and> g_version r \<le> g_version g)"

lemma replace_document_run:
  assumes "replace_document E g m (w, hs) = (Inr (), s')"
  shows "\<exists>name mem r. s' = (w\<lparr>w_rnd := r, w_db := (w_db w)\<lparr>d_groups := put_group g name mem (d_groups (w_db w)),
      d_members := filter (\<lambda>(g, p). g \<noteq> mb_gid m) (d_members (w_db w)) @ map (Pair (mb_gid m)) (mb_members m)\<rparr>\<rparr>, hs)
    \<and> sql_u64 (g_version g) \<and> distinct (mb_members m)
    \<and> (sealing_ok E \<longrightarrow> box_open E name (aad_group_name (g_id g)) = Inr (g_name g)
        \<and> box_open E mem (aad_group_membership (g_id g)) = Inr (g_mem g))"
proof -
  from assms obtain s1 where s1: "group_put E g (w, hs) = (Inr (), s1)"
    "group_members_set (mb_gid m) (mb_members m) s1 = (Inr (), s')"
    by (auto simp: replace_document_def seq_Inr_iff)
  from group_put_run [OF s1(1)] obtain name mem r where
    g: "s1 = (w\<lparr>w_rnd := r, w_db := (w_db w)\<lparr>d_groups := put_group g name mem (d_groups (w_db w))\<rparr>\<rparr>, hs)"
      "sql_u64 (g_version g)" "sealing_ok E \<longrightarrow> box_open E name (aad_group_name (g_id g)) = Inr (g_name g)
          \<and> box_open E mem (aad_group_membership (g_id g)) = Inr (g_mem g)" by blast
  from members_set_run [OF s1(2) [unfolded g(1)]] g(2,3) show ?thesis
    by (intro exI [of _ name] exI [of _ mem] exI [of _ r]) simp
qed

lemma replaced_row:
  "group_row gid (d\<lparr>d_groups := put_group g name mem (d_groups d), d_members := ms\<rparr>) =
    (if gid = g_id g then Some (case group_row gid d of None \<Rightarrow> g\<lparr>g_name := name, g_mem := mem\<rparr>
       | Some r \<Rightarrow> r\<lparr>g_name := name, g_version := g_version g, g_mem := mem, g_left := g_left g, g_updated := g_updated g\<rparr>)
     else group_row gid d)"
  by (auto simp: group_row_def find_put_group)

lemma members_of_new: "map snd (filter (\<lambda>(g, p). g = gid) (filter (\<lambda>(g, p). g \<noteq> gid) rows @ map (Pair gid) ms)) = ms"
proof -
  have "filter (\<lambda>(g, p). g = gid) (filter (\<lambda>(g, p). g \<noteq> gid) rows) = []" by (auto simp: filter_empty_conv)
  moreover have "filter (\<lambda>(g, p). g = gid) (map (Pair gid) ms) = map (Pair gid) ms" by (induction ms) auto
  ultimately show ?thesis by (simp add: comp_def)
qed

lemma members_of_other: "gid' \<noteq> gid \<Longrightarrow>
    filter (\<lambda>(g, p). g = gid') (filter (\<lambda>(g, p). g \<noteq> gid) rows @ map (Pair gid) ms) = filter (\<lambda>(g, p). g = gid') rows"
  by (induction rows) (auto simp: filter_empty_conv)

lemma replaced_documents:
  assumes ok: "documents_ok E (w_db w)" "sealing_ok E" and m: "replaceable E (w_db w) g m"
    and run: "replace_document E g m (w, hs) = (Inr (), (w', hs'))"
  shows "documents_ok E (w_db w') \<and> documents_grow (w_db w) (w_db w') \<and> hs' = hs"
proof -
  let ?d = "w_db w"
  from replace_document_run [OF run] ok(2) obtain name mem r where
    w': "w' = w\<lparr>w_rnd := r, w_db := ?d\<lparr>d_groups := put_group g name mem (d_groups ?d),
      d_members := filter (\<lambda>(g, p). g \<noteq> mb_gid m) (d_members ?d) @ map (Pair (mb_gid m)) (mb_members m)\<rparr>\<rparr>" "hs' = hs"
    and sql: "sql_u64 (g_version g)"
    and o: "box_open E name (aad_group_name (g_id g)) = Inr (g_name g)"
      "box_open E mem (aad_group_membership (g_id g)) = Inr (g_mem g)"
    unfolding prod.inject by blast
  note M = m [unfolded replaceable_def]
  have new: "sql_u64 (g_version q) \<and> document_ok E (w_db w') q" if q: "group_row (g_id g) (w_db w') = Some q" for q
  proof -
    have idq: "g_id q = g_id g" by (rule group_row_id [OF q])
    have sc: "\<exists>x. scan_group E q = Inr x \<and> g_mem x = g_mem g" and "g_version q = g_version g" "g_left q = g_left g"
      and adm: "mb_admin m = g_admin q"
      using q idq M o unfolding w' by (auto simp: replaced_row scan_group_def split: option.splits)
    moreover have "map snd (filter (\<lambda>(g, p). g = g_id q) (d_members (w_db w'))) = mb_members m"
      using M members_of_new [of "g_id g"] by (simp add: w' idq)
    ultimately show ?thesis using M sql idq unfolding document_ok_def by auto
  qed
  have old: "sql_u64 (g_version q) \<and> document_ok E (w_db w') q"
    if q: "group_row gid (w_db w') = Some q" and ne: "gid \<noteq> g_id g" for gid q
  proof -
    have "group_row gid ?d = Some q" using q ne by (simp add: w' replaced_row)
    moreover have "filter (\<lambda>(g, p). g = gid) (d_members (w_db w')) = filter (\<lambda>(g, p). g = gid) (d_members ?d)"
      using M ne members_of_other [of gid "mb_gid m"] by (simp add: w')
    moreover have "g_id q = gid" by (rule group_row_id [OF q])
    ultimately show ?thesis using ok(1) unfolding documents_ok_def document_ok_def by metis
  qed
  have "documents_ok E (w_db w')" unfolding documents_ok_def using new old by metis
  moreover have "documents_grow ?d (w_db w')"
    using M by (auto simp: documents_grow_def w' replaced_row)
  ultimately show ?thesis using w'(2) by simp
qed

definition document_of :: "env \<Rightarrow> bytes \<Rightarrow> db \<Rightarrow> membership option" where
  "document_of E gid d = (case group_row gid d of None \<Rightarrow> None
     | Some r \<Rightarrow> (case scan_group E r of Inl e \<Rightarrow> None
       | Inr g \<Rightarrow> (case decode_membership (v_pmem E) (g_mem g) of Inl e \<Rightarrow> None | Inr m \<Rightarrow> Some m)))"

lemma replaced_document:
  assumes "sealing_ok E" "replaceable E (w_db w) g m" "replace_document E g m (w, hs) = (Inr (), (w', hs'))"
  shows "document_of E (mb_gid m) (w_db w') = Some m"
proof -
  from replace_document_run [OF assms(3)] assms(1) obtain name mem r where
    w': "w' = w\<lparr>w_rnd := r, w_db := (w_db w)\<lparr>d_groups := put_group g name mem (d_groups (w_db w)),
      d_members := filter (\<lambda>(g, p). g \<noteq> mb_gid m) (d_members (w_db w)) @ map (Pair (mb_gid m)) (mb_members m)\<rparr>\<rparr>"
    and o: "box_open E name (aad_group_name (g_id g)) = Inr (g_name g)"
      "box_open E mem (aad_group_membership (g_id g)) = Inr (g_mem g)"
    unfolding prod.inject by blast
  have gid: "mb_gid m = g_id g" and dec: "decode_membership (v_pmem E) (g_mem g) = Inr m"
    using assms(2) by (simp_all add: replaceable_def)
  show ?thesis
  proof (cases "group_row (g_id g) (w_db w)")
    case None
    then show ?thesis by (simp add: document_of_def w' replaced_row gid dec scan_group_def o)
  next
    case (Some r)
    with group_row_id [OF Some] show ?thesis by (simp add: document_of_def w' replaced_row gid dec scan_group_def o)
  qed
qed

section \<open>Every operation keeps the documents right\<close>

text \<open>What the codec of the document owes: it reads back what it wrote.\<close>

definition group_laws :: "env \<Rightarrow> bool" where
  "group_laws E \<longleftrightarrow> sealing_ok E \<and> sign_correct (v_crypto E) \<and> key_lengths (v_crypto E)
     \<and> (\<forall>q. pb_roundtrip (v_pmem E) q) \<and> wf_peer (v_self E)"

lemma group_lawsD: "group_laws E \<Longrightarrow> sealing_ok E" "group_laws E \<Longrightarrow> sign_correct (v_crypto E)"
  "group_laws E \<Longrightarrow> key_lengths (v_crypto E)" "group_laws E \<Longrightarrow> pb_roundtrip (v_pmem E) q" "group_laws E \<Longrightarrow> wf_peer (v_self E)"
  by (simp_all add: group_laws_def)

lemma document_decodes: "group_laws E \<Longrightarrow> encode_membership (v_pmem E) m = Inr b \<Longrightarrow> length (mb_gid m) = 32
    \<Longrightarrow> length (mb_admin m) = 32 \<Longrightarrow> length (mb_sig m) = 64 \<Longrightarrow> \<forall>p \<in> set (mb_members m). wf_peer p
    \<Longrightarrow> decode_membership (v_pmem E) b = Inr m"
  using group_lawsD(4) [of E "mem_pb m"]
  by (auto simp: decode_membership_iff wf_membership_def encode_membership_def dest: pb_roundtripD split: if_splits)

lemma group_get_run: "group_get E gid (w, hs) = (Inr g, s') \<Longrightarrow> s' = (w, hs) \<and>
    (case g of None \<Rightarrow> group_row gid (w_db w) = None
     | Some rec \<Rightarrow> (\<exists>r. group_row gid (w_db w) = Some r \<and> scan_group E r = Inr rec))"
  by (auto simp: group_get_def bnd_Inr_iff split: option.splits)

lemma group_get_same: "group_get E gid (w, hs) = (r, s') \<Longrightarrow> s' = (w, hs)"
  by (cases "group_row gid (w_db w)"; cases r) (auto simp: group_get_def bnd_Inr_iff bnd_Inl_iff)

lemma scan_group_same: "scan_group E r = Inr g \<Longrightarrow> g_id g = g_id r \<and> g_admin g = g_admin r \<and> g_version g = g_version r
    \<and> g_left g = g_left r \<and> g_created g = g_created r"
  by (auto simp: scan_group_def bindR_Inr_iff)

lemma refused_documented: "documented E ok (w, hs) (bump_w c w, hs)"
  by (simp add: documented_def)

lemma apply_documented:
  assumes laws: "group_laws E" and row: "group_row (mb_gid m) (w_db w) = Some r" "scan_group E r = Inr rec"
    and m: "wf_membership m" "g_version rec \<le> mb_version m"
    and run: "apply_membership E rec m (w, hs) = (x, s')"
  shows "documented E (is_ok x) (w, hs) s'"
proof (cases "mb_admin m \<noteq> g_admin rec \<or> \<not> mem_verify (v_crypto E) m")
  case True
  with run show ?thesis by (auto simp: apply_membership_def refused_documented)
next
  case False
  let ?left = "\<not> mem_has m (v_self E)"
  show ?thesis
  proof (cases x)
    case (Inr u)
    from False run Inr obtain old b s1 s2 where
      enc: "encode_membership (v_pmem E) m = Inr b"
      and s1: "group_put E (rec\<lparr>g_version := mb_version m, g_mem := b, g_name := str_bytes (mb_name m),
          g_updated := v_now E, g_left := ?left\<rparr>) (w, hs) = (Inr (), s1)"
      and s2: "group_members_set (mb_gid m) (mb_members m) s1 = (Inr (), s2)"
      and s': "changed_keys E old m ?left s2 = (Inr (), s')"
      by (auto simp: apply_membership_def runs_iff)
    let ?g = "rec\<lparr>g_version := mb_version m, g_mem := b, g_name := str_bytes (mb_name m),
          g_updated := v_now E, g_left := ?left\<rparr>"
    have dec: "decode_membership (v_pmem E) b = Inr m"
      by (rule document_decodes [OF laws enc]) (use m in \<open>simp_all add: wf_membership_def\<close>)
    have id: "g_id rec = mb_gid m" using scan_group_same [OF row(2)] group_row_id [OF row(1)] by simp
    obtain v vs where v: "s2 = (v, vs)" by (cases s2)
    have "replace_document E ?g m (w, hs) = (Inr (), (v, vs))"
      using s1 s2 v by (simp add: replace_document_def seq_def bnd_def)
    moreover have "replaceable E (w_db w) ?g m"
      using False m dec id row scan_group_same [OF row(2)] by (simp add: replaceable_def)
    ultimately have "documents_ok E (w_db w) \<Longrightarrow> documents_ok E (w_db v) \<and> documents_grow (w_db w) (w_db v)"
      using replaced_documents [OF _ group_lawsD(1) [OF laws]] by blast
    then have "documented E True (w, hs) s2" by (simp add: documented_def v)
    moreover have "documented E True s2 s'" using documented_kept [OF movesD [OF docs_changed s']] by simp
    ultimately show ?thesis using documented_order.chain [of E "(w, hs)" s2 True s'] Inr by simp
  qed (simp add: documented_def)
qed

text \<open>A group seen for the first time, created by us or through an invitation.\<close>

lemma fresh_documented:
  assumes laws: "group_laws E" and none: "group_row (mb_gid m) (w_db w) = None"
    and enc: "encode_membership (v_pmem E) m = Inr b" and wf: "wf_membership m" and ver: "mem_verify (v_crypto E) m"
    and self: "mem_has m (v_self E)"
    and put: "group_put E (group_rec E m b) (w, hs) = (Inr (), s1)"
    and set: "group_members_set (mb_gid m) (mb_members m) s1 = (Inr (), s2)"
  shows "documented E True (w, hs) s2"
proof -
  have dec: "decode_membership (v_pmem E) b = Inr m"
    by (rule document_decodes [OF laws enc]) (use wf in \<open>simp_all add: wf_membership_def\<close>)
  obtain v vs where v: "s2 = (v, vs)" by (cases s2)
  have "replace_document E (group_rec E m b) m (w, hs) = (Inr (), (v, vs))"
    using put set v by (simp add: replace_document_def seq_def bnd_def)
  moreover have "replaceable E (w_db w) (group_rec E m b) m"
    using dec none ver self by (simp add: replaceable_def group_rec_def)
  ultimately have "documents_ok E (w_db w) \<Longrightarrow> documents_ok E (w_db v) \<and> documents_grow (w_db w) (w_db v)"
    using replaced_documents [OF _ group_lawsD(1) [OF laws]] by blast
  then show ?thesis by (simp add: documented_def v)
qed

lemma documented_then: "documented E True s t \<Longrightarrow> moves docs_kept n \<Longrightarrow> n t = (x, u) \<Longrightarrow> documented E (is_ok x) s u"
  using documented_order.chain [of E s t "is_ok x" u] documented_kept movesD [of docs_kept n t x u] by blast

lemma update_documented:
  assumes "group_laws E" "on_update E p body (w, hs) = (x, s')"
  shows "documented E (is_ok x) (w, hs) s'"
proof (cases "decode_update (v_pupdate E) body")
  case (Inl err)
  with assms(2) show ?thesis by (auto simp: on_update_def refused_documented)
next
  case (Inr m)
  have wf: "wf_membership m" using Inr by (simp add: decode_update_iff)
  show ?thesis
  proof (cases x)
    case (Inr u)
    with assms(2) \<open>decode_update (v_pupdate E) body = Inr m\<close> obtain g where
      g: "group_get E (mb_gid m) (w, hs) = (Inr (Some g), (w, hs))"
      and rest: "(if mb_version m \<le> g_version g then ret () else apply_membership E g m) (w, hs) = (Inr (), s')"
      by (auto simp: on_update_def bnd_Inr_iff seq_Inr_iff dest: group_get_run split: option.splits)
    from group_get_run [OF g] obtain r where "group_row (mb_gid m) (w_db w) = Some r" "scan_group E r = Inr g" by auto
    with rest apply_documented [OF assms(1) this wf] Inr show ?thesis
      by (cases "mb_version m \<le> g_version g") (auto simp: documented_def)
  qed (simp add: documented_def)
qed

text \<open>An invitation that is verified and names us.\<close>

lemma welcome_known:
  assumes "decode_welcome (v_pwelcome E) body = Inr wl" "mem_verify (v_crypto E) (we_mem wl)" "mem_has (we_mem wl) (v_self E)"
    and "group_get E (mb_gid (we_mem wl)) (w, hs) = (Inr g, s1)"
  shows "on_welcome E p body (w, hs) = (case g of
       Some rec \<Rightarrow> if mb_version (we_mem wl) \<le> g_version rec then ret () else apply_membership E rec (we_mem wl)
     | None \<Rightarrow>
         bnd (res (map_err ErrGroup (encode_membership (v_pmem E) (we_mem wl)))) (\<lambda>b.
         seq (group_put E (group_rec E (we_mem wl) b))
        (seq (group_members_set (mb_gid (we_mem wl)) (mb_members (we_mem wl)))
        (seq (welcome_keys E p (we_mem wl) (we_keys wl))
        (seq (rekey_tx E (mb_gid (we_mem wl)) (mb_members (we_mem wl)))
          (after_commit (\<lambda>w. wake (bump_w ''group.welcomes'' w)))))))) (w, hs)"
  using assms group_get_same [OF assms(4)] by (simp add: on_welcome_def Let_def bnd_Inr)

lemma welcome_documented:
  assumes "group_laws E" "on_welcome E p body (w, hs) = (x, s')"
  shows "documented E (is_ok x) (w, hs) s'"
proof (cases "decode_welcome (v_pwelcome E) body")
  case (Inl err)
  with assms(2) show ?thesis by (auto simp: on_welcome_def refused_documented)
next
  case (Inr wl)
  define m where "m = we_mem wl"
  have wf: "wf_membership m" using decode_welcome_wf [OF Inr] by (simp add: m_def)
  show ?thesis
  proof (cases "mem_verify (v_crypto E) m \<and> mem_has m (v_self E) \<and> is_ok x")
    case False
    then show ?thesis
      using assms(2) Inr by (cases x) (auto simp: on_welcome_def Let_def m_def refused_documented documented_def)
  next
    case True
    then have x: "x = Inr ()" by (cases x) auto
    obtain q s1 where q: "group_get E (mb_gid m) (w, hs) = (q, s1)" by (metis prod.collapse)
    have "q \<noteq> Inl e" for e
      using q assms(2) Inr True x by (auto simp: on_welcome_def Let_def m_def bnd_Inl)
    then obtain g where "q = Inr g" by (cases q) auto
    with q group_get_same [OF q] have g: "group_get E (mb_gid m) (w, hs) = (Inr g, (w, hs))" by simp
    note rest = assms(2) [unfolded welcome_known [OF Inr _ _ g [unfolded m_def], folded m_def, simplified True, OF TrueI TrueI] x]
    show ?thesis
    proof (cases g)
      case None
      with rest obtain b s1 s2 where enc: "encode_membership (v_pmem E) m = Inr b"
        and s1: "group_put E (group_rec E m b) (w, hs) = (Inr (), s1)"
        and s2: "group_members_set (mb_gid m) (mb_members m) s1 = (Inr (), s2)"
        and s': "seq (welcome_keys E p m (we_keys wl)) (seq (rekey_tx E (mb_gid m) (mb_members m))
              (after_commit (\<lambda>w. wake (bump_w ''group.welcomes'' w)))) s2 = (Inr (), s')"
        by (auto simp: runs_iff)
      have "group_row (mb_gid m) (w_db w) = None" using group_get_run [OF g] None by simp
      from fresh_documented [OF assms(1) this enc wf _ _ s1 s2] True have "documented E True (w, hs) s2" by blast
      moreover have "moves docs_kept (seq (welcome_keys E p m (we_keys wl)) (seq (rekey_tx E (mb_gid m) (mb_members m))
              (after_commit (\<lambda>w. wake (bump_w ''group.welcomes'' w)))))"
        by (intro docs_kept_order.moves_rules docs_intros)
      ultimately show ?thesis by (rule documented_then) (simp add: s' x)
    next
      case (Some rec)
      from group_get_run [OF g] Some obtain r where "group_row (mb_gid m) (w_db w) = Some r" "scan_group E r = Inr rec" by auto
      with rest Some apply_documented [OF assms(1) this wf] x show ?thesis
        by (cases "mb_version m \<le> g_version rec") (auto simp: documented_def)
    qed
  qed
qed

lemma stored_document: "store_document E rec m s = (Inr (), s') \<Longrightarrow> \<exists>b. encode_membership (v_pmem E) m = Inr b
    \<and> replace_document E (rec\<lparr>g_version := mb_version m, g_mem := b, g_updated := v_now E\<rparr>) m s = (Inr (), s')"
  by (auto simp: store_document_def replace_document_def runs_iff)

lemma next_document_simps [simp]: "mb_gid (next_document E gid old ms) = gid"
  "mb_version (next_document E gid old ms) = mb_version old + 1" "mb_admin (next_document E gid old ms) = mb_admin old"
  "set (mb_members (next_document E gid old ms)) = set ms" "mb_members (next_document E gid old ms) = sort ms"
  "mb_name (next_document E gid old ms) = mb_name old"
  by (simp_all add: next_document_def mem_sign_def Let_def sort_members_def)

lemma next_document_verifies: "sign_correct (v_crypto E) \<Longrightarrow> mb_admin old = admin_pub E
    \<Longrightarrow> mem_verify (v_crypto E) (next_document E gid old ms)"
  using sign_verify [of "v_crypto E" "v_admin E" "\<lparr>mb_gid = gid, mb_version = mb_version old + 1,
     mb_name = mb_name old, mb_admin = mb_admin old, mb_members = ms, mb_sig = []\<rparr>"]
  by (simp add: next_document_def admin_pub_def)

lemma u64_next: "sql_u64 v \<Longrightarrow> v \<le> v + 1"
  by (simp add: sql_u64_def word_le_nat_alt unat_word_ariths)

lemma next_replaceable:
  assumes laws: "group_laws E" and row: "group_row gid (w_db w) = Some r" "scan_group E r = Inr rec"
    and old: "decode_membership (v_pmem E) (g_mem rec) = Inr old" and adm: "g_admin rec = admin_pub E"
    and ms: "\<forall>p \<in> set ms. wf_peer p" "v_self E \<in> set ms \<longleftrightarrow> mem_has old (v_self E)"
    and ok: "documents_ok E (w_db w)" and b: "encode_membership (v_pmem E) (next_document E gid old ms) = Inr b"
  shows "replaceable E (w_db w) (rec\<lparr>g_version := mb_version (next_document E gid old ms), g_mem := b, g_updated := v_now E\<rparr>)
    (next_document E gid old ms)"
proof -
  let ?m = "next_document E gid old ms"
  have same: "g_id rec = gid" "g_admin rec = g_admin r" "g_version rec = g_version r" "g_left rec = g_left r" "g_id r = gid"
    using scan_group_same [OF row(2)] group_row_id [OF row(1)] by simp_all
  have wf: "wf_membership old" using old by (simp add: decode_membership_iff)
  from ok row have doc: "sql_u64 (g_version r)" "document_ok E (w_db w) r" by (auto simp: documents_ok_def)
  then have o: "mb_gid old = gid" "mb_admin old = admin_pub E" "mb_version old = g_version r"
    "g_left r = (\<not> mem_has old (v_self E))"
    using row(2) old adm same by (auto simp: document_ok_def)
  have "length (mb_sig ?m) = 64" "length (admin_pub E) = 32" "length gid = 32"
    using key_lengthsD [OF group_lawsD(3) [OF laws]] wf o
    by (simp_all add: next_document_def mem_sign_def Let_def admin_pub_def wf_membership_def)
  then have "decode_membership (v_pmem E) b = Inr ?m"
    by (intro document_decodes [OF laws b]) (use ms o in \<open>simp_all add: wf_membership_def\<close>)
  then show ?thesis
    using row same o ms next_document_verifies [OF group_lawsD(2) [OF laws] o(2)] adm u64_next [OF doc(1)]
    by (simp add: replaceable_def mem_has_def)
qed

lemma next_documented:
  assumes laws: "group_laws E" and row: "group_row gid (w_db w) = Some r" "scan_group E r = Inr rec"
    and old: "decode_membership (v_pmem E) (g_mem rec) = Inr old" and adm: "g_admin rec = admin_pub E"
    and ms: "\<forall>p \<in> set ms. wf_peer p" "v_self E \<in> set ms \<longleftrightarrow> mem_has old (v_self E)"
    and run: "store_document E rec (next_document E gid old ms) (w, hs) = (Inr (), s')"
  shows "documented E True (w, hs) s'"
proof -
  from stored_document [OF run] obtain b where b: "encode_membership (v_pmem E) (next_document E gid old ms) = Inr b" and
    rep: "replace_document E (rec\<lparr>g_version := mb_version (next_document E gid old ms), g_mem := b, g_updated := v_now E\<rparr>)
      (next_document E gid old ms) (w, hs) = (Inr (), s')"
    by blast
  from next_replaceable [OF laws row old adm ms _ b] rep replaced_documents [OF _ group_lawsD(1) [OF laws]]
  show ?thesis by (cases s') (auto simp: documented_def)
qed

lemma known_group: "group_get E gid (w, hs) = (Inr (Some rec), s') \<Longrightarrow> s' = (w, hs)
    \<and> (\<exists>r. group_row gid (w_db w) = Some r \<and> scan_group E r = Inr rec)"
  by (drule group_get_run) simp

text \<open>The usual opening of an operation: the group is looked up, guards are passed.\<close>

lemma known_then:
  assumes "bnd (group_get E gid) (\<lambda>g. case g of None \<Rightarrow> seq n (fail e) | Some rec \<Rightarrow> f rec) (w, hs) = (Inr y, s')
    \<or> bnd (group_get E gid) (\<lambda>g. case g of None \<Rightarrow> fail e | Some rec \<Rightarrow> f rec) (w, hs) = (Inr y, s')"
  obtains rec r where "group_get E gid (w, hs) = (Inr (Some rec), (w, hs))" "group_row gid (w_db w) = Some r"
    "scan_group E r = Inr rec" "f rec (w, hs) = (Inr y, s')"
proof -
  obtain q s1 where q: "group_get E gid (w, hs) = (q, s1)" by (metis prod.collapse)
  with group_get_same [OF q] have q: "group_get E gid (w, hs) = (q, (w, hs))" by simp
  with assms obtain rec where "q = Inr (Some rec)" "f rec (w, hs) = (Inr y, s')"
    by (cases q) (auto simp: bnd_def seq_Inr_iff split: option.splits)
  with q known_group [of E gid w hs rec] that show thesis by blast
qed

lemma guarded: "(if b then fail e else m) s = (Inr y, s') \<Longrightarrow> \<not> b \<and> m s = (Inr y, s')"
  by (simp split: if_splits)

lemma res_then: "bnd (res (map_err h r)) f s = (Inr y, s') \<Longrightarrow> \<exists>x. r = Inr x \<and> f x s = (Inr y, s')"
  by (auto simp: bnd_Inr_iff)

lemma add_documented:
  assumes laws: "group_laws E" and p: "wf_peer p" and run: "add_member_tx E gid p (w, hs) = (Inr (), s')"
  shows "documented E True (w, hs) s'"
proof -
  from known_then [OF disjI2 [OF run [unfolded add_member_tx_def]]] obtain rec r where
    row: "group_row gid (w_db w) = Some r" "scan_group E r = Inr rec"
    and f: "(if g_left rec then fail (ErrGroup GErrLeft)
       else if g_admin rec \<noteq> admin_pub E then fail (ErrGroup GErrNotAdmin)
       else bnd (res (map_err ErrGroup (decode_membership (v_pmem E) (g_mem rec)))) (\<lambda>old.
         if mem_has old p then ret ()
         else if MaxMembers < length (mb_members old) + 1 then fail (ErrGroup GErrTooBig)
         else let m = next_document E gid old (mb_members old @ [p]) in
           seq (store_document E rec m)
          (bnd (collect_dists E gid (mb_members m) p) (\<lambda>keys.
           bnd (res (map_err ErrGroup (encode_welcome (v_pwelcome E) \<lparr>we_mem = m, we_keys = keys\<rparr>))) (\<lambda>welc.
           seq (sealed_add E p TypeGroupWelcome welc)
          (bnd (res (map_err ErrGroup (encode_update (v_pupdate E) m))) (\<lambda>update.
           sealed_each E TypeGroupUpdate update (mb_members old)))))))) (w, hs) = (Inr (), s')" .
  note f1 = guarded [OF f] and f2 = guarded [OF conjunct2 [OF guarded [OF f]]]
  from f1 have live: "\<not> g_left rec" by blast
  from f2 res_then [OF conjunct2 [OF f2]] obtain old where adm: "g_admin rec = admin_pub E"
    and old: "decode_membership (v_pmem E) (g_mem rec) = Inr old"
    and rest: "(if mem_has old p then ret ()
         else if MaxMembers < length (mb_members old) + 1 then fail (ErrGroup GErrTooBig)
         else let m = next_document E gid old (mb_members old @ [p]) in
           seq (store_document E rec m)
          (bnd (collect_dists E gid (mb_members m) p) (\<lambda>keys.
           bnd (res (map_err ErrGroup (encode_welcome (v_pwelcome E) \<lparr>we_mem = m, we_keys = keys\<rparr>))) (\<lambda>welc.
           seq (sealed_add E p TypeGroupWelcome welc)
          (bnd (res (map_err ErrGroup (encode_update (v_pupdate E) m))) (\<lambda>update.
           sealed_each E TypeGroupUpdate update (mb_members old))))))) (w, hs) = (Inr (), s')"
    by blast
  show ?thesis
  proof (cases "mem_has old p \<or> MaxMembers < length (mb_members old) + 1")
    case True
    with rest show ?thesis by (auto simp: documented_def split: if_splits)
  next
    case False
    let ?m = "next_document E gid old (mb_members old @ [p])"
    let ?n = "bnd (collect_dists E gid (mb_members ?m) p) (\<lambda>keys.
           bnd (res (map_err ErrGroup (encode_welcome (v_pwelcome E) \<lparr>we_mem = ?m, we_keys = keys\<rparr>))) (\<lambda>welc.
           seq (sealed_add E p TypeGroupWelcome welc)
          (bnd (res (map_err ErrGroup (encode_update (v_pupdate E) ?m))) (\<lambda>update.
           sealed_each E TypeGroupUpdate update (mb_members old)))))"
    from rest False obtain s1 where s1: "store_document E rec ?m (w, hs) = (Inr (), s1)" and n: "?n s1 = (Inr (), s')"
      by (auto simp: Let_def seq_Inr_iff)
    have wf: "wf_membership old" and gid: "mb_gid old = mb_gid old" using old by (auto simp: decode_membership_iff)
    have self: "v_self E \<in> set (mb_members old @ [p]) \<longleftrightarrow> mem_has old (v_self E)" if "documents_ok E (w_db w)"
    proof -
      have "document_ok E (w_db w) r" using that row by (auto simp: documents_ok_def)
      then have "\<not> g_left r \<longrightarrow> mem_has old (v_self E)" using row(2) old by (auto simp: document_ok_def)
      with live scan_group_same [OF row(2)] have "mem_has old (v_self E)" by simp
      then show ?thesis by (simp add: mem_has_def)
    qed
    show ?thesis
    proof (cases "documents_ok E (w_db w)")
      case True
      have "documented E True (w, hs) s1"
        by (rule next_documented [OF laws row old adm _ self [OF True] s1]) (use wf p in \<open>simp add: wf_membership_def\<close>)
      moreover have "moves docs_kept ?n" by (intro docs_kept_order.moves_rules docs_intros)
      ultimately show ?thesis using documented_then [of E "(w, hs)" s1 ?n "Inr ()" s'] n by simp
    qed (simp add: documented_def)
  qed
qed

lemma removed_tx:
  assumes "remove_member_tx E gid p (w, hs) = (Inr (), s')"
  obtains rec old r s1 where "group_get E gid (w, hs) = (Inr (Some rec), (w, hs))"
    and "group_row gid (w_db w) = Some r" "scan_group E r = Inr rec" "g_admin rec = admin_pub E"
    and "decode_membership (v_pmem E) (g_mem rec) = Inr old" "mem_has old p" "p \<noteq> v_self E"
    and "store_document E rec (next_document E gid old (filter (\<lambda>q. q \<noteq> p) (mb_members old))) (w, hs) = (Inr (), s1)"
    and "seq (sender_key_delete (gid, p))
          (bnd (res (map_err ErrGroup (encode_update (v_pupdate E)
              (next_document E gid old (filter (\<lambda>q. q \<noteq> p) (mb_members old)))))) (\<lambda>update.
           seq (sealed_each E TypeGroupUpdate update (mb_members old))
             (rekey_tx E gid (mb_members (next_document E gid old (filter (\<lambda>q. q \<noteq> p) (mb_members old))))))) s1 = (Inr (), s')"
proof -
  let ?f = "\<lambda>rec. if g_admin rec \<noteq> admin_pub E then fail (ErrGroup GErrNotAdmin)
       else bnd (res (map_err ErrGroup (decode_membership (v_pmem E) (g_mem rec)))) (\<lambda>old.
         if \<not> mem_has old p \<or> p = v_self E then fail (ErrGroup GErrNotMember)
         else let m = next_document E gid old (filter (\<lambda>q. q \<noteq> p) (mb_members old)) in
           seq (store_document E rec m)
          (seq (sender_key_delete (gid, p))
          (bnd (res (map_err ErrGroup (encode_update (v_pupdate E) m))) (\<lambda>update.
           seq (sealed_each E TypeGroupUpdate update (mb_members old))
             (rekey_tx E gid (mb_members m))))))"
  from known_then [OF disjI2 [OF assms [unfolded remove_member_tx_def]]] obtain rec r where
    g: "group_get E gid (w, hs) = (Inr (Some rec), (w, hs))"
    and row: "group_row gid (w_db w) = Some r" "scan_group E r = Inr rec" and f: "?f rec (w, hs) = (Inr (), s')" .
  from guarded [OF f] res_then [OF conjunct2 [OF guarded [OF f]]] obtain old where
    a: "g_admin rec = admin_pub E" "decode_membership (v_pmem E) (g_mem rec) = Inr old"
    and rest: "(if \<not> mem_has old p \<or> p = v_self E then fail (ErrGroup GErrNotMember)
         else let m = next_document E gid old (filter (\<lambda>q. q \<noteq> p) (mb_members old)) in
           seq (store_document E rec m)
          (seq (sender_key_delete (gid, p))
          (bnd (res (map_err ErrGroup (encode_update (v_pupdate E) m))) (\<lambda>update.
           seq (sealed_each E TypeGroupUpdate update (mb_members old))
             (rekey_tx E gid (mb_members m)))))) (w, hs) = (Inr (), s')"
    by blast
  from rest have c: "mem_has old p" "p \<noteq> v_self E" by (auto split: if_splits)
  with rest obtain s1 where "store_document E rec (next_document E gid old (filter (\<lambda>q. q \<noteq> p) (mb_members old))) (w, hs) = (Inr (), s1)"
    "seq (sender_key_delete (gid, p))
          (bnd (res (map_err ErrGroup (encode_update (v_pupdate E)
              (next_document E gid old (filter (\<lambda>q. q \<noteq> p) (mb_members old)))))) (\<lambda>update.
           seq (sealed_each E TypeGroupUpdate update (mb_members old))
             (rekey_tx E gid (mb_members (next_document E gid old (filter (\<lambda>q. q \<noteq> p) (mb_members old))))))) s1 = (Inr (), s')"
    by (auto simp: Let_def seq_Inr_iff)
  from that [OF g row a c this] show thesis .
qed

lemma remove_documented:
  assumes laws: "group_laws E" and run: "remove_member_tx E gid p (w, hs) = (Inr (), s')"
  shows "documented E True (w, hs) s'"
  using run
proof (cases rule: removed_tx)
  case (1 rec old r s1)
  let ?ms = "filter (\<lambda>q. q \<noteq> p) (mb_members old)"
  let ?n = "seq (sender_key_delete (gid, p))
          (bnd (res (map_err ErrGroup (encode_update (v_pupdate E) (next_document E gid old ?ms)))) (\<lambda>update.
           seq (sealed_each E TypeGroupUpdate update (mb_members old))
             (rekey_tx E gid (mb_members (next_document E gid old ?ms)))))"
  have wf: "wf_membership old" using 1(5) by (simp add: decode_membership_iff)
  have "documented E True (w, hs) s1"
    by (rule next_documented [OF laws 1(2,3,5,4) _ _ 1(8)]) (use wf 1(7) in \<open>auto simp: wf_membership_def mem_has_def\<close>)
  moreover have "moves docs_kept ?n" by (intro docs_kept_order.moves_rules docs_intros)
  ultimately show ?thesis using documented_then [of E "(w, hs)" s1 ?n "Inr ()" s'] 1(9) by simp
qed

lemma create_documented:
  assumes laws: "group_laws E" and gid: "length gid = 32" "group_row gid (w_db w) = None"
    and m: "m = mem_sign (v_crypto E) (v_admin E) \<lparr>mb_gid = gid, mb_version = 1, mb_name = name,
        mb_admin = admin_pub E, mb_members = [v_self E], mb_sig = []\<rparr>"
    and enc: "encode_membership (v_pmem E) m = Inr b" and run: "create_group_tx E m b sender (w, hs) = (Inr (), s')"
  shows "documented E True (w, hs) s'"
proof -
  from run obtain s1 s2 where s1: "group_put E (group_rec E m b) (w, hs) = (Inr (), s1)"
    and s2: "group_members_set (mb_gid m) (mb_members m) s1 = (Inr (), s2)"
    and s': "sender_key_put E (mb_gid m, v_self E) (sender_marshal sender) s2 = (Inr (), s')"
    by (auto simp: create_group_tx_def seq_Inr_iff)
  have M: "mb_gid m = gid" "mb_admin m = admin_pub E" "mb_members m = [v_self E]"
    by (simp_all add: m mem_sign_def Let_def sort_members_def)
  have "mem_verify (v_crypto E) m"
    using sign_verify [OF group_lawsD(2) [OF laws], of "v_admin E" "\<lparr>mb_gid = gid, mb_version = 1, mb_name = name,
        mb_admin = [], mb_members = [v_self E], mb_sig = []\<rparr>"] by (simp add: m admin_pub_def)
  moreover have "wf_membership m"
    using enc laws gid(1) key_lengthsD [OF group_lawsD(3) [OF laws]]
    by (auto simp: wf_membership_def M encode_membership_def admin_pub_def group_laws_def split: if_splits)
      (simp add: m mem_sign_def Let_def)
  ultimately have "documented E True (w, hs) s2"
    using fresh_documented [OF laws _ enc _ _ _ s1 s2] gid(2) by (simp add: M mem_has_def)
  from documented_then [OF this docs_store(7) s'] show ?thesis by simp
qed

section \<open>Runs\<close>

text \<open>
  The operations of the user and the background, and the handlers of what peers
  send, each with the environment of its moment. The flag says whether the
  transaction around the handler commits.
\<close>

datatype group_op =
  GCreate env string | GAdd env bytes peer_id | GRemove env bytes peer_id | GSend env bytes bytes | GRound env
  | GMessage env peer_id envelope bool | GWelcome env peer_id bytes bool | GUpdate env peer_id bytes bool
  | GKey env peer_id bytes bool

fun group_step :: "group_op \<Rightarrow> world \<Rightarrow> world" where
  "group_step (GCreate E name) w = snd (create_group E name w)"
| "group_step (GAdd E gid p) w = snd (add_member E gid p w)"
| "group_step (GRemove E gid p) w = snd (remove_member E gid p w)"
| "group_step (GSend E gid text) w = snd (send_group_text E gid text w)"
| "group_step (GRound E) w = group_round E w"
| "group_step (GMessage E from e ok) w = attempted (on_group_message E from e) ok w"
| "group_step (GWelcome E from body ok) w = attempted (on_welcome E from body) ok w"
| "group_step (GUpdate E from body ok) w = attempted (on_update E from body) ok w"
| "group_step (GKey E from body ok) w = attempted (on_key E from body) ok w"

definition group_steps :: "group_op list \<Rightarrow> world \<Rightarrow> world" where
  "group_steps ops w = fold group_step ops w"

fun op_env :: "group_op \<Rightarrow> env" where
  "op_env (GCreate E name) = E" | "op_env (GAdd E gid p) = E" | "op_env (GRemove E gid p) = E"
| "op_env (GSend E gid text) = E" | "op_env (GRound E) = E" | "op_env (GMessage E from e ok) = E"
| "op_env (GWelcome E from body ok) = E" | "op_env (GUpdate E from body ok) = E" | "op_env (GKey E from body ok) = E"

text \<open>The node's keys and codec of documents do not change; a member to add is an identifier; a new group's is new.\<close>

definition same_node :: "env \<Rightarrow> env \<Rightarrow> bool" where
  "same_node E E' \<longleftrightarrow> v_crypto E' = v_crypto E \<and> v_key E' = v_key E \<and> v_self E' = v_self E \<and> v_pmem E' = v_pmem E"

fun op_fine :: "group_op \<Rightarrow> world \<Rightarrow> bool" where
  "op_fine (GAdd E gid p) w = wf_peer p"
| "op_fine (GCreate E name) w = (case read_full 32 (w_rnd w) of None \<Rightarrow> True
     | Some (gid, r) \<Rightarrow> group_row gid (w_db w) = None)"
| "op_fine op w = True"

fun ops_fine :: "env \<Rightarrow> group_op list \<Rightarrow> world \<Rightarrow> bool" where
  "ops_fine E [] w = True"
| "ops_fine E (op # ops) w = (same_node E (op_env op) \<and> op_fine op w \<and> ops_fine E ops (group_step op w))"

definition documents_step :: "env \<Rightarrow> world \<Rightarrow> world \<Rightarrow> bool" where
  "documents_step E w w' \<longleftrightarrow> (documents_ok E (w_db w) \<longrightarrow> documents_ok E (w_db w') \<and> documents_grow (w_db w) (w_db w'))"

lemma documents_step_trans: "documents_step E a b \<Longrightarrow> documents_step E b c \<Longrightarrow> documents_step E a c"
  unfolding documents_step_def by (blast intro: documents_grow_trans)

lemma documents_step_same: "w_db w' = w_db w \<Longrightarrow> documents_step E w w'"
  by (simp add: documents_step_def)

lemma tx_documents:
  assumes "\<And>x s'. m (w, []) = (Inr x, s') \<Longrightarrow> documented E True (w, []) s'" "moves hooked m"
  shows "documents_step E w (snd (run_tx m w))"
proof -
  obtain r w' hs where run: "m (w, []) = (r, (w', hs))" by (metis prod.collapse)
  have hs: "list_all quiet_hook hs" using movesD [OF assms(2) run] by (simp add: hooked_def)
  have step: "documents_step E w w'" if "r = Inr x" for x
    using assms(1) [OF run [unfolded that]] by (simp add: documented_def documents_step_def)
  show ?thesis using run step quiet_hooks_db [OF hs, of w'] by (cases r) (auto simp: run_tx_def documents_step_def)
qed

lemma attempted_documents:
  assumes "\<And>x s'. m (w, []) = (Inr x, s') \<Longrightarrow> documented E True (w, []) s'" "moves hooked m"
  shows "documents_step E w (attempted m ok w)"
proof -
  from tx_documents [of m w E] assms have "documents_step E w (snd (run_tx m w))" by blast
  with attempted_cases [of m ok w] documents_step_same show ?thesis by metis
qed

lemma hooked_handlers:
  "moves hooked (on_group_message E p e)" "moves hooked (on_welcome E p b)" "moves hooked (on_update E p b)"
proof -
  note h = moves_hooked [OF sends_q(1)] moves_hooked [OF sends_q(3)] sends_groups [THEN moves_hooked]
    sends_store [THEN moves_hooked] sends_rekey [THEN moves_hooked] sends_keys [THEN moves_hooked]
  have a: "moves hooked (apply_membership E rec m)" for rec m
    unfolding apply_membership_def changed_keys_def Let_def
    by (intro hooked_order.moves_rules h hooked_commit quiet_wake)
  show "moves hooked (on_group_message E p e)" "moves hooked (on_welcome E p b)" "moves hooked (on_update E p b)"
    unfolding on_group_message_def on_welcome_def on_update_def Let_def
    by (intro hooked_order.moves_rules h a hooked_commit quiet_wake quiet_hooks)+
qed

lemma kept_documented: "moves docs_kept m \<Longrightarrow> m s = (Inr x, s') \<Longrightarrow> documented E True s s'"
  using documented_kept movesD [of docs_kept m s "Inr x" s'] by simp

lemma kept_tx: "moves docs_kept m \<Longrightarrow> moves sends m \<Longrightarrow> documents_step E w (snd (run_tx m (w\<lparr>w_rnd := r\<rparr>)))"
  using tx_documents [of m "w\<lparr>w_rnd := r\<rparr>" E] kept_documented moves_hooked
  by (fastforce simp: documents_step_def)

lemma tx_end: "(\<And>u w. w_db (h u w) = w_db w) \<Longrightarrow>
    w_db (snd (case p of (Inl e, w') \<Rightarrow> (f e, w') | (Inr u, w') \<Rightarrow> (g u, h u w'))) = w_db (snd p)"
  by (cases p; cases "fst p") auto

lemma documents_step_end: "(\<And>u w. w_db (h u w) = w_db w) \<Longrightarrow> documents_step E w (snd p) \<Longrightarrow>
    documents_step E w (snd (case p of (Inl e, w') \<Rightarrow> (f e, w') | (Inr u, w') \<Rightarrow> (g u, h u w')))"
  by (simp add: documents_step_def tx_end)

lemma flush_documents: "documents_step E w (flush_sealed E' w)"
proof -
  have sealed: "documents_step E w (snd (send_sealed E' p t b w))" for p t b w
  proof (cases "may_send w p \<and> (\<exists>mid r. new_msg_id (w_rnd w) = Inr (mid, r))")
    case True
    then obtain mid r where "new_msg_id (w_rnd w) = Inr (mid, r)" "may_send w p" by blast
    then show ?thesis
      by (simp add: send_sealed_def) (intro documents_step_end kept_tx docs_sessions sends_text, simp add: flush_def)
  qed (auto simp: send_sealed_def documents_step_same split: sum.split)
  have del: "documents_step E w (snd (run_tx (sealed_delete n) w))" for n w
    using kept_tx [OF docs_store(11) sends_groups(10), of E w n "w_rnd w"] by simp
  have one: "documents_step E w (flush_one E' it w)" for it w
  proof -
    obtain r w1 where s: "send_sealed E' (s_peer it) (s_type it) (s_payload it) w = (r, w1)" by (metis prod.collapse)
    have w1: "documents_step E w w1" using sealed [where w = w] s by (metis snd_conv)
    obtain r2 w2 where d: "run_tx (sealed_delete (s_row it)) w1 = (r2, w2)" by (metis prod.collapse)
    have w2: "documents_step E w1 w2" using del [of w1] d by (metis snd_conv)
    show ?thesis using w1 documents_step_trans [OF w1 w2] s d
      by (cases r; cases r2) (auto simp: flush_one_def documents_step_def)
  qed
  have "documents_step E w (fold (flush_one E') items w)" for items
    by (induction items arbitrary: w) (simp_all add: documents_step_same, blast intro: documents_step_trans one)
  then show ?thesis by (simp add: flush_sealed_def documents_step_same split: sum.split)
qed

lemma wake_db [simp]: "w_db (wake w) = w_db w" and flush_db [simp]: "w_db (fold flush ps w) = w_db w"
  by (simp add: wake_def) (induction ps arbitrary: w, simp_all add: flush_def)

lemma snd_tx_case:
  "snd (case p of (Inl e, w') \<Rightarrow> (Inl e, w') | (Inr u, w') \<Rightarrow> (x u, f u w')) =
    (case p of (Inl e, w') \<Rightarrow> w' | (Inr u, w') \<Rightarrow> f u w')"
  by (cases p; cases "fst p") auto

lemma group_laws_same: "same_node E E' \<Longrightarrow> group_laws E \<Longrightarrow> sign_correct (v_crypto E') \<and> group_laws E'"
  by (simp add: same_node_def group_laws_def sealing_ok_def)

lemma documents_same: "same_node E E' \<Longrightarrow> documents_step E' w w' = documents_step E w w'"
  by (simp add: same_node_def documents_step_def documents_ok_def document_ok_def scan_group_def box_open_def)

lemma group_step_documents:
  assumes laws: "group_laws E" "same_node E (op_env op)" and fine: "op_fine op w"
  shows "documents_step E w (group_step op w)"
proof (cases op)
  case (GCreate E' name)
  have L: "group_laws E'" and S: "same_node E E'" using group_laws_same [OF _ laws(1)] laws(2) GCreate by simp_all
  have same: "documents_step E' w w" by (simp add: documents_step_same)
  show ?thesis
  proof (cases "read_full 32 (w_rnd w)")
    case None
    then show ?thesis by (simp add: GCreate create_group_def documents_step_same)
  next
    case (Some gr)
    obtain gid r where gr: "gr = (gid, r)" by (cases gr)
    define m where "m = mem_sign (v_crypto E') (v_admin E') \<lparr>mb_gid = gid, mb_version = 1, mb_name = name,
        mb_admin = admin_pub E', mb_members = [v_self E'], mb_sig = []\<rparr>"
    show ?thesis
    proof (cases "\<exists>b s r'. encode_membership (v_pmem E') m = Inr b \<and> new_sender (v_crypto E') r 1 = Inr (s, r')")
      case False
      then show ?thesis using Some gr
        by (auto simp: GCreate create_group_def Let_def m_def documents_step_same split: sum.split)
    next
      case True
      then obtain b s r' where b: "encode_membership (v_pmem E') m = Inr b" "new_sender (v_crypto E') r 1 = Inr (s, r')" by blast
      have eq: "create_group E' name w = (case run_tx (create_group_tx E' m b s) (w\<lparr>w_rnd := r'\<rparr>) of
          (Inl e, w') \<Rightarrow> (Inl e, w') | (Inr u, w') \<Rightarrow> (Inr gid, w'))"
        using b Some gr by (simp add: create_group_def Let_def m_def)
      have "length gid = 32" "group_row gid (w_db (w\<lparr>w_rnd := r'\<rparr>)) = None"
        using Some gr fine GCreate by (auto dest: read_full_length)
      from tx_documents [where w = "w\<lparr>w_rnd := r'\<rparr>", OF create_documented [OF L this m_def b(1)]
          moves_hooked [OF sends_group_ops(1)]]
      have "documents_step E' (w\<lparr>w_rnd := r'\<rparr>) (snd (run_tx (create_group_tx E' m b s) (w\<lparr>w_rnd := r'\<rparr>)))" by simp
      then have "documents_step E' w (snd (create_group E' name w))"
        unfolding eq by (intro documents_step_end) (simp_all add: documents_step_def)
      then show ?thesis by (simp add: GCreate documents_same [OF S])
    qed
  qed
next
  case (GAdd E' gid p)
  have L: "group_laws E'" and S: "same_node E E'" using group_laws_same [OF _ laws(1)] laws(2) GAdd by simp_all
  have "documents_step E' w (snd (run_tx (add_member_tx E' gid p) w))"
    by (rule tx_documents [OF _ moves_hooked [OF sends_group_ops(2)]])
      (use add_documented [OF L] fine GAdd in simp)
  then show ?thesis
    unfolding GAdd group_step.simps add_member_def documents_same [OF S, symmetric] by (intro documents_step_end) simp_all
next
  case (GRemove E' gid p)
  have L: "group_laws E'" and S: "same_node E E'" using group_laws_same [OF _ laws(1)] laws(2) GRemove by simp_all
  have "documents_step E' w (snd (run_tx (remove_member_tx E' gid p) w))"
    by (rule tx_documents [OF _ moves_hooked [OF sends_group_ops(3)]])
      (use remove_documented [OF L] in simp)
  then show ?thesis
    unfolding GRemove group_step.simps remove_member_def documents_same [OF S, symmetric] by (intro documents_step_end) simp_all
next
  case (GSend E' gid body)
  have S: "same_node E E'" using laws(2) GSend by simp
  have "documents_step E' w (snd (send_group_text E' gid body w))"
  proof (cases "body \<noteq> [] \<and> \<not> MaxTextLen < length body \<and> (\<exists>mid r. new_msg_id (w_rnd w) = Inr (mid, r))")
    case True
    then obtain mid r where "new_msg_id (w_rnd w) = Inr (mid, r)" "body \<noteq> []" "\<not> MaxTextLen < length body" by blast
    then show ?thesis
      by (simp add: send_group_text_def) (intro documents_step_end kept_tx docs_parts sends_group_ops, simp)
  qed (auto simp: send_group_text_def documents_step_same split: sum.split)
  then show ?thesis by (simp add: GSend documents_same [OF S])
next
  case (GRound E')
  then show ?thesis using flush_documents [of E w E'] by (simp add: group_round_def documents_step_def)
next
  case (GMessage E' p e ok)
  have S: "same_node E E'" using laws(2) GMessage by simp
  show ?thesis
    using attempted_documents [OF kept_documented [OF docs_parts(5)] hooked_handlers(1)]
    by (simp add: GMessage documents_same [OF S, symmetric])
next
  case (GWelcome E' p body ok)
  have L: "group_laws E'" and S: "same_node E E'" using group_laws_same [OF _ laws(1)] laws(2) GWelcome by simp_all
  have "documents_step E' w (attempted (on_welcome E' p body) ok w)"
    by (rule attempted_documents [OF _ hooked_handlers(2)]) (use welcome_documented [OF L] in fastforce)
  then show ?thesis by (simp add: GWelcome documents_same [OF S])
next
  case (GUpdate E' p body ok)
  have L: "group_laws E'" and S: "same_node E E'" using group_laws_same [OF _ laws(1)] laws(2) GUpdate by simp_all
  have "documents_step E' w (attempted (on_update E' p body) ok w)"
    by (rule attempted_documents [OF _ hooked_handlers(3)]) (use update_documented [OF L] in fastforce)
  then show ?thesis by (simp add: GUpdate documents_same [OF S])
next
  case (GKey E' p body ok)
  have S: "same_node E E'" using laws(2) GKey by simp
  show ?thesis
    using attempted_documents [OF kept_documented [OF docs_parts(4)] moves_hooked [OF sends_group_ops(5)]]
    by (simp add: GKey documents_same [OF S, symmetric])
qed

section \<open>Documents\<close>

text \<open>
  C15. The stored documents of a node are always right, whatever peers send, in
  whatever order, and whichever of the transactions are rolled back: the document of every
  group decodes, is signed by the admin the group was first seen with, names
  this group, has the version of its row and the members of the members table,
  and the group counts as left exactly when the document does not name us. The
  admin of a group never changes and its version never goes back.
\<close>

theorem documents_stay_signed:
  assumes "group_laws E" and "documents_ok E (w_db w)" and "ops_fine E ops w"
  shows "documents_ok E (w_db (group_steps ops w)) \<and> documents_grow (w_db w) (w_db (group_steps ops w))"
  using assms(2,3)
proof (induction ops arbitrary: w)
  case Nil
  then show ?case by (simp add: group_steps_def)
next
  case (Cons op ops)
  from Cons.prems group_step_documents [OF assms(1), of op w]
  have s: "documents_ok E (w_db (group_step op w))" "documents_grow (w_db w) (w_db (group_step op w))"
    "ops_fine E ops (group_step op w)"
    by (simp_all add: documents_step_def)
  from Cons.IH [OF s(1,3)] documents_grow_trans [OF s(2)] show ?case by (simp add: group_steps_def)
qed

definition demo_document :: membership where
  "demo_document = mem_sign demo_crypto (replicate 32 3) \<lparr>mb_gid = replicate 32 0, mb_version = 1, mb_name = ''g'',
     mb_admin = demo_pad (replicate 32 3), mb_members = [PeerID (replicate 32 1)], mb_sig = []\<rparr>"

definition demo_founder :: env where
  "demo_founder = demo_env\<lparr>v_pmem := table_pb [(mem_pb demo_document, [8])]\<rparr>"

lemma demo_group_laws: "group_laws demo_founder"
  using demo_xaead_correct demo_sign_correct demo_key_lengths table_pb_roundtrip [of "[(mem_pb demo_document, [8])]"]
  by (simp add: group_laws_def demo_founder_def sealing_ok_def demo_env_def wf_peer_def IDLen_def)

lemma create_group_tx_ok:
  assumes "3 * NonceSizeX \<le> length (w_rnd w)" "sql_u64 (mb_version m)" "distinct (mb_members m)"
  shows "\<exists>s'. create_group_tx E m b s (w, hs) = (Inr (), s')"
proof -
  from group_put_ok [of w "group_rec E m b" E hs] assms obtain name mem where
    g: "group_put E (group_rec E m b) (w, hs) = (Inr (), (w\<lparr>w_rnd := drop (2 * NonceSizeX) (w_rnd w),
     w_db := (w_db w)\<lparr>d_groups := put_group (group_rec E m b) name mem (d_groups (w_db w))\<rparr>\<rparr>, hs))"
    by (auto simp: group_rec_def)
  define v where "v = w\<lparr>w_rnd := drop (2 * NonceSizeX) (w_rnd w),
     w_db := (w_db w)\<lparr>d_groups := put_group (group_rec E m b) name mem (d_groups (w_db w))\<rparr>\<rparr>"
  define u where "u = v\<lparr>w_db := (w_db v)\<lparr>d_members := filter (\<lambda>(g, p). g \<noteq> mb_gid m) (d_members (w_db v))
      @ map (Pair (mb_gid m)) (mb_members m)\<rparr>\<rparr>"
  have "NonceSizeX \<le> length (w_rnd u)" using assms(1) by (simp add: u_def v_def)
  from sender_key_put_ok [OF this] obtain s' where
    "sender_key_put E (mb_gid m, v_self E) (sender_marshal s) (u, hs) = (Inr (), s')" by blast
  then have "create_group_tx E m b s (w, hs) = (Inr (), s')"
    using g [folded v_def] members_set_ok [OF assms(3), of "mb_gid m" v hs, folded u_def]
    by (simp add: create_group_tx_def seq_def bnd_def)
  then show ?thesis by blast
qed

lemma demo_document_simps: "mb_version demo_document = 1" "mb_members demo_document = [PeerID (replicate 32 1)]"
  "mb_gid demo_document = replicate 32 0" "mb_admin demo_document = demo_pad (replicate 32 3)"
  by (simp_all add: demo_document_def mem_sign_def Let_def sort_members_def)

lemma new_world_rnd: "w_rnd (new_world r) = r" "w_db (new_world r) = empty_db"
  by (simp_all add: new_world_def)

theorem documents_stay_signed_witness:
  "documents_ok demo_founder (w_db (group_steps [GCreate demo_founder ''g'', GUpdate demo_founder (PeerID []) [1] True, GRound demo_founder]
       (new_world (replicate 300 0))))
   \<and> fst (create_group demo_founder ''g'' (new_world (replicate 300 0))) = Inr (replicate 32 0)"
proof -
  let ?w = "new_world (replicate 300 0)"
  have v: "validate_membership demo_document"
  proof -
    have "runes ''g'' = Some [103]" by code_simp
    then show ?thesis
      by (simp add: validate_membership_def demo_document_def mem_sign_def Let_def sort_members_def MaxMembers_def maxGroupName_def)
  qed
  then have e: "encode_membership (v_pmem demo_founder) demo_document = Inr [8]"
    by (simp add: encode_membership_def demo_founder_def table_pb_def)
  have m: "mem_sign (v_crypto demo_founder) (v_admin demo_founder) \<lparr>mb_gid = replicate 32 0, mb_version = 1, mb_name = ''g'',
        mb_admin = admin_pub demo_founder, mb_members = [v_self demo_founder], mb_sig = []\<rparr> = demo_document"
    by (simp add: demo_document_def demo_founder_def demo_env_def admin_pub_def) (simp add: demo_crypto_def)
  have n: "new_sender (v_crypto demo_founder) (replicate 268 0) 1
      = Inr (\<lparr>ss_gen = 1, ss_ck = replicate 32 0, ss_n = 0, ss_priv = replicate 64 0\<rparr>, replicate 172 0)"
    by (simp add: new_sender_def read_full_def demo_founder_def demo_env_def) (simp add: demo_crypto_def read_full_def)
  have c: "fst (create_group demo_founder ''g'' ?w) = Inr (replicate 32 0)"
    using create_group_tx_ok [of "?w\<lparr>w_rnd := replicate 172 0\<rparr>" demo_document demo_founder "[8]"
        "\<lparr>ss_gen = 1, ss_ck = replicate 32 0, ss_n = 0, ss_priv = replicate 64 0\<rparr>" "[]"]
    by (auto simp: create_group_def Let_def new_world_rnd read_full_def m e n run_tx_def demo_document_simps sql_u64_def
        NonceSizeX_def)
  have "documents_ok demo_founder (w_db ?w)"
    by (simp add: documents_ok_def group_row_def new_world_def empty_db_def)
  moreover have "ops_fine demo_founder [GCreate demo_founder ''g'', GUpdate demo_founder (PeerID []) [1] True, GRound demo_founder] ?w"
    by (simp add: same_node_def read_full_def new_world_def empty_db_def group_row_def)
  ultimately show ?thesis using documents_stay_signed [OF demo_group_laws] c by blast
qed

end
