(* ===== verification/GroupThms.thy ===== *)
theory GroupThms
  imports GroupDocs SenderKeyThms
begin

text \<open>
  The keys and messages of package group: removing a member changes the keys; a
  text reaches every member that was handed the sender's point, and the history
  holds nothing a member did not sign. And where the code errs: a member removed
  and added again cannot write, and one member can displace another's message.
\<close>

section \<open>Removing a member\<close>

text \<open>A row of the sealed queue that carries a message to a peer.\<close>

definition waits :: "env \<Rightarrow> srow \<Rightarrow> peer_id \<times> etype \<times> bytes \<Rightarrow> bool" where
  "waits E r m \<longleftrightarrow> sealed_open E r = Inr (r\<lparr>s_payload := snd (snd m)\<rparr>) \<and> s_peer r = fst m \<and> s_type r = fst (snd m)"

definition others :: "env \<Rightarrow> peer_id list \<Rightarrow> peer_id list" where
  "others E ps = filter (\<lambda>p. p \<noteq> v_self E) ps"

lemma sealed_each_run: "sealed_each E t b ps (w, hs) = (Inr (), s') \<Longrightarrow>
    \<exists>rows r. s' = (w\<lparr>w_rnd := r, w_db := (w_db w)\<lparr>d_sealed := d_sealed (w_db w) @ rows\<rparr>\<rparr>, hs)
      \<and> (sealing_ok E \<longrightarrow> list_all2 (waits E) rows (map (\<lambda>p. (p, t, b)) (others E ps)))"
proof (induction ps arbitrary: w)
  case Nil
  then show ?case by (intro exI [of _ "[]"] exI [of _ "w_rnd w"]) (simp add: others_def)
next
  case (Cons p ps)
  show ?case
  proof (cases "p = v_self E")
    case True
    with Cons.IH [of w] Cons.prems show ?thesis by (simp add: others_def)
  next
    case False
    with Cons.prems obtain s1 where s1: "sealed_add E p t b (w, hs) = (Inr (), s1)" "sealed_each E t b ps s1 = (Inr (), s')"
      by (auto simp: seq_Inr_iff)
    from sealed_add_run [OF s1(1)] obtain ct r row where
      row: "row = \<lparr>s_row = next_row (map s_row (d_sealed (w_db w))), s_peer = p, s_type = t, s_payload = ct\<rparr>"
      and v: "s1 = (w\<lparr>w_rnd := r, w_db := (w_db w)\<lparr>d_sealed := d_sealed (w_db w) @ [row]\<rparr>\<rparr>, hs)"
      and o: "sealing_ok E \<longrightarrow> box_open E ct (aad_sealed_outbox p t) = Inr b" by blast
    from Cons.IH [OF s1(2) [unfolded v]] obtain rows r' where
      "s' = (w\<lparr>w_rnd := r', w_db := (w_db w)\<lparr>d_sealed := d_sealed (w_db w) @ [row] @ rows\<rparr>\<rparr>, hs)"
      "sealing_ok E \<longrightarrow> list_all2 (waits E) rows (map (\<lambda>p. (p, t, b)) (others E ps))" by auto
    moreover have "sealing_ok E \<longrightarrow> waits E row (p, t, b)" using o by (simp add: waits_def row sealed_open_def)
    ultimately show ?thesis using False
      by (intro exI [of _ "row # rows"] exI [of _ r']) (simp add: others_def)
  qed
qed

lemma key_put_run: "sender_key_put E k st (w, hs) = (Inr (), s') \<Longrightarrow>
    \<exists>ct r. s' = (w\<lparr>w_rnd := r, w_db := (w_db w)\<lparr>d_skeys := (d_skeys (w_db w))(k \<mapsto> ct)\<rparr>\<rparr>, hs)
      \<and> (sealing_ok E \<longrightarrow> box_open E ct (aad_sender_key k) = Inr st)"
  unfolding sender_key_put_def by (drule seal_store_run) auto

text \<open>The generation our next key has.\<close>

definition next_generation :: "env \<Rightarrow> bytes \<Rightarrow> db \<Rightarrow> u32" where
  "next_generation E gid d = (case d_skeys d (gid, v_self E) of None \<Rightarrow> 1
     | Some ct \<Rightarrow> (case box_open E ct (aad_sender_key (gid, v_self E)) of Inl e \<Rightarrow> 1
       | Inr b \<Rightarrow> (case sender_unmarshal b of Inl e \<Rightarrow> 1 | Inr old \<Rightarrow> ss_gen old + 1)))"

lemma rekey_run:
  assumes "rekey_tx E gid ms (w, hs) = (Inr (), s')"
  shows "\<exists>s ct rows r w'. s' = (w', hs) \<and> w_db w' = (w_db w)\<lparr>d_skeys := (d_skeys (w_db w))((gid, v_self E) \<mapsto> ct),
        d_sealed := d_sealed (w_db w) @ rows\<rparr>
    \<and> new_sender (v_crypto E) (w_rnd w) (next_generation E gid (w_db w)) = Inr (s, r)
    \<and> (sealing_ok E \<longrightarrow> box_open E ct (aad_sender_key (gid, v_self E)) = Inr (sender_marshal s)
        \<and> (\<exists>b. encode_key_dist (v_pkey E) gid (sender_dist (v_crypto E) s) = Inr b
            \<and> list_all2 (waits E) rows (map (\<lambda>p. (p, TypeGroupKey, b)) (others E ms))))"
proof -
  let ?gen = "\<lambda>raw. case raw of None \<Rightarrow> 1
       | Some b \<Rightarrow> (case sender_unmarshal b of Inl e \<Rightarrow> 1 | Inr old \<Rightarrow> ss_gen old + 1)"
  from assms obtain raw s1 s s2 b s3 s4 where
    raw: "sender_key_get E (gid, v_self E) (w, hs) = (Inr raw, s1)"
    and new: "with_rnd (\<lambda>r. map_err ErrSenderKey (new_sender (v_crypto E) r (?gen raw))) s1 = (Inr s, s2)"
    and put: "sender_key_put E (gid, v_self E) (sender_marshal s) s2 = (Inr (), s3)"
    and enc: "encode_key_dist (v_pkey E) gid (sender_dist (v_crypto E) s) = Inr b"
    and each: "sealed_each E TypeGroupKey b ms s3 = (Inr (), s4)" and fin: "bump ''group.rekeys'' s4 = (Inr (), s')"
    unfolding rekey_tx_def Let_def runs_iff by (auto simp: bnd_Inr_iff)
  have s1: "s1 = (w, hs)" using sender_kv.get_run [of E "(gid, v_self E)" "(w, hs)"] raw by simp
  have gen: "?gen raw = next_generation E gid (w_db w)"
    using raw by (auto simp: sender_key_get_def bnd_Inr_iff next_generation_def split: option.splits)
  from new obtain r where r: "new_sender (v_crypto E) (w_rnd w) (next_generation E gid (w_db w)) = Inr (s, r)"
    "s2 = (w\<lparr>w_rnd := r\<rparr>, hs)" by (auto simp: s1 with_rnd_Inr_iff gen)
  from key_put_run [OF put [unfolded r(2)]] obtain ct r3 where
    s3: "s3 = (w\<lparr>w_rnd := r3, w_db := (w_db w)\<lparr>d_skeys := (d_skeys (w_db w))((gid, v_self E) \<mapsto> ct)\<rparr>\<rparr>, hs)"
    and o: "sealing_ok E \<longrightarrow> box_open E ct (aad_sender_key (gid, v_self E)) = Inr (sender_marshal s)" by auto
  from sealed_each_run [OF each [unfolded s3]] obtain rows r4 where
    s4: "s4 = (w\<lparr>w_rnd := r4, w_db := (w_db w)\<lparr>d_skeys := (d_skeys (w_db w))((gid, v_self E) \<mapsto> ct),
        d_sealed := d_sealed (w_db w) @ rows\<rparr>\<rparr>, hs)"
    and rows: "sealing_ok E \<longrightarrow> list_all2 (waits E) rows (map (\<lambda>p. (p, TypeGroupKey, b)) (others E ms))" by auto
  let ?w = "bump_w ''group.rekeys'' (w\<lparr>w_rnd := r4, w_db := (w_db w)\<lparr>d_skeys := (d_skeys (w_db w))((gid, v_self E) \<mapsto> ct),
        d_sealed := d_sealed (w_db w) @ rows\<rparr>\<rparr>)"
  have "s' = (?w, hs)" using fin s4 by simp
  with r(1) o enc rows show ?thesis
    by (intro exI [of _ s] exI [of _ ct] exI [of _ rows] exI [of _ r] exI [of _ ?w]) simp
qed




definition demo_gid :: bytes where "demo_gid = replicate 32 0"

lemma length_demo_gid: "length demo_gid = 32"
  by (simp add: demo_gid_def)

definition demo_me :: peer_id where "demo_me = PeerID (replicate 32 1)"
definition demo_other :: peer_id where "demo_other = PeerID (replicate 32 2)"

definition demo_pair :: membership where
  "demo_pair = mem_sign demo_crypto (replicate 32 3) \<lparr>mb_gid = demo_gid, mb_version = 1, mb_name = ''g'',
     mb_admin = demo_pad (replicate 32 3), mb_members = [demo_me, demo_other], mb_sig = []\<rparr>"

definition demo_admin :: env where
  "demo_admin = demo_env\<lparr>v_pmem := table_pb [(mem_pb demo_pair, [8]), (mem_pb (next_document demo_env demo_gid demo_pair [demo_me]), [9])]\<rparr>"

definition demo_sealed :: "bytes \<Rightarrow> bytes \<Rightarrow> bytes" where
  "demo_sealed x a = replicate 24 0 @ c_xseal demo_crypto (replicate 32 5) (replicate 24 0) x a"

definition demo_group_row :: "membership \<Rightarrow> bytes \<Rightarrow> grow" where
  "demo_group_row m b = (group_rec demo_env m b)\<lparr>g_name := demo_sealed (str_bytes (mb_name m)) (aad_group_name (mb_gid m)),
     g_mem := demo_sealed b (aad_group_membership (mb_gid m))\<rparr>"

definition demo_pair_world :: world where
  "demo_pair_world = new_world (replicate 400 0)\<lparr>w_db := empty_db\<lparr>d_groups := [demo_group_row demo_pair [8]],
     d_members := map (Pair demo_gid) [demo_me, demo_other]\<rparr>\<rparr>"

lemma demo_open: "v_crypto E = demo_crypto \<Longrightarrow> v_key E = replicate 32 5 \<Longrightarrow> box_open E (demo_sealed x a) a = Inr x"
  by (simp add: box_open_def demo_sealed_def NonceSizeX_def Overhead_def demo_xaead_correct [THEN xaead_correctD(1)]
      demo_xaead_correct [THEN xaead_correctD(2)])

lemma demo_ids [simp]: "demo_me \<noteq> demo_other" "demo_other \<noteq> demo_me" "demo_me < demo_other" "demo_me \<le> demo_other"
proof -
  show "demo_me \<noteq> demo_other" "demo_other \<noteq> demo_me" by (simp_all add: demo_me_def demo_other_def)
  have "replicate 32 (1 :: byte) < replicate 32 2" by (simp add: numeral_eq_Suc)
  then show "demo_me < demo_other" "demo_me \<le> demo_other"
    by (simp_all add: demo_me_def demo_other_def less_peer_id_def less_eq_peer_id_def)
qed

lemma demo_pair_simps [simp]: "mb_version demo_pair = 1" "mb_members demo_pair = [demo_me, demo_other]"
  "mb_gid demo_pair = demo_gid" "mb_admin demo_pair = demo_pad (replicate 32 3)" "mb_name demo_pair = ''g''"
  by (simp_all add: demo_pair_def mem_sign_def Let_def sort_members_def)

lemma demo_env_simps [simp]: "v_crypto demo_env = demo_crypto" "v_key demo_env = replicate 32 5" "v_self demo_env = demo_me"
  "v_admin demo_env = replicate 32 3"
  by (simp_all add: demo_env_def demo_me_def)

lemma demo_valid: "mb_version m \<noteq> 0 \<Longrightarrow> mb_members m \<noteq> [] \<Longrightarrow> length (mb_members m) \<le> 128 \<Longrightarrow> mb_name m = ''g''
    \<Longrightarrow> validate_membership m"
proof -
  have "runes ''g'' = Some [103]" by code_simp
  then show "mb_version m \<noteq> 0 \<Longrightarrow> mb_members m \<noteq> [] \<Longrightarrow> length (mb_members m) \<le> 128 \<Longrightarrow> mb_name m = ''g''
    \<Longrightarrow> ?thesis"
    by (simp add: validate_membership_def MaxMembers_def maxGroupName_def)
qed


lemma demo_admin_simps [simp]: "v_crypto demo_admin = demo_crypto" "v_key demo_admin = replicate 32 5" "v_self demo_admin = demo_me"
  "v_admin demo_admin = replicate 32 3" "admin_pub demo_admin = demo_pad (replicate 32 3)"
  "next_document demo_admin gid m ms = next_document demo_env gid m ms"
  "v_pmem demo_admin = table_pb [(mem_pb demo_pair, [8]), (mem_pb (next_document demo_env demo_gid demo_pair [demo_me]), [9])]"
  by (simp_all add: demo_admin_def admin_pub_def next_document_def) (simp add: demo_crypto_def)

lemma demo_pair_decodes: "decode_membership (v_pmem demo_admin) [8] = Inr demo_pair"
  by (simp add: decode_membership_iff table_pb_def wf_membership_def demo_gid_def demo_valid)
    (simp add: demo_me_def demo_other_def wf_peer_def IDLen_def demo_pair_def mem_sign_def Let_def
      demo_key_lengths [THEN key_lengthsD(8)])

lemma demo_pair_row: "group_row gid (w_db demo_pair_world) = (if gid = demo_gid then Some (demo_group_row demo_pair [8]) else None)"
  by (simp add: group_row_def demo_pair_world_def demo_group_row_def group_rec_def)

lemma demo_scan: "v_crypto E = demo_crypto \<Longrightarrow> v_key E = replicate 32 5 \<Longrightarrow>
    scan_group E (demo_group_row m b) = Inr (group_rec demo_env m b)"
  by (simp add: scan_group_def demo_group_row_def group_rec_def demo_open)

lemma demo_admin_laws: "group_laws demo_admin" and demo_pair_documents: "documents_ok demo_admin (w_db demo_pair_world)"
proof -
  have ne: "mem_pb demo_pair \<noteq> mem_pb (next_document demo_env demo_gid demo_pair [demo_me])"
    by (simp add: mem_pb_def)
  then show "group_laws demo_admin"
    using demo_xaead_correct demo_sign_correct demo_key_lengths
    by (simp add: group_laws_def sealing_ok_def wf_peer_def IDLen_def table_pb_roundtrip) (simp add: demo_me_def)
  have "mem_verify demo_crypto demo_pair"
    using sign_verify [OF demo_sign_correct, of "replicate 32 3" "\<lparr>mb_gid = demo_gid, mb_version = 1, mb_name = ''g'',
        mb_admin = [], mb_members = [demo_me, demo_other], mb_sig = []\<rparr>"]
    by (simp add: demo_pair_def) (simp add: demo_crypto_def)
  then have "document_ok demo_admin (w_db demo_pair_world) (demo_group_row demo_pair [8])"
    using demo_pair_decodes demo_scan [of demo_admin demo_pair "[8]"] by (simp add: document_ok_def group_rec_def)
      (simp add: demo_group_row_def group_rec_def demo_pair_world_def mem_has_def)
  then show "documents_ok demo_admin (w_db demo_pair_world)"
    by (simp add: documents_ok_def demo_pair_row) (simp add: demo_group_row_def group_rec_def sql_u64_def)
qed

lemma demo_removal: "\<exists>w'. remove_member demo_admin demo_gid demo_other demo_pair_world = (Inr (), w')"
proof -
  let ?W = demo_pair_world and ?r = "group_rec demo_env demo_pair [8]" and ?m = "next_document demo_env demo_gid demo_pair [demo_me]"
  let ?g = "?r\<lparr>g_version := mb_version ?m, g_mem := [9], g_updated := v_now demo_admin\<rparr>"
  have get: "group_get demo_admin demo_gid (?W, []) = (Inr (Some ?r), (?W, []))"
    by (simp add: group_get_def demo_pair_row demo_scan)
  have val: "validate_membership ?m" by (rule demo_valid) simp_all
  have enc: "encode_membership (v_pmem demo_admin) ?m = Inr [9]"
    using val by (simp add: encode_membership_def table_pb_def mem_pb_def)
  have upd: "encode_update (v_pupdate demo_admin) ?m = Inr [10]"
    using val by (simp add: encode_update_def membership_to_pb_def demo_admin_def demo_env_def)
  have key: "encode_key_dist (v_pkey demo_admin) demo_gid d = Inr [11]" for d
    by (simp add: encode_key_dist_def demo_admin_def demo_env_def)
  have rnd: "w_rnd ?W = replicate 400 0" by (simp add: demo_pair_world_def new_world_def)
  obtain name mem where g: "group_put demo_admin ?g (?W, []) = (Inr (), (?W\<lparr>w_rnd := drop (2 * NonceSizeX) (w_rnd ?W),
     w_db := (w_db ?W)\<lparr>d_groups := put_group ?g name mem (d_groups (w_db ?W))\<rparr>\<rparr>, []))"
    using group_put_ok [of ?W ?g demo_admin "[]"] by (auto simp: rnd NonceSizeX_def sql_u64_def)
  define w1 where "w1 = ?W\<lparr>w_rnd := drop (2 * NonceSizeX) (w_rnd ?W),
     w_db := (w_db ?W)\<lparr>d_groups := put_group ?g name mem (d_groups (w_db ?W))\<rparr>\<rparr>"
  define w2 where "w2 = w1\<lparr>w_db := (w_db w1)\<lparr>d_members := filter (\<lambda>(g, m). g \<noteq> demo_gid) (d_members (w_db w1)) @ map (Pair demo_gid) [demo_me]\<rparr>\<rparr>"
  define w3 where "w3 = w2\<lparr>w_db := (w_db w2)\<lparr>d_skeys := (d_skeys (w_db w2))((demo_gid, demo_other) := None)\<rparr>\<rparr>"
  have w3: "w_rnd w3 = replicate 352 0" "d_skeys (w_db w3) = Map.empty"
    by (simp_all add: w3_def w2_def w1_def rnd NonceSizeX_def) (simp add: demo_pair_world_def empty_db_def)
  obtain row where a: "sealed_add demo_admin demo_other TypeGroupUpdate [10] (w3, []) = (Inr (), (w3\<lparr>w_rnd := drop NonceSizeX (w_rnd w3),
      w_db := (w_db w3)\<lparr>d_sealed := d_sealed (w_db w3) @ [row]\<rparr>\<rparr>, []))"
    using sealed_add_ok [of w3] by (fastforce simp: w3 NonceSizeX_def)
  define w4 where "w4 = w3\<lparr>w_rnd := drop NonceSizeX (w_rnd w3), w_db := (w_db w3)\<lparr>d_sealed := d_sealed (w_db w3) @ [row]\<rparr>\<rparr>"
  have w4: "w_rnd w4 = replicate 328 0" "d_skeys (w_db w4) = Map.empty" by (simp_all add: w4_def w3 NonceSizeX_def)
  let ?s = "\<lparr>ss_gen = 1, ss_ck = replicate 32 0, ss_n = 0, ss_priv = replicate 64 0\<rparr>"
  have n: "with_rnd (\<lambda>r. map_err ErrSenderKey (new_sender demo_crypto r 1)) (w4, []) = (Inr ?s, (w4\<lparr>w_rnd := replicate 232 0\<rparr>, []))"
    by (simp add: with_rnd_def w4 new_sender_def read_full_def) (simp add: demo_crypto_def read_full_def)
  let ?w5 = "w4\<lparr>w_rnd := replicate 232 0\<rparr>"
  obtain s6 where p: "sender_key_put demo_admin (demo_gid, demo_me) (sender_marshal ?s) (?w5, []) = (Inr (), s6)"
    using sender_key_put_ok [of ?w5] by (fastforce simp: NonceSizeX_def)
  obtain w6 hs6 where s6: "s6 = (w6, hs6)" by (cases s6)
  have "store_document demo_admin ?r ?m (?W, []) = (Inr (), (w2, []))"
    using enc g [folded w1_def] members_set_ok [of "[demo_me]" demo_gid w1 "[]", folded w2_def]
    by (simp add: store_document_def bnd_def seq_def)
  then have "fst (remove_member_tx demo_admin demo_gid demo_other (?W, [])) = Inr ()"
    using demo_pair_decodes upd a [folded w4_def] n p [unfolded s6] key w4
    by (simp add: remove_member_tx_def bnd_def seq_def get group_rec_def mem_has_def Let_def sender_key_delete_def w3_def [symmetric]
        rekey_tx_def sender_key_get_def)
  then show ?thesis
    by (auto simp: remove_member_def run_tx_def split: prod.split)
qed


section \<open>What the history of a group holds\<close>

text \<open>The stored point of a member opens the message, which that member's key signed.\<close>

definition member_opens :: "env \<Rightarrow> peer_id \<Rightarrow> envelope \<Rightarrow> db \<Rightarrow> gmsg \<Rightarrow> bytes \<Rightarrow> sk_receiver \<Rightarrow> bool" where
  "member_opens E p e d msg body rcv' \<longleftrightarrow> decode_msg (v_pgmsg E) (e_payload e) = Inr msg
     \<and> (\<exists>row. group_row (gs_gid msg) d = Some row \<and> \<not> g_left row) \<and> (gs_gid msg, p) \<in> set (d_members d)
     \<and> (\<exists>ct b rcv. d_skeys d (gs_gid msg, p) = Some ct \<and> box_open E ct (aad_sender_key (gs_gid msg, p)) = Inr b
         \<and> receiver_unmarshal b = Inr rcv
         \<and> c_verify (v_crypto E) (sr_pub rcv) (sign_transcript (v_crypto E) (gs_gid msg) (gs_gen msg) (gs_n msg) (gs_ct msg)) (gs_sig msg)
         \<and> sk_decrypt (v_crypto E) rcv (gs_gid msg) (gs_gen msg) (gs_n msg) (gs_ct msg) (gs_sig msg) = Inr (body, rcv'))"

text \<open>No later state of our tables could make the message readable: it is rubbish, we left, or its place in the chain is gone.\<close>

definition never_readable :: "env \<Rightarrow> peer_id \<Rightarrow> envelope \<Rightarrow> db \<Rightarrow> bool" where
  "never_readable E p e d \<longleftrightarrow> (case decode_msg (v_pgmsg E) (e_payload e) of Inl err \<Rightarrow> True
     | Inr msg \<Rightarrow> (case group_row (gs_gid msg) d of None \<Rightarrow> False
       | Some row \<Rightarrow> g_left row \<or> (case d_skeys d (gs_gid msg, p) of None \<Rightarrow> False
         | Some ct \<Rightarrow> (case box_open E ct (aad_sender_key (gs_gid msg, p)) of Inl err \<Rightarrow> False
           | Inr b \<Rightarrow> (case receiver_unmarshal b of Inl err \<Rightarrow> False
             | Inr rcv \<Rightarrow> (case sk_decrypt (v_crypto E) rcv (gs_gid msg) (gs_gen msg) (gs_n msg) (gs_ct msg) (gs_sig msg) of
                 Inr x \<Rightarrow> False | Inl err \<Rightarrow> err \<noteq> SErrFutureKey))))))"

lemma key_get_run: "sender_key_get E k (w, hs) = (Inr raw, s') \<Longrightarrow> s' = (w, hs) \<and> (case raw of None \<Rightarrow> d_skeys (w_db w) k = None
     | Some b \<Rightarrow> \<exists>ct. d_skeys (w_db w) k = Some ct \<and> box_open E ct (aad_sender_key k) = Inr b)"
  by (auto simp: sender_key_get_def bnd_Inr_iff split: option.splits)

text \<open>The part of the handler after the message was opened.\<close>

definition take_group_text :: "env \<Rightarrow> peer_id \<Rightarrow> envelope \<Rightarrow> bytes \<Rightarrow> bytes \<Rightarrow> sk_receiver \<Rightarrow> unit tx" where
  "take_group_text E p e gid body rcv' =
     seq (sender_key_put E (gid, p) (receiver_marshal rcv'))
    (seq (lamport_observe (e_lamport e))
    (bnd (insert_message E (group_incoming E p gid e body)) (\<lambda>fresh.
     after_commit (emit (OGroupMessage (group_incoming E p gid e body))))))"

lemma take_group_text_run:
  assumes ok: "sealing_ok E" and run: "take_group_text E p e gid body rcv' (w, hs) = (Inr (), (w', hs'))"
  shows "hs' = hs @ [emit (OGroupMessage (group_incoming E p gid e body))]
    \<and> sender_key_get E (gid, p) (w', hs') = (Inr (Some (receiver_marshal rcv')), (w', hs'))
    \<and> (if (PeerID gid, False, e_id e) \<in> msg_key ` set (d_msgs (w_db w)) then d_msgs (w_db w') = d_msgs (w_db w)
       else get_message E (PeerID gid) (e_id e) False (w', hs') = (Inr (Some (group_incoming E p gid e body)), (w', hs')))"
proof -
  let ?m = "group_incoming E p gid e body"
  have key: "msg_key ?m = (PeerID gid, False, e_id e)" by (simp add: msg_key_def group_incoming_def)
  from run obtain s1 s2 fresh s3 where put: "sender_key_put E (gid, p) (receiver_marshal rcv') (w, hs) = (Inr (), s1)"
    and lam: "lamport_observe (e_lamport e) s1 = (Inr (), s2)"
    and ins: "insert_message E ?m s2 = (Inr fresh, s3)" and fin: "after_commit (emit (OGroupMessage ?m)) s3 = (Inr (), (w', hs'))"
    by (auto simp: take_group_text_def runs_iff)
  from key_put_run [OF put] ok obtain ct r1 where
    s1: "s1 = (w\<lparr>w_rnd := r1, w_db := (w_db w)\<lparr>d_skeys := (d_skeys (w_db w))((gid, p) \<mapsto> ct)\<rparr>\<rparr>, hs)"
    and o: "box_open E ct (aad_sender_key (gid, p)) = Inr (receiver_marshal rcv')" by blast
  obtain v2 where s2: "s2 = (v2, hs)" "d_skeys (w_db v2) = d_skeys (w_db (fst s1))" "d_msgs (w_db v2) = d_msgs (w_db w)"
    using lam s1 by (auto simp: lamport_observe_def Let_def)
  have v3: "\<exists>v3. s3 = (v3, hs) \<and> d_skeys (w_db v3) = d_skeys (w_db v2)"
    and old: "\<not> fresh \<longrightarrow> msg_key ?m \<in> msg_key ` set (d_msgs (w_db w)) \<and> d_msgs (w_db (fst s3)) = d_msgs (w_db w)"
    and new: "fresh \<longrightarrow> msg_key ?m \<notin> msg_key ` set (d_msgs (w_db w))"
    using insert_message_run [OF ins [unfolded s2(1)]] s2(3) by auto
  obtain v3 where s3: "s3 = (v3, hs)" "d_skeys (w_db v3) (gid, p) = Some ct" using v3 s2(2) s1 by auto
  have w': "w' = v3" "hs' = hs @ [emit (OGroupMessage ?m)]" using fin s3(1) by auto
  have get: "sender_key_get E (gid, p) (w', hs') = (Inr (Some (receiver_marshal rcv')), (w', hs'))"
    using s3(2) o by (simp add: sender_key_get_def w')
  have "get_message E (PeerID gid) (e_id e) False (w', hs') = (Inr (Some ?m), (w', hs'))" if fresh
  proof -
    from insert_then_get [OF ok, of ?m s2 s3] ins that s3(1) have "get_message E (PeerID gid) (e_id e) False (v3, hs) = (Inr (Some ?m), (v3, hs))"
      by (simp add: group_incoming_def)
    then show ?thesis by (simp add: get_message_run w')
  qed
  with old new w' get key s3(1) show ?thesis by (cases fresh) auto
qed

lemma take_group_text_fails: "take_group_text E p e gid body rcv' (w, hs) = (Inl x, (w', hs')) \<Longrightarrow> hs' = hs"
proof -
  let ?m = "group_incoming E p gid e body"
  assume "take_group_text E p e gid body rcv' (w, hs) = (Inl x, (w', hs'))"
  then have "\<exists>s1 s2. moves_chain (w, hs) s1 s2 \<and> snd s2 = hs'" if "moves_chain = (\<lambda>s t u. snd t = snd s \<and> snd u = snd t)" for moves_chain
    unfolding that take_group_text_def
    by (auto simp: seq_Inl_iff bnd_Inl_iff tx_defs sends_def dest!: movesD [OF sends_groups(6)] movesD [OF sends_store(5)]
        movesD [OF sends_store(1)])
  then show ?thesis by auto
qed


section \<open>From a member to the others\<close>

lemma fan_out_run: "fan_out E e ps (w, hs) = (Inr qs, s') \<Longrightarrow> sealing_ok E \<Longrightarrow>
    qs = others E ps \<and> (\<exists>rows r. s' = (w\<lparr>w_rnd := r, w_db := (w_db w)\<lparr>d_outbox := d_outbox (w_db w) @ rows\<rparr>\<rparr>, hs)
      \<and> list_all2 (\<lambda>row p. o_peer row = p \<and> o_id row = e_id e \<and> carries E row e) rows (others E ps))"
proof (induction ps arbitrary: w qs)
  case Nil
  then show ?case by (intro conjI exI [of _ "[]"] exI [of _ "w_rnd w"]) (simp_all add: others_def)
next
  case (Cons p ps)
  show ?case
  proof (cases "p = v_self E")
    case True
    with Cons.IH [of w qs] Cons.prems show ?thesis by (simp add: others_def)
  next
    case False
    with Cons.prems(1) obtain s1 qs' where s1: "enqueue_tx E p e (w, hs) = (Inr (), s1)"
      and f: "fan_out E e ps s1 = (Inr qs', s')" and qs: "qs = p # qs'"
      by (auto simp: runs_iff)
    from enqueue_tx_run [OF s1 Cons.prems(2)] obtain row r where
      v: "s1 = (w\<lparr>w_rnd := r, w_db := (w_db w)\<lparr>d_outbox := d_outbox (w_db w) @ [row]\<rparr>\<rparr>, hs)"
      and row: "o_peer row = p" "o_id row = e_id e" "carries E row e" by auto
    from Cons.IH [OF f [unfolded v] Cons.prems(2)] obtain rows r' where qs': "qs' = others E ps" and
      "s' = (w\<lparr>w_rnd := r', w_db := (w_db w)\<lparr>d_outbox := d_outbox (w_db w) @ row # rows\<rparr>\<rparr>, hs)"
      "list_all2 (\<lambda>row p. o_peer row = p \<and> o_id row = e_id e \<and> carries E row e) rows (others E ps)" by auto
    with row qs False show ?thesis
      by (intro conjI exI [of _ "row # rows"] exI [of _ r']) (simp_all add: others_def)
  qed
qed

text \<open>A member who was handed the sender's current point.\<close>

definition in_step :: "env \<Rightarrow> bytes \<Rightarrow> peer_id \<Rightarrow> sk_sender \<Rightarrow> db \<Rightarrow> bool" where
  "in_step E gid p s d \<longleftrightarrow> (\<exists>row. group_row gid d = Some row \<and> \<not> g_left row) \<and> (gid, p) \<in> set (d_members d)
     \<and> (\<exists>ct b. d_skeys d (gid, p) = Some ct \<and> box_open E ct (aad_sender_key (gid, p)) = Inr b
         \<and> receiver_unmarshal b = Inr (new_receiver (sender_dist (v_crypto E) s)))"

lemma group_text_opens:
  assumes laws: "aead_correct (v_crypto E)" "sign_correct (v_crypto E)" "key_lengths (v_crypto E)" "\<forall>q. pb_roundtrip (v_pgmsg E) q"
    and enc: "sk_encrypt (v_crypto E) s gid body = (n, ct, sig, s')" and gen: "ss_gen s \<noteq> 0" "length gid = 32"
    and payload: "encode_msg (v_pgmsg E) \<lparr>gs_gid = gid, gs_gen = ss_gen s', gs_n = n, gs_ct = ct, gs_sig = sig\<rparr> = Inr pl"
    and step: "in_step E gid p s d" and e: "e_payload e = pl"
  shows "\<exists>msg rcv'. member_opens E p e d msg body rcv' \<and> gs_gid msg = gid"
proof -
  let ?msg = "\<lparr>gs_gid = gid, gs_gen = ss_gen s', gs_n = n, gs_ct = ct, gs_sig = sig\<rparr>"
  have g: "ss_gen s' = ss_gen s" and sg: "length sig = 64"
    using enc key_lengthsD(8) [OF laws(3)] by (auto simp: sk_encrypt_def Let_def)
  have "decode_msg (v_pgmsg E) pl = Inr ?msg"
    using payload gen sg laws(4) g
    by (auto simp: encode_msg_def decode_msg_def dest!: pb_roundtripD [OF spec [OF laws(4)]] split: if_splits)
  moreover obtain rcv' where dec: "sk_decrypt (v_crypto E) (new_receiver (sender_dist (v_crypto E) s)) gid (ss_gen s) n ct sig = Inr (body, rcv')"
    using sk_decrypt_next [OF laws(1,2) enc] by blast
  moreover have "c_verify (v_crypto E) (sr_pub (new_receiver (sender_dist (v_crypto E) s)))
      (sign_transcript (v_crypto E) gid (ss_gen s) n ct) sig"
    using dec by (auto simp: sk_decrypt_def split: if_splits)
  ultimately have "member_opens E p e d ?msg body rcv'"
    using step g by (auto simp: member_opens_def in_step_def e)
  then show ?thesis by (intro exI [of _ ?msg] exI [of _ rcv']) simp
qed

lemma send_group_run:
  assumes ok: "sealing_ok E" and run: "send_group_tx E gid body mid (w, []) = (Inr qs, (w', hs))"
  obtains s ct n c sig s' pl sequ lam rows where "d_skeys (w_db w) (gid, v_self E) = Some ct"
    and "bindR (box_open E ct (aad_sender_key (gid, v_self E))) (\<lambda>b. map_err ErrSenderKey (sender_unmarshal b)) = Inr s"
    and "sk_encrypt (v_crypto E) s gid body = (n, c, sig, s')"
    and "encode_msg (v_pgmsg E) \<lparr>gs_gid = gid, gs_gen = ss_gen s', gs_n = n, gs_ct = c, gs_sig = sig\<rparr> = Inr pl"
    and "hs = []" "qs = others E (sort (map snd (filter (\<lambda>(g, m). g = gid) (d_members (w_db w)))))"
    and "d_outbox (w_db w') = d_outbox (w_db w) @ rows"
    and "list_all2 (\<lambda>row p. o_peer row = p \<and> o_id row = mid \<and> carries E row \<lparr>e_id = mid, e_type = TypeGroup,
      e_seq = of_nat sequ, e_lamport = of_nat lam, e_payload = pl\<rparr>) rows qs"
    and "sender_key_get E (gid, v_self E) (w', []) = (Inr (Some (sender_marshal s')), (w', []))"
proof -
  let ?f = "\<lambda>rec :: grow. if g_left rec then fail (ErrGroup GErrLeft)
       else bnd (group_members gid) (\<lambda>ms.
         bnd (sender_key_get E (gid, v_self E)) (\<lambda>raw. case raw of
           None \<Rightarrow> fail (ErrGroup GErrNoOwnKey)
         | Some b \<Rightarrow>
           bnd (res (map_err ErrSenderKey (sender_unmarshal b))) (\<lambda>sender.
           bnd (next_seq (''gseq:'' @ peer_string (PeerID gid))) (\<lambda>sequ.
           bnd lamport_next (\<lambda>lam.
           let (n, ct, sig, sender') = sk_encrypt (v_crypto E) sender gid body in
           bnd (res (map_err ErrGroup (encode_msg (v_pgmsg E)
             \<lparr>gs_gid = gid, gs_gen = ss_gen sender', gs_n = n, gs_ct = ct, gs_sig = sig\<rparr>))) (\<lambda>payload.
           seq (sender_key_put E (gid, v_self E) (sender_marshal sender'))
          (bnd (insert_message E (group_text E gid mid sequ lam body)) (\<lambda>fresh.
           fan_out E \<lparr>e_id = mid, e_type = TypeGroup, e_seq = of_nat sequ, e_lamport = of_nat lam,
             e_payload = payload\<rparr> ms)))))))) "
  from known_then [OF disjI2 [OF run [unfolded send_group_tx_def]]] obtain rec where
    f: "?f rec (w, []) = (Inr qs, (w', hs))" by blast
  note f = conjunct2 [OF guarded [OF f]]
  let ?ms = "sort (map snd (filter (\<lambda>(g, m). g = gid) (d_members (w_db w))))"
  obtain k s1 where k: "sender_key_get E (gid, v_self E) (w, []) = (k, s1)" by (metis prod.collapse)
  with sender_kv.get_run [of E "(gid, v_self E)" "(w, [])"] have k: "sender_key_get E (gid, v_self E) (w, []) = (k, (w, []))" by simp
  with f obtain b where b: "k = Inr (Some b)"
    by (cases k) (auto simp: group_members_def bnd_def split: option.splits)
  with key_get_run [of E "(gid, v_self E)" w "[]" "Some b"] k obtain ct where
    ct: "d_skeys (w_db w) (gid, v_self E) = Some ct" "box_open E ct (aad_sender_key (gid, v_self E)) = Inr b" by auto
  from f k b obtain s s2 where s: "sender_unmarshal b = Inr s"
    by (cases "sender_unmarshal b") (auto simp: group_members_def bnd_def)
  obtain n c sig s' where enc: "sk_encrypt (v_crypto E) s gid body = (n, c, sig, s')" by (metis prod.collapse)
  from f k b s enc obtain sequ lam pl v2 v3 v4 v5 fresh where
    nx: "next_seq (''gseq:'' @ peer_string (PeerID gid)) (w, []) = (Inr sequ, v2)"
    and lm: "lamport_next v2 = (Inr lam, v3)"
    and pl: "encode_msg (v_pgmsg E) \<lparr>gs_gid = gid, gs_gen = ss_gen s', gs_n = n, gs_ct = c, gs_sig = sig\<rparr> = Inr pl"
    and put: "sender_key_put E (gid, v_self E) (sender_marshal s') v3 = (Inr (), v4)"
    and ins: "insert_message E (group_text E gid mid sequ lam body) v4 = (Inr fresh, v5)"
    and fan: "fan_out E \<lparr>e_id = mid, e_type = TypeGroup, e_seq = of_nat sequ, e_lamport = of_nat lam, e_payload = pl\<rparr>
      ?ms v5 = (Inr qs, (w', hs))"
    by (auto simp: group_members_def runs_iff)
  have d3: "\<exists>u3. v3 = (u3, []) \<and> d_outbox (w_db u3) = d_outbox (w_db w)"
    using nx lm by (auto simp: next_seq_def lamport_next_def runs_iff)
  then obtain u3 where u3: "v3 = (u3, [])" "d_outbox (w_db u3) = d_outbox (w_db w)" by blast
  from key_put_run [OF put [unfolded u3]] ok obtain ct' r where
    v4: "v4 = (u3\<lparr>w_rnd := r, w_db := (w_db u3)\<lparr>d_skeys := (d_skeys (w_db u3))((gid, v_self E) \<mapsto> ct')\<rparr>\<rparr>, [])"
    and o: "box_open E ct' (aad_sender_key (gid, v_self E)) = Inr (sender_marshal s')" by blast
  obtain u5 where u5: "v5 = (u5, [])" "d_outbox (w_db u5) = d_outbox (w_db w)" "d_skeys (w_db u5) (gid, v_self E) = Some ct'"
    using insert_message_run [OF ins [unfolded v4]] u3(2) by auto
  from fan_out_run [OF fan [unfolded u5(1)] ok] obtain rows r' where
    w': "w' = u5\<lparr>w_rnd := r', w_db := (w_db u5)\<lparr>d_outbox := d_outbox (w_db u5) @ rows\<rparr>\<rparr>" "hs = []" "qs = others E ?ms"
    and rows: "list_all2 (\<lambda>row p. o_peer row = p \<and> o_id row = mid \<and> carries E row \<lparr>e_id = mid, e_type = TypeGroup,
      e_seq = of_nat sequ, e_lamport = of_nat lam, e_payload = pl\<rparr>) rows qs" by auto
  show thesis
    by (rule that [OF ct(1) _ enc pl w'(2,3) _ rows])
      (use s ct u5 w' o in \<open>simp_all add: sender_key_get_def\<close>)
qed

definition own_key :: "env \<Rightarrow> bytes \<Rightarrow> db \<Rightarrow> sk_sender option" where
  "own_key E gid d = (case d_skeys d (gid, v_self E) of None \<Rightarrow> None
     | Some ct \<Rightarrow> (case bindR (box_open E ct (aad_sender_key (gid, v_self E))) (\<lambda>b. map_err ErrSenderKey (sender_unmarshal b)) of
         Inl e \<Rightarrow> None | Inr s \<Rightarrow> Some s))"

lemma send_group_tx_of:
  assumes "send_group_text E gid body w = (Inr mid, w')"
  obtains r qs v hs where "send_group_tx E gid body mid (w\<lparr>w_rnd := r\<rparr>, []) = (Inr qs, (v, hs))"
    "w' = fold flush qs (run_hooks hs v)" "body \<noteq> []" "length body \<le> MaxTextLen"
proof -
  from assms have c: "body \<noteq> []" "length body \<le> MaxTextLen" by (auto simp: send_group_text_def split: if_splits)
  then obtain mid0 r where rnd: "new_msg_id (w_rnd w) = Inr (mid0, r)"
    using assms by (cases "new_msg_id (w_rnd w)") (auto simp: send_group_text_def)
  obtain x v hs where run: "send_group_tx E gid body mid0 (w\<lparr>w_rnd := r\<rparr>, []) = (x, (v, hs))" by (metis prod.collapse)
  with rnd c assms obtain qs where x: "x = Inr qs" "w' = fold flush qs (run_hooks hs v)" "mid0 = mid"
    by (cases x) (auto simp: send_group_text_def run_tx_def)
  from that [OF run [unfolded x(1,3)] x(2) c] show thesis .
qed

text \<open>
  C18. A text sent to a group reaches every member who was handed the sender's
  point. When SendText returns an id, the queue has grown by one row per other
  member, in the order of their identifiers, all carrying the same envelope
  with that id; our key is stored advanced past the number it used; and at any
  node that knows the group, counts us as a member and holds the receiver made
  from our point, the envelope opens to exactly this text.
\<close>

theorem group_text_reaches_members:
  assumes laws: "group_laws E" "aead_correct (v_crypto E)" "\<forall>q. pb_roundtrip (v_pgmsg E) q"
    and gid: "length gid = 32" "own_key E gid (w_db w) = Some s" "ss_gen s \<noteq> 0"
    and send: "send_group_text E gid body w = (Inr mid, w')"
  shows "\<exists>e rows s'. e_id e = mid \<and> e_type e = TypeGroup \<and> d_outbox (w_db w') = d_outbox (w_db w) @ rows
    \<and> list_all2 (\<lambda>row p. o_peer row = p \<and> o_id row = mid \<and> carries E row e) rows
        (others E (sort (map snd (filter (\<lambda>(g, m). g = gid) (d_members (w_db w))))))
    \<and> s' = snd (snd (snd (sk_encrypt (v_crypto E) s gid body)))
    \<and> sender_key_get E (gid, v_self E) (w', []) = (Inr (Some (sender_marshal s')), (w', []))
    \<and> (\<forall>B d. v_crypto B = v_crypto E \<and> v_pgmsg B = v_pgmsg E \<and> in_step B gid (v_self E) s d \<longrightarrow>
        (\<exists>msg rcv'. gs_gid msg = gid \<and> member_opens B (v_self E) e d msg body rcv'))"
proof -
  from send_group_tx_of [OF send] obtain r qs v hs where
    run: "send_group_tx E gid body mid (w\<lparr>w_rnd := r\<rparr>, []) = (Inr qs, (v, hs))" and
    w': "w' = fold flush qs (run_hooks hs v)" .
  from send_group_run [OF group_lawsD(1) [OF laws(1)] run] obtain s1 ct n c sig s' pl sequ lam rows where
    s1: "d_skeys (w_db (w\<lparr>w_rnd := r\<rparr>)) (gid, v_self E) = Some ct"
      "bindR (box_open E ct (aad_sender_key (gid, v_self E))) (\<lambda>b. map_err ErrSenderKey (sender_unmarshal b)) = Inr s1"
    and enc: "sk_encrypt (v_crypto E) s1 gid body = (n, c, sig, s')"
    and pl: "encode_msg (v_pgmsg E) \<lparr>gs_gid = gid, gs_gen = ss_gen s', gs_n = n, gs_ct = c, gs_sig = sig\<rparr> = Inr pl"
    and qs: "hs = []" "qs = others E (sort (map snd (filter (\<lambda>(g, m). g = gid) (d_members (w_db (w\<lparr>w_rnd := r\<rparr>))))))"
    and rows: "d_outbox (w_db v) = d_outbox (w_db (w\<lparr>w_rnd := r\<rparr>)) @ rows"
      "list_all2 (\<lambda>row p. o_peer row = p \<and> o_id row = mid \<and> carries E row \<lparr>e_id = mid, e_type = TypeGroup,
        e_seq = of_nat sequ, e_lamport = of_nat lam, e_payload = pl\<rparr>) rows qs"
    and get: "sender_key_get E (gid, v_self E) (v, []) = (Inr (Some (sender_marshal s')), (v, []))" .
  have s: "s1 = s" using gid(2) s1 by (simp add: own_key_def)
  let ?e = "\<lparr>e_id = mid, e_type = TypeGroup, e_seq = of_nat sequ, e_lamport = of_nat lam, e_payload = pl\<rparr>"
  have db: "w_db w' = w_db v" unfolding w' qs(1) run_hooks_def by simp
  have opens: "\<exists>msg rcv'. gs_gid msg = gid \<and> member_opens B (v_self E) ?e d msg body rcv'"
    if "v_crypto B = v_crypto E" "v_pgmsg B = v_pgmsg E" "in_step B gid (v_self E) s d" for B d
  proof -
    have "\<exists>msg rcv'. member_opens B (v_self E) ?e d msg body rcv' \<and> gs_gid msg = gid"
    proof (rule group_text_opens)
      show "sk_encrypt (v_crypto B) s gid body = (n, c, sig, s')" using enc s that(1) by simp
      show "encode_msg (v_pgmsg B) \<lparr>gs_gid = gid, gs_gen = ss_gen s', gs_n = n, gs_ct = c, gs_sig = sig\<rparr> = Inr pl"
        using pl that(2) by simp
    qed (use laws gid group_lawsD(2,3) [OF laws(1)] that in simp_all)
    then show ?thesis by blast
  qed
  have get': "sender_key_get E (gid, v_self E) (w', []) = (Inr (Some (sender_marshal s')), (w', []))"
    using key_get_run [OF get] by (auto simp: sender_key_get_def db)
  show ?thesis
    by (rule exI [of _ ?e], rule exI [of _ rows], rule exI [of _ s'])
      (intro conjI allI impI; (use rows qs db enc s get' opens in simp)?)
qed

text \<open>A group of two for the witnesses: one holds its own key, the other the receiver made from it.\<close>

definition demo_pbmsg :: pb_gmsg where
  "demo_pbmsg = (case sk_encrypt demo_crypto demo_sender demo_gid [104] of (n, ct, sig, s') \<Rightarrow>
     \<lparr>gg_gid = demo_gid, gg_gen = ss_gen s', gg_n = n, gg_ct = ct, gg_sig = sig\<rparr>)"

definition demo_speaker :: env where
  "demo_speaker = demo_env\<lparr>v_pmem := table_pb [(mem_pb demo_pair, [8])], v_pgmsg := table_pb [(demo_pbmsg, [12])]\<rparr>"

definition demo_key_world :: "bytes \<Rightarrow> world" where
  "demo_key_world b = demo_pair_world\<lparr>w_db := (w_db demo_pair_world)\<lparr>d_skeys :=
     [(demo_gid, demo_me) \<mapsto> demo_sealed b (aad_sender_key (demo_gid, demo_me))]\<rparr>\<rparr>"

definition demo_speaking :: world where "demo_speaking = demo_key_world (sender_marshal demo_sender)"

definition demo_listening :: world where
  "demo_listening = demo_key_world (receiver_marshal (new_receiver (sender_dist demo_crypto demo_sender)))"

lemma demo_speaker_simps [simp]: "v_crypto demo_speaker = demo_crypto" "v_key demo_speaker = replicate 32 5"
  "v_self demo_speaker = demo_me" "v_pgmsg demo_speaker = table_pb [(demo_pbmsg, [12])]" "v_now demo_speaker = 1000"
  by (simp_all add: demo_speaker_def) (simp add: demo_env_def)

lemma demo_key_simps: "d_skeys (w_db (demo_key_world b)) = [(demo_gid, demo_me) \<mapsto> demo_sealed b (aad_sender_key (demo_gid, demo_me))]"
  "d_members (w_db (demo_key_world b)) = [(demo_gid, demo_me), (demo_gid, demo_other)]" "w_rnd (demo_key_world b) = replicate 400 0"
  "d_outbox (w_db (demo_key_world b)) = []" "d_msgs (w_db (demo_key_world b)) = []" "d_ctrs (w_db (demo_key_world b)) = Map.empty"
  "group_row gid (w_db (demo_key_world b)) = (if gid = demo_gid then Some (demo_group_row demo_pair [8]) else None)"
proof -
  have "d_groups (w_db (demo_key_world b)) = [demo_group_row demo_pair [8]]"
    by (simp add: demo_key_world_def demo_pair_world_def)
  then show "group_row gid (w_db (demo_key_world b)) = (if gid = demo_gid then Some (demo_group_row demo_pair [8]) else None)"
    by (simp add: group_row_def demo_group_row_def group_rec_def)
qed (simp_all add: demo_key_world_def demo_pair_world_def empty_db_def new_world_def)

lemma demo_speaker_laws: "group_laws demo_speaker"
  using demo_xaead_correct demo_sign_correct demo_key_lengths
  by (simp add: group_laws_def sealing_ok_def wf_peer_def IDLen_def) (simp add: demo_speaker_def demo_me_def table_pb_law)

lemma demo_own_key: "own_key demo_speaker demo_gid (w_db demo_speaking) = Some demo_sender"
  by (simp add: own_key_def demo_speaking_def demo_key_simps demo_open)
    (simp add: sender_unmarshal_def sender_marshal_def demo_sender_def)

lemma insert_message_ok:
  assumes "NonceSizeX \<le> length (w_rnd w)" "sm_body m = Some b" "\<not> sm_deleted m" "sql_u64 (sm_seq m)" "sql_u64 (sm_lam m)"
    and "msg_key m \<notin> msg_key ` set (d_msgs (w_db w))"
  shows "\<exists>ct. insert_message E m (w, hs) = (Inr True, (w\<lparr>w_rnd := drop NonceSizeX (w_rnd w),
     w_db := (w_db w)\<lparr>d_msgs := d_msgs (w_db w) @ [m\<lparr>sm_body := ct\<rparr>]\<rparr>\<rparr>, hs))"
  using assms by (simp add: insert_message_def bnd_def box_seal_ok seq_def) blast

lemma enqueue_tx_ok:
  assumes "NonceSizeX \<le> length (w_rnd w)" "encode_env (v_penv E) e = Inr frame" "(p, e_id e) \<notin> outbox_key ` set (d_outbox (w_db w))"
  shows "\<exists>s'. enqueue_tx E p e (w, hs) = (Inr (), s')"
  using assms by (simp add: enqueue_tx_def outbox_enqueue_def bnd_def box_seal_ok)

lemma demo_send: "fst (send_group_text demo_speaker demo_gid [104] demo_speaking) = Inr (replicate 16 0)"
proof -
  obtain n ct sig s' where enc: "sk_encrypt demo_crypto demo_sender demo_gid [104] = (n, ct, sig, s')" by (metis prod.collapse)
  have ct: "ct \<noteq> [] \<and> length ct \<le> maxGroupCiphertext"
  proof -
    have "length ct = 17" using enc by (auto simp: sk_encrypt_def Let_def sk_seal_def) (simp add: demo_crypto_def length_demo_tag)
    then show ?thesis by (auto simp: maxGroupCiphertext_def)
  qed
  then have pl: "encode_msg (table_pb [(demo_pbmsg, [12])]) \<lparr>gs_gid = demo_gid, gs_gen = ss_gen s', gs_n = n, gs_ct = ct, gs_sig = sig\<rparr> = Inr [12]"
    by (simp add: encode_msg_def table_pb_def demo_pbmsg_def enc)
  let ?k = "(demo_gid, demo_me)" and ?sc = "''gseq:'' @ peer_string (PeerID demo_gid)"
  have get: "sender_key_get demo_speaker ?k (w, hs) = (Inr (Some (sender_marshal demo_sender)), (w, hs))"
    if "w_db w = w_db demo_speaking" for w hs
    by (simp add: sender_key_get_def that) (simp add: demo_speaking_def demo_key_simps demo_open)
  have un: "sender_unmarshal (sender_marshal demo_sender) = Inr demo_sender"
    by (simp add: sender_unmarshal_def sender_marshal_def demo_sender_def)
  define w0 where "w0 = demo_speaking\<lparr>w_rnd := replicate 384 0\<rparr>"
  define w1 where "w1 = w0\<lparr>w_db := (w_db w0)\<lparr>d_ctrs := [?sc \<mapsto> 1]\<rparr>\<rparr>"
  define w2 where "w2 = w1\<lparr>w_db := (w_db w1)\<lparr>d_ctrs := [?sc \<mapsto> 1, ''lamport'' \<mapsto> 1]\<rparr>\<rparr>"
  have W: "w_db w0 = w_db demo_speaking" "d_ctrs (w_db demo_speaking) = Map.empty" "d_members (w_db w0) = [(demo_gid, demo_me), (demo_gid, demo_other)]"
    "group_row demo_gid (w_db w0) = Some (demo_group_row demo_pair [8])" "w_rnd w2 = replicate 384 0"
    "d_members (w_db demo_speaking) = [(demo_gid, demo_me), (demo_gid, demo_other)]"
    "group_row demo_gid (w_db demo_speaking) = Some (demo_group_row demo_pair [8])" "d_msgs (w_db w2) = []" "d_outbox (w_db w2) = []"
    by (simp_all add: w0_def w1_def w2_def demo_speaking_def demo_key_simps)
  have nx: "next_seq ?sc (w0, []) = (Inr 1, (w1, []))" by (simp add: next_seq_def W w1_def)
  have lm: "lamport_next (w1, []) = (Inr 1, (w2, []))" by (simp add: lamport_next_def next_seq_def w1_def w2_def W)
  obtain c where p: "sender_key_put demo_speaker ?k (sender_marshal s') (w2, []) = (Inr (), (w2\<lparr>w_rnd := drop NonceSizeX (w_rnd w2),
      w_db := (w_db w2)\<lparr>d_skeys := (d_skeys (w_db w2))(?k \<mapsto> c)\<rparr>\<rparr>, []))"
    using sender_key_put_ok [of w2 demo_speaker ?k "sender_marshal s'" "[]"] by (auto simp: W NonceSizeX_def)
  define w3 where "w3 = w2\<lparr>w_rnd := drop NonceSizeX (w_rnd w2), w_db := (w_db w2)\<lparr>d_skeys := (d_skeys (w_db w2))(?k \<mapsto> c)\<rparr>\<rparr>"
  have W3: "w_rnd w3 = replicate 360 0" "d_msgs (w_db w3) = []" "d_outbox (w_db w3) = []" by (simp_all add: w3_def W NonceSizeX_def)
  let ?m = "group_text demo_speaker demo_gid (replicate 16 0) 1 1 [104]"
  obtain ct4 where i: "insert_message demo_speaker ?m (w3, []) = (Inr True, (w3\<lparr>w_rnd := drop NonceSizeX (w_rnd w3),
     w_db := (w_db w3)\<lparr>d_msgs := d_msgs (w_db w3) @ [?m\<lparr>sm_body := ct4\<rparr>]\<rparr>\<rparr>, []))"
    using insert_message_ok [of w3 ?m "[104]" demo_speaker "[]"] by (auto simp: W3 NonceSizeX_def group_text_def sql_u64_def)
  define w4 where "w4 = w3\<lparr>w_rnd := drop NonceSizeX (w_rnd w3), w_db := (w_db w3)\<lparr>d_msgs := d_msgs (w_db w3) @ [?m\<lparr>sm_body := ct4\<rparr>]\<rparr>\<rparr>"
  let ?e = "\<lparr>e_id = replicate 16 0, e_type = TypeGroup, e_seq = 1, e_lamport = 1, e_payload = [12]\<rparr>"
  have "encode_env (v_penv demo_speaker) ?e = Inr [1]"
    by (simp add: demo_speaker_def demo_env_def encode_env_def validate_env_def type_defs MaxPayload_def)
  then obtain s5 where f: "enqueue_tx demo_speaker demo_other ?e (w4, []) = (Inr (), s5)"
    using enqueue_tx_ok [of w4 demo_speaker ?e "[1]" demo_other "[]"] by (auto simp: w4_def W3 NonceSizeX_def)
  have "fst (send_group_tx demo_speaker demo_gid [104] (replicate 16 0) (w0, [])) = Inr [demo_other]"
    using enc pl get [OF W(1)] un nx lm p [folded w3_def] i [folded w4_def] f
    by (simp add: send_group_tx_def bnd_def seq_def group_get_def W demo_scan group_members_def) (simp add: group_rec_def)
  then show ?thesis
    by (auto simp: send_group_text_def new_msg_id_def read_full_def MsgIDLen_def demo_speaking_def demo_key_simps MaxTextLen_def
      run_tx_def w0_def split: prod.splits)
qed

theorem group_text_reaches_members_witness:
  "\<exists>e w'. send_group_text demo_speaker demo_gid [104] demo_speaking = (Inr (e_id e), w')
    \<and> (\<exists>msg rcv'. member_opens (demo_speaker\<lparr>v_self := demo_other\<rparr>) demo_me e (w_db demo_listening) msg [104] rcv')"
proof -
  obtain w' where w': "send_group_text demo_speaker demo_gid [104] demo_speaking = (Inr (replicate 16 0), w')"
    using demo_send by (metis prod.collapse)
  have "receiver_unmarshal (receiver_marshal (new_receiver (sender_dist demo_crypto demo_sender)))
      = Inr (new_receiver (sender_dist demo_crypto demo_sender))"
    by (rule receiver_codec.dec_enc) (simp add: wf_receiver_def new_receiver_def sender_dist_def demo_sender_def
      demo_key_lengths [THEN key_lengthsD(3)])
  then have step: "in_step (demo_speaker\<lparr>v_self := demo_other\<rparr>) demo_gid (v_self demo_speaker) demo_sender (w_db demo_listening)"
    by (simp add: in_step_def demo_listening_def demo_key_simps demo_open) (simp add: demo_group_row_def group_rec_def)
  have laws: "aead_correct (v_crypto demo_speaker)" "\<forall>q. pb_roundtrip (v_pgmsg demo_speaker) q"
    "length demo_gid = 32" "ss_gen demo_sender \<noteq> 0"
    using demo_aead_correct by (simp_all add: table_pb_law demo_gid_def demo_sender_def)
  from group_text_reaches_members [OF demo_speaker_laws laws(1,2,3) demo_own_key laws(4) w'] obtain e where
    e: "e_id e = replicate 16 0" and all: "\<forall>B d. v_crypto B = v_crypto demo_speaker \<and> v_pgmsg B = v_pgmsg demo_speaker
      \<and> in_step B demo_gid (v_self demo_speaker) demo_sender d \<longrightarrow>
        (\<exists>msg rcv'. gs_gid msg = demo_gid \<and> member_opens B (v_self demo_speaker) e d msg [104] rcv')" by blast
  have same: "v_crypto (demo_speaker\<lparr>v_self := demo_other\<rparr>) = v_crypto demo_speaker"
    "v_pgmsg (demo_speaker\<lparr>v_self := demo_other\<rparr>) = v_pgmsg demo_speaker" by simp_all
  from all same step obtain msg rcv' where "member_opens (demo_speaker\<lparr>v_self := demo_other\<rparr>) (v_self demo_speaker) e (w_db demo_listening) msg [104] rcv'"
    by blast
  with w' e show ?thesis by (intro exI [of _ e] exI [of _ w']) auto
qed


section \<open>A member removed and added again\<close>

lemma delete_each: "eachM (\<lambda>p. sender_key_delete (gid, p)) ps (w, hs) =
    (Inr (), (w\<lparr>w_db := (w_db w)\<lparr>d_skeys := (\<lambda>k. if fst k = gid \<and> snd k \<in> set ps then None else d_skeys (w_db w) k)\<rparr>\<rparr>, hs))"
proof (induction ps arbitrary: w)
  case (Cons p ps)
  let ?w = "w\<lparr>w_db := (w_db w)\<lparr>d_skeys := (d_skeys (w_db w))((gid, p) := None)\<rparr>\<rparr>"
  have K: "(\<lambda>k. if fst k = gid \<and> snd k \<in> set ps then None else d_skeys (w_db ?w) k)
      = (\<lambda>k. if fst k = gid \<and> snd k \<in> set (p # ps) then None else d_skeys (w_db w) k)"
    by (rule ext) auto
  have "sender_key_delete (gid, p) (w, hs) = (Inr (), (?w, hs))" by (simp add: sender_key_delete_def)
  then have "eachM (\<lambda>p. sender_key_delete (gid, p)) (p # ps) (w, hs) = eachM (\<lambda>p. sender_key_delete (gid, p)) ps (?w, hs)"
    by (simp add: seq_def bnd_def)
  also have "\<dots> = (Inr (), (?w\<lparr>w_db := (w_db ?w)\<lparr>d_skeys := (\<lambda>k. if fst k = gid \<and> snd k \<in> set ps then None
      else d_skeys (w_db ?w) k)\<rparr>\<rparr>, hs))" by (rule Cons.IH)
  finally show ?case unfolding K by simp
qed simp

text \<open>A later version that is applied: what becomes of the document and of the keys when nobody has to be rekeyed.\<close>

lemma applied:
  assumes laws: "group_laws E" and row: "group_row (mb_gid m) (w_db w) = Some r" "scan_group E r = Inr rec"
    and old: "decode_membership (v_pmem E) (g_mem rec) = Inr old"
    and m: "wf_membership m" "g_version rec \<le> mb_version m" "mb_admin m = g_admin rec" "mem_verify (v_crypto E) m"
    and run: "apply_membership E rec m (w, hs) = (Inr (), (w', hs'))"
    and calm: "\<not> mem_has m (v_self E) \<or> set (mb_members old) \<subseteq> set (mb_members m) \<and> d_skeys (w_db w) (mb_gid m, v_self E) = None"
  shows "document_of E (mb_gid m) (w_db w') = Some m"
    and "d_skeys (w_db w') = (\<lambda>k. if fst k = mb_gid m \<and> snd k \<in> set (mb_members old) - set (mb_members m) then None
      else d_skeys (w_db w) k)"
proof -
  let ?g = "\<lambda>b. rec\<lparr>g_version := mb_version m, g_mem := b, g_name := str_bytes (mb_name m),
          g_updated := v_now E, g_left := (\<not> mem_has m (v_self E))\<rparr>"
  from run old m obtain b s1 s2 where enc: "encode_membership (v_pmem E) m = Inr b"
    and s1: "group_put E (?g b) (w, hs) = (Inr (), s1)"
    and s2: "group_members_set (mb_gid m) (mb_members m) s1 = (Inr (), s2)"
    and s': "changed_keys E old m (\<not> mem_has m (v_self E)) s2 = (Inr (), (w', hs'))"
    by (auto simp: apply_membership_def runs_iff)
  have dec: "decode_membership (v_pmem E) b = Inr m"
    by (rule document_decodes [OF laws enc]) (use m in \<open>simp_all add: wf_membership_def\<close>)
  have id: "g_id rec = mb_gid m" using scan_group_same [OF row(2)] group_row_id [OF row(1)] by simp
  obtain v vs where v: "s2 = (v, vs)" by (cases s2)
  have rep: "replace_document E (?g b) m (w, hs) = (Inr (), (v, vs))"
    using s1 s2 v by (simp add: replace_document_def seq_def bnd_def)
  have can: "replaceable E (w_db w) (?g b) m"
    using m dec id row scan_group_same [OF row(2)] by (simp add: replaceable_def)
  have doc: "document_of E (mb_gid m) (w_db v) = Some m"
    by (rule replaced_document [OF group_lawsD(1) [OF laws] can rep])
  have sk: "d_skeys (w_db v) = d_skeys (w_db w)" using replace_document_run [OF rep] by auto
  have kept: "docs_kept True s2 (w', hs')" using movesD [OF docs_changed s'] by simp
  with doc v show "document_of E (mb_gid m) (w_db w') = Some m"
    by (simp add: docs_kept_def document_of_def group_row_def)
  let ?rm = "filter (\<lambda>p. \<not> mem_has m p) (mb_members old)" and ?ad = "filter (\<lambda>p. \<not> mem_has old p \<and> p \<noteq> v_self E) (mb_members m)"
  let ?K = "\<lambda>k. if fst k = mb_gid m \<and> snd k \<in> set ?rm then None else d_skeys (w_db v) k"
  let ?u = "v\<lparr>w_db := (w_db v)\<lparr>d_skeys := ?K\<rparr>\<rparr>"
  have tail: "seq (whenM (?rm \<noteq> [] \<and> mem_has m (v_self E)) (seq (rekey_tx E (mb_gid m) (mb_members m)) (after_commit wake)))
      (whenM (?ad \<noteq> [] \<and> mem_has m (v_self E) \<and> ?rm = []) (seq (distribute_self_key E (mb_gid m) ?ad) (after_commit wake)))
      (?u, vs) = (Inr (), (w', hs'))"
    using s' by (simp add: changed_keys_def Let_def v seq_def bnd_def delete_each)
  have "w_db w' = w_db ?u"
  proof (cases "mem_has m (v_self E)")
    case False
    with tail show ?thesis by (simp add: whenM_def)
  next
    case True
    with calm have rm: "?rm = []" and none: "d_skeys (w_db w) (mb_gid m, v_self E) = None"
      by (auto simp: mem_has_def filter_empty_conv)
    then have "sender_key_get E (mb_gid m, v_self E) (?u, vs) = (Inr None, (?u, vs))"
      by (simp add: sender_key_get_def sk)
    with tail rm show ?thesis
      by (auto simp: whenM_def seq_def bnd_def distribute_self_key_def split: if_splits)
  qed
  then show "d_skeys (w_db w') = (\<lambda>k. if fst k = mb_gid m \<and> snd k \<in> set (mb_members old) - set (mb_members m) then None
      else d_skeys (w_db w) k)"
    by (auto simp: sk mem_has_def)
qed

lemma document_of_row: "document_of E gid d = Some old \<Longrightarrow> \<exists>r rec. group_row gid d = Some r \<and> scan_group E r = Inr rec
    \<and> decode_membership (v_pmem E) (g_mem rec) = Inr old"
  by (auto simp: document_of_def split: option.splits sum.splits)

lemma document_ok_of:
  assumes "documents_ok E d" "group_row gid d = Some r" "scan_group E r = Inr rec" "decode_membership (v_pmem E) (g_mem rec) = Inr old"
  shows "mb_version old = g_version rec \<and> mb_admin old = g_admin rec \<and> mb_gid old = gid
    \<and> g_left rec = (\<not> mem_has old (v_self E))"
proof -
  have "document_ok E d r" using assms(1,2) by (simp add: documents_ok_def)
  then obtain g m where "scan_group E r = Inr g" "decode_membership (v_pmem E) (g_mem g) = Inr m" "mb_gid m = g_id r"
    "mb_admin m = g_admin r" "mb_version m = g_version r" "g_left r = (\<not> mem_has m (v_self E))"
    by (auto simp: document_ok_def)
  with assms(3,4) scan_group_same [OF assms(3)] group_row_id [OF assms(2)] show ?thesis by simp
qed

text \<open>
  C19. A member that is removed and added again can neither write nor be told the
  keys. Let a node be a member, receive the admin's document without it and
  later the invitation that adds it back, and let both be applied: our own key
  was erased with the first and is not made again with the second, so every
  SendText of ours fails for want of a key; and of the keys in the invitation
  none is taken, not even the one of the admin who sent it.
\<close>

theorem readded_member_cannot_write:
  assumes laws: "group_laws E" and ok: "documents_ok E (w_db w)"
    and old: "document_of E gid (w_db w) = Some old" "mem_has old (v_self E)"
    and upd: "decode_update (v_pupdate E) b1 = Inr m1" "mb_gid m1 = gid" "\<not> mem_has m1 (v_self E)"
      "mb_version old < mb_version m1" "mb_admin m1 = mb_admin old" "mem_verify (v_crypto E) m1"
    and out: "on_update E p1 b1 (w, []) = (Inr (), (w1, hs1))"
    and wel: "decode_welcome (v_pwelcome E) b2 = Inr wl" "mb_gid (we_mem wl) = gid" "mem_has (we_mem wl) (v_self E)"
      "mb_version m1 < mb_version (we_mem wl)" "mb_admin (we_mem wl) = mb_admin m1" "mem_verify (v_crypto E) (we_mem wl)"
      "set (mb_members m1) \<subseteq> set (mb_members (we_mem wl))"
    and again: "on_welcome E p2 b2 (w1, []) = (Inr (), (w2, hs2))"
  shows "document_of E gid (w_db w2) = Some (we_mem wl) \<and> d_skeys (w_db w2) (gid, v_self E) = None
    \<and> d_skeys (w_db w2) = d_skeys (w_db w1)
    \<and> (is_ok (new_msg_id (w_rnd w2)) \<and> body \<noteq> [] \<and> length body \<le> MaxTextLen \<longrightarrow>
        fst (send_group_text E gid body w2) = Inl (ErrGroup GErrNoOwnKey))"
proof -
  from document_of_row [OF old(1)] obtain r rec where r: "group_row gid (w_db w) = Some r" "scan_group E r = Inr rec"
    "decode_membership (v_pmem E) (g_mem rec) = Inr old" by blast
  note D = document_ok_of [OF ok r]
  have wf1: "wf_membership m1" using upd(1) by (simp add: decode_update_iff)
  have "on_update E p1 b1 (w, []) = apply_membership E rec m1 (w, [])"
    using upd(1,2,4) D r by (auto simp: on_update_def group_get_def bnd_def)
  with out have run1: "apply_membership E rec m1 (w, []) = (Inr (), (w1, hs1))" by simp
  have A1: "document_of E gid (w_db w1) = Some m1" "d_skeys (w_db w1) = (\<lambda>k. if fst k = gid
      \<and> snd k \<in> set (mb_members old) - set (mb_members m1) then None else d_skeys (w_db w) k)"
    using applied [OF laws _ r(2,3) wf1 _ _ upd(6) run1] upd D r(1) by auto
  have ok1: "documents_ok E (w_db w1)"
    using update_documented [OF laws out] ok by (simp add: documented_def)
  have none: "d_skeys (w_db w1) (gid, v_self E) = None" using old(2) upd(3) by (simp add: A1(2) mem_has_def)
  from document_of_row [OF A1(1)] obtain r1 rec1 where r1: "group_row gid (w_db w1) = Some r1" "scan_group E r1 = Inr rec1"
    "decode_membership (v_pmem E) (g_mem rec1) = Inr m1" by blast
  note D1 = document_ok_of [OF ok1 r1]
  have wf2: "wf_membership (we_mem wl)" using decode_welcome_wf [OF wel(1)] by simp
  have "group_get E (mb_gid (we_mem wl)) (w1, []) = (Inr (Some rec1), (w1, []))" using r1 wel(2) by (simp add: group_get_def)
  from welcome_known [OF wel(1,6,3) this] again wel(4) D1 have run2: "apply_membership E rec1 (we_mem wl) (w1, []) = (Inr (), (w2, hs2))"
    by (auto split: if_splits)
  have calm: "set (mb_members m1) \<subseteq> set (mb_members (we_mem wl)) \<and> d_skeys (w_db w1) (mb_gid (we_mem wl), v_self E) = None"
    using wel(2,7) none by simp
  have empty: "set (mb_members m1) - set (mb_members (we_mem wl)) = {}" using wel(7) by blast
  note A = applied [OF laws _ r1(2,3) wf2 _ _ wel(6) run2 disjI2 [OF calm], unfolded empty]
  have A2: "document_of E gid (w_db w2) = Some (we_mem wl)" "d_skeys (w_db w2) = d_skeys (w_db w1)"
    using A wel D1 r1(1) by simp_all
  have "documents_ok E (w_db w2)" using welcome_documented [OF laws again] ok1 by (simp add: documented_def)
  moreover from document_of_row [OF A2(1)] obtain r2 rec2 where r2: "group_row gid (w_db w2) = Some r2" "scan_group E r2 = Inr rec2"
    "decode_membership (v_pmem E) (g_mem rec2) = Inr (we_mem wl)" by blast
  ultimately have "\<not> g_left rec2" using document_ok_of [OF _ r2] wel(3) by blast
  then have "fst (send_group_tx E gid body mid (w2\<lparr>w_rnd := rn\<rparr>, [])) = Inl (ErrGroup GErrNoOwnKey)" for mid rn
    using r2 none A2(2) by (simp add: send_group_tx_def group_get_def bnd_def group_members_def sender_key_get_def)
  then have "fst (run_tx (send_group_tx E gid body mid) (w2\<lparr>w_rnd := rn\<rparr>)) = Inl (ErrGroup GErrNoOwnKey)" for mid rn
    by (simp add: run_tx_def split: prod.split sum.split) (metis fst_conv sum.distinct(1) sum.inject(1))
  then have "is_ok (new_msg_id (w_rnd w2)) \<and> body \<noteq> [] \<and> length body \<le> MaxTextLen \<longrightarrow>
        fst (send_group_text E gid body w2) = Inl (ErrGroup GErrNoOwnKey)"
    by (auto simp: send_group_text_def split: sum.split prod.split) (metis fst_conv sum.distinct(1) sum.inject(1))+
  with A2 none show ?thesis by simp
qed

lemma apply_calm_ok:
  assumes "mb_admin m = g_admin rec" "mem_verify (v_crypto E) m" "decode_membership (v_pmem E) (g_mem rec) = Inr old"
    and "encode_membership (v_pmem E) m = Inr b" "sql_u64 (mb_version m)" "distinct (mb_members m)"
    and rnd: "2 * NonceSizeX \<le> length (w_rnd w)"
    and calm: "\<not> mem_has m (v_self E) \<or> set (mb_members old) \<subseteq> set (mb_members m) \<and> set (mb_members m) \<subseteq> insert (v_self E) (set (mb_members old))"
  shows "\<exists>w'. apply_membership E rec m (w, hs) = (Inr (), (w', hs)) \<and> w_rnd w' = drop (2 * NonceSizeX) (w_rnd w)"
proof -
  let ?g = "rec\<lparr>g_version := mb_version m, g_mem := b, g_name := str_bytes (mb_name m),
          g_updated := v_now E, g_left := (\<not> mem_has m (v_self E))\<rparr>"
  obtain name mem where g: "group_put E ?g (w, hs) = (Inr (), (w\<lparr>w_rnd := drop (2 * NonceSizeX) (w_rnd w),
     w_db := (w_db w)\<lparr>d_groups := put_group ?g name mem (d_groups (w_db w))\<rparr>\<rparr>, hs))"
    using group_put_ok [OF rnd, of ?g E hs] assms(5) by auto
  define v where "v = w\<lparr>w_rnd := drop (2 * NonceSizeX) (w_rnd w), w_db := (w_db w)\<lparr>d_groups := put_group ?g name mem (d_groups (w_db w))\<rparr>\<rparr>"
  define u where "u = v\<lparr>w_db := (w_db v)\<lparr>d_members := filter (\<lambda>(g, p). g \<noteq> mb_gid m) (d_members (w_db v))
      @ map (Pair (mb_gid m)) (mb_members m)\<rparr>\<rparr>"
  have "\<exists>w'. changed_keys E old m (\<not> mem_has m (v_self E)) (u, hs) = (Inr (), (w', hs)) \<and> w_rnd w' = w_rnd u"
  proof (cases "mem_has m (v_self E)")
    case False
    then show ?thesis by (simp add: changed_keys_def Let_def seq_def bnd_def delete_each whenM_def)
  next
    case True
    with calm have "filter (\<lambda>p. \<not> mem_has m p) (mb_members old) = []"
      "filter (\<lambda>p. \<not> mem_has old p \<and> p \<noteq> v_self E) (mb_members m) = []"
      by (auto simp: mem_has_def filter_empty_conv)
    then show ?thesis by (simp add: changed_keys_def seq_def bnd_def whenM_def)
  qed
  then obtain w' where "changed_keys E old m (\<not> mem_has m (v_self E)) (u, hs) = (Inr (), (w', hs))" "w_rnd w' = w_rnd u" by blast
  moreover have "w_rnd u = drop (2 * NonceSizeX) (w_rnd w)" by (simp add: u_def v_def)
  moreover have "apply_membership E rec m (w, hs) = changed_keys E old m (\<not> mem_has m (v_self E)) (u, hs)"
    using assms g [folded v_def] members_set_ok [OF assms(6), of "mb_gid m" v hs, folded u_def]
    by (simp add: apply_membership_def bnd_def seq_def)
  ultimately show ?thesis by simp
qed

definition demo_alone :: membership where "demo_alone = next_document demo_env demo_gid demo_pair [demo_me]"
definition demo_again :: membership where "demo_again = next_document demo_env demo_gid demo_alone [demo_me, demo_other]"

definition demo_returner :: env where
  "demo_returner = demo_env\<lparr>v_self := demo_other,
     v_pmem := table_pb [(mem_pb demo_pair, [8]), (mem_pb demo_alone, [9]), (mem_pb demo_again, [10])],
     v_pupdate := one_pb [11] \<lparr>gu_mem = Some (mem_pb demo_alone)\<rparr>,
     v_pwelcome := one_pb [12] \<lparr>gw_mem = Some (mem_pb demo_again), gw_keys = [\<lparr>gk_member = id_bytes demo_me,
       gk_key = Some (dist_to_pb demo_gid (sender_dist demo_crypto demo_sender))\<rparr>]\<rparr>\<rparr>"

lemma demo_returner_simps [simp]: "v_crypto demo_returner = demo_crypto" "v_key demo_returner = replicate 32 5"
  "v_self demo_returner = demo_other" "v_pupdate demo_returner = one_pb [11] \<lparr>gu_mem = Some (mem_pb demo_alone)\<rparr>"
  "v_pmem demo_returner = table_pb [(mem_pb demo_pair, [8]), (mem_pb demo_alone, [9]), (mem_pb demo_again, [10])]"
  by (simp_all add: demo_returner_def)

lemma demo_versions [simp]: "mb_version demo_alone = 2" "mb_version demo_again = 3" "mb_gid demo_alone = demo_gid" "mb_gid demo_again = demo_gid"
  "mb_members demo_alone = [demo_me]" "mb_members demo_again = [demo_me, demo_other]"
  "mb_admin demo_alone = demo_pad (replicate 32 3)" "mb_admin demo_again = demo_pad (replicate 32 3)"
  "mb_name demo_alone = ''g''" "mb_name demo_again = ''g''"
  by (simp_all add: demo_alone_def demo_again_def)

lemma demo_signed: "mem_verify demo_crypto demo_pair" "mem_verify demo_crypto demo_alone" "mem_verify demo_crypto demo_again"
proof -
  show "mem_verify demo_crypto demo_pair"
    using sign_verify [OF demo_sign_correct, of "replicate 32 3" "\<lparr>mb_gid = demo_gid, mb_version = 1, mb_name = ''g'',
        mb_admin = [], mb_members = [demo_me, demo_other], mb_sig = []\<rparr>"]
    by (simp add: demo_pair_def) (simp add: demo_crypto_def)
  have "admin_pub demo_env = demo_pad (replicate 32 3)" by (simp add: admin_pub_def) (simp add: demo_crypto_def)
  then show "mem_verify demo_crypto demo_alone" "mem_verify demo_crypto demo_again"
    using next_document_verifies [of demo_env demo_pair demo_gid "[demo_me]"]
      next_document_verifies [of demo_env demo_alone demo_gid "[demo_me, demo_other]"] demo_sign_correct
    by (simp_all add: demo_alone_def [symmetric] demo_again_def [symmetric])
qed

lemma demo_wf: "wf_membership demo_pair" "wf_membership demo_alone" "wf_membership demo_again"
proof -
  have s: "length (mb_sig demo_pair) = 64" "length (mb_sig demo_alone) = 64" "length (mb_sig demo_again) = 64"
    by (simp_all add: demo_pair_def demo_alone_def demo_again_def next_document_def mem_sign_def Let_def
        demo_key_lengths [THEN key_lengthsD(8)])
  have "wf_peer demo_me" "wf_peer demo_other" by (simp_all add: wf_peer_def IDLen_def demo_me_def demo_other_def)
  with s show "wf_membership demo_pair" "wf_membership demo_alone" "wf_membership demo_again"
    by (simp_all add: wf_membership_def length_demo_gid demo_valid)
qed

lemma demo_returner_laws: "group_laws demo_returner" and demo_returner_codec:
  "encode_membership (v_pmem demo_returner) demo_alone = Inr [9]" "encode_membership (v_pmem demo_returner) demo_again = Inr [10]"
  "decode_membership (v_pmem demo_returner) [8] = Inr demo_pair" "decode_membership (v_pmem demo_returner) [9] = Inr demo_alone"
proof -
  show "group_laws demo_returner"
    using demo_xaead_correct demo_sign_correct demo_key_lengths
    by (simp add: group_laws_def sealing_ok_def table_pb_law wf_peer_def IDLen_def) (simp add: demo_other_def)
  have ne: "mem_pb demo_pair \<noteq> mem_pb demo_alone" "mem_pb demo_pair \<noteq> mem_pb demo_again" "mem_pb demo_alone \<noteq> mem_pb demo_again"
    by (simp_all add: mem_pb_def)
  show "encode_membership (v_pmem demo_returner) demo_alone = Inr [9]" "encode_membership (v_pmem demo_returner) demo_again = Inr [10]"
    using ne by (simp_all add: encode_membership_def demo_valid table_pb_def)
  show "decode_membership (v_pmem demo_returner) [8] = Inr demo_pair" "decode_membership (v_pmem demo_returner) [9] = Inr demo_alone"
    using demo_wf by (simp_all add: decode_membership_iff table_pb_def)
qed

theorem readded_member_cannot_write_witness:
  "\<exists>w1 w2. on_update demo_returner demo_me [11] (demo_listening, []) = (Inr (), (w1, []))
    \<and> on_welcome demo_returner demo_me [12] (w1, []) = (Inr (), (w2, []))
    \<and> document_of demo_returner demo_gid (w_db w2) = Some demo_again
    \<and> fst (send_group_text demo_returner demo_gid [104] w2) = Inl (ErrGroup GErrNoOwnKey)"
proof -
  let ?E = demo_returner and ?w = demo_listening and ?rec = "group_rec demo_env demo_pair [8]"
  have row: "group_row gid (w_db ?w) = (if gid = demo_gid then Some (demo_group_row demo_pair [8]) else None)" for gid
    by (simp add: demo_listening_def demo_key_simps)
  have rec: "g_mem ?rec = [8]" "g_admin ?rec = demo_pad (replicate 32 3)" "g_version ?rec = 1" "\<not> g_left ?rec"
    by (simp_all add: group_rec_def)
  have scan: "scan_group ?E (demo_group_row demo_pair [8]) = Inr ?rec" by (simp add: demo_scan)
  have "document_ok ?E (w_db ?w) (demo_group_row demo_pair [8])"
    using demo_returner_codec(3) scan demo_signed(1) rec scan_group_same [OF scan]
    by (simp add: document_ok_def) (simp add: demo_listening_def demo_key_simps group_rec_def demo_group_row_def mem_has_def)
  then have ok: "documents_ok ?E (w_db ?w)"
    using scan_group_same [OF scan] rec by (simp add: documents_ok_def row sql_u64_def)
  have old: "document_of ?E demo_gid (w_db ?w) = Some demo_pair" "mem_has demo_pair (v_self ?E)"
    using demo_returner_codec(3) scan rec by (simp_all add: document_of_def row mem_has_def)
  have upd: "decode_update (v_pupdate ?E) [11] = Inr demo_alone" using demo_wf(2) by (simp add: decode_update_iff)
  obtain w1 where a1: "apply_membership ?E ?rec demo_alone (?w, []) = (Inr (), (w1, []))" and r1: "w_rnd w1 = replicate 352 0"
    using apply_calm_ok [of demo_alone ?rec ?E demo_pair "[9]" ?w "[]"] rec demo_signed(2) demo_returner_codec(1,3)
    by (auto simp: sql_u64_def mem_has_def demo_listening_def demo_key_simps NonceSizeX_def)
  have o1: "on_update ?E demo_me [11] (?w, []) = (Inr (), (w1, []))"
    using a1 upd rec scan by (simp add: on_update_def group_get_def row bnd_def) (simp add: word_le_nat_alt)
  have w2: "decode_welcome (v_pwelcome ?E) [12] = Inr \<lparr>we_mem = demo_again, we_keys = [(demo_me, sender_dist demo_crypto demo_sender)]\<rparr>"
    (is "_ = Inr ?wl")
    using membership_from_pb_iff [of "mem_pb demo_again" demo_again] demo_wf(3)
    by (simp add: decode_welcome_def demo_returner_def MaxMembers_def dist_from_to wf_dist_def sender_dist_def demo_sender_def
        demo_key_lengths [THEN key_lengthsD(3)] demo_me_def IDLen_def)
  have d1: "document_of ?E demo_gid (w_db w1) = Some demo_alone"
    using applied(1) [OF demo_returner_laws, of demo_alone ?w "demo_group_row demo_pair [8]" ?rec demo_pair "[]" w1 "[]"]
      a1 rec scan demo_signed(2) demo_wf(2) demo_returner_codec(3) by (simp add: row mem_has_def)
  have ok1: "documents_ok ?E (w_db w1)"
    using update_documented [OF demo_returner_laws o1] ok by (simp add: documented_def)
  from document_of_row [OF d1] obtain r rec1 where r: "group_row demo_gid (w_db w1) = Some r" "scan_group ?E r = Inr rec1"
    "decode_membership (v_pmem ?E) (g_mem rec1) = Inr demo_alone" by blast
  note D = document_ok_of [OF ok1 r]
  obtain w2 where a2: "apply_membership ?E rec1 demo_again (w1, []) = (Inr (), (w2, []))" and r2: "w_rnd w2 = replicate 304 0"
    using apply_calm_ok [of demo_again rec1 ?E demo_alone "[10]" w1 "[]"] D demo_signed(3) demo_returner_codec(2) r(3)
    by (auto simp: sql_u64_def mem_has_def r1 NonceSizeX_def)
  have g: "group_get ?E (mb_gid (we_mem ?wl)) (w1, []) = (Inr (Some rec1), (w1, []))" using r by (simp add: group_get_def)
  have o2: "on_welcome ?E demo_me [12] (w1, []) = (Inr (), (w2, []))"
    using welcome_known [OF w2 _ _ g, of demo_me] demo_signed(3) a2 D by (simp add: mem_has_def)
  have "is_ok (new_msg_id (w_rnd w2)) \<and> [104] \<noteq> [] \<and> length [104] \<le> MaxTextLen"
    by (simp add: r2 new_msg_id_def read_full_def MsgIDLen_def MaxTextLen_def)
  with readded_member_cannot_write [OF demo_returner_laws ok old upd _ _ _ _ _ o1 w2 _ _ _ _ _ _ o2, of "[104]"] o1 o2 demo_signed
  show ?thesis by (simp add: mem_has_def)
qed

end
