(* ===== verification/StoreFiles.thy ===== *)
theory StoreFiles
  imports StoreGroups
begin

text \<open>
  store/files.go: the table of file transfers. The manifest and the local path
  are sealed under the store key and bound to the file's identifier; the bitmap
  of arrived chunks is kept in the clear. A row of table files holds the sealed
  fields, the record the operations take and return holds the opened ones.
\<close>

definition aad_file_manifest :: "bytes \<Rightarrow> bytes" where
  "aad_file_manifest fid = str_bytes ''files.manifest'' @ fid"

definition aad_file_path :: "bytes \<Rightarrow> bytes" where
  "aad_file_path fid = str_bytes ''files.path'' @ fid"

text \<open>On conflict the peer, the direction and the time of creation keep their first values.\<close>

definition put_file :: "frow \<Rightarrow> bytes \<Rightarrow> bytes \<Rightarrow> frow list \<Rightarrow> frow list" where
  "put_file r man path rows =
     (if f_id r \<in> f_id ` set rows
      then map (\<lambda>x. if f_id x = f_id r
        then x\<lparr>f_man := man, f_path := path, f_bitmap := f_bitmap r, f_done := f_done r, f_updated := f_updated r\<rparr>
        else x) rows
      else rows @ [r\<lparr>f_man := man, f_path := path\<rparr>])"

definition file_put :: "env \<Rightarrow> frow \<Rightarrow> unit tx" where
  "file_put E r =
     bnd (box_seal E (f_man r) (aad_file_manifest (f_id r))) (\<lambda>man.
     bnd (box_seal E (f_path r) (aad_file_path (f_id r))) (\<lambda>path.
     on_db (\<lambda>d. d\<lparr>d_files := put_file r man path (d_files d)\<rparr>)))"

definition update_file :: "bytes \<Rightarrow> (frow \<Rightarrow> frow) \<Rightarrow> db \<Rightarrow> db" where
  "update_file fid f d = d\<lparr>d_files := map (\<lambda>r. if f_id r = fid then f r else r) (d_files d)\<rparr>"

definition file_progress :: "env \<Rightarrow> bytes \<Rightarrow> bytes \<Rightarrow> bool \<Rightarrow> unit tx" where
  "file_progress E fid bm isdone =
     on_db (update_file fid (\<lambda>r. r\<lparr>f_bitmap := bm, f_done := isdone, f_updated := v_now E\<rparr>))"

definition file_path :: "env \<Rightarrow> bytes \<Rightarrow> bytes \<Rightarrow> unit tx" where
  "file_path E fid path =
     bnd (box_seal E path (aad_file_path fid)) (\<lambda>ct.
     on_db (update_file fid (\<lambda>r. r\<lparr>f_path := ct, f_updated := v_now E\<rparr>)))"

definition file_delete :: "bytes \<Rightarrow> unit tx" where
  "file_delete fid = on_db (\<lambda>d. d\<lparr>d_files := filter (\<lambda>r. f_id r \<noteq> fid) (d_files d)\<rparr>)"

definition scan_file :: "env \<Rightarrow> frow \<Rightarrow> err + frow" where
  "scan_file E r =
     bindR (box_open E (f_man r) (aad_file_manifest (f_id r))) (\<lambda>man.
     bindR (box_open E (f_path r) (aad_file_path (f_id r))) (\<lambda>path.
     Inr (r\<lparr>f_man := man, f_path := path\<rparr>)))"

definition file_row :: "bytes \<Rightarrow> db \<Rightarrow> frow option" where
  "file_row fid d = find (\<lambda>r. f_id r = fid) (d_files d)"

definition file_get :: "env \<Rightarrow> bytes \<Rightarrow> db \<Rightarrow> err + frow option" where
  "file_get E fid d =
     (case file_row fid d of None \<Rightarrow> Inr None | Some r \<Rightarrow> bindR (scan_file E r) (\<lambda>g. Inr (Some g)))"

text \<open>The table is clustered by the identifier, which decides between equal times.\<close>

definition file_list_unfinished :: "env \<Rightarrow> db \<Rightarrow> err + frow list" where
  "file_list_unfinished E d = sequence_res (map (scan_file E)
     (sort_key f_created (sort_key f_id (filter (\<lambda>r. \<not> f_done r \<and> \<not> f_out r) (d_files d)))))"

section \<open>Outcomes\<close>

lemma sends_files [moves_intros]:
  "moves sends (file_put E r)" "moves sends (file_progress E fid bm b)" "moves sends (file_path E fid p)"
  "moves sends (file_delete fid)"
  unfolding file_put_def file_progress_def file_path_def file_delete_def
  by (intro sends_order.moves_rules moves_intros; simp add: db_sends_def update_file_def)+

lemmas tame_files [moves_intros] = sends_files [THEN moves_sends_tame]

lemma file_put_run: "file_put E r (w, hs) = (Inr (), s') \<Longrightarrow>
    \<exists>man path t. s' = (w\<lparr>w_rnd := t, w_db := (w_db w)\<lparr>d_files := put_file r man path (d_files (w_db w))\<rparr>\<rparr>, hs)
      \<and> (sealing_ok E \<longrightarrow> box_open E man (aad_file_manifest (f_id r)) = Inr (f_man r)
          \<and> box_open E path (aad_file_path (f_id r)) = Inr (f_path r))"
proof -
  assume "file_put E r (w, hs) = (Inr (), s')"
  then obtain man s1 path s2 where man: "box_seal E (f_man r) (aad_file_manifest (f_id r)) (w, hs) = (Inr man, s1)"
    and path: "box_seal E (f_path r) (aad_file_path (f_id r)) s1 = (Inr path, s2)"
    and put: "on_db (\<lambda>d. d\<lparr>d_files := put_file r man path (d_files d)\<rparr>) s2 = (Inr (), s')"
    unfolding file_put_def runs_iff by blast
  from box_seal_run [OF man] obtain r1 where s1: "s1 = (w\<lparr>w_rnd := r1\<rparr>, hs)" by blast
  from box_seal_run [OF path [unfolded s1]] obtain r2 where s2: "s2 = (w\<lparr>w_rnd := r2\<rparr>, hs)" by auto
  with put have "s' = (w\<lparr>w_rnd := r2, w_db := (w_db w)\<lparr>d_files := put_file r man path (d_files (w_db w))\<rparr>\<rparr>, hs)"
    by simp
  with box_open_seal [OF _ man] box_open_seal [OF _ path [unfolded s1]] show ?thesis by (auto simp: sealing_ok_def)
qed

lemma find_upsert:
  assumes "\<And>x. f_id (g x) = f_id x"
  shows "find (\<lambda>x. f_id x = i) (map (\<lambda>x. if f_id x = j then g x else x) rows) =
    (if i = j then map_option g (find (\<lambda>x. f_id x = i) rows) else find (\<lambda>x. f_id x = i) rows)"
  using assms by (induction rows) auto

lemma find_put_file:
  "find (\<lambda>x. f_id x = i) (put_file r man path rows) =
    (if i = f_id r then Some (case find (\<lambda>x. f_id x = i) rows of None \<Rightarrow> r\<lparr>f_man := man, f_path := path\<rparr>
       | Some x \<Rightarrow> x\<lparr>f_man := man, f_path := path, f_bitmap := f_bitmap r, f_done := f_done r, f_updated := f_updated r\<rparr>)
     else find (\<lambda>x. f_id x = i) rows)"
proof (cases "f_id r \<in> f_id ` set rows")
  case True
  then obtain x where "find (\<lambda>x. f_id x = f_id r) rows = Some x"
    by (metis (mono_tags, lifting) find_None_iff imageE not_None_eq)
  with True show ?thesis by (auto simp: put_file_def find_upsert)
next
  case False
  then have "find (\<lambda>x. f_id x = f_id r) rows = None" by (auto simp: find_None_iff image_iff)
  with False show ?thesis by (auto simp: put_file_def find_append split: option.split)
qed

text \<open>A transfer that was put is read back; an existing row keeps its peer, direction and creation time.\<close>

lemma file_put_get:
  assumes "sealing_ok E" "file_put E r (w, hs) = (Inr (), (w', hs'))"
  shows "file_get E (f_id r) (w_db w') = Inr (Some (case file_row (f_id r) (w_db w) of None \<Rightarrow> r
    | Some x \<Rightarrow> r\<lparr>f_peer := f_peer x, f_out := f_out x, f_created := f_created x\<rparr>))"
proof -
  from file_put_run [OF assms(2)] assms(1) obtain man path t where
    s': "w' = w\<lparr>w_rnd := t, w_db := (w_db w)\<lparr>d_files := put_file r man path (d_files (w_db w))\<rparr>\<rparr>"
    and o: "box_open E man (aad_file_manifest (f_id r)) = Inr (f_man r)"
      "box_open E path (aad_file_path (f_id r)) = Inr (f_path r)" by auto
  show ?thesis
  proof (cases "find (\<lambda>x. f_id x = f_id r) (d_files (w_db w))")
    case None
    then show ?thesis by (simp add: s' file_get_def file_row_def find_put_file scan_file_def o)
  next
    case (Some x)
    then have "f_id x = f_id r" by (auto simp: find_Some_iff)
    with Some show ?thesis by (simp add: s' file_get_def file_row_def find_put_file scan_file_def o)
  qed
qed

lemma file_row_update: "(\<And>r. f_id (f r) = f_id r) \<Longrightarrow>
    file_row i (update_file fid f d) = (if i = fid then map_option f (file_row i d) else file_row i d)"
  by (simp add: file_row_def update_file_def find_upsert)

lemma file_row_id: "file_row fid d = Some r \<Longrightarrow> f_id r = fid \<and> r \<in> set (d_files d)"
  by (auto simp: file_row_def find_Some_iff)

lemma update_file_db [simp]: "d_files (update_file fid f d) = map (\<lambda>r. if f_id r = fid then f r else r) (d_files d)"
  "d_outbox (update_file fid f d) = d_outbox d" "d_msgs (update_file fid f d) = d_msgs d"
  by (simp_all add: update_file_def)

lemma file_path_run: "file_path E fid p (w, hs) = (Inr (), s') \<Longrightarrow>
    \<exists>ct t. s' = (w\<lparr>w_rnd := t, w_db := update_file fid (\<lambda>r. r\<lparr>f_path := ct, f_updated := v_now E\<rparr>) (w_db w)\<rparr>, hs)
      \<and> (sealing_ok E \<longrightarrow> box_open E ct (aad_file_path fid) = Inr p)"
proof -
  assume "file_path E fid p (w, hs) = (Inr (), s')"
  then obtain ct s1 where ct: "box_seal E p (aad_file_path fid) (w, hs) = (Inr ct, s1)"
    and u: "on_db (update_file fid (\<lambda>r. r\<lparr>f_path := ct, f_updated := v_now E\<rparr>)) s1 = (Inr (), s')"
    unfolding file_path_def runs_iff by blast
  from box_seal_run [OF ct] obtain t where s1: "s1 = (w\<lparr>w_rnd := t\<rparr>, hs)" by blast
  with u box_open_seal [OF _ ct] show ?thesis by (auto simp: sealing_ok_def)
qed

lemma file_put_ok: "2 * NonceSizeX \<le> length (w_rnd w) \<Longrightarrow> \<exists>man path. file_put E r (w, hs) =
    (Inr (), (w\<lparr>w_rnd := drop (2 * NonceSizeX) (w_rnd w),
       w_db := (w_db w)\<lparr>d_files := put_file r man path (d_files (w_db w))\<rparr>\<rparr>, hs))"
  by (simp add: file_put_def bnd_def box_seal_ok mult_2 drop_drop del: drop_drop [symmetric]) blast

lemma file_path_ok: "NonceSizeX \<le> length (w_rnd w) \<Longrightarrow> \<exists>ct. file_path E fid p (w, hs) =
    (Inr (), (w\<lparr>w_rnd := drop NonceSizeX (w_rnd w),
       w_db := update_file fid (\<lambda>r. r\<lparr>f_path := ct, f_updated := v_now E\<rparr>) (w_db w)\<rparr>, hs))
    \<and> (sealing_ok E \<longrightarrow> box_open E ct (aad_file_path fid) = Inr p)"
proof -
  assume "NonceSizeX \<le> length (w_rnd w)"
  from box_seal_ok [OF this] obtain ct where
    ct: "box_seal E p (aad_file_path fid) (w, hs) = (Inr ct, (w\<lparr>w_rnd := drop NonceSizeX (w_rnd w)\<rparr>, hs))" by blast
  with box_open_seal [OF _ ct] show ?thesis by (auto simp: file_path_def bnd_def sealing_ok_def)
qed

end
