(* ===== verification/Paths.thy ===== *)
theory Paths
  imports Peer Utf8
begin

text \<open>
  What the file transfer uses of Go's path/filepath and strings packages (on a
  system whose separator is the slash): Clean, Join and Base on paths as byte
  lists, and strings.Map dropping control characters. \<open>sanitize_name\<close> is
  sanitizeName of blob/manager.go. A name from a manifest becomes one component
  of a path: it never leads out of the directory of incoming files.
\<close>

abbreviation slash :: byte where "slash \<equiv> 47"
abbreviation dot :: byte where "dot \<equiv> 46"

fun split_slash :: "bytes \<Rightarrow> bytes list" where
  "split_slash [] = [[]]"
| "split_slash (c # cs) =
     (if c = slash then [] # split_slash cs
      else case split_slash cs of [] \<Rightarrow> [[c]] | x # xs \<Rightarrow> (c # x) # xs)"

fun join_slash :: "bytes list \<Rightarrow> bytes" where
  "join_slash [] = []"
| "join_slash [x] = x"
| "join_slash (x # xs) = x @ slash # join_slash xs"

text \<open>filepath.Clean: one component onto the stack of those kept so far, innermost first.\<close>

definition clean_step :: "bool \<Rightarrow> bytes \<Rightarrow> bytes list \<Rightarrow> bytes list" where
  "clean_step rooted c st =
     (if c = [] \<or> c = [dot] then st
      else if c = [dot, dot] then
        (case st of x # xs \<Rightarrow> if x = [dot, dot] then c # st else xs
         | [] \<Rightarrow> if rooted then [] else [c])
      else c # st)"

definition path_clean :: "bytes \<Rightarrow> bytes" where
  "path_clean p =
     (if p = [] then [dot]
      else let rooted = (hd p = slash); body = join_slash (rev (fold (clean_step rooted) (split_slash p) [])) in
        if rooted then slash # body else if body = [] then [dot] else body)"

definition path_join :: "bytes \<Rightarrow> bytes \<Rightarrow> bytes" where
  "path_join a b =
     (if a \<noteq> [] then path_clean (a @ [slash] @ b) else if b \<noteq> [] then path_clean b else [])"

definition path_base :: "bytes \<Rightarrow> bytes" where
  "path_base p =
     (if p = [] then [dot]
      else let q = rev (dropWhile (\<lambda>c. c = slash) (rev p)); b = rev (takeWhile (\<lambda>c. c \<noteq> slash) (rev q)) in
        if b = [] then [slash] else b)"

text \<open>How many bytes the first rune takes; zero when they are not valid UTF-8.\<close>

definition rune_width :: "bytes \<Rightarrow> nat" where
  "rune_width s =
     (let valid = (\<lambda>k. runes_of (map unat (take k s)) \<noteq> None) in
      if valid 1 then 1 else if valid 2 then 2 else if valid 3 then 3 else if valid 4 then 4 else 0)"

text \<open>strings.Map with the mapping of sanitizeName: a byte that is no rune comes out as U+FFFD.\<close>

function strip_controls :: "bytes \<Rightarrow> bytes" where
  "strip_controls [] = []"
| "strip_controls (c # cs) =
     (let k = rune_width (c # cs) in
      if k = 0 then [239, 191, 189] @ strip_controls cs
      else if c < 32 \<or> c = 127 then strip_controls cs
      else c # take (k - 1) cs @ strip_controls (drop (k - 1) cs))"
  by pat_completeness auto
termination
  by (relation "measure length") auto

definition sanitize_name :: "bytes \<Rightarrow> bytes" where
  "sanitize_name name =
     (let n = strip_controls (path_base (map (\<lambda>c. if c = 92 then slash else c) name)) in
      if n = [] \<or> n = [dot] \<or> n = [dot, dot] then str_bytes ''file'' else n)"

section \<open>Components\<close>

lemma split_nonempty [simp]: "split_slash p \<noteq> []"
  by (induction p) (auto split: list.split)

lemma split_append: "split_slash (a @ slash # b) = split_slash a @ split_slash b"
  by (induction a) (auto split: list.split)

lemma split_plain: "slash \<notin> set p \<Longrightarrow> split_slash p = [p]"
  by (induction p) auto

lemma join_snoc: "xs \<noteq> [] \<Longrightarrow> join_slash (xs @ [x]) = join_slash xs @ slash # x"
  by (induction xs rule: join_slash.induct) auto

lemma base_plain: "slash \<notin> set (path_base p) \<or> path_base p = [slash]"
  by (auto simp: path_base_def Let_def dest: set_takeWhileD)

lemma base_nonempty: "path_base p \<noteq> []"
  by (auto simp: path_base_def Let_def)

text \<open>No byte is added but those of U+FFFD, none of which is a slash or a dot.\<close>

lemma strip_bytes: "set (strip_controls s) \<subseteq> set s \<union> {239, 191, 189}"
proof (induction s rule: strip_controls.induct)
  case (2 c cs)
  show ?case
  proof (cases "rune_width (c # cs) = 0")
    case True
    then show ?thesis using 2(1) [OF refl True] by (auto simp: Let_def)
  next
    case k: False
    show ?thesis
    proof (cases "c < 32 \<or> c = 127")
      case True
      then show ?thesis using 2(2) [OF refl k True] k by (auto simp: Let_def)
    next
      case False
      then show ?thesis using 2(3) [OF refl k False] k
        by (auto simp: Let_def dest: in_set_takeD in_set_dropD)
    qed
  qed
qed simp

lemma width_head: "rune_width (c # cs) \<noteq> 1 \<Longrightarrow> 128 \<le> c"
  by (simp add: rune_width_def Let_def word_le_nat_alt split: if_splits)

text \<open>A multi-byte rune has no ASCII byte.\<close>

lemma runes_of_high: "runes_of (b # bs) \<noteq> None \<Longrightarrow> 128 \<le> b \<Longrightarrow> length (b # bs) \<le> 2 \<Longrightarrow> \<forall>x \<in> set (b # bs). 128 \<le> x"
  by (cases bs) (auto simp: cont_def split: if_splits)

lemma sanitize_plain: "slash \<notin> set (sanitize_name name) \<or> sanitize_name name = [slash]"
proof -
  let ?n = "path_base (map (\<lambda>c. if c = 92 then slash else c) name)"
  show ?thesis
  proof (cases "?n = [slash]")
    case True
    have "runes_of [unat slash] \<noteq> None" by simp
    then have "rune_width [slash] = 1" by (simp add: rune_width_def Let_def)
    then have "strip_controls ?n = [slash]" by (simp add: True Let_def)
    then show ?thesis by (simp add: sanitize_name_def Let_def)
  next
    case False
    with base_plain [of "map (\<lambda>c. if c = 92 then slash else c) name"] have "slash \<notin> set ?n" by blast
    with strip_bytes [of ?n] have "slash \<notin> set (strip_controls ?n)" by auto
    moreover have "slash \<notin> set (str_bytes ''file'')" by (simp add: str_bytes_def)
    ultimately show ?thesis by (simp add: sanitize_name_def Let_def)
  qed
qed

text \<open>A component joined to a clean directory stays directly below it.\<close>

definition clean_dir :: "bytes \<Rightarrow> bool" where
  "clean_dir d \<longleftrightarrow> d \<noteq> [] \<and> path_clean d = d \<and> d \<noteq> [dot] \<and> d \<noteq> [slash]"

definition leaf_ok :: "bytes \<Rightarrow> bool" where
  "leaf_ok c \<longleftrightarrow> slash \<notin> set c \<and> c \<noteq> [] \<and> c \<noteq> [dot] \<and> c \<noteq> [dot, dot]"

lemma join_leaf:
  assumes "clean_dir d" "leaf_ok c"
  shows "path_join d c = d @ slash # c" "path_join d (c @ [slash]) = d @ slash # c"
proof -
  define r where "r = (hd d = slash)"
  define st where "st = fold (clean_step r) (split_slash d) []"
  from assms(1) have d: "d \<noteq> []" "path_clean d = d" "d \<noteq> [dot]" "d \<noteq> [slash]" by (simp_all add: clean_dir_def)
  have cl: "path_clean p = (let b = join_slash (rev (fold (clean_step r) (split_slash p) [])) in
      if r then slash # b else if b = [] then [dot] else b)" if "p \<noteq> []" "hd p = hd d" for p
    using that by (simp only: path_clean_def r_def Let_def if_False)
  have body: "(if r then slash # join_slash (rev st) else if join_slash (rev st) = [] then [dot] else join_slash (rev st)) = d"
    using cl [of d, OF d(1) refl, folded st_def, unfolded d(2) Let_def] by (rule sym)
  have st: "st \<noteq> []" using body d by (cases r) auto
  have nz: "join_slash (rev st) \<noteq> [] \<or> r" using body d(3) by (auto split: if_splits)
  have cs: "clean_step r c st = c # st" "clean_step r [] (c # st) = c # st"
    using assms(2) by (simp_all add: clean_step_def leaf_ok_def)
  have j: "join_slash (rev (c # st)) = join_slash (rev st) @ slash # c" using st by (simp add: join_snoc)
  have f: "fold (clean_step r) (split_slash (d @ slash # c @ xs)) [] = c # st" if "xs = [] \<or> xs = [slash]" for xs
    using that assms(2) split_append [of c "[]"] cs
    by (auto simp: split_append split_plain leaf_ok_def st_def [symmetric])
  have "path_join d (c @ xs) = d @ slash # c" if "xs = [] \<or> xs = [slash]" for xs
  proof -
    have "path_clean (d @ slash # c @ xs) = (let b = join_slash (rev (c # st)) in if r then slash # b else if b = [] then [dot] else b)"
      using cl [of "d @ slash # c @ xs", unfolded f [OF that]] d(1) by simp
    with j body nz d(1) show ?thesis by (cases r) (auto simp: path_join_def Let_def split: if_splits)
  qed
  from this [of "[]"] this [of "[slash]"]
  show "path_join d c = d @ slash # c" "path_join d (c @ [slash]) = d @ slash # c" by simp_all
qed

lemma hex_no_slash: "set (str_bytes (hex_encode b)) \<subseteq> {48..57} \<union> {97..102}"
proof -
  have d: "of_char (hex_digits ! i) \<in> {48..57} \<union> {97..102 :: byte}" if "i < 16" for i
  proof -
    have "\<forall>i \<in> {..<16 :: nat}. of_char (hex_digits ! i) \<in> {48..57} \<union> {97..102 :: byte}" by code_simp
    with that show ?thesis by blast
  qed
  show ?thesis
  proof (induction b)
    case (Cons x b)
    then show ?case using d [OF nibbles_lt(1) [of x]] d [OF nibbles_lt(2) [of x]]
      by (simp add: str_bytes_def hex_byte_def)
  qed (simp add: str_bytes_def)
qed

end
