(* ===== verification/Blob.thy ===== *)
theory Blob
  imports Chat StoreFiles Paths
begin

text \<open>
  Package blob, the transfer engine (blob/manager.go): a file is offered by a
  manifest through the ratchet session, the receiver pulls it in windows of
  missing chunks, the sender serves a window from the file on disk. The receiving
  goroutine takes new pulls, deletions and chunks from bounded channels; each of
  its turns is one operation here, and so are the turns of the serving goroutine.
  An active pull is shared by pointer in the code and written back here. \<open>v_disk\<close>
  says whether the disk serves a path now; an open file is asked for under the
  path it is pulled to. Go's map iteration order is an argument.
\<close>

definition windowTimeout :: int where "windowTimeout = 8000"
definition pullTick :: int where "pullTick = 5000"
definition dirtyFlush :: nat where "dirtyFlush = 64"
definition chunkQueue :: nat where "chunkQueue = 256"
definition reqQueue :: nat where "reqQueue = 64"
definition pullQueue :: nat where "pullQueue = 16"

section \<open>The disk\<close>

definition open_file :: "env \<Rightarrow> bytes \<Rightarrow> world \<Rightarrow> nat option" where
  "open_file E path w = (if v_disk E path then w_paths w path else None)"

text \<open>os.OpenFile with O_CREATE: without truncation.\<close>

definition create_file :: "env \<Rightarrow> bytes \<Rightarrow> world \<Rightarrow> nat option \<times> world" where
  "create_file E path w =
     (if \<not> v_disk E path then (None, w)
      else case w_paths w path of Some i \<Rightarrow> (Some i, w)
        | None \<Rightarrow> (Some (w_ino w), w\<lparr>w_paths := (w_paths w)(path \<mapsto> w_ino w),
            w_inodes := (w_inodes w)(w_ino w := []), w_ino := w_ino w + 1\<rparr>))"

definition write_at :: "nat \<Rightarrow> bytes \<Rightarrow> bytes \<Rightarrow> bytes" where
  "write_at off data old = take off (old @ replicate (off - length old) 0) @ data @ drop (off + length data) old"

definition remove_file :: "env \<Rightarrow> bytes \<Rightarrow> world \<Rightarrow> world" where
  "remove_file E path w = (if v_disk E path then w\<lparr>w_paths := (w_paths w)(path := None)\<rparr> else w)"

definition rename_file :: "env \<Rightarrow> bytes \<Rightarrow> bytes \<Rightarrow> world \<Rightarrow> world option" where
  "rename_file E a b w =
     (if v_disk E a \<and> v_disk E b
      then map_option (\<lambda>i. w\<lparr>w_paths := (w_paths w)(a := None, b \<mapsto> i)\<rparr>) (w_paths w a) else None)"

definition part_path :: "env \<Rightarrow> bytes \<Rightarrow> bytes" where
  "part_path E fid = path_join (v_dir E) (str_bytes (hex_encode fid) @ str_bytes ''.part'')"

definition final_path :: "env \<Rightarrow> manifest \<Rightarrow> bytes" where
  "final_path E m = path_join (v_dir E)
     (str_bytes (hex_encode (take 4 (mf_id m))) @ str_bytes ''-'' @ sanitize_name (mf_name m))"

section \<open>The channels\<close>

definition handle_chunk :: fast_handler where
  "handle_chunk E from e w =
     (if length (w_chunks w) < chunkQueue then w\<lparr>w_chunks := w_chunks w @ [(from, e)]\<rparr>
      else bump_w ''blob.chunksDropped'' w)"

definition handle_chunk_req :: fast_handler where
  "handle_chunk_req E from e w =
     (if length (w_reqs w) < reqQueue then w\<lparr>w_reqs := w_reqs w @ [(from, e)]\<rparr>
      else bump_w ''blob.reqsDropped'' w)"

section \<open>Offering and deleting\<close>

definition offer_manifest :: "env \<Rightarrow> bytes \<Rightarrow> bytes \<Rightarrow> bytes \<Rightarrow> bytes \<Rightarrow> manifest" where
  "offer_manifest E path data fid key = \<lparr>mf_id = fid, mf_name = path_base path,
     mf_mime = str_bytes ''application/octet-stream'', mf_size = of_nat (length data),
     mf_chunk = of_nat ChunkSize, mf_key = key, mf_hash = c_blake (v_crypto E) data\<rparr>"

definition offer :: "env \<Rightarrow> peer_id \<Rightarrow> bytes \<Rightarrow> world \<Rightarrow> (err + bytes) \<times> world" where
  "offer E to path w =
     (case open_file E path w of None \<Rightarrow> (Inl (ErrBlob BErrFile), w)
      | Some i \<Rightarrow>
        (let data = w_inodes w i in
         if length data = 0 \<or> MaxFileSize < length data then (Inl (ErrBlob BErrSize), w)
         else case read_full 16 (w_rnd w) of None \<Rightarrow> (Inl ErrRand, w)
         | Some (fid, r1) \<Rightarrow>
           (case read_full 32 r1 of None \<Rightarrow> (Inl ErrRand, w\<lparr>w_rnd := r1\<rparr>)
            | Some (key, r2) \<Rightarrow>
              (case encode_manifest (v_pman E) (offer_manifest E path data fid key) of
                 Inl e \<Rightarrow> (Inl (ErrBlob e), w\<lparr>w_rnd := r2\<rparr>)
               | Inr b \<Rightarrow>
                 (case send_sealed E to TypeFileManifest b (w\<lparr>w_rnd := r2\<rparr>) of
                    (Inl e, w') \<Rightarrow> (Inl e, w')
                  | (Inr mid, w') \<Rightarrow>
                    (case run_tx (file_put E \<lparr>f_id = fid, f_peer = to, f_out = True, f_man = b, f_path = path,
                       f_bitmap = [], f_done = True, f_created = v_now E, f_updated = v_now E\<rparr>) w' of
                       (Inl e, w'') \<Rightarrow> (Inl e, w'') | (Inr u, w'') \<Rightarrow> (Inr fid, w'')))))))"

definition new_transfer :: "env \<Rightarrow> peer_id \<Rightarrow> manifest \<Rightarrow> bytes \<Rightarrow> frow" where
  "new_transfer E from m body = \<lparr>f_id = mf_id m, f_peer = from, f_out = False, f_man = body,
     f_path = part_path E (mf_id m), f_bitmap = bitmap_bytes (new_bitmap (chunks m)), f_done = False,
     f_created = v_now E, f_updated = v_now E\<rparr>"

definition queue_pull :: "frow \<Rightarrow> world \<Rightarrow> world" where
  "queue_pull rec w = (if length (w_newpulls w) < pullQueue then w\<lparr>w_newpulls := w_newpulls w @ [rec]\<rparr>
     else bump_w ''blob.pullsDropped'' w)"

definition on_manifest :: sealed_handler where
  "on_manifest E from body =
     (case decode_manifest (v_pman E) body of Inl err \<Rightarrow> bump ''blob.malformed''
      | Inr m \<Rightarrow>
        seq (after_commit (\<lambda>w. queue_pull (new_transfer E from m body)
              (emit (OFileOffered from m) (bump_w ''blob.manifestsRecv'' w))))
          (file_put E (new_transfer E from m body)))"

definition delete_file :: "env \<Rightarrow> bytes \<Rightarrow> world \<Rightarrow> (err + unit) \<times> world" where
  "delete_file E fid w =
     (case file_get E fid (w_db w) of Inl e \<Rightarrow> (Inl e, w)
      | Inr rec \<Rightarrow>
        (case run_tx (file_delete fid)
            (if length (w_drops w) < pullQueue then w\<lparr>w_drops := w_drops w @ [fid]\<rparr> else w) of
           (Inl e, w') \<Rightarrow> (Inl e, w')
         | (Inr u, w') \<Rightarrow> (Inr (), bump_w ''blob.filesDeleted'' (remove_file E (part_path E fid)
             (case rec of None \<Rightarrow> w' | Some r \<Rightarrow> remove_file E (f_path r) w')))))"

section \<open>Serving\<close>

fun serve_each :: "env \<Rightarrow> peer_id \<Rightarrow> manifest \<Rightarrow> bytes \<Rightarrow> u32 list \<Rightarrow> world \<Rightarrow> world" where
  "serve_each E from m data [] w = bump_w ''blob.reqsServed'' w"
| "serve_each E from m data (i # is) w =
     (let n = chunk_len m i; off = unat i * unat (mf_chunk m) in
      if n = 0 then bump_w ''blob.reqsRefused'' w
      else if length data < off + n then bump_w ''blob.serveErrors'' w
      else case new_msg_id (w_rnd w) of Inl e \<Rightarrow> w
      | Inr (mid, r) \<Rightarrow>
        (case encode_chunk (v_pchunk E) \<lparr>ck_id = mf_id m, ck_index = i,
             ck_payload = seal_chunk (v_crypto E) (mf_key m) (mf_id m) i (take n (drop off data))\<rparr> of
           Inl e \<Rightarrow> w\<lparr>w_rnd := r\<rparr>
         | Inr b \<Rightarrow>
           (case encode_env (v_penv E) \<lparr>e_id = mid, e_type = TypeFileChunk, e_seq = 0, e_lamport = 0, e_payload = b\<rparr> of
              Inl e \<Rightarrow> w\<lparr>w_rnd := r\<rparr>
            | Inr frame \<Rightarrow>
              (case send E from frame (w\<lparr>w_rnd := r\<rparr>) of
                 (False, w') \<Rightarrow> bump_w ''blob.serveErrors'' w'
               | (True, w') \<Rightarrow> serve_each E from m data is (bump_w ''blob.chunksSent'' w')))))"

definition serve_request :: "env \<Rightarrow> peer_id \<times> envelope \<Rightarrow> world \<Rightarrow> world" where
  "serve_request E x w =
     (case decode_request (v_preq E) (e_payload (snd x)) of Inl e \<Rightarrow> bump_w ''blob.malformed'' w
      | Inr req \<Rightarrow>
        (case file_get E (rq_id req) (w_db w) of
           Inl e \<Rightarrow> bump_w ''blob.reqsRefused'' w
         | Inr None \<Rightarrow> bump_w ''blob.reqsRefused'' w
         | Inr (Some rec) \<Rightarrow>
           if \<not> f_out rec \<or> f_peer rec \<noteq> fst x then bump_w ''blob.reqsRefused'' w
           else (case decode_manifest (v_pman E) (f_man rec) of Inl e \<Rightarrow> bump_w ''blob.malformed'' w
             | Inr m \<Rightarrow>
               (case open_file E (f_path rec) w of None \<Rightarrow> bump_w ''blob.serveErrors'' w
                | Some i \<Rightarrow> serve_each E (fst x) m (w_inodes w i) (rq_idx req) w))))"

section \<open>Pulling\<close>

definition put_pull :: "pull \<Rightarrow> world \<Rightarrow> world" where
  "put_pull p w = w\<lparr>w_pulls := (w_pulls w)(mf_id (pl_man p) \<mapsto> p)\<rparr>"

definition request_window :: "env \<Rightarrow> pull \<Rightarrow> world \<Rightarrow> world" where
  "request_window E p w =
     (let missing = bitmap_missing (pl_bm p) (int Window) in
      if missing = [] then w
      else case encode_request (v_preq E) \<lparr>rq_id = mf_id (pl_man p), rq_idx = missing\<rparr> of Inl e \<Rightarrow> w
      | Inr b \<Rightarrow>
        (case new_msg_id (w_rnd w) of Inl e \<Rightarrow> w
         | Inr (mid, r) \<Rightarrow>
           (case encode_env (v_penv E) \<lparr>e_id = mid, e_type = TypeFileChunkReq, e_seq = 0, e_lamport = 0, e_payload = b\<rparr> of
              Inl e \<Rightarrow> w\<lparr>w_rnd := r\<rparr>
            | Inr frame \<Rightarrow> snd (send E (pl_peer p) frame
                (put_pull (p\<lparr>pl_window := missing, pl_at := Some (v_now E)\<rparr>) (w\<lparr>w_rnd := r\<rparr>))))))"

definition start_pull :: "env \<Rightarrow> frow \<Rightarrow> world \<Rightarrow> world" where
  "start_pull E rec w =
     (if w_pulls w (f_id rec) \<noteq> None then w
      else case decode_manifest (v_pman E) (f_man rec) of Inl e \<Rightarrow> bump_w ''blob.malformed'' w
      | Inr m \<Rightarrow>
        (case create_file E (f_path rec) w of
           (None, w') \<Rightarrow> bump_w ''blob.pullErrors'' w'
         | (Some fd, w') \<Rightarrow>
           (let p = \<lparr>pl_peer = f_peer rec, pl_man = m, pl_bm = bitmap_from_bytes (f_bitmap rec) (chunks m),
                 pl_fd = fd, pl_window = [], pl_at = None, pl_dirty = 0\<rparr>
            in request_window E p (put_pull p w'))))"

definition window_done :: "pull \<Rightarrow> bool" where
  "window_done p \<longleftrightarrow> list_all (\<lambda>i. bitmap_has (pl_bm p) (uint i)) (pl_window p)"

definition persist_pull :: "env \<Rightarrow> pull \<Rightarrow> bool \<Rightarrow> world \<Rightarrow> world" where
  "persist_pull E p isdone w =
     (case run_tx (file_progress E (mf_id (pl_man p)) (bitmap_bytes (pl_bm p)) isdone)
         (put_pull (p\<lparr>pl_dirty := 0\<rparr>) w) of
        (Inl e, w') \<Rightarrow> bump_w ''blob.pullErrors'' w' | (Inr u, w') \<Rightarrow> w')"

definition finish_tx :: "env \<Rightarrow> pull \<Rightarrow> unit tx" where
  "finish_tx E p = seq (file_path E (mf_id (pl_man p)) (final_path E (pl_man p)))
     (file_progress E (mf_id (pl_man p)) (bitmap_bytes (pl_bm p)) True)"

definition check_file :: "env \<Rightarrow> pull \<Rightarrow> world \<Rightarrow> world" where
  "check_file E p w =
     (let part = part_path E (mf_id (pl_man p)); final = final_path E (pl_man p) in
      if \<not> v_disk E part then bump_w ''blob.pullErrors'' w
      else if c_blake (v_crypto E) (w_inodes w (pl_fd p)) \<noteq> mf_hash (pl_man p)
        then persist_pull E p False (bump_w ''blob.hashMismatch'' w)
      else case rename_file E part final w of None \<Rightarrow> bump_w ''blob.pullErrors'' w
      | Some w1 \<Rightarrow> (case run_tx (finish_tx E p) w1 of
          (Inl e, w2) \<Rightarrow> bump_w ''blob.pullErrors'' w2
        | (Inr u, w2) \<Rightarrow> emit (OFileDone (mf_id (pl_man p)) final) (bump_w ''blob.filesDone'' w2)))"

definition finish_pull :: "env \<Rightarrow> pull \<Rightarrow> world \<Rightarrow> world" where
  "finish_pull E p w =
     (let w' = check_file E p w in w'\<lparr>w_pulls := (w_pulls w')(mf_id (pl_man p) := None)\<rparr>)"

text \<open>A chunk that was written: its mark, the progress, and what its arrival triggers.\<close>

definition store_chunk :: "env \<Rightarrow> pull \<Rightarrow> u32 \<Rightarrow> bytes \<Rightarrow> world \<Rightarrow> world" where
  "store_chunk E p i body w =
     (let p1 = p\<lparr>pl_bm := snd (bitmap_set (pl_bm p) (uint i)), pl_dirty := pl_dirty p + 1\<rparr>;
          w1 = emit (OFileProgress (mf_id (pl_man p)) (bitmap_count (pl_bm p1)) (chunks (pl_man p)))
            (bump_w ''blob.chunksRecv'' (put_pull p1 (w\<lparr>w_inodes := (w_inodes w)(pl_fd p :=
              write_at (unat i * unat (mf_chunk (pl_man p))) body (w_inodes w (pl_fd p)))\<rparr>))) in
      if bitmap_complete (pl_bm p1) then finish_pull E p1 w1
      else
        (let p2 = (if dirtyFlush \<le> pl_dirty p1 then p1\<lparr>pl_dirty := 0\<rparr> else p1);
             w2 = (if dirtyFlush \<le> pl_dirty p1 then persist_pull E p1 False w1 else w1) in
         if window_done p2 then request_window E p2 w2 else w2))"

definition accept_chunk :: "env \<Rightarrow> peer_id \<times> envelope \<Rightarrow> world \<Rightarrow> world" where
  "accept_chunk E x w =
     (case decode_chunk (v_pchunk E) (e_payload (snd x)) of Inl e \<Rightarrow> bump_w ''blob.malformed'' w
      | Inr c \<Rightarrow>
        (case w_pulls w (ck_id c) of None \<Rightarrow> bump_w ''blob.lateChunks'' w
         | Some p \<Rightarrow>
           if fst x \<noteq> pl_peer p then bump_w ''blob.lateChunks'' w
           else if chunk_len (pl_man p) (ck_index c) = 0 \<or> bitmap_has (pl_bm p) (uint (ck_index c))
             then bump_w ''blob.lateChunks'' w
           else (case open_chunk (v_crypto E) (mf_key (pl_man p)) (mf_id (pl_man p)) (ck_index c) (ck_payload c) of
               Inl e \<Rightarrow> bump_w ''blob.badChunks'' w
             | Inr body \<Rightarrow>
               if length body \<noteq> chunk_len (pl_man p) (ck_index c) then bump_w ''blob.badChunks'' w
               else if \<not> v_disk E (part_path E (mf_id (pl_man p))) then bump_w ''blob.pullErrors'' w
               else store_chunk E p (ck_index c) body w)))"

section \<open>The loops\<close>

definition resume_pulls :: "env \<Rightarrow> world \<Rightarrow> world" where
  "resume_pulls E w = (case file_list_unfinished E (w_db w) of Inl e \<Rightarrow> w | Inr recs \<Rightarrow> fold (start_pull E) recs w)"

definition next_pull :: "env \<Rightarrow> world \<Rightarrow> world" where
  "next_pull E w = (case w_newpulls w of [] \<Rightarrow> w | rec # rs \<Rightarrow> start_pull E rec (w\<lparr>w_newpulls := rs\<rparr>))"

definition next_drop :: "world \<Rightarrow> world" where
  "next_drop w = (case w_drops w of [] \<Rightarrow> w
     | fid # ids \<Rightarrow> w\<lparr>w_drops := ids, w_pulls := (w_pulls w)(fid := None)\<rparr>)"

definition next_chunk :: "env \<Rightarrow> world \<Rightarrow> world" where
  "next_chunk E w = (case w_chunks w of [] \<Rightarrow> w | x # xs \<Rightarrow> accept_chunk E x (w\<lparr>w_chunks := xs\<rparr>))"

definition pull_due :: "env \<Rightarrow> pull \<Rightarrow> world \<Rightarrow> bool" where
  "pull_due E p w \<longleftrightarrow> (case pl_at p of None \<Rightarrow> True | Some t \<Rightarrow> windowTimeout < v_now E - t) \<and> online E w (pl_peer p)"

definition blob_tick :: "env \<Rightarrow> bytes list \<Rightarrow> world \<Rightarrow> world" where
  "blob_tick E order w = fold (\<lambda>fid w. case w_pulls w fid of None \<Rightarrow> w
     | Some p \<Rightarrow> if pull_due E p w then request_window E p w else w) order w"

text \<open>When the context ends the bitmaps are saved; with the process its memory goes.\<close>

definition stop_pulls :: "env \<Rightarrow> bytes list \<Rightarrow> world \<Rightarrow> world" where
  "stop_pulls E order w =
     (fold (\<lambda>fid w. case w_pulls w fid of None \<Rightarrow> w | Some p \<Rightarrow> persist_pull E p False w) order w)
       \<lparr>w_pulls := Map.empty, w_newpulls := [], w_drops := [], w_chunks := [], w_reqs := []\<rparr>"

definition next_request :: "env \<Rightarrow> world \<Rightarrow> world" where
  "next_request E w = (case w_reqs w of [] \<Rightarrow> w | x # xs \<Rightarrow> serve_request E x (w\<lparr>w_reqs := xs\<rparr>))"

section \<open>The manifest's handler is tame\<close>

lemma quiet_offered: "quiet_hook (\<lambda>w. queue_pull rec (emit x (bump_w c w)))"
  by (simp add: quiet_hook_def queue_pull_def)

lemma tame_manifest [moves_intros]: "moves tame (on_manifest E p b)"
  unfolding on_manifest_def by (intro tame_order.moves_rules moves_intros quiet_offered)

end
