(* ===== verification/BlobPull.thy ===== *)
theory BlobPull
  imports Blob
begin

text \<open>
  The receiving side of a file transfer as a whole: what a pull holds after any
  sequence of frames, whatever their order, repetitions and the rubbish between
  them. The engine's bitmap and open file refine a set of chunk numbers and the
  sender's file (\<open>holds\<close>); the interface \<open>index_set\<close> of Bitmap carries the bitmap's part.
\<close>

section \<open>Writing chunks into a file\<close>

text \<open>The content has the chunks of \<open>have\<close> in their places and is no longer than the file.\<close>

definition holds :: "manifest \<Rightarrow> bytes \<Rightarrow> nat set \<Rightarrow> bytes \<Rightarrow> bool" where
  "holds m data have content \<longleftrightarrow> length content \<le> fsize m
     \<and> (\<forall>i \<in> have. take (chunk_len m (of_nat i)) (drop (i * csize m) content) = piece m data i)"

lemma holds_nothing [simp]: "holds m data {} []"
  by (simp add: holds_def)

lemma length_write_at: "length (write_at off d old) = max (length old) (off + length d)"
  by (simp add: write_at_def)

lemma write_at_here: "take (length d) (drop off (write_at off d old)) = d"
  by (simp add: write_at_def)

lemma write_at_before: "k + n \<le> off \<Longrightarrow> k + n \<le> length old \<Longrightarrow>
    take n (drop k (write_at off d old)) = take n (drop k old)"
proof (rule nth_equalityI)
  assume le: "k + n \<le> off" "k + n \<le> length old"
  then show "length (take n (drop k (write_at off d old))) = length (take n (drop k old))"
    by (simp add: length_write_at)
  fix i assume "i < length (take n (drop k (write_at off d old)))"
  then have "i < n" by simp
  with le show "take n (drop k (write_at off d old)) ! i = take n (drop k old) ! i"
    by (simp add: write_at_def nth_append length_write_at)
qed

lemma write_at_after: "off + length d \<le> k \<Longrightarrow> drop k (write_at off d old) = drop k old"
proof -
  assume le: "off + length d \<le> k"
  define a where "a = take off (old @ replicate (off - length old) 0)"
  have "length a = off" by (simp add: a_def)
  with le show ?thesis unfolding write_at_def a_def [symmetric] by simp
qed

text \<open>A file and a manifest that describes it.\<close>

definition describes :: "manifest \<Rightarrow> bytes \<Rightarrow> bool" where
  "describes m data \<longleftrightarrow> validate_manifest m \<and> length data = fsize m"

lemma chunk_range:
  assumes "describes m data" and i: "i < chunks m"
  shows "unat (of_nat i :: u32) = i \<and> i * csize m < fsize m
    \<and> chunk_len m (of_nat i) = min (csize m) (fsize m - i * csize m)"
proof -
  from assms(1) have valid: "validate_manifest m" by (simp add: describes_def)
  note V = valid_sizes [OF valid]
  have "unat (of_nat i :: u32) = i" using i V(5) by (intro unat_of_nat_u32) (simp add: maxChunks_def)
  moreover have "i * csize m < fsize m"
    using i chunks_cover [OF V(3,1), of i] by (simp add: chunks_div [OF valid])
  ultimately show ?thesis by (simp add: chunk_len_eq [OF valid])
qed

lemma length_piece: "describes m data \<Longrightarrow> i < chunks m \<Longrightarrow> length (piece m data i) = chunk_len m (of_nat i)"
  using chunk_range [of m data i] by (simp add: piece_def describes_def)

lemma holds_write:
  assumes D: "describes m data" and h: "holds m data have content" and i: "i < chunks m" and sub: "have \<subseteq> {..<chunks m}"
  shows "holds m data (insert i have) (write_at (i * csize m) (piece m data i) content)"
proof -
  let ?c = "write_at (i * csize m) (piece m data i) content"
  note I = chunk_range [OF D i] length_piece [OF D i]
  have "i * csize m + length (piece m data i) \<le> fsize m" using I by linarith
  then have "length ?c \<le> fsize m" using h by (simp add: holds_def length_write_at)
  moreover have "take (chunk_len m (of_nat j)) (drop (j * csize m) ?c) = piece m data j" if j: "j \<in> insert i have" for j
  proof (cases "j = i")
    case True
    then show ?thesis using write_at_here [of "piece m data i"] I by simp
  next
    case False
    with j have jh: "j \<in> have" by simp
    then have old: "take (chunk_len m (of_nat j)) (drop (j * csize m) content) = piece m data j"
      using h by (simp add: holds_def)
    from jh sub have jc: "j < chunks m" by auto
    note J = chunk_range [OF D jc] length_piece [OF D jc]
    from False consider "j < i" | "i < j" by linarith
    then show ?thesis
    proof cases
      case 1
      then have "(j + 1) * csize m \<le> i * csize m" by (intro mult_le_mono1) simp
      then have "j * csize m + chunk_len m (of_nat j) \<le> i * csize m" using J by simp
      moreover have "j * csize m + chunk_len m (of_nat j) \<le> length content"
      proof -
        have "length (take (chunk_len m (of_nat j)) (drop (j * csize m) content)) = chunk_len m (of_nat j)"
          unfolding old using J by simp
        moreover have "0 < csize m" using D valid_sizes(3) by (simp add: describes_def)
        ultimately show ?thesis using J by (auto simp: min_def split: if_splits)
      qed
      ultimately show ?thesis using write_at_before old by metis
    next
      case 2
      then have "(i + 1) * csize m \<le> j * csize m" by (intro mult_le_mono1) simp
      then have "i * csize m + length (piece m data i) \<le> j * csize m" using I by simp
      then show ?thesis using write_at_after old by metis
    qed
  qed
  ultimately show ?thesis by (simp add: holds_def)
qed

lemma holds_all:
  assumes D: "describes m data" and "holds m data {..<chunks m} content"
  shows "content = data"
proof -
  from D have valid: "validate_manifest m" and size: "length data = fsize m" by (simp_all add: describes_def)
  note V = valid_sizes [OF valid]
  have p: "piece m content i = piece m data i" if "i < chunks m" for i
    using assms(2) that by (simp add: holds_def piece_def)
  have pos: "0 < chunks m" using chunks_cover [OF V(3,1), of 0] V(1) by (simp add: chunks_div [OF valid])
  let ?l = "chunks m - 1"
  have l: "?l < chunks m" using pos by simp
  have "fsize m \<le> chunks m * csize m"
    using chunks_cover [OF V(3,1), of "chunks m"] by (simp add: chunks_div [OF valid])
  also have "chunks m = ?l + 1" using pos by simp
  finally have "fsize m - ?l * csize m \<le> csize m" by (simp add: algebra_simps)
  then have "length (piece m content ?l) = fsize m - ?l * csize m"
    using p [OF l] length_piece [OF D l] chunk_range [OF D l] by simp
  moreover have "length (piece m content ?l) \<le> length content - ?l * csize m" by (simp add: piece_def)
  moreover have "?l * csize m < fsize m" using chunk_range [OF D l] by blast
  moreover have "f \<le> c" if "x = f - k" "x \<le> c - k" "k < f" for x f c k :: nat using that by linarith
  ultimately have "fsize m \<le> length content" by blast
  then have len: "length content = fsize m" using assms(2) by (simp add: holds_def)
  have "content = concat (map (piece m content) [0..<chunks m])" by (rule file_of_pieces [OF valid len, symmetric])
  also have "map (piece m content) [0..<chunks m] = map (piece m data) [0..<chunks m]" by (simp add: p)
  also have "concat \<dots> = data" by (rule file_of_pieces [OF valid size])
  finally show ?thesis .
qed

section \<open>One step at a time\<close>

definition is_done :: "out \<Rightarrow> bool" where
  "is_done x \<longleftrightarrow> (case x of OFileDone fid path \<Rightarrow> True | _ \<Rightarrow> False)"

definition dones :: "world \<Rightarrow> out list" where
  "dones w = filter is_done (w_out w)"

lemma is_done_simps [simp]: "is_done (OFileDone fid path)" "\<not> is_done (OSend p f)" "\<not> is_done (OFileProgress fid i n)"
  "\<not> is_done (OFileOffered p m)"
  by (simp_all add: is_done_def)

lemma dones_simps [simp]:
  "dones (w\<lparr>w_db := d\<rparr>) = dones w" "dones (w\<lparr>w_rnd := r\<rparr>) = dones w" "dones (bump_w c w) = dones w"
  "dones (put_pull p w) = dones w" "dones (w\<lparr>w_pulls := ps\<rparr>) = dones w" "dones (w\<lparr>w_inodes := f\<rparr>) = dones w"
  "dones (emit x w) = dones w @ (if is_done x then [x] else [])" "dones (w\<lparr>w_paths := g\<rparr>) = dones w"
  "dones (w\<lparr>w_chunks := xs\<rparr>) = dones w"
  by (simp_all add: dones_def bump_w_def put_pull_def emit_def)

lemma put_pull_simps [simp]:
  "w_db (put_pull p w) = w_db w" "w_rnd (put_pull p w) = w_rnd w" "w_out (put_pull p w) = w_out w"
  "w_paths (put_pull p w) = w_paths w" "w_inodes (put_pull p w) = w_inodes w" "w_ino (put_pull p w) = w_ino w"
  "w_newpulls (put_pull p w) = w_newpulls w"
  "w_pulls (put_pull p w) = (w_pulls w)(mf_id (pl_man p) \<mapsto> p)"
  by (simp_all add: put_pull_def)

text \<open>Asking for a window changes the pull's window and time, draws at most an identifier and sends at most a frame.\<close>

definition asked :: "pull \<Rightarrow> world \<Rightarrow> world \<Rightarrow> bool" where
  "asked p w w' \<longleftrightarrow> (\<exists>win at. w_pulls w' = (w_pulls w)(mf_id (pl_man p) \<mapsto> p\<lparr>pl_window := win, pl_at := at\<rparr>))
     \<and> w_db w' = w_db w \<and> w_paths w' = w_paths w \<and> w_inodes w' = w_inodes w \<and> w_ino w' = w_ino w
     \<and> w_newpulls w' = w_newpulls w \<and> dones w' = dones w \<and> (\<exists>sent. w_out w' = w_out w @ sent)
     \<and> length (w_rnd w) \<le> length (w_rnd w') + MsgIDLen"

lemma request_window_asked:
  assumes "w_pulls w (mf_id (pl_man p)) = Some p"
  shows "asked p w (request_window E p w)"
proof -
  have id: "w_pulls w = (w_pulls w)(mf_id (pl_man p) \<mapsto> p\<lparr>pl_window := pl_window p, pl_at := pl_at p\<rparr>)"
    using assms by auto
  have refl: "asked p w (w\<lparr>w_rnd := r\<rparr>)" if "length (w_rnd w) \<le> length r + MsgIDLen" for r
    unfolding asked_def using that by (intro conjI exI [of _ "pl_window p"] exI [of _ "pl_at p"]) (use id in simp_all)
  have same: "asked p w w" using refl [of "w_rnd w"] by simp
  have r: "length (w_rnd w) \<le> length r + MsgIDLen" if "new_msg_id (w_rnd w) = Inr (mid, r)" for mid r
    using that by (auto simp: new_msg_id_def read_full_def split: if_splits)
  have sent: "asked p w (snd (send E to f (put_pull (p\<lparr>pl_window := win, pl_at := at\<rparr>) (w\<lparr>w_rnd := r\<rparr>))))"
    if "length (w_rnd w) \<le> length r + MsgIDLen" for to f win at r
    using that by (auto simp: asked_def send_def)
  show ?thesis
    unfolding request_window_def Let_def
    using same refl [OF r] sent [OF r] by (auto split: sum.split)
qed

lemma persist_pull_eq: "persist_pull E p b w = (put_pull (p\<lparr>pl_dirty := 0\<rparr>) w)
    \<lparr>w_db := update_file (mf_id (pl_man p)) (\<lambda>r. r\<lparr>f_bitmap := bitmap_bytes (pl_bm p), f_done := b, f_updated := v_now E\<rparr>) (w_db w)\<rparr>"
  by (simp add: persist_pull_def run_tx_def file_progress_def run_hooks_def)

lemma finish_tx_ok: "NonceSizeX \<le> length (w_rnd w) \<Longrightarrow> \<exists>ct. run_tx (finish_tx E p) w =
    (Inr (), w\<lparr>w_rnd := drop NonceSizeX (w_rnd w), w_db := update_file (mf_id (pl_man p))
       (\<lambda>r. r\<lparr>f_path := ct, f_bitmap := bitmap_bytes (pl_bm p), f_done := True, f_updated := v_now E\<rparr>) (w_db w)\<rparr>)
    \<and> (sealing_ok E \<longrightarrow> box_open E ct (aad_file_path (mf_id (pl_man p))) = Inr (final_path E (pl_man p)))"
proof -
  assume r: "NonceSizeX \<le> length (w_rnd w)"
  let ?id = "mf_id (pl_man p)"
  from file_path_ok [OF r, of E ?id "final_path E (pl_man p)" "[]"] obtain ct where
    ct: "file_path E ?id (final_path E (pl_man p)) (w, []) = (Inr (), (w\<lparr>w_rnd := drop NonceSizeX (w_rnd w),
       w_db := update_file ?id (\<lambda>r. r\<lparr>f_path := ct, f_updated := v_now E\<rparr>) (w_db w)\<rparr>, []))"
    and o: "sealing_ok E \<longrightarrow> box_open E ct (aad_file_path ?id) = Inr (final_path E (pl_man p))" by blast
  have "run_tx (finish_tx E p) w = (Inr (), w\<lparr>w_rnd := drop NonceSizeX (w_rnd w), w_db := update_file ?id
       (\<lambda>r. r\<lparr>f_path := ct, f_bitmap := bitmap_bytes (pl_bm p), f_done := True, f_updated := v_now E\<rparr>) (w_db w)\<rparr>)"
    by (simp add: run_tx_def finish_tx_def seq_def bnd_def ct file_progress_def run_hooks_def update_file_def comp_def)
  with o show ?thesis by blast
qed

section \<open>What a pull has received\<close>

text \<open>The chunk a frame carries to the pull of \<open>m\<close> from its sender: it decodes, opens and has the length of its place.\<close>

definition carried :: "env \<Rightarrow> manifest \<Rightarrow> peer_id \<Rightarrow> peer_id \<times> envelope \<Rightarrow> (nat \<times> bytes) option" where
  "carried E m from x =
     (case decode_chunk (v_pchunk E) (e_payload (snd x)) of Inl e \<Rightarrow> None
      | Inr c \<Rightarrow>
        if fst x \<noteq> from \<or> ck_id c \<noteq> mf_id m \<or> chunk_len m (ck_index c) = 0 then None
        else (case open_chunk (v_crypto E) (mf_key m) (mf_id m) (ck_index c) (ck_payload c) of Inl e \<Rightarrow> None
          | Inr b \<Rightarrow> if length b = chunk_len m (ck_index c) then Some (unat (ck_index c), b) else None))"

text \<open>Whatever opens under the file's key is what the sender sealed: authenticity of the chunk encryption.\<close>

definition sound_frame :: "env \<Rightarrow> manifest \<Rightarrow> bytes \<Rightarrow> peer_id \<Rightarrow> peer_id \<times> envelope \<Rightarrow> bool" where
  "sound_frame E m data from x \<longleftrightarrow> (\<forall>i b. carried E m from x = Some (i, b) \<longrightarrow> b = piece m data i)"

definition arrived :: "env \<Rightarrow> manifest \<Rightarrow> peer_id \<Rightarrow> (peer_id \<times> envelope) list \<Rightarrow> nat set" where
  "arrived E m from xs = {i. \<exists>x \<in> set xs. \<exists>b. carried E m from x = Some (i, b)}"

definition pulling :: "env \<Rightarrow> manifest \<Rightarrow> bytes \<Rightarrow> peer_id \<Rightarrow> nat set \<Rightarrow> world \<Rightarrow> bool" where
  "pulling E m data from have w \<longleftrightarrow> (\<exists>p. w_pulls w = [mf_id m \<mapsto> p] \<and> pl_man p = m \<and> pl_peer p = from
     \<and> bitmap_ok (pl_bm p) \<and> bm_n (pl_bm p) = chunks m \<and> bitmap_abs (pl_bm p) = have
     \<and> holds m data have (w_inodes w (pl_fd p)) \<and> w_paths w (part_path E (mf_id m)) = Some (pl_fd p))"

text \<open>The row of the transfer while it runs and when it has ended.\<close>

definition received :: "env \<Rightarrow> manifest \<Rightarrow> bytes \<Rightarrow> world \<Rightarrow> bool" where
  "received E m data w \<longleftrightarrow> w_pulls w = Map.empty
     \<and> (\<exists>i. w_paths w (final_path E m) = Some i \<and> w_inodes w i = data)
     \<and> (\<forall>r. file_row (mf_id m) (w_db w) = Some r \<longrightarrow> f_done r
          \<and> (sealing_ok E \<longrightarrow> box_open E (f_path r) (aad_file_path (mf_id m)) = Inr (final_path E m)))"

lemma asked_pulling:
  assumes "asked p w w'" "w_pulls w = [mf_id m \<mapsto> p]" "pl_man p = m" "pl_peer p = from"
    "bitmap_ok (pl_bm p)" "bm_n (pl_bm p) = chunks m" "bitmap_abs (pl_bm p) = have"
    "holds m data have (w_inodes w (pl_fd p))" "w_paths w (part_path E (mf_id m)) = Some (pl_fd p)"
  shows "pulling E m data from have w'"
proof -
  from assms(1,3) obtain win at where "w_pulls w' = (w_pulls w)(mf_id m \<mapsto> p\<lparr>pl_window := win, pl_at := at\<rparr>)"
    "w_paths w' = w_paths w" "w_inodes w' = w_inodes w"
    by (auto simp: asked_def)
  with assms(2-) show ?thesis
    unfolding pulling_def by (intro exI [of _ "p\<lparr>pl_window := win, pl_at := at\<rparr>"]) simp
qed

lemma carried_iff: "carried E m from x = Some (i, b) \<longleftrightarrow>
    (\<exists>c. decode_chunk (v_pchunk E) (e_payload (snd x)) = Inr c \<and> fst x = from \<and> ck_id c = mf_id m
      \<and> chunk_len m (ck_index c) \<noteq> 0 \<and> i = unat (ck_index c) \<and> length b = chunk_len m (ck_index c)
      \<and> open_chunk (v_crypto E) (mf_key m) (mf_id m) (ck_index c) (ck_payload c) = Inr b)"
  by (auto simp: carried_def split: sum.splits if_splits)

lemma has_unat: "bitmap_has b (uint i) \<longleftrightarrow> unat i \<in> bitmap_abs b"
  by (simp only: bitmap_abs_def mem_Collect_eq uint_nat)

lemma set_unat: "bitmap_ok b \<Longrightarrow> unat i < bm_n b \<Longrightarrow> bitmap_ok (snd (bitmap_set b (uint i)))
    \<and> bm_n (snd (bitmap_set b (uint i))) = bm_n b
    \<and> bitmap_abs (snd (bitmap_set b (uint i))) = insert (unat i) (bitmap_abs b)"
proof -
  assume "bitmap_ok b" "unat i < bm_n b"
  then show ?thesis using set_abs [of b "unat i"] set_ok [of b "uint i"] unfolding uint_nat by auto
qed

text \<open>A frame that carries no chunk, or one that is there, changes nothing but a counter.\<close>

lemma accept_useless:
  assumes "pulling E m data from have w" "\<And>i b. carried E m from x = Some (i, b) \<Longrightarrow> i \<in> have"
    "v_disk E (part_path E (mf_id m))"
  shows "\<exists>c. accept_chunk E x w = bump_w c w"
proof -
  from assms(1) obtain p where p: "w_pulls w = [mf_id m \<mapsto> p]" "pl_man p = m" "pl_peer p = from" "bitmap_abs (pl_bm p) = have"
    by (auto simp: pulling_def)
  show ?thesis
  proof (cases "decode_chunk (v_pchunk E) (e_payload (snd x))")
    case (Inr c)
    show ?thesis
    proof (cases "ck_id c = mf_id m \<and> fst x = from \<and> chunk_len m (ck_index c) \<noteq> 0 \<and> unat (ck_index c) \<notin> have")
      case True
      have "\<not> bitmap_has (pl_bm p) (uint (ck_index c))"
        using True p(4) by (simp add: has_unat)
      moreover have "length b \<noteq> chunk_len m (ck_index c)"
        if "open_chunk (v_crypto E) (mf_key m) (mf_id m) (ck_index c) (ck_payload c) = Inr b" for b
        using assms(2) [of "unat (ck_index c)" b] that True Inr by (auto simp: carried_iff)
      ultimately show ?thesis using Inr p True by (auto simp: accept_chunk_def split: sum.split)
    next
      case False
      then have "w_pulls w (ck_id c) = None \<or> (w_pulls w (ck_id c) = Some p \<and> (fst x \<noteq> pl_peer p
          \<or> chunk_len (pl_man p) (ck_index c) = 0 \<or> bitmap_has (pl_bm p) (uint (ck_index c))))"
        using p by (auto simp: has_unat)
      with Inr show ?thesis by (auto simp: accept_chunk_def)
    qed
  qed (auto simp: accept_chunk_def)
qed

lemma pulling_bump: "pulling E m data from have w \<Longrightarrow> pulling E m data from have (bump_w c w)"
  by (simp add: pulling_def)

lemma update_twice [simp]: "(\<And>r. f_id (f r) = f_id r) \<Longrightarrow> update_file fid g (update_file fid f d) = update_file fid (\<lambda>r. g (f r)) d"
  by (simp add: update_file_def comp_def)

text \<open>A chunk that was missing is written and marked; the last one ends the transfer.\<close>

lemma store_chunk_more:
  assumes D: "describes m data" and P: "pulling E m data from have w" and p: "w_pulls w (mf_id m) = Some p"
    and i: "unat i < chunks m" and more: "insert (unat i) have \<noteq> {..<chunks m}"
  shows "pulling E m data from (insert (unat i) have) (store_chunk E p i (piece m data (unat i)) w)
    \<and> dones (store_chunk E p i (piece m data (unat i)) w) = dones w
    \<and> length (w_rnd w) \<le> length (w_rnd (store_chunk E p i (piece m data (unat i)) w)) + MsgIDLen"
proof -
  from P p have q: "w_pulls w = [mf_id m \<mapsto> p]" "pl_man p = m" "pl_peer p = from" "bitmap_ok (pl_bm p)" "bm_n (pl_bm p) = chunks m"
    "bitmap_abs (pl_bm p) = have" "holds m data have (w_inodes w (pl_fd p))" "w_paths w (part_path E (mf_id m)) = Some (pl_fd p)"
    by (auto simp: pulling_def)
  let ?c = "write_at (unat i * unat (mf_chunk m)) (piece m data (unat i)) (w_inodes w (pl_fd p))"
  define p1 where "p1 = p\<lparr>pl_bm := snd (bitmap_set (pl_bm p) (uint i)), pl_dirty := pl_dirty p + 1\<rparr>"
  define w1 where "w1 = emit (OFileProgress (mf_id m) (bitmap_count (pl_bm p1)) (chunks m))
            (bump_w ''blob.chunksRecv'' (put_pull p1 (w\<lparr>w_inodes := (w_inodes w)(pl_fd p := ?c)\<rparr>)))"
  have b: "bitmap_ok (pl_bm p1)" "bm_n (pl_bm p1) = chunks m" "bitmap_abs (pl_bm p1) = insert (unat i) have"
    using q i set_unat [of "pl_bm p" i] by (simp_all add: p1_def)
  have h: "holds m data (insert (unat i) have) ?c"
    using holds_write [OF D q(7) i] abs_range [of "pl_bm p"] q by (simp add: csize_def)
  have inc: "\<not> bitmap_complete (pl_bm p1)" using more b complete_iff by simp
  define p2 where "p2 = (if dirtyFlush \<le> pl_dirty p1 then p1\<lparr>pl_dirty := 0\<rparr> else p1)"
  define w2 where "w2 = (if dirtyFlush \<le> pl_dirty p1 then persist_pull E p1 False w1 else w1)"
  have st: "store_chunk E p i (piece m data (unat i)) w = (if window_done p2 then request_window E p2 w2 else w2)"
    using inc unfolding store_chunk_def Let_def w2_def p2_def w1_def p1_def q(2) by (simp only: if_False)
  have m1: "pl_man p1 = m" "pl_man p2 = m" "pl_peer p2 = from" "pl_bm p2 = pl_bm p1" "pl_fd p2 = pl_fd p"
    using q by (simp_all add: p1_def p2_def)
  have w2: "w_pulls w2 = [mf_id m \<mapsto> p2]" "w_inodes w2 (pl_fd p2) = ?c" "w_paths w2 = w_paths w" "dones w2 = dones w" "w_rnd w2 = w_rnd w"
    using q m1 by (auto simp: w2_def p2_def w1_def persist_pull_eq)
  have "asked p2 w2 w2" using w2(1) m1(2) unfolding asked_def
    by (intro conjI exI [of _ "pl_window p2"] exI [of _ "pl_at p2"]) simp_all
  moreover have "asked p2 w2 (request_window E p2 w2)" by (rule request_window_asked) (simp add: w2 m1)
  ultimately have a: "asked p2 w2 (store_chunk E p i (piece m data (unat i)) w)" by (simp add: st)
  have "pulling E m data from (insert (unat i) have) (store_chunk E p i (piece m data (unat i)) w)"
    by (rule asked_pulling [OF a]) (use w2 m1 b h q in simp_all)
  with a w2 show ?thesis by (simp add: asked_def)
qed

lemma store_chunk_last:
  assumes D: "describes m data" and P: "pulling E m data from have w" and p: "w_pulls w (mf_id m) = Some p"
    and i: "unat i < chunks m" and full: "insert (unat i) have = {..<chunks m}"
    and hash: "mf_hash m = c_blake (v_crypto E) data" and disk: "v_disk E (part_path E (mf_id m))" "v_disk E (final_path E m)"
    and tape: "NonceSizeX \<le> length (w_rnd w)"
  shows "received E m data (store_chunk E p i (piece m data (unat i)) w)
    \<and> dones (store_chunk E p i (piece m data (unat i)) w) = dones w @ [OFileDone (mf_id m) (final_path E m)]"
proof -
  from P p have q: "w_pulls w = [mf_id m \<mapsto> p]" "pl_man p = m" "bitmap_ok (pl_bm p)" "bm_n (pl_bm p) = chunks m"
    "bitmap_abs (pl_bm p) = have" "holds m data have (w_inodes w (pl_fd p))" "w_paths w (part_path E (mf_id m)) = Some (pl_fd p)"
    by (auto simp: pulling_def)
  let ?c = "write_at (unat i * unat (mf_chunk m)) (piece m data (unat i)) (w_inodes w (pl_fd p))"
  define p1 where "p1 = p\<lparr>pl_bm := snd (bitmap_set (pl_bm p) (uint i)), pl_dirty := pl_dirty p + 1\<rparr>"
  define w1 where "w1 = emit (OFileProgress (mf_id m) (bitmap_count (pl_bm p1)) (chunks m))
            (bump_w ''blob.chunksRecv'' (put_pull p1 (w\<lparr>w_inodes := (w_inodes w)(pl_fd p := ?c)\<rparr>)))"
  have b: "bitmap_abs (pl_bm p1) = {..<chunks m}" "bm_n (pl_bm p1) = chunks m"
    using q i full set_unat [of "pl_bm p" i] by (simp_all add: p1_def)
  have "holds m data {..<chunks m} ?c"
    using holds_write [OF D q(6) i] abs_range [of "pl_bm p"] q full by (simp add: csize_def)
  then have c: "?c = data" by (rule holds_all [OF D])
  have st: "store_chunk E p i (piece m data (unat i)) w = finish_pull E p1 w1"
    using b complete_iff [of "pl_bm p1"] unfolding store_chunk_def Let_def w1_def p1_def q(2) by simp
  have m1: "pl_man p1 = m" "pl_fd p1 = pl_fd p" using q by (simp_all add: p1_def)
  have w1: "w_inodes w1 (pl_fd p) = data" "w_paths w1 = w_paths w" "w_rnd w1 = w_rnd w" "dones w1 = dones w" "w_db w1 = w_db w"
    "w_pulls w1 = [mf_id m \<mapsto> p1]"
    using c m1 q(1) by (simp_all add: w1_def)
  define v where "v = w1\<lparr>w_paths := (w_paths w1)(part_path E (mf_id m) := None, final_path E m \<mapsto> pl_fd p)\<rparr>"
  have ren: "rename_file E (part_path E (mf_id m)) (final_path E m) w1 = Some v"
    using disk q(7) w1 by (simp add: rename_file_def v_def)
  from finish_tx_ok [of v E p1] tape obtain ct where
    tx: "run_tx (finish_tx E p1) v = (Inr (), v\<lparr>w_rnd := drop NonceSizeX (w_rnd v), w_db := update_file (mf_id m)
       (\<lambda>r. r\<lparr>f_path := ct, f_bitmap := bitmap_bytes (pl_bm p1), f_done := True, f_updated := v_now E\<rparr>) (w_db v)\<rparr>)"
    and o: "sealing_ok E \<longrightarrow> box_open E ct (aad_file_path (mf_id m)) = Inr (final_path E m)"
    using w1 m1 by (auto simp: v_def)
  have v: "w_paths v (final_path E m) = Some (pl_fd p)" "w_inodes v (pl_fd p) = data" "w_db v = w_db w" "dones v = dones w"
    "w_pulls v = [mf_id m \<mapsto> p1]"
    using w1 by (simp_all add: v_def)
  have "finish_pull E p1 w1 = (let w' = emit (OFileDone (mf_id m) (final_path E m)) (bump_w ''blob.filesDone'' (snd (run_tx (finish_tx E p1) v)))
      in w'\<lparr>w_pulls := (w_pulls w')(mf_id m := None)\<rparr>)"
    unfolding finish_pull_def check_file_def Let_def m1 ren using w1 hash disk tx by simp
  then have "store_chunk E p i (piece m data (unat i)) w = (let w' = emit (OFileDone (mf_id m) (final_path E m))
      (bump_w ''blob.filesDone'' (snd (run_tx (finish_tx E p1) v))) in w'\<lparr>w_pulls := (w_pulls w')(mf_id m := None)\<rparr>)"
    by (simp only: st)
  then show ?thesis
    using v o by (auto simp: tx Let_def received_def file_row_update)
qed

section \<open>Any order, any rubbish\<close>

lemma accept_useful:
  assumes D: "describes m data" and P: "pulling E m data from have w" and s: "sound_frame E m data from x"
    and c: "carried E m from x = Some (i, b)" and new: "i \<notin> have" and disk: "v_disk E (part_path E (mf_id m))"
  obtains p k where "w_pulls w (mf_id m) = Some p" "i = unat k" "i < chunks m"
    "accept_chunk E x w = store_chunk E p k (piece m data (unat k)) w"
proof -
  from P obtain p where p: "w_pulls w = [mf_id m \<mapsto> p]" "pl_man p = m" "pl_peer p = from" "bitmap_abs (pl_bm p) = have"
    by (auto simp: pulling_def)
  from c obtain ck where ck: "decode_chunk (v_pchunk E) (e_payload (snd x)) = Inr ck" "fst x = from" "ck_id ck = mf_id m"
    "chunk_len m (ck_index ck) \<noteq> 0" "i = unat (ck_index ck)" "length b = chunk_len m (ck_index ck)"
    "open_chunk (v_crypto E) (mf_key m) (mf_id m) (ck_index ck) (ck_payload ck) = Inr b"
    by (auto simp: carried_iff)
  have "b = piece m data (unat (ck_index ck))" using s c ck(5) by (auto simp: sound_frame_def)
  moreover have "\<not> bitmap_has (pl_bm p) (uint (ck_index ck))" using new p(4) ck(5) by (simp add: has_unat)
  ultimately have "accept_chunk E x w = store_chunk E p (ck_index ck) (piece m data (unat (ck_index ck))) w"
    using p ck disk by (simp add: accept_chunk_def)
  moreover have "i < chunks m"
    using chunk_len_zero [of m "ck_index ck"] D ck(4,5) by (simp add: describes_def)
  ultimately show thesis using that p(1) ck(5) by simp
qed

lemma accept_ended:
  assumes "received E m data w"
  shows "received E m data (accept_chunk E x w) \<and> dones (accept_chunk E x w) = dones w"
proof -
  have "\<exists>c. accept_chunk E x w = bump_w c w"
    using assms by (auto simp: received_def accept_chunk_def split: sum.split)
  with assms show ?thesis by (auto simp: received_def)
qed

lemma all_ended:
  "received E m data w \<Longrightarrow> received E m data (fold (accept_chunk E) xs w) \<and> dones (fold (accept_chunk E) xs w) = dones w"
proof (induction xs arbitrary: w)
  case (Cons x xs)
  from accept_ended [OF Cons.prems, of x] Cons.IH [of "accept_chunk E x w"] show ?case by simp
qed simp

lemma arrived_Cons: "arrived E m from (x # xs) = (case carried E m from x of None \<Rightarrow> {} | Some (i, b) \<Rightarrow> {i}) \<union> arrived E m from xs"
  by (auto simp: arrived_def split: option.split)

lemma arrived_range: "describes m data \<Longrightarrow> arrived E m from xs \<subseteq> {..<chunks m}"
  using chunk_len_zero [of m] by (fastforce simp: arrived_def carried_iff describes_def)

lemma accept_all:
  assumes D: "describes m data" and hash: "mf_hash m = c_blake (v_crypto E) data"
    and disk: "v_disk E (part_path E (mf_id m))" "v_disk E (final_path E m)"
  shows "\<forall>x \<in> set xs. sound_frame E m data from x \<Longrightarrow> pulling E m data from have w \<Longrightarrow> have \<subset> {..<chunks m}
    \<Longrightarrow> NonceSizeX + MsgIDLen * length xs \<le> length (w_rnd w)
    \<Longrightarrow> if have \<union> arrived E m from xs = {..<chunks m}
      then received E m data (fold (accept_chunk E) xs w)
        \<and> dones (fold (accept_chunk E) xs w) = dones w @ [OFileDone (mf_id m) (final_path E m)]
      else pulling E m data from (have \<union> arrived E m from xs) (fold (accept_chunk E) xs w)
        \<and> dones (fold (accept_chunk E) xs w) = dones w"
proof (induction xs arbitrary: w "have")
  case Nil
  then show ?case by (auto simp: arrived_def)
next
  case (Cons x xs)
  let ?w = "accept_chunk E x w"
  from Cons.prems have s: "sound_frame E m data from x" "\<forall>y \<in> set xs. sound_frame E m data from y" by simp_all
  show ?case
  proof (cases "\<exists>i b. carried E m from x = Some (i, b) \<and> i \<notin> have")
    case False
    then obtain c where c: "?w = bump_w c w" using accept_useless [OF Cons.prems(2) _ disk(1), of x] by blast
    have u: "have \<union> arrived E m from (x # xs) = have \<union> arrived E m from xs"
      using False by (auto simp: arrived_Cons split: option.split)
    have "NonceSizeX + MsgIDLen * length xs \<le> length (w_rnd ?w)" using Cons.prems(4) c by simp
    from Cons.IH [OF s(2) _ Cons.prems(3) this] pulling_bump [OF Cons.prems(2), of c]
    show ?thesis unfolding u by (simp add: c split: if_splits)
  next
    case True
    then obtain i b where i: "carried E m from x = Some (i, b)" "i \<notin> have" by blast
    from accept_useful [OF D Cons.prems(2) s(1) i disk(1)] obtain p k where
      p: "w_pulls w (mf_id m) = Some p" "i = unat k" "i < chunks m"
      and w: "?w = store_chunk E p k (piece m data (unat k)) w" .
    have u: "have \<union> arrived E m from (x # xs) = insert (unat k) have \<union> arrived E m from xs"
      using i p by (auto simp: arrived_Cons)
    have sub: "insert (unat k) have \<subseteq> {..<chunks m}" using Cons.prems(3) p by auto
    show ?thesis
    proof (cases "insert (unat k) have = {..<chunks m}")
      case True
      have "NonceSizeX \<le> length (w_rnd w)" using Cons.prems(4) by simp
      from store_chunk_last [OF D Cons.prems(2) p(1) _ True hash disk this] p(2,3)
      have e: "received E m data ?w" "dones ?w = dones w @ [OFileDone (mf_id m) (final_path E m)]" by (simp_all add: w)
      have f: "insert (unat k) have \<union> arrived E m from xs = {..<chunks m}"
        using True arrived_range [OF D, of E "from" xs] by blast
      from all_ended [OF e(1), of xs] e(2) show ?thesis unfolding u f by simp
    next
      case False
      from store_chunk_more [OF D Cons.prems(2) p(1) _ False] p(2,3)
      have e: "pulling E m data from (insert (unat k) have) ?w" "dones ?w = dones w" "length (w_rnd w) \<le> length (w_rnd ?w) + MsgIDLen"
        by (simp_all add: w)
      have "NonceSizeX + MsgIDLen * length xs \<le> length (w_rnd ?w)" using Cons.prems(4) e(3) by simp
      from Cons.IH [OF s(2) e(1) _ this] False sub e(2) show ?thesis unfolding u by (auto simp: psubset_eq split: if_splits)
    qed
  qed
qed

text \<open>The first pull of a transfer that was just accepted.\<close>

lemma start_pulling:
  assumes D: "describes m data" and m: "decode_manifest (v_pman E) body = Inr m" and w: "w_pulls w = Map.empty"
    and part: "w_paths w (part_path E (mf_id m)) = None" and disk: "v_disk E (part_path E (mf_id m))"
  shows "pulling E m data from {} (start_pull E (new_transfer E from m body) w)
    \<and> dones (start_pull E (new_transfer E from m body) w) = dones w
    \<and> length (w_rnd w) \<le> length (w_rnd (start_pull E (new_transfer E from m body) w)) + MsgIDLen"
proof -
  define v where "v = w\<lparr>w_paths := (w_paths w)(part_path E (mf_id m) \<mapsto> w_ino w),
      w_inodes := (w_inodes w)(w_ino w := []), w_ino := w_ino w + 1\<rparr>"
  define p where "p = \<lparr>pl_peer = from, pl_man = m, pl_bm = new_bitmap (chunks m),
                 pl_fd = w_ino w, pl_window = [], pl_at = None, pl_dirty = 0\<rparr>"
  have nb: "bitmap_from_bytes (bitmap_bytes (new_bitmap n)) n = new_bitmap n" for n
    by (simp add: bitmap_from_bytes_def bitmap_bytes_def) (simp add: new_bitmap_def)
  have c: "create_file E (part_path E (mf_id m)) w = (Some (w_ino w), v)"
    using part disk by (simp add: create_file_def v_def)
  have st: "start_pull E (new_transfer E from m body) w = request_window E p (put_pull p v)"
    using w m c by (simp add: start_pull_def new_transfer_def p_def nb Let_def)
  have a: "asked p (put_pull p v) (request_window E p (put_pull p v))" by (rule request_window_asked) (simp add: p_def)
  have "pulling E m data from {} (request_window E p (put_pull p v))"
    by (rule asked_pulling [OF a]) (use w new_abs in \<open>auto simp: p_def v_def bitmap_ok_def new_bitmap_def\<close>)
  with a show ?thesis unfolding st by (simp add: asked_def v_def) (simp add: dones_def)
qed

text \<open>
  C20. The receiver of a file is equivalent to copying it. Let a manifest describe
  the sender's file and name its hash. Whatever frames reach the pull, from
  whomever, in whatever order, with whatever repetitions and rubbish between
  them, as long as what opens under the file's key is what the sender sealed:
  once every chunk has arrived the file of its final name is exactly the
  sender's, it is announced once, the pull is over and its row is done, with this
  path. Before that nothing is announced, and the pull holds exactly the
  chunks that have arrived, each in its place.
\<close>

theorem any_order_gives_the_file:
  assumes "describes m data" "mf_hash m = c_blake (v_crypto E) data" "decode_manifest (v_pman E) body = Inr m"
    and "\<forall>x \<in> set xs. sound_frame E m data from x"
    and "w_pulls w = Map.empty" "w_paths w (part_path E (mf_id m)) = None"
    and "v_disk E (part_path E (mf_id m))" "v_disk E (final_path E m)"
    and "NonceSizeX + MsgIDLen * (length xs + 1) \<le> length (w_rnd w)"
    and "w' = fold (accept_chunk E) xs (start_pull E (new_transfer E from m body) w)"
  shows "if arrived E m from xs = {..<chunks m}
      then received E m data w' \<and> dones w' = dones w @ [OFileDone (mf_id m) (final_path E m)]
      else pulling E m data from (arrived E m from xs) w' \<and> dones w' = dones w"
proof -
  let ?v = "start_pull E (new_transfer E from m body) w"
  from assms(1) have valid: "validate_manifest m" by (simp add: describes_def)
  note V = valid_sizes [OF valid]
  have "0 < chunks m" using chunks_cover [OF V(3,1), of 0] V(1) by (simp add: chunks_div [OF valid])
  then have "{} \<subset> {..<chunks m}" by auto
  moreover note v = start_pulling [OF assms(1,3,5,6,7), of "from"]
  moreover have "NonceSizeX + MsgIDLen * length xs \<le> length (w_rnd ?v)" using v assms(9) by simp
  ultimately show ?thesis
    using accept_all [OF assms(1,2,7,8,4), of "{}" ?v] unfolding assms(10) by (auto split: if_splits)
qed

text \<open>A file of five bytes in three chunks, arriving as 2, 0, 0, rubbish, 1.\<close>

definition demo_file :: bytes where "demo_file = [9, 8, 7, 6, 5]"

definition demo_chunk :: "nat \<Rightarrow> chunk" where
  "demo_chunk i = \<lparr>ck_id = replicate 16 1, ck_index = of_nat i,
     ck_payload = seal_chunk demo_crypto (replicate 32 2) (replicate 16 1) (of_nat i) (piece demo_manifest demo_file i)\<rparr>"

definition demo_puller :: env where
  "demo_puller = demo_env\<lparr>v_pman := one_pb [1] demo_manifest,
     v_pchunk := table_pb [(demo_chunk 0, [0]), (demo_chunk 1, [1]), (demo_chunk 2, [2])]\<rparr>"

definition demo_frame :: "byte \<Rightarrow> peer_id \<times> envelope" where
  "demo_frame b = (PeerID [7], \<lparr>e_id = [], e_type = TypeFileChunk, e_seq = 0, e_lamport = 0, e_payload = [b]\<rparr>)"

lemma demo_sizes: "chunks demo_manifest = 3" "chunk_len demo_manifest 0 = 2" "chunk_len demo_manifest 1 = 2"
  "chunk_len demo_manifest 2 = 1"
  by (simp_all add: chunks_def chunk_len_def demo_manifest_def)

lemma demo_describes: "describes demo_manifest demo_file"
  using decode_manifest_valid [OF demo_manifest_ok] by (simp add: describes_def fsize_def demo_file_def) (simp add: demo_manifest_def)

lemma demo_pieces: "piece demo_manifest demo_file 0 = [9, 8]" "piece demo_manifest demo_file 1 = [7, 6]"
  "piece demo_manifest demo_file 2 = [5]"
  "piece demo_manifest demo_file (Suc 0) = [7, 6]"
  by (simp_all add: piece_def demo_sizes demo_file_def csize_def) (simp_all add: demo_manifest_def)

lemma demo_decodes:
  "decode_chunk (v_pchunk demo_puller) [0] = Inr (demo_chunk 0)" "decode_chunk (v_pchunk demo_puller) [1] = Inr (demo_chunk 1)"
  "decode_chunk (v_pchunk demo_puller) [2] = Inr (demo_chunk 2)" "decode_chunk (v_pchunk demo_puller) [3] = Inl BErrMalformed"
  by (simp_all add: demo_puller_def table_pb_def decode_chunk_def demo_chunk_def ChunkSize_def seal_chunk_def demo_crypto_def demo_pieces length_demo_tag)

lemma demo_carried:
  "carried demo_puller demo_manifest (PeerID [7]) (demo_frame 0) = Some (0, piece demo_manifest demo_file 0)"
  "carried demo_puller demo_manifest (PeerID [7]) (demo_frame 1) = Some (1, piece demo_manifest demo_file 1)"
  "carried demo_puller demo_manifest (PeerID [7]) (demo_frame 2) = Some (2, piece demo_manifest demo_file 2)"
  "carried demo_puller demo_manifest (PeerID [7]) (demo_frame 3) = None"
proof -
  have m: "mf_id demo_manifest = replicate 16 1" "mf_key demo_manifest = replicate 32 2" by (simp_all add: demo_manifest_def)
  have c: "v_crypto demo_puller = demo_crypto" by (simp add: demo_puller_def demo_env_def)
  note o = open_seal_chunk [OF demo_aead_correct]
  show "carried demo_puller demo_manifest (PeerID [7]) (demo_frame 0) = Some (0, piece demo_manifest demo_file 0)"
    "carried demo_puller demo_manifest (PeerID [7]) (demo_frame 1) = Some (1, piece demo_manifest demo_file 1)"
    "carried demo_puller demo_manifest (PeerID [7]) (demo_frame 2) = Some (2, piece demo_manifest demo_file 2)"
    "carried demo_puller demo_manifest (PeerID [7]) (demo_frame 3) = None"
    by (simp_all add: carried_def demo_frame_def demo_decodes) (simp_all add: demo_chunk_def m c o demo_sizes demo_pieces)
qed

theorem any_order_gives_the_file_witness:
  "\<exists>w'. w' = fold (accept_chunk demo_puller) (map demo_frame [2, 0, 0, 3, 1])
      (start_pull demo_puller (new_transfer demo_puller (PeerID [7]) demo_manifest [1]) (new_world (replicate 200 0)))
    \<and> received demo_puller demo_manifest [9, 8, 7, 6, 5] w'
    \<and> dones w' = [OFileDone (replicate 16 1) (final_path demo_puller demo_manifest)]"
proof -
  let ?w = "new_world (replicate 200 0)" and ?xs = "map demo_frame [2, 0, 0, 3, 1]"
  have h: "mf_hash demo_manifest = c_blake (v_crypto demo_puller) demo_file"
    by (simp add: demo_manifest_def demo_puller_def demo_env_def demo_crypto_def demo_pad_def demo_file_def)
  have b: "decode_manifest (v_pman demo_puller) [1] = Inr demo_manifest"
    using demo_manifest_ok by (simp add: demo_puller_def)
  have s: "\<forall>x \<in> set ?xs. sound_frame demo_puller demo_manifest demo_file (PeerID [7]) x"
    by (auto simp: sound_frame_def demo_carried)
  have a: "arrived demo_puller demo_manifest (PeerID [7]) ?xs = {..<chunks demo_manifest}"
    by (auto simp: arrived_Cons demo_carried demo_sizes) (simp_all add: arrived_def)
  have d: "v_disk demo_puller p" for p by (simp add: demo_puller_def demo_env_def)
  have "dones ?w = []" by (simp add: dones_def new_world_def)
  moreover have "mf_id demo_manifest = replicate 16 1" by (simp add: demo_manifest_def)
  ultimately show ?thesis
    using any_order_gives_the_file [OF demo_describes h b s _ _ d d _ refl, of ?w] a
    by (simp add: new_world_def NonceSizeX_def MsgIDLen_def demo_file_def)
qed

section \<open>Serving\<close>

text \<open>A served frame is an envelope to the peer with the chunk of its index.\<close>

definition serves :: "env \<Rightarrow> manifest \<Rightarrow> bytes \<Rightarrow> peer_id \<Rightarrow> u32 \<Rightarrow> out \<Rightarrow> bool" where
  "serves E m data to i x \<longleftrightarrow> (\<exists>frame e. x = OSend to frame \<and> decode_env (v_penv E) frame = Inr e \<and> e_type e = TypeFileChunk
     \<and> decode_chunk (v_pchunk E) (e_payload e) = Inr \<lparr>ck_id = mf_id m, ck_index = i,
        ck_payload = seal_chunk (v_crypto E) (mf_key m) (mf_id m) i (piece m data (unat i))\<rparr>)"

text \<open>What it takes to send the chunk \<open>i\<close> when the random source stands at \<open>r\<close>.\<close>

definition serveable :: "env \<Rightarrow> manifest \<Rightarrow> bytes \<Rightarrow> peer_id \<Rightarrow> u32 \<Rightarrow> reader \<Rightarrow> bool" where
  "serveable E m data to i r \<longleftrightarrow> MsgIDLen \<le> length r \<and> chunk_len m i \<noteq> 0
     \<and> unat i * csize m + chunk_len m i \<le> length data
     \<and> (\<exists>b f. encode_chunk (v_pchunk E) \<lparr>ck_id = mf_id m, ck_index = i,
           ck_payload = seal_chunk (v_crypto E) (mf_key m) (mf_id m) i (piece m data (unat i))\<rparr> = Inr b
         \<and> encode_env (v_penv E) \<lparr>e_id = take MsgIDLen r, e_type = TypeFileChunk, e_seq = 0, e_lamport = 0,
             e_payload = b\<rparr> = Inr f \<and> v_link E to f)"

lemma serve_one:
  assumes codecs: "\<forall>q. pb_roundtrip (v_pchunk E) q" "\<forall>q. pb_roundtrip (v_penv E) q" and id: "length (mf_id m) = 16"
  shows "if serveable E m data to i (w_rnd w)
    then \<exists>x. serve_each E to m data (i # is) w = serve_each E to m data is
        (bump_w ''blob.chunksSent'' (emit x (w\<lparr>w_rnd := drop MsgIDLen (w_rnd w)\<rparr>))) \<and> serves E m data to i x
    else w_out (serve_each E to m data (i # is) w) = w_out w"
proof -
  let ?p = "seal_chunk (v_crypto E) (mf_key m) (mf_id m) i (piece m data (unat i))"
  let ?c = "\<lparr>ck_id = mf_id m, ck_index = i, ck_payload = ?p\<rparr>"
  let ?e = "\<lambda>b. \<lparr>e_id = take MsgIDLen (w_rnd w), e_type = TypeFileChunk, e_seq = 0, e_lamport = 0, e_payload = b\<rparr>"
  have pc: "take (chunk_len m i) (drop (unat i * unat (mf_chunk m)) data) = piece m data (unat i)"
    by (simp add: piece_def csize_def)
  show ?thesis
  proof (cases "serveable E m data to i (w_rnd w)")
    case True
    then obtain b f where bf: "encode_chunk (v_pchunk E) ?c = Inr b" "encode_env (v_penv E) (?e b) = Inr f" "v_link E to f"
      and r: "MsgIDLen \<le> length (w_rnd w)" "chunk_len m i \<noteq> 0" "unat i * csize m + chunk_len m i \<le> length data"
      by (auto simp: serveable_def)
    have "serve_each E to m data (i # is) w = serve_each E to m data is
        (bump_w ''blob.chunksSent'' (emit (OSend to f) (w\<lparr>w_rnd := drop MsgIDLen (w_rnd w)\<rparr>)))"
      using r bf by (simp add: Let_def pc csize_def new_msg_id_def read_full_def send_def)
    moreover have "decode_env (v_penv E) f = Inr (?e b)"
      using envelope_roundtrip [OF bf(2)] codecs r(1) by simp
    moreover have "decode_chunk (v_pchunk E) b = Inr ?c"
      using bf(1) codecs(1) id by (auto simp: encode_chunk_def decode_chunk_def pb_roundtrip_def split: if_splits option.splits)
    ultimately show ?thesis using True by (auto simp: serves_def)
  next
    case False
    then show ?thesis
      by (auto simp: serveable_def Let_def pc csize_def new_msg_id_def read_full_def send_def split: sum.split)
  qed
qed

lemma serve_all:
  assumes codecs: "\<forall>q. pb_roundtrip (v_pchunk E) q" "\<forall>q. pb_roundtrip (v_penv E) q" and id: "length (mf_id m) = 16"
  shows "\<exists>sent. w_out (serve_each E to m data is w) = w_out w @ sent \<and> length sent \<le> length is
    \<and> list_all2 (serves E m data to) (take (length sent) is) sent
    \<and> (length sent < length is \<longrightarrow> \<not> serveable E m data to (is ! length sent) (drop (MsgIDLen * length sent) (w_rnd w)))"
proof (induction "is" arbitrary: w)
  case (Cons i "is")
  show ?case
  proof (cases "serveable E m data to i (w_rnd w)")
    case True
    let ?w = "w\<lparr>w_rnd := drop MsgIDLen (w_rnd w)\<rparr>"
    from serve_one [OF codecs id, of data to i w "is"] True obtain x where
      x: "serve_each E to m data (i # is) w = serve_each E to m data is (bump_w ''blob.chunksSent'' (emit x ?w))"
      "serves E m data to i x" by auto
    from Cons.IH [of "bump_w ''blob.chunksSent'' (emit x ?w)"] obtain sent where
      s: "w_out (serve_each E to m data is (bump_w ''blob.chunksSent'' (emit x ?w))) = w_out w @ x # sent" "length sent \<le> length is"
      "list_all2 (serves E m data to) (take (length sent) is) sent"
      "length sent < length is \<longrightarrow> \<not> serveable E m data to (is ! length sent) (drop (MsgIDLen * length sent) (drop MsgIDLen (w_rnd w)))"
      by auto
    then show ?thesis using x by (intro exI [of _ "x # sent"]) (simp add: add.commute)
  next
    case False
    with serve_one [OF codecs id, of data to i w "is"] show ?thesis by (intro exI [of _ "[]"]) simp
  qed
qed simp

lemma decode_request_window: "decode_request P b = Inr req \<Longrightarrow> 0 < length (rq_idx req) \<and> length (rq_idx req) \<le> Window"
  by (auto simp: decode_request_def bindR_Inr_iff split: if_splits)

text \<open>
  C22. Only the addressee of an offer is served, and exactly what was asked. A
  request sends nothing unless the store holds a transfer of this identifier that we
  offered to this very peer. Then the frames sent carry, in the order of
  the request, the chunks asked for, at most one window of them, each sealed from
  its place in the file; the sending stops early exactly at a chunk that is
  not in the file, cannot be encoded, or that the network does not take. The
  database and the disk are never changed by a request.
\<close>

theorem only_the_addressee_is_served:
  assumes "\<forall>q. pb_roundtrip (v_pchunk E) q" "\<forall>q. pb_roundtrip (v_penv E) q"
  shows "\<exists>sent. w_out (serve_request E (from, e) w) = w_out w @ sent
    \<and> w_db (serve_request E (from, e) w) = w_db w \<and> w_inodes (serve_request E (from, e) w) = w_inodes w
    \<and> w_paths (serve_request E (from, e) w) = w_paths w
    \<and> (sent = [] \<or> (\<exists>req rec. decode_request (v_preq E) (e_payload e) = Inr req
        \<and> file_get E (rq_id req) (w_db w) = Inr (Some rec) \<and> f_out rec \<and> f_peer rec = from))
    \<and> (\<forall>req rec m i. decode_request (v_preq E) (e_payload e) = Inr req
        \<and> file_get E (rq_id req) (w_db w) = Inr (Some rec) \<and> f_out rec \<and> f_peer rec = from
        \<and> decode_manifest (v_pman E) (f_man rec) = Inr m \<and> open_file E (f_path rec) w = Some i \<longrightarrow>
          length sent \<le> length (rq_idx req) \<and> length (rq_idx req) \<le> Window
          \<and> list_all2 (serves E m (w_inodes w i) from) (take (length sent) (rq_idx req)) sent
          \<and> (length sent < length (rq_idx req) \<longrightarrow>
              \<not> serveable E m (w_inodes w i) from (rq_idx req ! length sent) (drop (MsgIDLen * length sent) (w_rnd w))))"
proof -
  have each: "w_db (serve_each E to m data is v) = w_db v \<and> w_inodes (serve_each E to m data is v) = w_inodes v
      \<and> w_paths (serve_each E to m data is v) = w_paths v" for to m data "is" v
    by (induction "is" arbitrary: v) (auto simp: Let_def send_def split: sum.split prod.split)
  show ?thesis
  proof (cases "\<exists>req rec m i. decode_request (v_preq E) (e_payload e) = Inr req
        \<and> file_get E (rq_id req) (w_db w) = Inr (Some rec) \<and> f_out rec \<and> f_peer rec = from
        \<and> decode_manifest (v_pman E) (f_man rec) = Inr m \<and> open_file E (f_path rec) w = Some i")
    case True
    then obtain req rec m i where q: "decode_request (v_preq E) (e_payload e) = Inr req"
      "file_get E (rq_id req) (w_db w) = Inr (Some rec)" "f_out rec" "f_peer rec = from"
      "decode_manifest (v_pman E) (f_man rec) = Inr m" "open_file E (f_path rec) w = Some i" by blast
    have s: "serve_request E (from, e) w = serve_each E from m (w_inodes w i) (rq_idx req) w"
      using q by (simp add: serve_request_def)
    from decode_manifest_valid [OF q(5)] have "length (mf_id m) = 16" by simp
    from serve_all [OF assms this, of "from" "w_inodes w i" "rq_idx req" w] obtain sent where
      "w_out (serve_request E (from, e) w) = w_out w @ sent" "length sent \<le> length (rq_idx req)"
      "list_all2 (serves E m (w_inodes w i) from) (take (length sent) (rq_idx req)) sent"
      "length sent < length (rq_idx req) \<longrightarrow>
        \<not> serveable E m (w_inodes w i) from (rq_idx req ! length sent) (drop (MsgIDLen * length sent) (w_rnd w))"
      unfolding s by blast
    with q decode_request_window [OF q(1)] each show ?thesis unfolding s by (intro exI [of _ sent]) simp
  next
    case False
    then have "\<exists>c. serve_request E (from, e) w = bump_w c w"
      by (auto simp: serve_request_def split: sum.split option.split)
    with False show ?thesis by (intro exI [of _ "[]"]) auto
  qed
qed

text \<open>A server with the demonstration file, asked for its last chunk.\<close>

definition demo_request :: request where
  "demo_request = \<lparr>rq_id = replicate 16 1, rq_idx = [2]\<rparr>"

definition demo_served :: envelope where
  "demo_served = \<lparr>e_id = replicate 16 0, e_type = TypeFileChunk, e_seq = 0, e_lamport = 0, e_payload = [2]\<rparr>"

definition demo_server :: env where
  "demo_server = demo_puller\<lparr>v_preq := one_pb [14] demo_request, v_penv := table_pb [(env_to_pb demo_served, [77])]\<rparr>"

definition demo_offer :: frow where
  "demo_offer = \<lparr>f_id = replicate 16 1, f_peer = PeerID [7], f_out = True, f_man = [1], f_path = [97], f_bitmap = [],
     f_done = True, f_created = 0, f_updated = 0\<rparr>"

lemma demo_serveable: "serveable demo_server demo_manifest demo_file (PeerID [7]) 2 (replicate 100 0)"
proof -
  have m: "mf_id demo_manifest = replicate 16 1" "mf_key demo_manifest = replicate 32 2" "csize demo_manifest = 2"
    by (simp_all add: demo_manifest_def csize_def)
  have c: "v_crypto demo_server = demo_crypto" "v_pchunk demo_server = v_pchunk demo_puller" "v_link demo_server = (\<lambda>_ _. True)"
    by (simp_all add: demo_server_def demo_puller_def demo_env_def)
  have "encode_chunk (v_pchunk demo_puller) (demo_chunk 2) = Inr [2]"
    by (simp add: demo_puller_def table_pb_def encode_chunk_def)
      (simp add: demo_chunk_def ChunkSize_def seal_chunk_def demo_crypto_def demo_pieces length_demo_tag)
  then have b: "encode_chunk (v_pchunk demo_server) \<lparr>ck_id = mf_id demo_manifest, ck_index = 2,
           ck_payload = seal_chunk (v_crypto demo_server) (mf_key demo_manifest) (mf_id demo_manifest) 2
             (piece demo_manifest demo_file (unat (2 :: u32)))\<rparr> = Inr [2]"
    by (simp add: m c demo_chunk_def)
  have "encode_env (v_penv demo_server) demo_served = Inr [77]"
    by (simp add: demo_server_def table_pb_def encode_env_def) (simp add: demo_served_def validate_env_def TypeFileChunk_def TypeAck_def maxType_def MaxPayload_def TypeCallHangup_def)
  then have "encode_env (v_penv demo_server) \<lparr>e_id = take MsgIDLen (replicate 100 0), e_type = TypeFileChunk, e_seq = 0,
      e_lamport = 0, e_payload = [2]\<rparr> = Inr [77]"
    by (simp add: demo_served_def MsgIDLen_def)
  with b show ?thesis
    unfolding serveable_def c(3) by (simp add: demo_sizes m demo_file_def MsgIDLen_def)
qed

theorem only_the_addressee_is_served_witness:
  "\<exists>w x. w_out w = [] \<and> w_out (serve_request demo_server (PeerID [7], demo_served\<lparr>e_payload := [14]\<rparr>) w) = [x]
     \<and> serves demo_server demo_manifest demo_file (PeerID [7]) 2 x
     \<and> w_out (serve_request demo_server (PeerID [8], demo_served\<lparr>e_payload := [14]\<rparr>) w) = []"
proof -
  let ?E = demo_server and ?e = "demo_served\<lparr>e_payload := [14]\<rparr>"
  let ?w0 = "(new_world (replicate 148 0))\<lparr>w_paths := [[97] \<mapsto> 0], w_inodes := (\<lambda>_. demo_file)\<rparr>"
  have "2 * NonceSizeX \<le> length (w_rnd ?w0)" by (simp add: NonceSizeX_def new_world_def)
  from file_put_ok [OF this, of ?E demo_offer "[]"] obtain man path where
    put: "file_put ?E demo_offer (?w0, []) = (Inr (), (?w0\<lparr>w_rnd := drop (2 * NonceSizeX) (w_rnd ?w0),
       w_db := (w_db ?w0)\<lparr>d_files := put_file demo_offer man path (d_files (w_db ?w0))\<rparr>\<rparr>, []))" by blast
  define w where "w = ?w0\<lparr>w_rnd := drop (2 * NonceSizeX) (w_rnd ?w0),
       w_db := (w_db ?w0)\<lparr>d_files := put_file demo_offer man path (d_files (w_db ?w0))\<rparr>\<rparr>"
  have s: "sealing_ok ?E" using demo_xaead_correct by (simp add: sealing_ok_def demo_server_def demo_puller_def demo_env_def)
  have "f_id demo_offer = replicate 16 1" by (simp add: demo_offer_def)
  with file_put_get [OF s put] have g: "file_get ?E (replicate 16 1) (w_db w) = Inr (Some demo_offer)"
    unfolding w_def by (simp add: file_row_def new_world_def empty_db_def)
  have w: "w_out w = []" "w_rnd w = replicate 100 0" "open_file ?E [97] w = Some 0" "w_inodes w 0 = demo_file"
    by (simp_all add: w_def new_world_def NonceSizeX_def open_file_def demo_server_def demo_puller_def demo_env_def)
  have r: "decode_request (v_preq ?E) (e_payload ?e) = Inr demo_request"
    by (simp add: demo_server_def decode_request_def) (simp add: demo_request_def Window_def)
  have m: "decode_manifest (v_pman ?E) [1] = Inr demo_manifest"
    using demo_manifest_ok by (simp add: demo_server_def demo_puller_def)
  have q: "rq_id demo_request = replicate 16 1" "rq_idx demo_request = [2]" by (simp_all add: demo_request_def)
  have o: "f_out demo_offer" "f_peer demo_offer = PeerID [7]" "f_man demo_offer = [1]" "f_path demo_offer = [97]"
    by (simp_all add: demo_offer_def)
  have laws: "\<forall>c. pb_roundtrip (v_pchunk ?E) c" "\<forall>c. pb_roundtrip (v_penv ?E) c"
    by (simp_all add: demo_server_def demo_puller_def table_pb_law)
  from only_the_addressee_is_served [OF laws, of "PeerID [7]" ?e w] obtain sent where
    "w_out (serve_request ?E (PeerID [7], ?e) w) = sent" and
    S: "\<forall>req rec m i. decode_request (v_preq ?E) (e_payload ?e) = Inr req
        \<and> file_get ?E (rq_id req) (w_db w) = Inr (Some rec) \<and> f_out rec \<and> f_peer rec = PeerID [7]
        \<and> decode_manifest (v_pman ?E) (f_man rec) = Inr m \<and> open_file ?E (f_path rec) w = Some i \<longrightarrow>
          length sent \<le> length (rq_idx req) \<and> length (rq_idx req) \<le> Window
          \<and> list_all2 (serves ?E m (w_inodes w i) (PeerID [7])) (take (length sent) (rq_idx req)) sent
          \<and> (length sent < length (rq_idx req) \<longrightarrow>
              \<not> serveable ?E m (w_inodes w i) (PeerID [7]) (rq_idx req ! length sent) (drop (MsgIDLen * length sent) (w_rnd w)))"
    unfolding w(1) append_Nil by blast
  have "decode_request (v_preq ?E) (e_payload ?e) = Inr demo_request
        \<and> file_get ?E (rq_id demo_request) (w_db w) = Inr (Some demo_offer) \<and> f_out demo_offer \<and> f_peer demo_offer = PeerID [7]
        \<and> decode_manifest (v_pman ?E) (f_man demo_offer) = Inr demo_manifest \<and> open_file ?E (f_path demo_offer) w = Some 0"
    by (simp only: r g q o m w simp_thms)
  from S [rule_format, OF this, unfolded q w(2,4)]
  have "length sent \<le> 1" "list_all2 (serves ?E demo_manifest demo_file (PeerID [7])) (take (length sent) [2]) sent"
    "length sent < 1 \<longrightarrow> \<not> serveable ?E demo_manifest demo_file (PeerID [7]) ([2] ! length sent) (drop (MsgIDLen * length sent) (replicate 100 0))"
    by simp_all
  with demo_serveable obtain x where x: "sent = [x]" "serves ?E demo_manifest demo_file (PeerID [7]) 2 x"
    by (cases sent) auto
  from only_the_addressee_is_served [OF laws, of "PeerID [8]" ?e w] r g q o
  have "w_out (serve_request ?E (PeerID [8], ?e) w) = []" by (auto simp: w(1))
  with x w(1) \<open>w_out (serve_request ?E (PeerID [7], ?e) w) = sent\<close> show ?thesis by blast
qed

end
