(* ===== verification/BlobRun.thy ===== *)
theory BlobRun
  imports BlobPull
begin

text \<open>
  The file transfer over whole runs: an invariant of the active pulls that every
  operation of the engine keeps, whatever peers send; what is announced as done;
  where files are put; and what a pull with all its chunks can still do.
\<close>

section \<open>Where files are put\<close>

definition final_leaf :: "manifest \<Rightarrow> bytes" where
  "final_leaf m = str_bytes (hex_encode (take 4 (mf_id m))) @ [45]
     @ (if sanitize_name (mf_name m) = [slash] then [] else sanitize_name (mf_name m))"

definition part_leaf :: "bytes \<Rightarrow> bytes" where
  "part_leaf fid = str_bytes (hex_encode fid) @ [46, 112, 97, 114, 116]"

lemma suffixes: "str_bytes ''-'' = [45]" "str_bytes ''.part'' = [46, 112, 97, 114, 116]"
  by (simp_all add: str_bytes_def)

lemma slash_not_hex: "slash \<notin> set (str_bytes (hex_encode b))"
  using hex_no_slash [of b] by auto

lemma leaf_okI: "slash \<notin> set c \<Longrightarrow> x \<in> set c \<Longrightarrow> x \<noteq> dot \<Longrightarrow> leaf_ok c"
  by (auto simp: leaf_ok_def)

lemma leaves_ok: "leaf_ok (final_leaf m)" "leaf_ok (part_leaf fid)"
proof -
  show "leaf_ok (final_leaf m)"
    by (rule leaf_okI [where x = 45]) (use slash_not_hex sanitize_plain [of "mf_name m"] in \<open>auto simp: final_leaf_def\<close>)
  show "leaf_ok (part_leaf fid)"
    by (rule leaf_okI [where x = 112]) (use slash_not_hex in \<open>auto simp: part_leaf_def\<close>)
qed

lemma part_path_leaf: "clean_dir (v_dir E) \<Longrightarrow> part_path E fid = v_dir E @ slash # part_leaf fid"
  using join_leaf(1) [OF _ leaves_ok(2), of "v_dir E" fid] by (simp add: part_path_def part_leaf_def suffixes)

lemma final_path_leaf: "clean_dir (v_dir E) \<Longrightarrow> final_path E m = v_dir E @ slash # final_leaf m"
proof -
  assume d: "clean_dir (v_dir E)"
  show ?thesis
  proof (cases "sanitize_name (mf_name m) = [slash]")
    case True
    then have "final_path E m = path_join (v_dir E) (final_leaf m @ [slash])"
      by (simp add: final_path_def final_leaf_def suffixes)
    then show ?thesis by (simp add: join_leaf(2) [OF d leaves_ok(1)])
  next
    case False
    then have "final_path E m = path_join (v_dir E) (final_leaf m)"
      by (simp add: final_path_def final_leaf_def suffixes)
    then show ?thesis by (simp add: join_leaf(1) [OF d leaves_ok(1)])
  qed
qed

lemma of_char_byte_inj: "of_char a = (of_char b :: byte) \<Longrightarrow> a = b"
proof -
  assume e: "of_char a = (of_char b :: byte)"
  have u: "unat (of_char c :: byte) = of_char c" for c :: char
  proof -
    have "(of_char c :: nat) < 256" by simp
    moreover have "(of_char c :: byte) = of_nat (of_char c)" by (simp add: of_char_def)
    ultimately show ?thesis by (simp add: unat_of_nat)
  qed
  from e have "(of_char a :: nat) = of_char b" by (metis u)
  then show ?thesis by (simp add: of_char_eq_iff)
qed

lemma str_bytes_inj: "str_bytes a = str_bytes b \<longleftrightarrow> a = b"
  unfolding str_bytes_def using of_char_byte_inj by (intro inj_map_eq_map injI)

lemma part_path_inj: "clean_dir (v_dir E) \<Longrightarrow> part_path E a = part_path E b \<Longrightarrow> a = b"
  by (simp add: part_path_leaf part_leaf_def str_bytes_inj hex_encode_inj)

text \<open>The ninth byte tells a partial file from a finished one.\<close>

lemma part_not_final:
  assumes "clean_dir (v_dir E)" "length (mf_id m) = 16" "length fid = 16"
  shows "final_path E m \<noteq> part_path E fid"
proof
  assume "final_path E m = part_path E fid"
  then have e: "final_leaf m ! 8 = part_leaf fid ! 8" by (simp add: part_path_leaf final_path_leaf assms(1))
  have "final_leaf m ! 8 = 45" using assms(2) by (simp add: final_leaf_def nth_append)
  moreover have "part_leaf fid ! 8 \<in> set (str_bytes (hex_encode fid))"
    using assms(3) by (simp add: part_leaf_def nth_append)
  ultimately show False using e hex_no_slash [of fid] by auto
qed

text \<open>
  C23. A file a peer offers is put directly into the directory of incoming files,
  whatever name its manifest has: the path is this directory, a slash and one
  more component that is not empty, not a dot or two dots and has no slash. And it
  is never the path of a partial file of any transfer.
\<close>

theorem names_stay_inside:
  assumes "clean_dir (v_dir E)" "decode_manifest (v_pman E) body = Inr m"
  shows "\<exists>leaf. final_path E m = v_dir E @ slash # leaf \<and> leaf \<notin> {[], [dot], [dot, dot]} \<and> slash \<notin> set leaf
    \<and> (\<forall>b m'. decode_manifest (v_pman E) b = Inr m' \<longrightarrow> final_path E m \<noteq> part_path E (mf_id m'))"
proof -
  have "final_path E m \<noteq> part_path E (mf_id m')" if "decode_manifest (v_pman E) b = Inr m'" for b m'
    by (rule part_not_final [OF assms(1)]) (use decode_manifest_valid [OF assms(2)] decode_manifest_valid [OF that] in simp_all)
  then show ?thesis
    using final_path_leaf [OF assms(1), of m] leaves_ok(1) [of m] by (auto simp: leaf_ok_def)
qed

definition demo_traveller :: manifest where
  "demo_traveller = demo_manifest\<lparr>mf_name := str_bytes ''../../etc/..'' @ [92] @ str_bytes ''passwd''\<rparr>"

lemma demo_dir: "clean_dir (str_bytes ''/home/files'')"
  unfolding clean_dir_def by code_simp

theorem names_stay_inside_witness:
  "\<exists>E. final_path E demo_traveller = str_bytes ''/home/files/01010101-passwd''
     \<and> (\<exists>leaf. final_path E demo_traveller = v_dir E @ slash # leaf \<and> slash \<notin> set leaf)"
proof -
  let ?E = "demo_env\<lparr>v_pman := one_pb [1] demo_traveller, v_dir := str_bytes ''/home/files''\<rparr>"
  have m: "decode_manifest (v_pman ?E) [1] = Inr demo_traveller"
    using demo_manifest_ok
    by (auto simp: decode_manifest_def validate_manifest_def demo_traveller_def chunks_def maxNameLen_def split: if_splits)
  have "final_path ?E demo_traveller = v_dir ?E @ slash # final_leaf demo_traveller"
    using demo_dir by (intro final_path_leaf) simp
  moreover have "final_leaf demo_traveller = str_bytes ''01010101-passwd''" by code_simp
  moreover have "str_bytes ''/home/files'' @ slash # str_bytes ''01010101-passwd'' = str_bytes ''/home/files/01010101-passwd''"
    by (simp add: str_bytes_def)
  ultimately show ?thesis
    using names_stay_inside [OF _ m] demo_dir by (intro exI [of _ ?E]) auto
qed

section \<open>The engine's operations\<close>

datatype blob_op =
  BOffer env peer_id bytes | BManifest env peer_id bytes bool | BDelete env bytes | BResume env | BPull env
  | BDrop env | BChunk env | BTick env "bytes list" | BServe env | BFrame env peer_id envelope | BAsk env peer_id envelope

fun blob_step :: "blob_op \<Rightarrow> world \<Rightarrow> world" where
  "blob_step (BOffer E to path) w = snd (offer E to path w)"
| "blob_step (BManifest E from body ok) w = attempted (on_manifest E from body) ok w"
| "blob_step (BDelete E fid) w = snd (delete_file E fid w)"
| "blob_step (BResume E) w = resume_pulls E w"
| "blob_step (BPull E) w = next_pull E w"
| "blob_step (BDrop E) w = next_drop w"
| "blob_step (BChunk E) w = next_chunk E w"
| "blob_step (BTick E order) w = blob_tick E order w"
| "blob_step (BServe E) w = next_request E w"
| "blob_step (BFrame E from e) w = handle_chunk E from e w"
| "blob_step (BAsk E from e) w = handle_chunk_req E from e w"

definition blob_steps :: "blob_op list \<Rightarrow> world \<Rightarrow> world" where
  "blob_steps ops w = fold blob_step ops w"

fun blob_env :: "blob_op \<Rightarrow> env" where
  "blob_env (BOffer E to path) = E" | "blob_env (BManifest E from body ok) = E" | "blob_env (BDelete E fid) = E"
| "blob_env (BResume E) = E" | "blob_env (BPull E) = E" | "blob_env (BDrop E) = E" | "blob_env (BChunk E) = E"
| "blob_env (BTick E order) = E" | "blob_env (BServe E) = E" | "blob_env (BFrame E from e) = E" | "blob_env (BAsk E from e) = E"

definition same_transfer :: "env \<Rightarrow> env \<Rightarrow> bool" where
  "same_transfer E E' \<longleftrightarrow> v_crypto E' = v_crypto E \<and> v_key E' = v_key E \<and> v_dir E' = v_dir E \<and> v_pman E' = v_pman E"

text \<open>A record to pull: it is pulled to its partial file, and its manifest is its own.\<close>

definition part_rec :: "env \<Rightarrow> frow \<Rightarrow> bool" where
  "part_rec E rec \<longleftrightarrow> f_path rec = part_path E (f_id rec)
     \<and> (\<forall>m. decode_manifest (v_pman E) (f_man rec) = Inr m \<longrightarrow> mf_id m = f_id rec)"

text \<open>What the store lists after a restart must be such records.\<close>

fun blob_fine :: "env \<Rightarrow> blob_op list \<Rightarrow> world \<Rightarrow> bool" where
  "blob_fine E [] w = True"
| "blob_fine E (op # ops) w = (same_transfer E (blob_env op)
     \<and> (case op of BResume E' \<Rightarrow> (case file_list_unfinished E' (w_db w) of Inl e \<Rightarrow> True | Inr recs \<Rightarrow> list_all (part_rec E) recs)
        | _ \<Rightarrow> True)
     \<and> blob_fine E ops (blob_step op w))"

section \<open>The invariant of the pulls\<close>

definition pull_at :: "env \<Rightarrow> (bytes \<rightharpoonup> nat) \<Rightarrow> bytes \<Rightarrow> pull \<Rightarrow> bool" where
  "pull_at E paths fid p \<longleftrightarrow> mf_id (pl_man p) = fid \<and> length fid = 16 \<and> paths (part_path E fid) \<in> {None, Some (pl_fd p)}"

definition transfers_ok :: "env \<Rightarrow> world \<Rightarrow> bool" where
  "transfers_ok E w \<longleftrightarrow> (\<forall>fid p. w_pulls w fid = Some p \<longrightarrow> pull_at E (w_paths w) fid p)
     \<and> list_all (part_rec E) (w_newpulls w)"

definition still :: "env \<Rightarrow> world \<Rightarrow> world \<Rightarrow> bool" where
  "still E w w' \<longleftrightarrow> (transfers_ok E w \<longrightarrow> transfers_ok E w' \<and> dones w' = dones w)"

lemma still_refl [simp]: "still E w w"
  by (simp add: still_def)

lemma still_trans: "still E a b \<Longrightarrow> still E b c \<Longrightarrow> still E a c"
  by (auto simp: still_def)

lemma still_same:
  assumes "w_pulls w' = w_pulls w" "w_paths w' = w_paths w" "w_newpulls w' = w_newpulls w" "dones w' = dones w"
  shows "still E w w'"
  using assms by (simp add: still_def transfers_ok_def)

lemma still_quiet: "quiet_send w w' \<Longrightarrow> still E w w'"
  by (rule still_same) (simp_all add: quiet_send_def files_mem_def dones_def)

lemma still_bump: "still E w (bump_w c w)"
  by (rule still_same) simp_all

lemma same_paths: "same_transfer E E' \<Longrightarrow> part_path E' = part_path E \<and> final_path E' = final_path E"
  by (simp add: same_transfer_def part_path_def final_path_def fun_eq_iff)

lemma pull_at_id: "transfers_ok E w \<Longrightarrow> w_pulls w fid = Some p \<Longrightarrow> mf_id (pl_man p) = fid \<and> length fid = 16"
  by (simp add: transfers_ok_def pull_at_def)

lemma ok_at: "transfers_ok E w \<Longrightarrow> w_pulls w fid = Some p \<Longrightarrow> pull_at E (w_paths w) fid p"
  by (simp add: transfers_ok_def)

lemma pull_at_window [simp]: "pull_at E paths fid (p\<lparr>pl_window := win, pl_at := at\<rparr>) \<longleftrightarrow> pull_at E paths fid p"
  by (simp add: pull_at_def)

lemma still_asked:
  assumes "asked p w w'" "w_pulls w (mf_id (pl_man p)) = Some p"
  shows "still E w w'"
proof -
  from assms(1) obtain win at where a: "w_pulls w' = (w_pulls w)(mf_id (pl_man p) \<mapsto> p\<lparr>pl_window := win, pl_at := at\<rparr>)"
    "w_paths w' = w_paths w" "w_newpulls w' = w_newpulls w" "dones w' = dones w"
    unfolding asked_def by blast
  show ?thesis
    using assms(2) by (auto simp: still_def transfers_ok_def a)
qed

lemma still_window: "w_pulls w (mf_id (pl_man p)) = Some p \<Longrightarrow> still E w (request_window E' p w)"
  by (rule still_asked [OF request_window_asked])

lemma still_start:
  assumes d: "clean_dir (v_dir E)" and S: "same_transfer E E'" and rec: "part_rec E rec"
  shows "still E w (start_pull E' rec w)"
proof (cases "w_pulls w (f_id rec)")
  case None
  show ?thesis
  proof (cases "decode_manifest (v_pman E') (f_man rec)")
    case (Inr m)
    then have id: "mf_id m = f_id rec" and part: "f_path rec = part_path E (f_id rec)"
      using rec S by (auto simp: part_rec_def same_transfer_def)
    obtain fd v where c: "create_file E' (f_path rec) w = (fd, v)" by (metis prod.collapse)
    show ?thesis
    proof (cases fd)
      case None
      with c have "v = w" by (auto simp: create_file_def split: if_splits option.splits)
      with c None Inr \<open>w_pulls w (f_id rec) = None\<close> show ?thesis by (simp add: start_pull_def still_bump)
    next
      case (Some i)
      with c have v: "w_pulls v = w_pulls w" "w_newpulls v = w_newpulls w" "dones v = dones w" "w_paths v = (w_paths w)(f_path rec \<mapsto> i)"
        by (auto simp: create_file_def dones_def split: if_splits option.splits)
      define p where "p = \<lparr>pl_peer = f_peer rec, pl_man = m, pl_bm = bitmap_from_bytes (f_bitmap rec) (chunks m),
                 pl_fd = i, pl_window = [], pl_at = None, pl_dirty = 0\<rparr>"
      have "still E w (put_pull p v)"
        using part_path_inj [OF d] v part id \<open>w_pulls w (f_id rec) = None\<close>
          decode_manifest_valid [OF Inr]
        by (auto simp: still_def transfers_ok_def p_def pull_at_def)
      moreover have "still E (put_pull p v) (request_window E' p (put_pull p v))" by (rule still_window) simp
      ultimately have "still E w (request_window E' p (put_pull p v))" by (rule still_trans)
      with c Some Inr \<open>w_pulls w (f_id rec) = None\<close> show ?thesis by (simp add: start_pull_def p_def Let_def)
    qed
  qed (simp add: start_pull_def None still_bump)
qed (simp add: start_pull_def)

lemma still_starts: "clean_dir (v_dir E) \<Longrightarrow> same_transfer E E' \<Longrightarrow> list_all (part_rec E) recs \<Longrightarrow>
    still E w (fold (start_pull E') recs w)"
  by (induction recs arbitrary: w) (auto intro: still_trans still_start)

lemma still_tick: "still E w (blob_tick E' order w)"
  unfolding blob_tick_def
proof (induction order arbitrary: w)
  case (Cons fid order)
  let ?v = "case w_pulls w fid of None \<Rightarrow> w | Some p \<Rightarrow> if pull_due E' p w then request_window E' p w else w"
  have "still E w ?v"
    using still_window [of w _ E E'] pull_at_id [of E w] by (auto simp: still_def split: option.split)
  with Cons.IH [of ?v] show ?case by (simp add: still_trans)
qed simp

lemma still_serve_each: "still E w (serve_each E' to m data is w)"
proof (induction "is" arbitrary: w)
  case (Cons i "is")
  have s: "still E w (w\<lparr>w_rnd := r\<rparr>)" "still E w (bump_w c (w\<lparr>w_rnd := r\<rparr>))" for r c by (rule still_same; simp)+
  have o: "still E w (bump_w c (emit (OSend to f) (w\<lparr>w_rnd := r\<rparr>)))" for r c f by (rule still_same; simp)
  show ?case
    using s o still_bump [of E w] still_trans [OF o Cons.IH]
    by (auto simp: Let_def send_def split: sum.split)
qed (simp add: still_bump)

lemma still_serve: "still E w (serve_request E' x w)"
  using still_bump [of E w] still_serve_each [of E w] by (auto simp: serve_request_def split: sum.split option.split)

lemma still_offer: "still E w (snd (offer E' to path w))"
proof -
  have r: "still E w (w\<lparr>w_rnd := r\<rparr>)" for r by (rule still_same) simp_all
  have s: "still E w (snd (send_sealed E' to t b (w\<lparr>w_rnd := r\<rparr>)))" for t b r
    by (rule still_trans [OF r still_quiet [OF quiet_send_sealed]])
  have put: "still E v (snd (run_tx (file_put E' rec) v))" for rec v by (rule still_quiet [OF run_tx_sends [OF sends_files(1)]])
  show ?thesis
  proof (cases "open_file E' path w")
    case None
    then show ?thesis by (simp add: offer_def)
  next
    case (Some i)
    let ?data = "w_inodes w i"
    show ?thesis
    proof (cases "length ?data = 0 \<or> MaxFileSize < length ?data \<or> read_full 16 (w_rnd w) = None")
      case True
      with Some show ?thesis by (auto simp: offer_def Let_def)
    next
      case False
      then obtain fid r1 where fid: "read_full 16 (w_rnd w) = Some (fid, r1)" by auto
      show ?thesis
      proof (cases "read_full 32 r1")
        case None
        with Some False fid r show ?thesis by (auto simp: offer_def Let_def)
      next
        case (Some kr)
        obtain key r2 where kr: "kr = (key, r2)" by (cases kr)
        show ?thesis
        proof (cases "encode_manifest (v_pman E') (offer_manifest E' path ?data fid key)")
          case (Inl e)
          with Some False fid kr r \<open>open_file E' path w = Some i\<close> show ?thesis by (auto simp: offer_def Let_def)
        next
          case (Inr b)
          obtain x v where x: "send_sealed E' to TypeFileManifest b (w\<lparr>w_rnd := r2\<rparr>) = (x, v)" by (metis prod.collapse)
          with s [of TypeFileManifest b r2] have v: "still E w v" by simp
          show ?thesis
          proof (cases x)
            case (Inl e)
            with Some False fid kr v x \<open>encode_manifest _ _ = Inr b\<close> \<open>open_file E' path w = Some i\<close> show ?thesis
              by (auto simp: offer_def Let_def)
          next
            case (Inr mid)
            let ?rec = "\<lparr>f_id = fid, f_peer = to, f_out = True, f_man = b, f_path = path,
                       f_bitmap = [], f_done = True, f_created = v_now E', f_updated = v_now E'\<rparr>"
            obtain y u where y: "run_tx (file_put E' ?rec) v = (y, u)" by (metis prod.collapse)
            with still_trans [OF v put [of v ?rec]] have "still E w u" by simp
            with Some False fid kr x y Inr \<open>encode_manifest _ _ = Inr b\<close> \<open>open_file E' path w = Some i\<close> show ?thesis
              by (cases y) (auto simp: offer_def Let_def)
          qed
        qed
      qed
    qed
  qed
qed

lemma still_manifest:
  assumes "same_transfer E E'"
  shows "still E w (attempted (on_manifest E' from body) ok w)"
proof (cases "decode_manifest (v_pman E') body")
  case (Inl e)
  then have "attempted (on_manifest E' from body) ok w = bump_w ''blob.malformed'' w
      \<or> attempted (on_manifest E' from body) ok w = (bump_w ''blob.malformed'' w)\<lparr>w_db := w_db w\<rparr>"
    by (simp add: attempted_def on_manifest_def run_hooks_def)
  moreover have "still E w ((bump_w ''blob.malformed'' w)\<lparr>w_db := w_db w\<rparr>)" by (rule still_same) simp_all
  ultimately show ?thesis using still_bump [of E w "''blob.malformed''"] by metis
next
  case (Inr m)
  let ?rec = "new_transfer E' from m body"
  let ?h = "\<lambda>w. queue_pull ?rec (emit (OFileOffered from m) (bump_w ''blob.manifestsRecv'' w))"
  obtain r v hs where run: "file_put E' ?rec (w, [?h]) = (r, (v, hs))" by (metis prod.collapse)
  from movesD [OF sends_files(1) run] have q: "hs = [?h]" "files_mem v = files_mem w" "w_out v = w_out w"
    by (simp_all add: sends_def)
  have v: "w_pulls v = w_pulls w" "w_paths v = w_paths w" "w_newpulls v = w_newpulls w" "dones v = dones w"
    using q by (simp_all add: files_mem_def dones_def)
  have "part_rec E ?rec"
    using assms Inr same_paths [OF assms] by (auto simp: part_rec_def new_transfer_def same_transfer_def)
  then have h: "still E w (?h v)"
    using v by (auto simp: queue_pull_def still_def transfers_ok_def) (auto simp: dones_def)
  have b: "still E w (v\<lparr>w_db := w_db w\<rparr>)" by (rule still_same) (use v in simp_all)
  have "attempted (on_manifest E' from body) ok w = (if ok \<and> is_ok r then ?h v else v\<lparr>w_db := w_db w\<rparr>)"
    using run q(1) by (simp add: attempted_def on_manifest_def Inr run_hooks_def)
  with h b show ?thesis by simp
qed

lemma still_remove: "still E w (remove_file E' path w)"
  by (auto simp: remove_file_def still_def transfers_ok_def pull_at_def)

lemma still_delete: "still E w (snd (delete_file E' fid w))"
proof (cases "file_get E' fid (w_db w)")
  case (Inr rec)
  let ?w = "if length (w_drops w) < pullQueue then w\<lparr>w_drops := w_drops w @ [fid]\<rparr> else w"
  have d: "still E w ?w" by (rule still_same) (simp_all add: dones_def)
  obtain x v where x: "run_tx (file_delete fid) ?w = (x, v)" by (metis prod.collapse)
  have "quiet_send ?w v" using run_tx_sends [OF sends_files(4)] x by (metis snd_conv)
  then have v: "still E w v" by (rule still_trans [OF d still_quiet])
  have "still E w (bump_w c (remove_file E' p v))" "still E w (bump_w c (remove_file E' p (remove_file E' q v)))" for c p q
    by (intro still_trans [OF _ still_bump] still_trans [OF _ still_remove] v)+
  with v Inr x show ?thesis by (cases x) (auto simp: delete_file_def split: option.split)
qed (simp add: delete_file_def)

section \<open>Announcements\<close>

text \<open>
  The file of the pull that was active is at the announced path, with the content the
  manifest promised; the pull is over and its row, if it was not deleted
  meanwhile, is done and leads to it.
\<close>

definition promised :: "env \<Rightarrow> world \<Rightarrow> world \<Rightarrow> bytes \<Rightarrow> bytes \<Rightarrow> bool" where
  "promised E w w' fid path \<longleftrightarrow> (\<exists>p i. w_pulls w fid = Some p \<and> w_pulls w' fid = None \<and> path = final_path E (pl_man p)
     \<and> w_paths w' path = Some i \<and> c_blake (v_crypto E) (w_inodes w' i) = mf_hash (pl_man p)
     \<and> (\<forall>r. file_row fid (w_db w') = Some r \<longrightarrow> f_done r
          \<and> (sealing_ok E \<longrightarrow> box_open E (f_path r) (aad_file_path fid) = Inr path)))"

definition announces :: "env \<Rightarrow> world \<Rightarrow> world \<Rightarrow> bool" where
  "announces E w w' \<longleftrightarrow> (transfers_ok E w \<longrightarrow> transfers_ok E w'
     \<and> (dones w' = dones w \<or> (\<exists>fid path. dones w' = dones w @ [OFileDone fid path] \<and> promised E w w' fid path)))"

lemma still_announces: "still E w w' \<Longrightarrow> announces E w w'"
  by (simp add: still_def announces_def)

lemma finish_tx_short: "length (w_rnd w) < NonceSizeX \<Longrightarrow> run_tx (finish_tx E p) w = (Inl ErrRand, w)"
  by (simp add: finish_tx_def file_path_def seq_def bnd_def box_seal_def draw_def with_rnd_def read_full_def run_tx_def)

lemma transfers_dropped: "transfers_ok E w \<Longrightarrow> transfers_ok E (w\<lparr>w_pulls := (w_pulls w)(fid := None)\<rparr>)"
  by (simp add: transfers_ok_def)

lemma finish_announces:
  assumes d: "clean_dir (v_dir E)" and ok: "transfers_ok E w" and p: "w_pulls w (mf_id (pl_man p)) = Some p"
  shows "transfers_ok E (finish_pull E p w) \<and> w_pulls (finish_pull E p w) = (w_pulls w)(mf_id (pl_man p) := None)
    \<and> (dones (finish_pull E p w) = dones w \<or> (\<exists>path. dones (finish_pull E p w) = dones w @ [OFileDone (mf_id (pl_man p)) path]
        \<and> promised E w (finish_pull E p w) (mf_id (pl_man p)) path))"
proof -
  let ?id = "mf_id (pl_man p)" and ?final = "final_path E (pl_man p)"
  let ?part = "part_path E ?id"
  have fin: "transfers_ok E (finish_pull E p w) \<and> w_pulls (finish_pull E p w) = (w_pulls w)(?id := None)
      \<and> dones (finish_pull E p w) = dones w"
    if "check_file E p w = v" "w_pulls v = (w_pulls w)(?id := x) \<or> w_pulls v = w_pulls w" "w_newpulls v = w_newpulls w"
      "\<And>fid q. fid \<noteq> ?id \<Longrightarrow> w_pulls w fid = Some q \<Longrightarrow> pull_at E (w_paths v) fid q" "dones v = dones w" for v x
    using that ok by (auto simp: finish_pull_def Let_def transfers_ok_def)
  show ?thesis
  proof (cases "v_disk E ?part \<and> c_blake (v_crypto E) (w_inodes w (pl_fd p)) = mf_hash (pl_man p)")
    case False
    define v where "v = check_file E p w"
    have "w_pulls v = (w_pulls w)(?id := Some (p\<lparr>pl_dirty := 0\<rparr>)) \<or> w_pulls v = w_pulls w" "w_newpulls v = w_newpulls w"
      "w_paths v = w_paths w" "dones v = dones w"
      using False by (auto simp: v_def check_file_def Let_def persist_pull_eq)
    with fin [OF v_def [symmetric], of "Some (p\<lparr>pl_dirty := 0\<rparr>)"] ok_at [OF ok] show ?thesis by simp
  next
    case True
    show ?thesis
    proof (cases "rename_file E ?part ?final w")
      case None
      with True have c: "check_file E p w = bump_w ''blob.pullErrors'' w" by (simp add: check_file_def Let_def)
      from fin [OF c, of None] ok_at [OF ok] show ?thesis by simp
    next
      case (Some v)
      then obtain i where i: "w_paths w ?part = Some i" "v = w\<lparr>w_paths := (w_paths w)(?part := None, ?final \<mapsto> i)\<rparr>"
        by (auto simp: rename_file_def split: if_splits)
      have fd: "i = pl_fd p" using ok_at [OF ok p] i(1) by (simp add: pull_at_def)
      have oth: "pull_at E (w_paths v) fid q" if "fid \<noteq> ?id" "w_pulls w fid = Some q" for fid q
      proof -
        have len: "length ?id = 16" "length fid = 16" using pull_at_id [OF ok] p that(2) by blast+
        have "part_path E fid \<noteq> ?part" using part_path_inj [OF d] that(1) by blast
        moreover have "part_path E fid \<noteq> ?final" using part_not_final [OF d len] by simp
        moreover have "pull_at E (w_paths w) fid q" by (rule ok_at [OF ok that(2)])
        ultimately show ?thesis by (simp add: i(2) pull_at_def)
      qed
      show ?thesis
      proof (cases "NonceSizeX \<le> length (w_rnd v)")
        case False
        then have "check_file E p w = bump_w ''blob.pullErrors'' v"
          using True Some finish_tx_short [of v E p] by (simp add: check_file_def Let_def)
        from fin [OF this, of None] oth i(2) show ?thesis by simp
      next
        case n: True
        from finish_tx_ok [OF n, of E p] obtain ct where tx: "run_tx (finish_tx E p) v =
            (Inr (), v\<lparr>w_rnd := drop NonceSizeX (w_rnd v), w_db := update_file ?id
               (\<lambda>r. r\<lparr>f_path := ct, f_bitmap := bitmap_bytes (pl_bm p), f_done := True, f_updated := v_now E\<rparr>) (w_db v)\<rparr>)"
          and o: "sealing_ok E \<longrightarrow> box_open E ct (aad_file_path ?id) = Inr ?final" by blast
        let ?u = "emit (OFileDone ?id ?final) (bump_w ''blob.filesDone'' (snd (run_tx (finish_tx E p) v)))"
        have c: "check_file E p w = ?u" using True Some tx by (simp add: check_file_def Let_def)
        have u: "w_pulls ?u = w_pulls w" "w_newpulls ?u = w_newpulls w" "w_paths ?u = w_paths v" "w_inodes ?u = w_inodes w"
          "dones ?u = dones w @ [OFileDone ?id ?final]" using tx i(2) by simp_all
        have "transfers_ok E (finish_pull E p w)"
          using ok oth u by (auto simp: finish_pull_def c transfers_ok_def)
        moreover have "promised E w (finish_pull E p w) ?id ?final"
        proof -
          have row: "file_row ?id (w_db ?u) = map_option (\<lambda>r. r\<lparr>f_path := ct, f_bitmap := bitmap_bytes (pl_bm p), f_done := True,
              f_updated := v_now E\<rparr>) (file_row ?id (w_db v))" by (simp add: tx file_row_update)
          have path: "w_paths v ?final = Some (pl_fd p)" using i(2) fd by simp
          have fp: "finish_pull E p w = ?u\<lparr>w_pulls := (w_pulls ?u)(?id := None)\<rparr>" by (simp only: finish_pull_def Let_def c)
          show ?thesis
            unfolding promised_def fp using p conjunct2 [OF True] o u path row
            by (intro exI [of _ p] exI [of _ "pl_fd p"]) (auto simp del: bump_w_simps emit_simps)
        qed
        ultimately show ?thesis using u by (simp add: finish_pull_def c)
      qed
    qed
  qed
qed

lemma pull_at_cong: "pl_man p' = pl_man p \<Longrightarrow> pl_fd p' = pl_fd p \<Longrightarrow> pull_at E paths fid p' \<longleftrightarrow> pull_at E paths fid p"
  by (simp add: pull_at_def)

lemma still_updated:
  assumes "w_pulls w (mf_id (pl_man p)) = Some p" "pl_man p' = pl_man p" "pl_fd p' = pl_fd p"
    and "w_pulls w' = (w_pulls w)(mf_id (pl_man p) \<mapsto> p')" "w_paths w' = w_paths w" "w_newpulls w' = w_newpulls w"
      "dones w' = dones w"
  shows "still E w w'"
  using assms pull_at_cong [of p' p E] by (auto simp: still_def transfers_ok_def)

lemma same_invariant:
  assumes "same_transfer E E'"
  shows "transfers_ok E' w \<longleftrightarrow> transfers_ok E w" "promised E' a b fid path \<longleftrightarrow> promised E a b fid path"
proof -
  note e = same_paths [OF assms] assms [unfolded same_transfer_def]
  have "part_rec E' = part_rec E" "pull_at E' = pull_at E" by (simp_all add: fun_eq_iff part_rec_def pull_at_def e)
  then show "transfers_ok E' w \<longleftrightarrow> transfers_ok E w" by (simp add: transfers_ok_def)
  show "promised E' a b fid path \<longleftrightarrow> promised E a b fid path"
    by (simp add: promised_def sealing_ok_def box_open_def e)
qed

lemma store_announces:
  assumes S: "same_transfer E E'" and d: "clean_dir (v_dir E)" and ok: "transfers_ok E w" and p: "w_pulls w (mf_id (pl_man p)) = Some p"
  shows "announces E w (store_chunk E' p i body w)"
proof -
  let ?id = "mf_id (pl_man p)"
  define p1 where "p1 = p\<lparr>pl_bm := snd (bitmap_set (pl_bm p) (uint i)), pl_dirty := pl_dirty p + 1\<rparr>"
  define w1 where "w1 = emit (OFileProgress (mf_id (pl_man p)) (bitmap_count (pl_bm p1)) (chunks (pl_man p)))
            (bump_w ''blob.chunksRecv'' (put_pull p1 (w\<lparr>w_inodes := (w_inodes w)(pl_fd p :=
              write_at (unat i * unat (mf_chunk (pl_man p))) body (w_inodes w (pl_fd p)))\<rparr>)))"
  have same: "pl_man p1 = pl_man p" "pl_fd p1 = pl_fd p" by (simp_all add: p1_def)
  have s1: "still E w w1" by (rule still_updated [OF p same]) (simp_all add: w1_def same)
  have q: "w_pulls w1 (mf_id (pl_man p1)) = Some p1" by (simp add: w1_def same)
  from s1 ok have ok1: "transfers_ok E w1" "dones w1 = dones w" by (simp_all add: still_def)
  show ?thesis
  proof (cases "bitmap_complete (pl_bm p1)")
    case True
    then have st: "store_chunk E' p i body w = finish_pull E' p1 w1"
      by (simp add: store_chunk_def Let_def p1_def w1_def)
    have cd: "clean_dir (v_dir E')" using S d by (simp add: same_transfer_def)
    have ok': "transfers_ok E' w1" using ok1(1) by (simp add: same_invariant(1) [OF S])
    have "promised E w b ?id path" if "promised E w1 b (mf_id (pl_man p1)) path" for b path
      using that p q same unfolding promised_def by auto
    with finish_announces [OF cd ok' q] ok1 show ?thesis
      unfolding announces_def st same_invariant [OF S] by (auto simp: same)
  next
    case False
    define p2 where "p2 = (if dirtyFlush \<le> pl_dirty p1 then p1\<lparr>pl_dirty := 0\<rparr> else p1)"
    define w2 where "w2 = (if dirtyFlush \<le> pl_dirty p1 then persist_pull E' p1 False w1 else w1)"
    have st: "store_chunk E' p i body w = (if window_done p2 then request_window E' p2 w2 else w2)"
      using False unfolding store_chunk_def Let_def w2_def p2_def w1_def p1_def by (simp only: if_False)
    have m2: "pl_man p2 = pl_man p1" "pl_fd p2 = pl_fd p1" by (simp_all add: p2_def)
    have w2: "w_pulls w2 = (w_pulls w1)(mf_id (pl_man p1) \<mapsto> p2)" "w_paths w2 = w_paths w1" "w_newpulls w2 = w_newpulls w1" "dones w2 = dones w1"
      using q by (auto simp: w2_def p2_def persist_pull_eq)
    have s2: "still E w1 w2" by (rule still_updated [OF q m2 w2])
    have "still E w2 (request_window E' p2 w2)" by (rule still_window) (simp add: w2 m2)
    from still_trans [OF s1 s2] still_trans [OF still_trans [OF s1 s2] this]
    have "still E w (store_chunk E' p i body w)" by (simp add: st)
    then show ?thesis by (rule still_announces)
  qed
qed

lemma accept_announces:
  assumes S: "same_transfer E E'" and d: "clean_dir (v_dir E)"
  shows "announces E w (accept_chunk E' x w)"
proof (cases "transfers_ok E w")
  case ok: True
  have b: "announces E w (bump_w c w)" for c by (rule still_announces [OF still_bump])
  show ?thesis
  proof (cases "decode_chunk (v_pchunk E') (e_payload (snd x))")
    case (Inr c)
    show ?thesis
    proof (cases "w_pulls w (ck_id c)")
      case (Some p)
      with pull_at_id [OF ok Some] have "w_pulls w (mf_id (pl_man p)) = Some p" by simp
      from store_announces [OF S d ok this] b Inr Some show ?thesis
        by (auto simp: accept_chunk_def split: sum.split)
    qed (simp add: accept_chunk_def Inr b)
  qed (simp add: accept_chunk_def b)
qed (simp add: announces_def)

lemma announces_pre:
  assumes "announces E v w'" "transfers_ok E w \<Longrightarrow> transfers_ok E v" "dones v = dones w" "w_pulls v = w_pulls w"
  shows "announces E w w'"
  using assms by (auto simp: announces_def promised_def)

lemma blob_step_announces:
  assumes d: "clean_dir (v_dir E)" and fine: "blob_fine E [op] w"
  shows "announces E w (blob_step op w)"
proof -
  from fine have S: "same_transfer E (blob_env op)" by simp
  have same: "transfers_ok E (w\<lparr>w_chunks := xs\<rparr>) = transfers_ok E w" "transfers_ok E (w\<lparr>w_reqs := xs\<rparr>) = transfers_ok E w" for xs
    by (simp_all add: transfers_ok_def)
  show ?thesis
  proof (cases op)
    case (BOffer E' to path)
    then show ?thesis by (simp add: still_announces still_offer)
  next
    case (BManifest E' p b ok)
    with S show ?thesis by (simp add: still_announces still_manifest)
  next
    case (BDelete E' fid)
    then show ?thesis by (simp add: still_announces still_delete)
  next
    case (BResume E')
    with S fine still_starts [OF d] show ?thesis
      by (auto simp: resume_pulls_def still_announces split: sum.splits)
  next
    case (BPull E')
    show ?thesis
    proof (cases "w_newpulls w")
      case (Cons rec rs)
      let ?w = "w\<lparr>w_newpulls := rs\<rparr>"
      have "still E w (start_pull E' rec ?w)" if "transfers_ok E w"
      proof (rule still_trans)
        show "still E w ?w" using Cons by (simp add: still_def transfers_ok_def dones_def)
        show "still E ?w (start_pull E' rec ?w)"
          using still_start [OF d] S that Cons BPull by (simp add: transfers_ok_def)
      qed
      then have "still E w (start_pull E' rec ?w)" by (auto simp: still_def)
      then show ?thesis using BPull Cons by (simp add: next_pull_def still_announces)
    qed (simp add: BPull next_pull_def still_announces)
  next
    case (BDrop E')
    show ?thesis
    proof (cases "w_drops w")
      case (Cons fid ids)
      then have "still E w (next_drop w)" by (auto simp: next_drop_def still_def transfers_ok_def dones_def)
      then show ?thesis using BDrop by (simp add: still_announces)
    qed (simp add: BDrop next_drop_def still_announces)
  next
    case (BChunk E')
    show ?thesis
    proof (cases "w_chunks w")
      case (Cons x xs)
      show ?thesis
        unfolding BChunk blob_step.simps next_chunk_def Cons list.case
        by (rule announces_pre [OF accept_announces [OF _ d]]) (use S BChunk same in simp_all)
    qed (simp add: BChunk next_chunk_def still_announces)
  next
    case (BTick E' order)
    then show ?thesis by (simp add: still_announces still_tick)
  next
    case (BServe E')
    show ?thesis
    proof (cases "w_reqs w")
      case (Cons x xs)
      have "still E w (w\<lparr>w_reqs := xs\<rparr>)" by (rule still_same) (simp_all add: dones_def)
      from still_trans [OF this still_serve] show ?thesis
        using BServe Cons by (simp add: next_request_def still_announces)
    qed (simp add: BServe next_request_def still_announces)
  next
    case (BFrame E' p e)
    have "still E w (handle_chunk E' p e w)"
      unfolding handle_chunk_def by (auto intro!: still_bump intro: still_same)
    then show ?thesis by (simp add: BFrame still_announces)
  next
    case (BAsk E' p e)
    have "still E w (handle_chunk_req E' p e w)"
      unfolding handle_chunk_req_def by (auto intro!: still_bump still_same simp: dones_def)
    then show ?thesis by (simp add: BAsk still_announces)
  qed
qed

text \<open>
  C21. A file that is announced as received is the file that was promised. From a
  state whose pulls are in order, over any sequence of the engine's
  operations with anything a peer can send, with the disk failing and
  recovering as it likes: each operation announces at most one file, of a pull that
  was active, and then at the announced path lies a file whose hash is the one in
  the manifest, directly in the files directory; the pull is over and its
  row, unless deleted meanwhile, is marked done with this path. The order of the
  pulls, their open files and their partial paths stays right all along.
\<close>

theorem announced_files_are_as_promised:
  assumes "clean_dir (v_dir E)" "transfers_ok E w" "blob_fine E ops w" "k < length ops"
  shows "transfers_ok E (blob_steps (take (Suc k) ops) w)
    \<and> (dones (blob_steps (take (Suc k) ops) w) = dones (blob_steps (take k ops) w)
      \<or> (\<exists>fid path. dones (blob_steps (take (Suc k) ops) w) = dones (blob_steps (take k ops) w) @ [OFileDone fid path]
          \<and> promised E (blob_steps (take k ops) w) (blob_steps (take (Suc k) ops) w) fid path))"
  using assms(2-4)
proof (induction ops arbitrary: w k)
  case (Cons op ops)
  have a: "announces E w (blob_step op w)"
    by (rule blob_step_announces [OF assms(1)]) (use Cons.prems(2) in simp)
  show ?case
  proof (cases k)
    case 0
    with a Cons.prems(1) show ?thesis by (simp add: blob_steps_def announces_def)
  next
    case (Suc j)
    from a Cons.prems have "transfers_ok E (blob_step op w)" "blob_fine E ops (blob_step op w)" "j < length ops"
      by (simp_all add: announces_def Suc)
    from Cons.IH [OF this] show ?thesis by (simp add: Suc blob_steps_def)
  qed
qed simp

text \<open>A pull with two of three chunks, the third in the channel.\<close>

definition demo_late :: env where
  "demo_late = demo_puller\<lparr>v_dir := str_bytes ''/home/files''\<rparr>"

definition demo_half :: pull where
  "demo_half = \<lparr>pl_peer = PeerID [7], pl_man = demo_manifest, pl_bm = \<lparr>bm_bits = [3], bm_n = 3\<rparr>, pl_fd = 0, pl_window = [],
     pl_at = None, pl_dirty = 2\<rparr>"

definition demo_waiting :: world where
  "demo_waiting = (new_world (replicate 100 0))\<lparr>w_pulls := [replicate 16 1 \<mapsto> demo_half],
     w_paths := [part_path demo_late (replicate 16 1) \<mapsto> 0], w_inodes := (\<lambda>_. [9, 8, 7, 6]), w_chunks := [demo_frame 2]\<rparr>"

lemma demo_id: "mf_id demo_manifest = replicate 16 1"
  by (simp add: demo_manifest_def)

lemma demo_half_abs: "bitmap_abs (pl_bm demo_half) = {0, 1}"
proof -
  have "bit (3 :: byte) i \<longleftrightarrow> i = 0 \<or> i = 1" if "i < 3" for i :: nat
  proof -
    from that consider "i = 0" | "i = 1" | "i = 2" by linarith
    then show ?thesis by cases simp_all
  qed
  then show ?thesis by (auto simp: bitmap_abs_def has_bit demo_half_def)
qed

lemma demo_pulling: "pulling demo_late demo_manifest demo_file (PeerID [7]) {0, 1} (demo_waiting\<lparr>w_chunks := []\<rparr>)"
proof -
  have "holds demo_manifest demo_file {0, 1} [9, 8, 7, 6]"
    by (simp add: holds_def fsize_def csize_def demo_sizes demo_pieces) (simp add: demo_manifest_def)
  then show ?thesis
    unfolding pulling_def using demo_half_abs
    by (intro exI [of _ demo_half]) (simp add: demo_waiting_def demo_id demo_half_def bitmap_ok_def demo_sizes)
qed

theorem announced_files_are_as_promised_witness:
  "\<exists>w'. w' = blob_step (BChunk demo_late) demo_waiting
     \<and> dones w' = [OFileDone (replicate 16 1) (final_path demo_late demo_manifest)]
     \<and> promised demo_late demo_waiting w' (replicate 16 1) (final_path demo_late demo_manifest)"
proof -
  let ?w = "demo_waiting\<lparr>w_chunks := []\<rparr>" and ?x = "demo_frame 2"
  have same: "v_pchunk demo_late = v_pchunk demo_puller" "v_crypto demo_late = v_crypto demo_puller" by (simp_all add: demo_late_def)
  have c: "carried demo_late demo_manifest (PeerID [7]) ?x = Some (2, piece demo_manifest demo_file 2)"
    using demo_carried(3) same unfolding carried_def by (simp only:)
  have disk: "v_disk demo_late p" for p by (simp add: demo_late_def demo_puller_def demo_env_def)
  have h: "mf_hash demo_manifest = c_blake (v_crypto demo_late) demo_file"
    by (simp add: demo_manifest_def demo_late_def demo_puller_def demo_env_def demo_crypto_def demo_pad_def demo_file_def)
  have s: "\<forall>x \<in> set [?x]. sound_frame demo_late demo_manifest demo_file (PeerID [7]) x" by (simp add: sound_frame_def c)
  have full: "{0, 1} \<union> arrived demo_late demo_manifest (PeerID [7]) [?x] = {..<chunks demo_manifest}"
    by (auto simp: arrived_def c demo_sizes)
  have sub: "{0, 1} \<subset> {..<chunks demo_manifest}"
  proof -
    have "{0, 1} \<subseteq> {..<chunks demo_manifest}" "(2 :: nat) \<in> {..<chunks demo_manifest}" "(2 :: nat) \<notin> {0, 1}"
      by (simp_all add: demo_sizes)
    then show ?thesis by blast
  qed
  have tape: "NonceSizeX + MsgIDLen * length [?x] \<le> length (w_rnd ?w)"
    by (simp add: demo_waiting_def new_world_def NonceSizeX_def MsgIDLen_def)
  have "dones (accept_chunk demo_late ?x ?w) = dones ?w @ [OFileDone (mf_id demo_manifest) (final_path demo_late demo_manifest)]"
    using accept_all [OF demo_describes h disk disk s demo_pulling sub tape] unfolding full by simp
  moreover have n: "blob_step (BChunk demo_late) demo_waiting = accept_chunk demo_late ?x ?w"
    by (simp add: next_chunk_def demo_waiting_def)
  moreover have "dones ?w = []" by (simp add: dones_def demo_waiting_def new_world_def)
  ultimately have d: "dones (blob_step (BChunk demo_late) demo_waiting)
      = [OFileDone (replicate 16 1) (final_path demo_late demo_manifest)]" by (simp add: demo_id)
  have dir: "clean_dir (v_dir demo_late)" using demo_dir by (simp add: demo_late_def)
  have ok: "transfers_ok demo_late demo_waiting"
    by (auto simp: transfers_ok_def pull_at_def demo_waiting_def new_world_def demo_id demo_half_def)
  have fine: "blob_fine demo_late [BChunk demo_late] demo_waiting" by (simp add: same_transfer_def)
  have e: "dones demo_waiting = []" by (simp add: dones_def demo_waiting_def new_world_def)
  from announced_files_are_as_promised [OF dir ok fine, of 0] d e show ?thesis by (auto simp: blob_steps_def)
qed

section \<open>A transfer that cannot end\<close>

lemma scan_file_out: "scan_file E r = Inr g \<Longrightarrow> f_out g = f_out r"
  by (auto simp: scan_file_def bindR_Inr_iff)

lemma complete_missing: "bitmap_complete b \<Longrightarrow> bitmap_missing b (int Window) = []"
  using missing_eq [of "int Window" b] complete_iff [of b] by simp

lemma window_of_complete: "bitmap_complete (pl_bm p) \<Longrightarrow> request_window E p w = w"
  by (simp add: request_window_def complete_missing)

text \<open>
  C24. A file that does not match its manifest is never given up and never tried
  again. When the last chunk has arrived and the hash is not the promised one, the
  row is left unfinished with a full bitmap. After a restart it is pulled
  again: the partial file is opened, but no chunk is asked for, then or at any
  tick, and every chunk that comes is thrown away; nothing is announced. Only
  deleting the file ends it.
\<close>

theorem mismatched_file_is_stuck:
  assumes p: "w_pulls w (mf_id (pl_man p)) = Some p" "bitmap_ok (pl_bm p)" "bm_n (pl_bm p) = chunks (pl_man p)"
      "bitmap_complete (pl_bm p)" "validate_manifest (pl_man p)"
    and bad: "v_disk E (part_path E (mf_id (pl_man p)))" "c_blake (v_crypto E) (w_inodes w (pl_fd p)) \<noteq> mf_hash (pl_man p)"
    and row: "file_row (mf_id (pl_man p)) (w_db w) = Some r" "\<not> f_out r" "scan_file E r = Inr rec"
      "f_path rec = part_path E (mf_id (pl_man p))" "decode_manifest (v_pman E) (f_man rec) = Inr (pl_man p)"
    and w1: "w1 = finish_pull E p w" and w2: "w_pulls w2 = Map.empty" "w_db w2 = w_db w1" "w_paths w2 = w_paths w1"
  shows "\<exists>rec'. file_get E (mf_id (pl_man p)) (w_db w1) = Inr (Some rec') \<and> \<not> f_done rec' \<and> \<not> f_out rec'
    \<and> dones w1 = dones w
    \<and> (\<forall>w3. w3 = start_pull E rec' w2 \<longrightarrow> w_out w3 = w_out w2
        \<and> (\<exists>q. w_pulls w3 = [mf_id (pl_man p) \<mapsto> q] \<and> bitmap_complete (pl_bm q))
        \<and> (\<forall>x. \<exists>c. accept_chunk E x w3 = bump_w c w3) \<and> blob_tick E [mf_id (pl_man p)] w3 = w3)"
proof -
  let ?id = "mf_id (pl_man p)"
  let ?f = "\<lambda>r. r\<lparr>f_bitmap := bitmap_bytes (pl_bm p), f_done := False, f_updated := v_now E\<rparr>"
  let ?rec = "?f rec"
  have fin: "w_db w1 = update_file ?id ?f (w_db w)" "dones w1 = dones w"
    using bad by (simp_all add: w1 finish_pull_def check_file_def Let_def persist_pull_eq)
  have id: "f_id r = ?id" using file_row_id [OF row(1)] by simp
  have sc: "scan_file E (?f r) = Inr ?rec" "f_out rec = f_out r" "f_id rec = f_id r"
    using row(3) by (auto simp: scan_file_def bindR_Inr_iff)
  have get: "file_get E ?id (w_db w1) = Inr (Some ?rec)"
    unfolding fin file_get_def by (simp add: file_row_update row(1) sc)
  have "length (bitmap_bytes (pl_bm p)) = (chunks (pl_man p) + 7) div 8"
    using p by (simp add: bitmap_ok_def bitmap_bytes_def)
  then have bm: "bitmap_from_bytes (bitmap_bytes (pl_bm p)) (chunks (pl_man p)) = pl_bm p"
    using p(3) by (simp add: bitmap_from_bytes_def bitmap_bytes_def)
  obtain fd v where v: "create_file E (f_path rec) w2 = (Some fd, v)" "w_pulls v = Map.empty" "w_out v = w_out w2"
    using bad(1) w2(1) row(4) by (cases "w_paths w2 (f_path rec)") (auto simp: create_file_def)
  define q where "q = \<lparr>pl_peer = f_peer rec, pl_man = pl_man p, pl_bm = pl_bm p, pl_fd = fd, pl_window = [], pl_at = None, pl_dirty = 0\<rparr>"
  have st: "start_pull E ?rec w2 = put_pull q v"
    using w2(1) row(5) v(1) window_of_complete [of q] p(4) by (simp add: start_pull_def Let_def bm q_def)
  have pulls: "w_pulls (put_pull q v) = [?id \<mapsto> q]" using v(2) by (simp add: q_def)
  have all: "bitmap_has (pl_bm p) (uint i)" if "chunk_len (pl_man p) i \<noteq> 0" for i
    using that p complete_iff [of "pl_bm p"] chunk_len_zero [OF p(5)] by (simp add: has_unat)
  have acc: "\<exists>c. accept_chunk E x (put_pull q v) = bump_w c (put_pull q v)" for x
    unfolding accept_chunk_def pulls using all by (auto simp: q_def split: sum.split)
  have tick: "blob_tick E [?id] (put_pull q v) = put_pull q v"
    using pulls window_of_complete [of q] p(4) by (simp add: blob_tick_def q_def)
  show ?thesis
    using get fin(2) row(2) sc(2) acc tick pulls v(3) p(4)
    by (intro exI [of _ ?rec]) (auto simp: st q_def)
qed

definition demo_full :: pull where
  "demo_full = demo_half\<lparr>pl_bm := \<lparr>bm_bits = [7], bm_n = 3\<rparr>\<rparr>"

lemma demo_full_complete: "bitmap_complete (pl_bm demo_full)"
  unfolding demo_full_def demo_half_def by code_simp

theorem mismatched_file_is_stuck_witness:
  "\<exists>w rec q. file_get demo_late (replicate 16 1) (w_db w) = Inr (Some rec) \<and> \<not> f_done rec
     \<and> w_pulls (start_pull demo_late rec w) = [replicate 16 1 \<mapsto> q] \<and> bitmap_complete (pl_bm q)
     \<and> blob_tick demo_late [replicate 16 1] (start_pull demo_late rec w) = start_pull demo_late rec w"
proof -
  let ?rec = "new_transfer demo_late (PeerID [7]) demo_manifest [1]"
  let ?w0 = "new_world (replicate 100 0)"
  have "2 * NonceSizeX \<le> length (w_rnd ?w0)" by (simp add: NonceSizeX_def new_world_def)
  from file_put_ok [OF this, of demo_late ?rec "[]"] obtain man path where
    put: "file_put demo_late ?rec (?w0, []) = (Inr (), (?w0\<lparr>w_rnd := drop (2 * NonceSizeX) (w_rnd ?w0),
       w_db := (w_db ?w0)\<lparr>d_files := put_file ?rec man path (d_files (w_db ?w0))\<rparr>\<rparr>, []))" by blast
  define v where "v = ?w0\<lparr>w_rnd := drop (2 * NonceSizeX) (w_rnd ?w0),
       w_db := (w_db ?w0)\<lparr>d_files := put_file ?rec man path (d_files (w_db ?w0))\<rparr>\<rparr>"
  have c: "v_crypto demo_late = demo_crypto" by (simp add: demo_late_def demo_puller_def demo_env_def)
  have s: "sealing_ok demo_late" using demo_xaead_correct by (simp add: sealing_ok_def c)
  have fid: "f_id ?rec = replicate 16 1" by (simp add: new_transfer_def demo_id)
  from file_put_get [OF s put] have "file_get demo_late (replicate 16 1) (w_db v) = Inr (Some ?rec)"
    unfolding v_def fid by (simp add: file_row_def new_world_def empty_db_def)
  then obtain r where r: "file_row (replicate 16 1) (w_db v) = Some r" "scan_file demo_late r = Inr ?rec"
    by (auto simp: file_get_def bindR_Inr_iff split: option.splits)
  have out: "\<not> f_out r" using scan_file_out [OF r(2)] by (simp add: new_transfer_def)
  define w where "w = v\<lparr>w_pulls := [replicate 16 1 \<mapsto> demo_full], w_inodes := (\<lambda>_. [1, 1, 1, 1, 1]),
      w_paths := [part_path demo_late (replicate 16 1) \<mapsto> 0]\<rparr>"
  define w1 where "w1 = finish_pull demo_late demo_full w"
  define w2 where "w2 = w1\<lparr>w_pulls := Map.empty\<rparr>"
  have f: "pl_man demo_full = demo_manifest" "pl_fd demo_full = 0" "bitmap_ok (pl_bm demo_full)" "bm_n (pl_bm demo_full) = 3"
    by (simp_all add: demo_full_def demo_half_def bitmap_ok_def)
  have valid: "validate_manifest demo_manifest" using demo_describes by (simp add: describes_def)
  have bad: "c_blake (v_crypto demo_late) (w_inodes w 0) \<noteq> mf_hash demo_manifest"
    by (simp add: c w_def demo_crypto_def demo_pad_def demo_manifest_def)
  have disk: "v_disk demo_late p" for p by (simp add: demo_late_def demo_puller_def demo_env_def)
  have m: "decode_manifest (v_pman demo_late) (f_man ?rec) = Inr demo_manifest"
    using demo_manifest_ok by (simp add: demo_late_def demo_puller_def new_transfer_def)
  from mismatched_file_is_stuck [of w demo_full demo_late r ?rec w1 w2] obtain rec' where
    "file_get demo_late (replicate 16 1) (w_db w1) = Inr (Some rec')" "\<not> f_done rec'"
    "\<exists>q. w_pulls (start_pull demo_late rec' w2) = [replicate 16 1 \<mapsto> q] \<and> bitmap_complete (pl_bm q)"
    "blob_tick demo_late [replicate 16 1] (start_pull demo_late rec' w2) = start_pull demo_late rec' w2"
    using f demo_full_complete valid bad disk m r out
    by (auto simp: demo_sizes demo_id w_def w2_def w1_def new_transfer_def)
  moreover have "w_db w2 = w_db w1" by (simp add: w2_def)
  ultimately show ?thesis by metis
qed

end
