(* ===== verification/App.thy ===== *)
theory App
  imports Group Callsig BlobRun MediaBridgeThms
begin

text \<open>
  Package app: how the node is put together (app/core.go). \<open>core_engine\<close> is the
  dispatch table that the managers and New fill, with the gate of package contact
  and the step that introduces strangers; \<open>deliver_frame\<close> is one turn of the loop over the
  network's deliveries. The media bridge follows the call through the callback
  that New installs; \<open>node\<close> is that composition. Every handler of the table is tame,
  so the promises of the reliable delivery hold of this node.
\<close>

section \<open>The dispatch table\<close>

definition core_handlers :: "etype \<rightharpoonup> handler" where
  "core_handlers = [
     TypeContactRequest \<mapsto> on_contact_request,
     TypeContactAccept \<mapsto> on_contact_accept,
     TypeChat \<mapsto> on_chat,
     TypeSessionInit \<mapsto> on_session_init,
     TypeSessionInitAck \<mapsto> on_session_init_ack,
     TypeFileManifest \<mapsto> register_sealed on_manifest,
     TypeGroup \<mapsto> on_group_message,
     TypeGroupWelcome \<mapsto> register_sealed on_welcome,
     TypeGroupUpdate \<mapsto> register_sealed on_update,
     TypeGroupKey \<mapsto> register_sealed on_key,
     TypeCallOffer \<mapsto> register_sealed on_offer,
     TypeCallAnswer \<mapsto> register_sealed on_answer,
     TypeCallHangup \<mapsto> register_sealed on_hangup]"

definition core_fast :: "etype \<rightharpoonup> fast_handler" where
  "core_fast = [
     TypeProbe \<mapsto> handle_probe,
     TypePong \<mapsto> handle_pong,
     TypeFileChunk \<mapsto> handle_chunk,
     TypeFileChunkReq \<mapsto> handle_chunk_req]"

definition introduce :: "env \<Rightarrow> peer_id \<Rightarrow> etype \<Rightarrow> unit tx" where
  "introduce E from t = ensure_known E from ''''"

definition core_engine :: engine where
  "core_engine = \<lparr>n_handlers = core_handlers, n_fast = core_fast, n_gate = Some gate, n_pre = Some introduce\<rparr>"

definition deliver_frame :: "env \<Rightarrow> peer_id \<Rightarrow> bytes \<Rightarrow> world \<Rightarrow> world" where
  "deliver_frame E from frame w = handle_inbound core_engine E from frame (mark_activity E from w)"

text \<open>What the network delivers over time, each frame at its own moment.\<close>

definition deliver_frames :: "(env \<times> peer_id \<times> bytes) list \<Rightarrow> world \<Rightarrow> world" where
  "deliver_frames = fold (\<lambda>(E, from, frame). deliver_frame E from frame)"

lemma core_handlers_tame: "core_handlers t = Some h \<Longrightarrow> moves tame (h E p e)"
  by (auto simp: core_handlers_def split: if_splits
      intro: tame_contact tame_chat tame_sealed tame_manifest tame_group tame_calls)

lemma signal_same [simp]: "w_db (send_signal E p t w) = w_db w" "w_states (send_signal E p t w) = w_states w"
  by (simp_all add: send_signal_def send_def Let_def split: sum.split)

lemma activity_same [simp]: "w_db (mark_activity E p w) = w_db w" "w_states (mark_activity E p w) = w_states w"
  by (simp_all add: mark_activity_def Let_def)

lemma core_fast_db: "core_fast t = Some g \<Longrightarrow> w_db (g E p e w) = w_db w \<and> w_states (g E p e w) = w_states w"
  by (auto simp: core_fast_def handle_probe_def handle_pong_def handle_chunk_def handle_chunk_req_def split: if_splits)

interpretation core: tame_engine core_engine
  by unfold_locales
    (auto simp: core_engine_def introduce_def core_handlers_tame core_fast_db intro: tame_ensure_known)

section \<open>Every type is routed\<close>

text \<open>
  The dispatch table is complete and unambiguous: exactly the types above the
  acknowledgement up to the last one that Decode lets through have a handler, and
  none has both a reliable and a fast one, so no envelope that Decode accepts is
  counted as unhandled and every reliable type goes through the deduplication.
\<close>

theorem every_type_is_routed:
  "(TypeAck < t \<and> t \<le> maxType) = (n_handlers core_engine t \<noteq> None \<or> n_fast core_engine t \<noteq> None)
   \<and> \<not> (n_handlers core_engine t \<noteq> None \<and> n_fast core_engine t \<noteq> None)"
proof -
  let ?T = "{2, 3, 4, 5, 6, 7, 8, 9, 10, 11, 12, 13, 14, 15, 16, 17, 18}"
  have "t \<in> ?T \<longleftrightarrow> unat t \<in> ?T" by (simp add: word_unat_eq_iff)
  also have "?T = set [2..<19]" by (simp add: upt_rec)
  finally have "t \<in> ?T \<longleftrightarrow> 2 \<le> unat t \<and> unat t < 19" by (simp only: set_upt atLeastLessThan_iff)
  moreover have "1 < t \<longleftrightarrow> 2 \<le> unat t" "t \<le> 18 \<longleftrightarrow> unat t < 19"
    by (simp_all add: word_less_nat_alt word_le_nat_alt) linarith+
  moreover have "dom core_handlers = {4, 5, 6, 7, 8, 9, 10, 13, 14, 15, 16, 17, 18}"
    unfolding core_handlers_def type_defs by (simp add: insert_commute)
  moreover have "dom core_fast = {2, 3, 11, 12}"
    unfolding core_fast_def type_defs by (simp add: insert_commute)
  ultimately have r: "(1 < t \<and> t \<le> 18) = (t \<in> dom core_handlers \<union> dom core_fast)"
    and d: "dom core_handlers \<inter> dom core_fast = {}" by auto
  have "TypeAck = 1" "maxType = 18" by (simp_all add: type_defs)
  with r d show ?thesis by (simp add: core_engine_def disjoint_iff) (metis domIff not_None_eq)
qed

section \<open>At most once\<close>

lemma one_table: "core_handlers t = Some h \<Longrightarrow> t \<noteq> TypeAck \<and> core_fast t = None"
  by (auto simp: core_handlers_def core_fast_def type_defs split: if_splits)

lemma state_activity [simp]: "state (mark_activity E p w) q = state w q"
  by (simp add: state_def)

lemma deliver_reliable:
  assumes "decode_env (v_penv E) frame = Inr e" "core_handlers (e_type e) = Some h"
  shows "deliver_frame E from frame w = (if state w from = PeerBlocked
      then bump_w ''outbox.gateDropped'' (mark_activity E from w)
      else handle_reliable core_engine E from e (mark_activity E from w))"
  using assms(1) one_table [OF assms(2)]
  by (simp add: deliver_frame_def handle_inbound_def core_engine_def gate_def)

lemma remembered_db: "d_dedup (w_db w') = d_dedup (w_db w) \<Longrightarrow> remembered p mid t k w \<Longrightarrow> remembered p mid t (Suc k) w'"
  by (auto simp: remembered_def window_def)

lemma handle_ack_dedup: "d_dedup (w_db (handle_ack E from e w)) = d_dedup (w_db w)"
  by (auto simp: handle_ack_def run_tx_def ack_tx_run run_hooks_def settled_db_def)

lemma deliver_remembers:
  assumes rem: "remembered p mid t k w" and "t \<le> v_now E" "v_now E \<le> t + dedupMaxAge" "k < dedupCap"
  shows "remembered p mid t (Suc k) (deliver_frame E from frame w)"
proof -
  let ?w = "mark_activity E from w"
  have rem': "remembered p mid t k ?w" using rem by (simp add: remembered_def)
  note reliable = core.reliable_remembers [OF rem' assms(2-4), of "from"]
  have same: "remembered p mid t (Suc k) w'" if "d_dedup (w_db w') = d_dedup (w_db ?w)" for w'
    by (rule remembered_db [OF that rem'])
  have "remembered p mid t (Suc k) (g E from e ?w)" if "core_fast (e_type e) = Some g" for g e
    by (rule same) (simp add: core_fast_db [OF that])
  with reliable show ?thesis
    by (auto simp: deliver_frame_def handle_inbound_def core_engine_def intro!: same handle_ack_dedup
        split: sum.split option.split)
qed

lemma deliver_frames_remembers:
  assumes "remembered p mid t k w" "k + length run < dedupCap"
    "list_all (\<lambda>(E, p, f). t \<le> v_now E \<and> v_now E \<le> t + dedupMaxAge) run"
  shows "remembered p mid t (k + length run) (deliver_frames run w)"
  using assms
proof (induction run arbitrary: w k)
  case (Cons x run)
  obtain E q f where x: "x = (E, q, f)" by (cases x)
  have "remembered p mid t (Suc k) (deliver_frame E q f w)"
    by (rule deliver_remembers) (use Cons.prems in \<open>auto simp: x\<close>)
  from Cons.IH [OF this] Cons.prems show ?case by (simp add: deliver_frames_def x)
qed (simp add: deliver_frames_def)

lemma ack_states [simp]: "w_states (handle_ack E from e w) = w_states w"
  by (simp add: handle_ack_def run_tx_def ack_tx_run run_hooks_def)

lemma reliable_joins: "w_states (handle_reliable core_engine E from e w) p = w_states w p
    \<or> w_states (handle_reliable core_engine E from e w) p = Some PeerContact"
  using core.reliable_grown [of e _ w E "from"]
  by (cases "n_handlers core_engine (e_type e)") (auto simp: grown_def handle_reliable_def)

lemma deliver_joins: "w_states (deliver_frame E from frame w) p = w_states w p
    \<or> w_states (deliver_frame E from frame w) p = Some PeerContact"
proof (cases "decode_env (v_penv E) frame")
  case (Inr e)
  show ?thesis
    using reliable_joins [of E "from" e "mark_activity E from w" p] core_fast_db [of "e_type e" _ E "from" e "mark_activity E from w"]
    by (auto simp: deliver_frame_def handle_inbound_def core_engine_def Inr split: option.split)
qed (simp add: deliver_frame_def handle_inbound_def)

lemma deliver_never_blocks: "state w p \<noteq> PeerBlocked \<Longrightarrow> state (deliver_frame E from frame w) p \<noteq> PeerBlocked"
  using deliver_joins [of E "from" frame w p] by (auto simp: state_def)

lemma deliver_frames_never_blocks: "state w p \<noteq> PeerBlocked \<Longrightarrow> state (deliver_frames run w) p \<noteq> PeerBlocked"
  by (induction run arbitrary: w) (auto simp: deliver_frames_def dest: deliver_never_blocks)

lemma activity_out: "\<exists>more. w_out (mark_activity E p w) = w_out w @ more \<and> set more \<subseteq> {OPresence p True}"
  by (auto simp: mark_activity_def Let_def)

text \<open>
  C32. An envelope is handled at most once: once the node has committed an
  envelope, another one with the same id from the same peer only renews the time
  of the row that remembers it and repeats the acknowledgement, whatever frames of
  whatever peers were delivered in between, as long as they and the rows that
  remember the peer are fewer than the cap and no clock is more than the age limit
  later. Nothing else in the database changes, and the user sees no second message.
\<close>

theorem delivered_at_most_once:
  assumes first: "decode_env (v_penv E) frame = Inr e" "core_handlers (e_type e) = Some h" "state w from \<noteq> PeerBlocked"
      "is_ok (fst (run_tx (reliable_tx core_engine h E from e) (mark_activity E from w)))"
    and room: "length (window from (w_db w)) + length run + 1 < dedupCap"
    and clocks: "list_all (\<lambda>(E', p, f). v_now E \<le> v_now E' \<and> v_now E' \<le> v_now E + dedupMaxAge) run"
    and again: "decode_env (v_penv E') frame' = Inr e'" "core_handlers (e_type e') = Some h'" "e_id e' = e_id e"
    and w1: "w1 = deliver_frames run (deliver_frame E from frame w)"
  shows "w_db (deliver_frame E' from frame' w1) = touch from (e_id e) (v_now E') (w_db w1)
    \<and> (\<exists>more. w_out (deliver_frame E' from frame' w1) = w_out w1 @ more
        \<and> (\<forall>x \<in> set more. x = OPresence from True \<or> (\<exists>ack. x = OSend from ack)))"
proof -
  let ?k = "length (window from (w_db w))" let ?w = "mark_activity E' from w1"
  have h: "n_handlers core_engine (e_type e) = Some h" "n_handlers core_engine (e_type e') = Some h'"
    using first(2) again(2) by (simp_all add: core_engine_def)
  have "remembered from (e_id e) (v_now E) (Suc ?k) (deliver_frame E from frame w)"
    using core.reliable_marks [OF h(1) first(4)] room first(3)
    by (simp add: deliver_reliable [OF first(1,2)])
  from deliver_frames_remembers [OF this _ clocks] room w1
  have "remembered from (e_id e) (v_now E) (Suc ?k + length run) w1" by simp
  then have seen: "dedup_seen from (e_id e') (w_db ?w)" using remembered_seen again(3) by simp
  obtain more where more: "w_out ?w = w_out w1 @ more" "set more \<subseteq> {OPresence from True}"
    using activity_out by blast
  have unblocked: "state w1 from \<noteq> PeerBlocked"
    using first(3) unfolding w1 by (intro deliver_frames_never_blocks deliver_never_blocks)
  let ?t = "bump_w ''outbox.dedupHits'' (?w\<lparr>w_db := touch from (e_id e') (v_now E') (w_db ?w)\<rparr>)"
  have d: "deliver_frame E' from frame' w1 = send_ack E' from (e_id e') ?t"
    using deliver_reliable [OF again(1,2), of "from" w1] unblocked
      handle_repeated [where G = core_engine, OF h(2) seen] by simp
  obtain more' where "w_out (send_ack E' from (e_id e') ?t) = w_out ?t @ more'"
    "\<forall>x \<in> set more'. \<exists>ack. x = OSend from ack"
    using send_ack_frame [of E' "from" "e_id e'" ?t] by fastforce
  moreover have "w_out ?t = w_out w1 @ more" by (simp add: more(1))
  ultimately have "w_out (deliver_frame E' from frame' w1) = w_out w1 @ (more @ more')"
    "\<forall>x \<in> set (more @ more'). x = OPresence from True \<or> (\<exists>ack. x = OSend from ack)"
    using d more(2) by auto
  moreover have "w_db (deliver_frame E' from frame' w1) = touch from (e_id e) (v_now E') (w_db w1)"
    using d send_ack_frame again(3) by simp
  ultimately show ?thesis by blast
qed

definition demo_accept :: env where
  "demo_accept = demo_env\<lparr>v_penv := one_pb [1] \<lparr>pe_id = replicate 16 7, pe_type = 5, pe_seq = 0, pe_lamport = 0, pe_payload = []\<rparr>\<rparr>"

lemma demo_accept_decode: "decode_env (v_penv demo_accept) [1]
    = Inr \<lparr>e_id = replicate 16 7, e_type = TypeContactAccept, e_seq = 0, e_lamport = 0, e_payload = []\<rparr>"
  by (simp add: demo_accept_def decode_env_def MsgIDLen_def validate_env_def type_defs MaxPayload_def)

lemma demo_accept_handler: "core_handlers TypeContactAccept = Some on_contact_accept"
  by (simp add: core_handlers_def type_defs)

theorem delivered_at_most_once_witness:
  "w_db (deliver_frame demo_accept (PeerID [2]) [1] (deliver_frames [(demo_accept, PeerID [3], [1])]
      (deliver_frame demo_accept (PeerID [2]) [1] (new_world []))))
    = touch (PeerID [2]) (replicate 16 7) 1000 (w_db (deliver_frames [(demo_accept, PeerID [3], [1])]
        (deliver_frame demo_accept (PeerID [2]) [1] (new_world []))))"
proof -
  let ?w1 = "deliver_frames [(demo_accept, PeerID [3], [1])] (deliver_frame demo_accept (PeerID [2]) [1] (new_world []))"
  let ?e = "\<lparr>e_id = replicate 16 7, e_type = TypeContactAccept, e_seq = 0, e_lamport = 0, e_payload = []\<rparr>"
  have ok: "is_ok (fst (run_tx (reliable_tx core_engine on_contact_accept demo_accept (PeerID [2]) ?e)
      (mark_activity demo_accept (PeerID [2]) (new_world []))))"
    by (simp add: reliable_tx_def run_tx_def bnd_def seq_def dedup_insert_run new_world_def empty_db_def dedup_seen_def
      core_engine_def introduce_def ensure_known_def on_contact_accept_def mark_activity_def state_def
      peer_get_def peer_put_def peer_row_def whenM_def demo_accept_def demo_env_def pruneEvery_def bump_w_def scan_peer_def)
  have open1: "state (new_world []) (PeerID [2]) \<noteq> PeerBlocked" by (simp add: state_def new_world_def)
  have clock: "v_now demo_accept = 1000" by (simp add: demo_accept_def demo_env_def)
  have "length (window (PeerID [2]) (w_db (new_world []))) + length [(demo_accept, PeerID [3], [1])] + 1 < dedupCap"
    by (simp add: new_world_def empty_db_def window_def dedupCap_def)
  from delivered_at_most_once [OF demo_accept_decode _ open1 ok this _ demo_accept_decode _ refl refl] show ?thesis
    by (simp add: demo_accept_handler clock dedupMaxAge_def)
qed

section \<open>Peers cannot touch each other's rows\<close>

text \<open>What frames of the peers in \<open>S\<close> may change: \<open>isolated\<close> for several peers.\<close>

definition isolated_by :: "peer_id set \<Rightarrow> world \<Rightarrow> world \<Rightarrow> bool" where
  "isolated_by S w w' \<longleftrightarrow>
     (\<forall>r \<in> set (d_outbox (w_db w)). o_peer r \<notin> S \<longrightarrow> r \<in> set (d_outbox (w_db w')))
   \<and> (\<exists>f more. d_msgs (w_db w') = map f (d_msgs (w_db w)) @ more
        \<and> (\<forall>m. f m = m \<or> sm_peer m \<in> S \<and> sm_out m \<and> f m = m\<lparr>sm_status := StatusDelivered\<rparr>))
   \<and> (\<forall>p. peer_state p (w_db w) = Some PeerBlocked \<longrightarrow> peer_state p (w_db w') = Some PeerBlocked)
   \<and> (synced w \<longrightarrow> synced w')"

lemma isolated_by_one: "isolated p w w' \<Longrightarrow> isolated_by {p} w w'"
  by (simp add: isolated_def isolated_by_def)

lemma isolated_by_refl: "isolated_by S w w"
  unfolding isolated_by_def by (auto intro!: exI [of _ "\<lambda>m. m"])

lemma isolated_by_mono: "isolated_by S w w' \<Longrightarrow> S \<subseteq> T \<Longrightarrow> isolated_by T w w'"
  unfolding isolated_by_def by (fast elim!: subsetD)

lemma isolated_by_trans:
  assumes "isolated_by S u v" "isolated_by S v w"
  shows "isolated_by S u w"
proof -
  obtain f m1 where f: "d_msgs (w_db v) = map f (d_msgs (w_db u)) @ m1"
    "\<And>m. f m = m \<or> sm_peer m \<in> S \<and> sm_out m \<and> f m = m\<lparr>sm_status := StatusDelivered\<rparr>"
    using assms(1) unfolding isolated_by_def by metis
  obtain g m2 where g: "d_msgs (w_db w) = map g (d_msgs (w_db v)) @ m2"
    "\<And>m. g m = m \<or> sm_peer m \<in> S \<and> sm_out m \<and> g m = m\<lparr>sm_status := StatusDelivered\<rparr>"
    using assms(2) unfolding isolated_by_def by metis
  have "g (f m) = m \<or> sm_peer m \<in> S \<and> sm_out m \<and> g (f m) = m\<lparr>sm_status := StatusDelivered\<rparr>" for m
    using f(2) [of m] g(2) [of "f m"] by auto
  moreover have "d_msgs (w_db w) = map (\<lambda>m. g (f m)) (d_msgs (w_db u)) @ (map g m1 @ m2)"
    using f(1) g(1) by simp
  ultimately have "\<exists>f more. d_msgs (w_db w) = map f (d_msgs (w_db u)) @ more
      \<and> (\<forall>m. f m = m \<or> sm_peer m \<in> S \<and> sm_out m \<and> f m = m\<lparr>sm_status := StatusDelivered\<rparr>)"
    by (intro exI [of _ "\<lambda>m. g (f m)"] exI [of _ "map g m1 @ m2"]) simp
  with assms show ?thesis unfolding isolated_by_def by simp
qed

lemma deliver_isolated: "isolated from w (deliver_frame E from frame w)"
  using core.inbound_isolated [of "from" "mark_activity E from w" E frame]
  by (simp add: deliver_frame_def isolated_def synced_def)

lemma deliver_blocked: "state w from = PeerBlocked \<Longrightarrow> \<exists>c. deliver_frame E from frame w = bump_w c w"
  by (auto simp: deliver_frame_def handle_inbound_def core_engine_def gate_def mark_activity_def split: sum.split)

text \<open>The peers that send something in a run and are not blocked.\<close>

definition speakers :: "(env \<times> peer_id \<times> bytes) list \<Rightarrow> world \<Rightarrow> peer_id set" where
  "speakers run w = {p \<in> (fst \<circ> snd) ` set run. peer_state p (w_db w) \<noteq> Some PeerBlocked}"

lemma deliver_speaker:
  assumes "synced w"
  shows "isolated_by (speakers ((E, from, frame) # run) w) w (deliver_frame E from frame w)"
proof (cases "peer_state from (w_db w) = Some PeerBlocked")
  case True
  then have "state w from = PeerBlocked" using assms by (simp add: synced_def state_def)
  from deliver_blocked [OF this] obtain c where "deliver_frame E from frame w = bump_w c w" by blast
  then show ?thesis by (auto simp: isolated_by_def synced_def intro!: exI [of _ "\<lambda>m. m"])
next
  case False
  then have "{from} \<subseteq> speakers ((E, from, frame) # run) w" by (simp add: speakers_def)
  with deliver_isolated show ?thesis by (blast intro: isolated_by_mono isolated_by_one)
qed

text \<open>
  C33. Whatever frames the network delivers, in whatever order: a row leaves the
  queue, and a message of the history changes, only for a peer that sent something
  in this run and was not blocked, and a message changes only from waiting or sent
  to delivered; history otherwise only grows at its end, no delivery lifts a block,
  and the circle in memory stays what the store says.
\<close>

theorem delivery_is_isolated:
  assumes "synced w"
  shows "(\<forall>r \<in> set (d_outbox (w_db w)). o_peer r \<notin> speakers run w \<longrightarrow> r \<in> set (d_outbox (w_db (deliver_frames run w))))
    \<and> (\<exists>f more. d_msgs (w_db (deliver_frames run w)) = map f (d_msgs (w_db w)) @ more
        \<and> (\<forall>m. f m = m \<or> sm_peer m \<in> speakers run w \<and> sm_out m \<and> f m = m\<lparr>sm_status := StatusDelivered\<rparr>))
    \<and> (\<forall>p. peer_state p (w_db w) = Some PeerBlocked \<longrightarrow> peer_state p (w_db (deliver_frames run w)) = Some PeerBlocked)
    \<and> synced (deliver_frames run w)"
proof -
  have "isolated_by (speakers run w) w (deliver_frames run w)"
    using assms
  proof (induction run arbitrary: w)
    case (Cons x run)
    obtain E p frame where x: "x = (E, p, frame)" by (cases x)
    let ?v = "deliver_frame E p frame w"
    have step: "isolated_by (speakers (x # run) w) w ?v" using deliver_speaker [OF Cons.prems] by (simp add: x)
    then have "speakers run ?v \<subseteq> speakers (x # run) w" by (auto simp: isolated_by_def speakers_def)
    moreover have "synced ?v" using step Cons.prems by (simp add: isolated_by_def)
    ultimately have "isolated_by (speakers (x # run) w) ?v (deliver_frames run ?v)"
      using Cons.IH isolated_by_mono by blast
    with step have "isolated_by (speakers (x # run) w) w (deliver_frames run ?v)" by (rule isolated_by_trans)
    then show ?case by (simp add: deliver_frames_def x)
  qed (simp add: deliver_frames_def isolated_by_refl)
  with assms show ?thesis unfolding isolated_by_def by blast
qed

theorem delivery_is_isolated_witness:
  "synced (deliver_frames [(demo_accept, PeerID [2], [1]), (demo_accept, PeerID [3], [1])] (new_world []))"
  using delivery_is_isolated [of "new_world []" "[(demo_accept, PeerID [2], [1]), (demo_accept, PeerID [3], [1])]"]
  by (simp add: synced_def new_world_def empty_db_def peer_state_def peer_row_def)

end
