(* ===== verification/CallMedia.thy ===== *)
theory CallMedia
  imports App
begin

text \<open>
  The call and its media in package app (app/core.go): New's callback opens the
  media path of an accepted call and detaches the bridge when a call ends,
  openMedia and the loop over inbound sessions attach a session only if the call
  is still the current one. The opening of a path takes its time on a goroutine of
  its own, and so does the moment between the check and the attachment: both are
  steps here. A session is a number; what is told to the outside is \<open>nd_out\<close>.
\<close>

record core_node =
  nd_world :: world
  nd_media :: media_world
  nd_opens :: "call list" \<comment> \<open>goroutines of openMedia that wait for the path\<close>
  nd_ready :: "nat list" \<comment> \<open>sessions that passed the check\<close>
  nd_out :: "media_out list"
  nd_reconn :: "bytes list" \<comment> \<open>calls of OnCallReconnecting\<close>

text \<open>One operation of the bridge.\<close>

definition on_bridge :: "transport \<Rightarrow> media_op \<Rightarrow> core_node \<Rightarrow> media_out list \<times> core_node" where
  "on_bridge T op n = (let q = media_step T op (nd_media n)
     in (snd q, n\<lparr>nd_media := fst q, nd_out := nd_out n @ snd q\<rparr>))"

definition on_call_state :: "transport \<Rightarrow> call \<Rightarrow> core_node \<Rightarrow> core_node" where
  "on_call_state T c n = (case c_state c of
       StateActive \<Rightarrow> if c_out c then n\<lparr>nd_opens := nd_opens n @ [c]\<rparr> else n
     | StateEnded \<Rightarrow> snd (on_bridge T MDetach n)
     | _ \<Rightarrow> n)"

text \<open>An operation of a manager, with the callbacks it makes.\<close>

definition call_events :: "out list \<Rightarrow> call list" where
  "call_events outs = concat (map (\<lambda>x. case x of OCallState c \<Rightarrow> [c] | _ \<Rightarrow> []) outs)"

definition node_do :: "transport \<Rightarrow> (world \<Rightarrow> world) \<Rightarrow> core_node \<Rightarrow> core_node" where
  "node_do T f n = (let w = f (nd_world n)
     in fold (on_call_state T) (call_events (drop (length (w_out (nd_world n))) (w_out w))) (n\<lparr>nd_world := w\<rparr>))"

definition still_current :: "call \<Rightarrow> world \<Rightarrow> bool" where
  "still_current c w = (case current_call w of None \<Rightarrow> False
     | Some cur \<Rightarrow> c_id cur = c_id c \<and> c_state cur = StateActive)"

definition drop_nth :: "nat \<Rightarrow> 'a list \<Rightarrow> 'a list" where
  "drop_nth k xs = take k xs @ drop (Suc k) xs"

text \<open>OpenMedia of the k-th waiting goroutine returns: a session or an error.\<close>

definition open_media :: "nat \<Rightarrow> nat option \<Rightarrow> core_node \<Rightarrow> core_node" where
  "open_media k r n =
     (if length (nd_opens n) \<le> k then n
      else let n' = n\<lparr>nd_opens := drop_nth k (nd_opens n)\<rparr> in
        case r of None \<Rightarrow> n'
        | Some s \<Rightarrow> if still_current (nd_opens n ! k) (nd_world n) then n'\<lparr>nd_ready := nd_ready n @ [s]\<rparr>
            else n'\<lparr>nd_out := nd_out n @ [OClose s]\<rparr>)"

definition inbound_media :: "nat \<Rightarrow> peer_id \<Rightarrow> core_node \<Rightarrow> core_node" where
  "inbound_media s remote n =
     (if (case current_call (nd_world n) of None \<Rightarrow> False
          | Some c \<Rightarrow> c_state c = StateActive \<and> remote = c_peer c)
      then n\<lparr>nd_ready := nd_ready n @ [s]\<rparr> else n\<lparr>nd_out := nd_out n @ [OClose s]\<rparr>)"

definition attach_ready :: "transport \<Rightarrow> int \<Rightarrow> nat \<Rightarrow> core_node \<Rightarrow> core_node" where
  "attach_ready T now k n =
     (if length (nd_ready n) \<le> k then n
      else snd (on_bridge T (MAttach now (nd_ready n ! k)) (n\<lparr>nd_ready := drop_nth k (nd_ready n)\<rparr>)))"

definition on_media_closed :: "core_node \<Rightarrow> core_node" where
  "on_media_closed n = (case current_call (nd_world n) of None \<Rightarrow> n
     | Some c \<Rightarrow> if c_state c \<noteq> StateActive then n
         else n\<lparr>nd_reconn := nd_reconn n @ [c_id c], nd_opens := nd_opens n @ (if c_out c then [c] else [])\<rparr>)"

text \<open>A frame from the renderer or an event of a pump; a dead path is reported at once.\<close>

definition node_media :: "transport \<Rightarrow> media_op \<Rightarrow> core_node \<Rightarrow> core_node" where
  "node_media T op n = (let q = on_bridge T op n
     in (on_media_closed ^^ length (filter (\<lambda>x. x = OPathClosed) (fst q))) (snd q))"

section \<open>The bridge and the call\<close>

lemma on_bridge_world [simp]: "nd_world (snd (on_bridge T op n)) = nd_world n"
  by (simp add: on_bridge_def Let_def)

lemma on_call_state_world [simp]: "nd_world (on_call_state T c n) = nd_world n"
  by (simp add: on_call_state_def split: call_state.split)

lemma node_do_world [simp]: "nd_world (node_do T f n) = f (nd_world n)"
proof -
  have "nd_world (fold (on_call_state T) cs m) = nd_world m" for cs m
    by (induction cs arbitrary: m) simp_all
  then show ?thesis by (simp add: node_do_def Let_def)
qed

lemma node_do_silent: "w_out (f (nd_world n)) = w_out (nd_world n) \<Longrightarrow> node_do T f n = n\<lparr>nd_world := f (nd_world n)\<rparr>"
  by (simp add: node_do_def Let_def call_events_def)

lemma detach_session [simp]: "br_session (mw_bridge (nd_media (snd (on_bridge T MDetach n)))) = None"
  by (simp add: on_bridge_def Let_def bridge_detach_def)

text \<open>An operation that announces the end of the call as its last event leaves no session.\<close>

lemma ended_detaches:
  assumes "call_events (drop (length (w_out (nd_world n))) (w_out (f (nd_world n)))) = cs @ [c]" "c_state c = StateEnded"
  shows "br_session (mw_bridge (nd_media (node_do T f n))) = None"
  using assms by (simp add: node_do_def Let_def on_call_state_def)

text \<open>A path that opens for a call that is no longer current is closed again.\<close>

lemma late_path_closed:
  assumes "k < length (nd_opens n)" "\<not> still_current (nd_opens n ! k) (nd_world n)"
  shows "open_media k (Some s) n = n\<lparr>nd_opens := drop_nth k (nd_opens n), nd_out := nd_out n @ [OClose s]\<rparr>"
  using assms by (simp add: open_media_def)

section \<open>Hanging up on a blocked peer\<close>

definition demo_call :: call where
  "demo_call = \<lparr>c_id = replicate 16 9, c_peer = PeerID (replicate 32 2), c_state = StateActive, c_out = True, c_codecs = []\<rparr>"

text \<open>A node in a call whose media path is up.\<close>

definition demo_node :: core_node where
  "demo_node = snd (on_bridge demo_transport (MAttach 0 5) \<lparr>nd_world = new_call demo_call (new_world (replicate 200 1)),
     nd_media = media_start None, nd_opens = [], nd_ready = [], nd_out = [], nd_reconn = []\<rparr>)"

lemma demo_node_call: "current_call (nd_world demo_node) = Some demo_call"
  "br_session (mw_bridge (nd_media demo_node)) = Some 5" "nd_world demo_node = new_call demo_call (new_world (replicate 200 1))"
  by (simp_all add: demo_node_def current_call_def new_call_def new_world_def on_bridge_def media_start_def bridge_attach_def Let_def)

lemma blocked_call:
  assumes "p \<noteq> v_self E"
  shows "fst (block E p w) = Inr ()" "w_call (snd (block E p w)) = w_call w" "w_calls (snd (block E p w)) = w_calls w"
    "w_out (snd (block E p w)) = w_out w" "state (snd (block E p w)) p = PeerBlocked"
  using block_run [OF assms, of w] by (auto simp: forget_def set_state_def state_def)

lemma hangup_blocked:
  assumes "w_call w = Some r" "state w (c_peer (w_calls w r)) = PeerBlocked"
    and "marshal (v_phangup E) \<lparr>ph_id = c_id (w_calls w r)\<rparr> = Some payload"
  shows "hangup_call E (c_id (w_calls w r)) w = (Inl ErrPeerBlocked, (set_call r StateEnded w)\<lparr>w_call := None\<rparr>)"
  using assms by (simp add: hangup_call_def set_call_def send_sealed_def may_send_def state_def Let_def)

text \<open>
  C34. The hangup of a call with a peer that was blocked during the call does not
  reach the media: Block succeeds and leaves the call and its consent as they are;
  Hangup then ends the call but reports an error, announces nothing to the user and
  leaves the session of the call attached, neither closed nor detached, so that the
  frames of the microphone are still sent to the blocked peer.
\<close>

theorem blocked_hangup_keeps_media:
  assumes call: "current_call (nd_world n) = Some c" and peer: "c_peer c \<noteq> v_self E"
    and media: "br_session (mw_bridge (nd_media n)) = Some s"
    and codec: "marshal (v_phangup E') \<lparr>ph_id = c_id c\<rparr> \<noteq> None"
    and n1: "n1 = node_do T (\<lambda>w. snd (block E (c_peer c) w)) n"
    and n2: "n2 = node_do T (\<lambda>w. snd (hangup_call E' (c_id c) w)) n1"
    and frame: "tr_first_app T \<le> ch" "ch \<noteq> ChVideo" "length payload \<le> tr_max_dgram T"
  shows "fst (block E (c_peer c) (nd_world n)) = Inr () \<and> current_call (nd_world n1) = Some c
    \<and> fst (hangup_call E' (c_id c) (nd_world n1)) = Inl ErrPeerBlocked
    \<and> current_call (nd_world n2) = None \<and> w_out (nd_world n2) = w_out (nd_world n)
    \<and> br_session (mw_bridge (nd_media n2)) = Some s \<and> nd_out n2 = nd_out n
    \<and> snd (snd (bridge_send T ch payload (mw_bridge (nd_media n2)))) = [ODatagram s ch payload]"
proof -
  let ?w1 = "snd (block E (c_peer c) (nd_world n))"
  note B = blocked_call [OF peer, of "nd_world n"]
  from call obtain r where r: "w_call (nd_world n) = Some r" "w_calls (nd_world n) r = c"
    by (auto simp: current_call_def)
  have w1: "w_call ?w1 = Some r" "w_calls ?w1 r = c" "state ?w1 (c_peer c) = PeerBlocked"
    using B(2,3,5) r by simp_all
  from codec obtain pl where pl: "marshal (v_phangup E') \<lparr>ph_id = c_id c\<rparr> = Some pl" by blast
  have hang: "hangup_call E' (c_id c) ?w1 = (Inl ErrPeerBlocked, (set_call r StateEnded ?w1)\<lparr>w_call := None\<rparr>)"
    using hangup_blocked [of ?w1 r E' pl] w1 pl by simp
  have s1: "n1 = n\<lparr>nd_world := ?w1\<rparr>" unfolding n1 by (rule node_do_silent) (rule B(4))
  have "n2 = n1\<lparr>nd_world := snd (hangup_call E' (c_id c) (nd_world n1))\<rparr>"
    unfolding n2 by (rule node_do_silent) (simp add: s1 hang set_call_def)
  then have s2: "n2 = n\<lparr>nd_world := (set_call r StateEnded ?w1)\<lparr>w_call := None\<rparr>\<rparr>" by (simp add: s1 hang)
  have send: "snd (snd (bridge_send T ch payload (mw_bridge (nd_media n)))) = [ODatagram s ch payload]"
    using media frame by (simp add: bridge_send_def Let_def not_less not_le split: option.split)
  show ?thesis
    using B(1,4) w1 media send by (simp add: s1 s2 hang current_call_def set_call_def)
qed

theorem blocked_hangup_keeps_media_witness:
  "let n1 = node_do demo_transport (\<lambda>w. snd (block demo_env (c_peer demo_call) w)) demo_node;
       n2 = node_do demo_transport (\<lambda>w. snd (hangup_call demo_env (c_id demo_call) w)) n1
   in current_call (nd_world n2) = None
     \<and> snd (snd (bridge_send demo_transport ChAudio [1] (mw_bridge (nd_media n2)))) = [ODatagram 5 ChAudio [1]]"
  unfolding Let_def
  using blocked_hangup_keeps_media [OF demo_node_call(1) _ demo_node_call(2) _ refl refl, of demo_env demo_env demo_transport ChAudio "[1]"]
  by (simp add: demo_env_def demo_call_def demo_transport_def ChAudio_def ChVideo_def)

section \<open>Hanging up\<close>

lemma hangup_says_so:
  assumes "hangup_call E cid w = (Inr (), w')"
  shows "current_call w' = None \<and> (\<exists>c. c_state c = StateEnded \<and> w_out w' = w_out w @ [OCallState c])"
proof -
  from assms obtain r where r: "w_call w = Some r" "c_id (w_calls w r) = cid"
    by (auto simp: hangup_call_def split: option.splits if_splits)
  define w1 where "w1 = (set_call r StateEnded w)\<lparr>w_call := None\<rparr>"
  have w1: "w_out w1 = w_out w" "c_state (w_calls w1 r) = StateEnded" "w_call w1 = None"
    by (simp_all add: w1_def set_call_def)
  from assms r obtain payload where pl: "marshal (v_phangup E) \<lparr>ph_id = cid\<rparr> = Some payload"
    by (auto simp: hangup_call_def Let_def split: option.splits)
  define q where "q = send_sealed E (c_peer (w_calls w1 r)) TypeCallHangup payload w1"
  have q: "w_out (snd q) = w_out w1" "w_call (snd q) = None"
    using quiet_send_sealed [of w1 E] w1(3) by (simp_all add: q_def quiet_send_def)
  have "w' = emit_state (w_calls w1 r) (snd q)"
    using assms r pl unfolding q_def w1_def
    by (auto simp: hangup_call_def Let_def split: sum.splits if_splits)
  then show ?thesis using q w1 by (auto simp: current_call_def emit_state_def)
qed

text \<open>
  A successful hangup ends the media: the bridge has no session any more, no
  frame of the renderer is sent, and a media path that opens or comes in afterwards
  is closed instead of attached.
\<close>

theorem hangup_stops_the_media:
  assumes "fst (hangup_call E cid (nd_world n)) = Inr ()"
    and n': "n' = node_do T (\<lambda>w. snd (hangup_call E cid w)) n"
  shows "br_session (mw_bridge (nd_media n')) = None
    \<and> snd (snd (bridge_send T ch payload (mw_bridge (nd_media n')))) = []
    \<and> nd_ready (open_media k (Some s) n') = nd_ready n' \<and> nd_ready (inbound_media s remote n') = nd_ready n'"
proof -
  from assms(1) obtain w' where run: "hangup_call E cid (nd_world n) = (Inr (), w')" by (metis prod.collapse)
  from hangup_says_so [OF this] obtain c where c: "current_call w' = None" "c_state c = StateEnded"
    "w_out w' = w_out (nd_world n) @ [OCallState c]" by blast
  have "br_session (mw_bridge (nd_media n')) = None"
    unfolding n' by (rule ended_detaches [of _ _ "[]" c]) (simp_all add: run c call_events_def)
  moreover have "nd_world n' = w'" by (simp add: n' run)
  ultimately show ?thesis
    using c(1) by (simp add: bridge_send_def open_media_def inbound_media_def still_current_def Let_def)
qed

lemma demo_hangup: "fst (hangup_call demo_env (c_id demo_call) (nd_world demo_node)) = Inr ()"
  unfolding demo_node_call(3)
  by (simp add: hangup_call_def new_call_def set_call_def demo_call_def Let_def send_sealed_def send_sealed_tx_def may_send_def
      state_def new_world_def new_msg_id_def read_full_def MsgIDLen_def run_tx_def bnd_def seq_def load_session_def
      session_get_def empty_db_def ensure_handshake_def handshake_get_def new_handshake_def generate_key_def demo_env_def
      demo_crypto_def SIDLen_def handshake_put_def encode_init_def new_mid_def enqueue_tx_def encode_env_def with_rnd_def
      outbox_enqueue_def box_seal_def draw_def NonceSizeX_def chat_envelope_def validate_env_def TypeSessionInit_def
      TypeAck_def maxType_def MaxPayload_def TypeCallHangup_def)

theorem hangup_stops_the_media_witness:
  "br_session (mw_bridge (nd_media (node_do demo_transport (\<lambda>w. snd (hangup_call demo_env (c_id demo_call) w)) demo_node))) = None"
  using hangup_stops_the_media [OF demo_hangup refl] by simp

end
