(* ===== verification/Startup.thy ===== *)
theory Startup
  imports Blob Mnemonic
begin

text \<open>
  What a node reads before it runs: the entry points of the network
  (app/bootstrap.go, and how cmd/molvad/main.go reads their file), the seed of its
  identity (cmd/molvad/main.go and identity.go) and the token of the local
  interface. Files are those of \<open>world\<close>; the directory is an argument, and a disk
  that serves a path writes all of a file or nothing. The identifier of an entry
  point is parsed by nodenet's kad.ParseID, an argument; so are nodenet's proof of
  work and identity (\<open>idlib\<close>). A Go string is its bytes.
\<close>

section \<open>Files\<close>

definition read_file :: "env \<Rightarrow> bytes \<Rightarrow> world \<Rightarrow> bytes option" where
  "read_file E path w = map_option (w_inodes w) (open_file E path w)"

definition write_file :: "env \<Rightarrow> bytes \<Rightarrow> bytes \<Rightarrow> world \<Rightarrow> world option" where
  "write_file E path data w = (case create_file E path w of (None, w') \<Rightarrow> None
     | (Some i, w') \<Rightarrow> Some (w'\<lparr>w_inodes := (w_inodes w')(i := data)\<rparr>))"

section \<open>Entry points\<close>

definition newline :: char where "newline = CHR 0x0A"

fun split_on :: "char \<Rightarrow> string \<Rightarrow> string list" where
  "split_on sep [] = [[]]"
| "split_on sep (c # cs) = (if c = sep then [] # split_on sep cs
     else case split_on sep cs of [] \<Rightarrow> [[c]] | p # ps \<Rightarrow> (c # p) # ps)"

fun join_on :: "char \<Rightarrow> string list \<Rightarrow> string" where
  "join_on sep [] = []"
| "join_on sep [s] = s"
| "join_on sep (s # ss) = s @ sep # join_on sep ss"

datatype boot_err = ErrBadBootstrap | ErrBootFile

record anchor =
  an_id :: bytes
  an_addr :: string

definition bootstrap_file :: "bytes \<Rightarrow> bytes" where
  "bootstrap_file dir = path_join dir (str_bytes ''bootstrap.txt'')"

definition file_entries :: "string \<Rightarrow> string list" where
  "file_entries s = filter (\<lambda>l. l \<noteq> []) (map trim_string (split_on newline s))"

definition bootstrap_entries :: "env \<Rightarrow> bytes \<Rightarrow> world \<Rightarrow> string list" where
  "bootstrap_entries E dir w = (case read_file E (bootstrap_file dir) w of None \<Rightarrow> []
     | Some b \<Rightarrow> file_entries (bytes_str b))"

definition parse_bootstrap_entry :: "(string \<Rightarrow> bytes option) \<Rightarrow> string \<Rightarrow> boot_err + anchor" where
  "parse_bootstrap_entry P s =
     (case cut (CHR ''@'') s of None \<Rightarrow> Inl ErrBadBootstrap
      | Some (idstr, hp) \<Rightarrow>
        if idstr = [] \<or> hp = [] then Inl ErrBadBootstrap
        else case P idstr of None \<Rightarrow> Inl ErrBadBootstrap
        | Some nid \<Rightarrow> if CHR '':'' \<notin> set hp then Inl ErrBadBootstrap
            else Inr \<lparr>an_id = nid, an_addr = hp\<rparr>)"

definition entries_text :: "string list \<Rightarrow> string" where
  "entries_text es = (if es = [] then [] else join_on newline es @ [newline])"

definition write_bootstrap :: "env \<Rightarrow> bytes \<Rightarrow> string list \<Rightarrow> world \<Rightarrow> (boot_err + unit) \<times> world" where
  "write_bootstrap E dir es w =
     (case write_file E (bootstrap_file dir) (str_bytes (entries_text es)) w of
        None \<Rightarrow> (Inl ErrBootFile, w) | Some w' \<Rightarrow> (Inr (), w'))"

text \<open>The middle component: what is handed to the running node's Bootstrap.\<close>

definition add_bootstrap ::
  "(string \<Rightarrow> bytes option) \<Rightarrow> env \<Rightarrow> bytes \<Rightarrow> string \<Rightarrow> world \<Rightarrow> (boot_err + unit) \<times> anchor list \<times> world" where
  "add_bootstrap P E dir s w =
     (let entry = trim_string s in
      case parse_bootstrap_entry P entry of Inl e \<Rightarrow> (Inl e, [], w)
      | Inr a \<Rightarrow>
        (let es = bootstrap_entries E dir w in
         if entry \<in> set es then (Inr (), [a], w)
         else case write_bootstrap E dir (es @ [entry]) w of
           (Inl e, w') \<Rightarrow> (Inl e, [], w') | (Inr u, w') \<Rightarrow> (Inr (), [a], w')))"

definition remove_bootstrap :: "env \<Rightarrow> bytes \<Rightarrow> string \<Rightarrow> world \<Rightarrow> (boot_err + unit) \<times> world" where
  "remove_bootstrap E dir s w =
     write_bootstrap E dir (filter (\<lambda>e. e \<noteq> trim_string s) (bootstrap_entries E dir w)) w"

section \<open>Reading them at start-up\<close>

text \<open>parseBootstrap: the error carries the item that stops the start.\<close>

fun parse_items :: "(string \<Rightarrow> bytes option) \<Rightarrow> string list \<Rightarrow> string + anchor list" where
  "parse_items P [] = Inr []"
| "parse_items P (x # xs) =
     (let item = trim_string x in
      if item = [] then parse_items P xs
      else case cut (CHR ''@'') item of None \<Rightarrow> Inl item
      | Some (idstr, hp) \<Rightarrow> (case P idstr of None \<Rightarrow> Inl item
        | Some nid \<Rightarrow> bindR (parse_items P xs) (\<lambda>as. Inr (\<lparr>an_id = nid, an_addr = hp\<rparr> # as))))"

definition parse_bootstrap :: "(string \<Rightarrow> bytes option) \<Rightarrow> string \<Rightarrow> string + anchor list" where
  "parse_bootstrap P s = (if s = [] then Inr [] else parse_items P (split_on (CHR '','') s))"

text \<open>The flag, or else the file with its line ends replaced by commas.\<close>

definition bootstrap_arg :: "env \<Rightarrow> bytes \<Rightarrow> string \<Rightarrow> world \<Rightarrow> string" where
  "bootstrap_arg E dir flag w =
     (if flag \<noteq> [] then flag
      else case read_file E (bootstrap_file dir) w of None \<Rightarrow> flag
      | Some b \<Rightarrow> map (\<lambda>c. if c = newline then CHR '','' else c) (trim_string (bytes_str b)))"

definition start_contacts :: "(string \<Rightarrow> bytes option) \<Rightarrow> env \<Rightarrow> bytes \<Rightarrow> string \<Rightarrow> world \<Rightarrow> string + anchor list" where
  "start_contacts P E dir flag w = parse_bootstrap P (bootstrap_arg E dir flag w)"

section \<open>The identity\<close>

record idlib =
  il_solve :: "int \<Rightarrow> bytes option" \<comment> \<open>pow.Solve, reading the system's random source\<close>
  il_satisfies :: "bytes \<Rightarrow> int \<Rightarrow> bool" \<comment> \<open>pow.Satisfies\<close>
  il_id :: "bytes \<Rightarrow> bytes" \<comment> \<open>identity.IDFromSeed\<close>
  il_string :: "bytes \<Rightarrow> string" \<comment> \<open>the String of an identifier\<close>

datatype start_err = SErrDir | SErrExists | SErrSolve | SErrFile | SErrSeedLen nat | SErrPow
  | SErrPhrase mnemonic_err | SErrToken

definition SeedLen :: nat where "SeedLen = 32"
definition stdinMax :: nat where "stdinMax = 4096"

definition seed_path :: "bytes \<Rightarrow> bytes" where
  "seed_path dir = path_join dir (str_bytes ''molva.seed'')"

text \<open>What a subcommand prints, line by line.\<close>

definition gen_identity ::
  "idlib \<Rightarrow> string list \<Rightarrow> env \<Rightarrow> bytes \<Rightarrow> int \<Rightarrow> world \<Rightarrow> (start_err + string list) \<times> world" where
  "gen_identity L wl E dir dmin w =
     (if \<not> v_disk E dir then (Inl SErrDir, w)
      else if open_file E (seed_path dir) w \<noteq> None then (Inl SErrExists, w)
      else case il_solve L dmin of None \<Rightarrow> (Inl SErrSolve, w)
      | Some seed \<Rightarrow>
        (case write_file E (seed_path dir) seed w of None \<Rightarrow> (Inl SErrFile, w)
         | Some w' \<Rightarrow> (Inr [''NODEID='' @ il_string L (il_id L seed),
             ''MNEMONIC='' @ from_seed (v_crypto E) wl seed], w')))"

definition restore_identity ::
  "idlib \<Rightarrow> string list \<Rightarrow> env \<Rightarrow> bytes \<Rightarrow> int \<Rightarrow> string \<Rightarrow> world \<Rightarrow> (start_err + string list) \<times> world" where
  "restore_identity L wl E dir dmin stdin w =
     (if \<not> v_disk E dir then (Inl SErrDir, w)
      else if open_file E (seed_path dir) w \<noteq> None then (Inl SErrExists, w)
      else case to_seed (v_crypto E) wl (take stdinMax stdin) of Inl e \<Rightarrow> (Inl (SErrPhrase e), w)
      | Inr seed \<Rightarrow>
        if \<not> il_satisfies L (il_id L seed) dmin then (Inl SErrPow, w)
        else case write_file E (seed_path dir) seed w of None \<Rightarrow> (Inl SErrFile, w)
        | Some w' \<Rightarrow> (Inr [''NODEID='' @ il_string L (il_id L seed)], w'))"

definition show_mnemonic :: "string list \<Rightarrow> env \<Rightarrow> bytes \<Rightarrow> world \<Rightarrow> start_err + string list" where
  "show_mnemonic wl E dir w =
     (case read_file E (seed_path dir) w of None \<Rightarrow> Inl SErrFile
      | Some b \<Rightarrow> if length b \<noteq> SeedLen then Inl (SErrSeedLen (length b))
          else Inr [''MNEMONIC='' @ from_seed (v_crypto E) wl b])"

text \<open>A disk that does not serve the path is an error other than a missing file.\<close>

definition load_or_create_seed :: "idlib \<Rightarrow> env \<Rightarrow> bytes \<Rightarrow> int \<Rightarrow> world \<Rightarrow> (start_err + bytes) \<times> world" where
  "load_or_create_seed L E path dmin w =
     (if \<not> v_disk E path then (Inl SErrFile, w)
      else case read_file E path w of
        Some b \<Rightarrow>
          (if length b \<noteq> SeedLen then (Inl (SErrSeedLen (length b)), w)
           else if \<not> il_satisfies L (il_id L b) dmin then (Inl SErrPow, w)
           else (Inr b, w))
      | None \<Rightarrow> (case il_solve L dmin of None \<Rightarrow> (Inl SErrSolve, w)
        | Some seed \<Rightarrow> (case write_file E path seed w of None \<Rightarrow> (Inl SErrFile, w)
          | Some w' \<Rightarrow> (Inr seed, w'))))"

text \<open>ipcToken: from the environment, at least 16 bytes in hexadecimal, or random.\<close>

fun hex_decode :: "string \<Rightarrow> bytes option" where
  "hex_decode [] = Some []"
| "hex_decode [c] = None"
| "hex_decode (h # l # s) = (case (unhex h, unhex l) of
     (Some a, Some b) \<Rightarrow> map_option ((#) (of_nat (16 * a + b))) (hex_decode s) | _ \<Rightarrow> None)"

definition ipc_token :: "string \<Rightarrow> reader \<Rightarrow> start_err + bytes" where
  "ipc_token envvar r =
     (if envvar \<noteq> [] then (case hex_decode envvar of None \<Rightarrow> Inl SErrToken
        | Some t \<Rightarrow> if length t < 16 then Inl SErrToken else Inr t)
      else map_err (\<lambda>e. SErrToken) (of_opt () (map_option fst (read_full 32 r))))"

section \<open>Lines\<close>

lemma split_on_none: "sep \<notin> set x \<Longrightarrow> split_on sep x = [x]"
  by (induction x) auto

lemma split_on_nonempty: "split_on sep s \<noteq> []"
  by (cases s) (auto split: list.split)

lemma split_on_append: "split_on sep (u @ sep # v) = split_on sep u @ split_on sep v"
proof (induction u)
  case (Cons c u)
  then show ?case using split_on_nonempty [of sep u] by (auto split: list.split)
qed simp

lemma split_on_free: "p \<in> set (split_on sep s) \<Longrightarrow> sep \<notin> set p"
proof (induction s arbitrary: p)
  case (Cons c s)
  show ?case
  proof (cases "split_on sep s")
    case Nil
    then show ?thesis using split_on_nonempty by metis
  next
    case (Cons q qs)
    then show ?thesis using Cons.prems Cons.IH by (auto split: if_splits)
  qed
qed simp

lemma join_on_snoc: "es \<noteq> [] \<Longrightarrow> join_on sep (es @ [e]) = join_on sep es @ sep # e"
  by (induction sep es rule: join_on.induct) auto

lemma split_join: "list_all (\<lambda>e. sep \<notin> set e) es \<Longrightarrow> es \<noteq> [] \<Longrightarrow> split_on sep (join_on sep es) = es"
  by (induction sep es rule: join_on.induct) (auto simp: split_on_none split_on_append)

text \<open>The entries of a file: what any file gives, and what every written one gives back.\<close>

definition good_entry :: "string \<Rightarrow> bool" where
  "good_entry e \<longleftrightarrow> e \<noteq> [] \<and> newline \<notin> set e \<and> trimmed e"

lemma trim_subset: "set (trim_string s) \<subseteq> set s"
  using trim_middle [of s] by (metis Un_upper1 Un_upper2 set_append subset_trans)

lemma file_entries_good: "list_all good_entry (file_entries s)"
  using split_on_free [of _ newline s] trim_subset
  by (fastforce simp: file_entries_def list_all_iff good_entry_def trim_trimmed)

lemma file_entries_text: "list_all good_entry es \<Longrightarrow> file_entries (entries_text es) = es"
proof -
  assume g: "list_all good_entry es"
  have "map trim_string es = es" using g by (auto simp: list_all_iff good_entry_def trim_id intro!: map_idI)
  moreover have "filter (\<lambda>l. l \<noteq> []) es = es" using g by (auto simp: list_all_iff good_entry_def filter_id_conv)
  moreover have "split_on newline (join_on newline es @ [newline]) = es @ [[]]" if "es \<noteq> []"
    using split_on_append [of newline "join_on newline es" "[]"] split_join [OF _ that, of newline] g
    by (simp add: list_all_iff good_entry_def)
  moreover have "trim_string [] = []" using trim_middle [of "[]"] by simp
  ultimately show ?thesis by (cases "es = []") (simp_all add: file_entries_def entries_text_def)
qed

lemma bytes_str_of [simp]: "bytes_str (str_bytes s) = s"
proof -
  have "char_of (unat (of_char c :: byte)) = c" for c
  proof -
    have "unat (of_nat (of_char c) :: byte) = take_bit 8 (of_char c)" by (simp only: unat_of_nat take_bit_eq_mod) simp
    also have "\<dots> = of_char c" by (simp add: take_bit_nat_eq_self)
    finally have "unat (of_char c :: byte) = of_char c" by (simp only: of_nat_of_char)
    then show ?thesis by (simp only: char_of_char)
  qed
  then show ?thesis by (simp add: bytes_str_def str_bytes_def map_idI)
qed

section \<open>Reading what was written\<close>

lemma create_file_cases:
  "create_file E path w = (Some i, w') \<longleftrightarrow> v_disk E path \<and> (w_paths w path = Some i \<and> w' = w
     \<or> w_paths w path = None \<and> i = w_ino w \<and> w' = w\<lparr>w_paths := (w_paths w)(path \<mapsto> w_ino w),
          w_inodes := (w_inodes w)(w_ino w := []), w_ino := w_ino w + 1\<rparr>)"
  by (auto simp: create_file_def split: option.splits)

lemma write_file_ok: "v_disk E path \<Longrightarrow> \<exists>w'. write_file E path data w = Some w'"
  by (cases "w_paths w path") (simp_all add: write_file_def create_file_def)

lemma read_written:
  assumes "write_file E path data w = Some w'"
  shows "read_file E path w' = Some data" "w_db w' = w_db w" "v_disk E path"
proof -
  from assms obtain i v where c: "create_file E path w = (Some i, v)" and w': "w' = v\<lparr>w_inodes := (w_inodes v)(i := data)\<rparr>"
    by (auto simp: write_file_def split: prod.splits option.splits)
  then have "w_paths v path = Some i" "w_db v = w_db w" by (auto simp: create_file_cases)
  with c show "read_file E path w' = Some data" "w_db w' = w_db w" "v_disk E path"
    by (simp_all add: w' read_file_def open_file_def create_file_cases)
qed

lemma written_elsewhere:
  assumes "write_file E path data w = Some w'" "v_disk E' path"
  shows "read_file E' path w' = Some data" "open_file E' path w' \<noteq> None"
  using read_written [OF assms(1)] assms(2) by (auto simp: read_file_def open_file_def)

lemma write_bootstrap_Inr: "write_bootstrap E dir es w = (Inr u, w') \<longleftrightarrow>
    write_file E (bootstrap_file dir) (str_bytes (entries_text es)) w = Some w'"
  by (auto simp: write_bootstrap_def split: option.splits)

lemma entries_good: "list_all good_entry (bootstrap_entries E dir w)"
  by (simp add: bootstrap_entries_def file_entries_good split: option.split)

lemma entries_written:
  assumes "write_bootstrap E dir es w = (Inr u, w')" "list_all good_entry es"
  shows "bootstrap_entries E dir w' = es" "w_db w' = w_db w"
  using read_written [OF assms(1) [unfolded write_bootstrap_Inr]] assms(2)
  by (simp_all add: bootstrap_entries_def file_entries_text)

lemma add_bootstrap_Inr:
  assumes "add_bootstrap P E dir s w = (Inr u, as, w')"
  obtains a where "parse_bootstrap_entry P (trim_string s) = Inr a" "as = [a]"
    "trim_string s \<in> set (bootstrap_entries E dir w) \<and> w' = w
     \<or> trim_string s \<notin> set (bootstrap_entries E dir w)
       \<and> write_bootstrap E dir (bootstrap_entries E dir w @ [trim_string s]) w = (Inr (), w')"
  using assms by (auto simp: add_bootstrap_def Let_def split: sum.splits if_splits prod.splits)

lemma entry_nonempty: "parse_bootstrap_entry P s = Inr a \<Longrightarrow> s \<noteq> []"
  by (auto simp: parse_bootstrap_entry_def)

text \<open>
  The entry points survive the program: after a successful AddBootstrap the
  file lists the entry without its surrounding spaces after all it listed before,
  once, however often it is added, and it is handed to the running node;
  RemoveBootstrap takes out exactly this entry. This holds of every entry that is
  one line.
\<close>

theorem entry_points_are_kept:
  assumes add: "add_bootstrap P E dir s w = (Inr (), as, w')" and line: "newline \<notin> set (trim_string s)"
    and entries: "es = bootstrap_entries E dir w"
  shows "bootstrap_entries E dir w' = (if trim_string s \<in> set es then es else es @ [trim_string s])
    \<and> map Inr as = [parse_bootstrap_entry P (trim_string s)] \<and> w_db w' = w_db w
    \<and> (remove_bootstrap E dir s w' = (Inr (), w'') \<longrightarrow>
        bootstrap_entries E dir w'' = filter (\<lambda>e. e \<noteq> trim_string s) es)"
proof -
  obtain a where a: "parse_bootstrap_entry P (trim_string s) = Inr a" "as = [a]"
    and w': "trim_string s \<in> set es \<and> w' = w
     \<or> trim_string s \<notin> set es \<and> write_bootstrap E dir (es @ [trim_string s]) w = (Inr (), w')"
    using add_bootstrap_Inr [OF add] entries by metis
  have good: "list_all good_entry es" by (simp add: entries entries_good)
  have new: "good_entry (trim_string s)"
    using line entry_nonempty [OF a(1)] by (simp add: good_entry_def trim_trimmed)
  have after: "bootstrap_entries E dir w' = (if trim_string s \<in> set es then es else es @ [trim_string s])"
    and db: "w_db w' = w_db w"
    using w' entries_written [of E dir "es @ [trim_string s]" w "()" w'] good new entries by auto
  have "filter (\<lambda>e. e \<noteq> trim_string s) (bootstrap_entries E dir w') = filter (\<lambda>e. e \<noteq> trim_string s) es"
    by (simp add: after)
  moreover have "list_all good_entry (filter (\<lambda>e. e \<noteq> trim_string s) es)" using good by (auto simp: list_all_iff)
  ultimately have "bootstrap_entries E dir w'' = filter (\<lambda>e. e \<noteq> trim_string s) es"
    if "remove_bootstrap E dir s w' = (Inr (), w'')"
    using that entries_written(1) [of E dir _ w' "()" w''] by (simp add: remove_bootstrap_def)
  with after db a show ?thesis by simp
qed

text \<open>An identifier parser for the witnesses: one hexadecimal digit or more.\<close>

definition demo_parse :: "string \<Rightarrow> bytes option" where
  "demo_parse s = hex_decode (''0'' @ s)"

lemma demo_trim: "trim_string ''a@h:1'' = ''a@h:1''" "trim_string ''a@h:1,b'' = ''a@h:1,b''"
  by (rule trim_id, rule trimmed_graphic, simp)+

lemma demo_add: "\<exists>w'. add_bootstrap demo_parse demo_env [47] ''a@h:1'' (new_world []) = (Inr (), [\<lparr>an_id = [10], an_addr = ''h:1''\<rparr>], w')"
  by (simp add: add_bootstrap_def demo_trim parse_bootstrap_entry_def demo_parse_def unhex_def write_bootstrap_def
      write_file_def create_file_def bootstrap_entries_def read_file_def open_file_def demo_env_def new_world_def Let_def)

theorem entry_points_are_kept_witness:
  "\<exists>w'. bootstrap_entries demo_env [47] w' = [''a@h:1'']"
proof -
  obtain w' where w': "add_bootstrap demo_parse demo_env [47] ''a@h:1'' (new_world []) = (Inr (), [\<lparr>an_id = [10], an_addr = ''h:1''\<rparr>], w')"
    using demo_add by blast
  have "bootstrap_entries demo_env [47] (new_world []) = []"
    by (simp add: bootstrap_entries_def read_file_def open_file_def new_world_def)
  with entry_points_are_kept [OF w' _ refl] show ?thesis by (auto simp: demo_trim newline_def)
qed

section \<open>An accepted entry that stops the node\<close>

lemma newline_char: "newline = char_of n \<longleftrightarrow> n mod 256 = (10 :: nat)" "char_of n = newline \<longleftrightarrow> n mod 256 = (10 :: nat)"
proof -
  show "char_of n = newline \<longleftrightarrow> n mod 256 = (10 :: nat)"
    by (simp add: newline_def char_of_eq_iff take_bit_eq_mod)
  then show "newline = char_of n \<longleftrightarrow> n mod 256 = (10 :: nat)" by (simp only: eq_commute [of newline])
qed

lemma space_newline: "q \<in> set space_seqs \<Longrightarrow> newline \<in> set q \<Longrightarrow> q = [newline]" "[newline] \<in> set space_seqs"
  by (auto simp: space_seqs_eq newline_char)

text \<open>A line keeps its ends when others stand around it.\<close>

lemma unstripped_line:
  assumes qs: "\<And>q. q \<in> set qs \<Longrightarrow> newline \<in> set q \<Longrightarrow> q = [newline]"
    and e: "unstripped qs e" "e \<noteq> []" "newline \<noteq> hd e"
  shows "unstripped qs (e @ newline # s)"
  unfolding unstripped_def
proof (intro ballI impI)
  fix q assume q: "q \<in> set qs" "q \<noteq> []"
  show "take (length q) (e @ newline # s) \<noteq> q"
  proof
    assume t: "take (length q) (e @ newline # s) = q"
    show False
    proof (cases "length q \<le> length e")
      case True
      with t e(1) q show False by (auto simp: unstripped_def)
    next
      case False
      then have "newline \<in> set (take (length q) (e @ newline # s))" by (simp add: take_Cons')
      then have "q = [newline]" using qs q t by metis
      with t e(2,3) show False by (cases e) auto
    qed
  qed
qed

lemma trimmed_ends: "trimmed e \<Longrightarrow> e \<noteq> [] \<Longrightarrow> newline \<noteq> hd e \<and> newline \<noteq> last e"
proof -
  assume e: "trimmed e" "e \<noteq> []"
  have m: "[newline] \<in> set (map rev space_seqs)" using space_newline(2) by force
  have "take 1 e \<noteq> [newline]" "take 1 (rev e) \<noteq> [newline]"
    using e(1) space_newline(2) m unfolding trimmed_def unstripped_def by fastforce+
  then have "newline \<noteq> hd e" "newline \<noteq> hd (rev e)" using e(2) by (cases e, simp_all) (cases "rev e", auto)
  then show ?thesis using e(2) by (simp add: hd_rev)
qed

lemma rev_seqs: "q \<in> set (map rev space_seqs) \<Longrightarrow> newline \<in> set q \<Longrightarrow> q = [newline]"
  using space_newline(1) by auto

lemma join_trimmed:
  assumes "list_all (\<lambda>e. trimmed e \<and> e \<noteq> []) es" "es \<noteq> []"
  shows "trimmed (join_on newline es) \<and> join_on newline es \<noteq> []"
proof -
  have left: "unstripped space_seqs (join_on newline es)"
  proof (cases "tl es")
    case Nil
    with assms show ?thesis by (cases es) (auto simp: trimmed_def)
  next
    case (Cons f fs)
    then obtain e where es: "es = e # f # fs" using assms(2) by (cases es) auto
    with assms(1) trimmed_ends [of e] show ?thesis
      by (auto simp: trimmed_def intro: unstripped_line [OF space_newline(1)])
  qed
  have right: "unstripped (map rev space_seqs) (rev (join_on newline es))"
  proof (cases es rule: rev_cases)
    case (snoc fs e)
    show ?thesis
    proof (cases "fs = []")
      case True
      with snoc assms(1) show ?thesis by (auto simp: trimmed_def)
    next
      case False
      with snoc assms(1) trimmed_ends [of e] show ?thesis
        by (auto simp: trimmed_def join_on_snoc hd_rev intro!: unstripped_line [OF rev_seqs])
    qed
  qed (use assms in simp)
  have "join_on newline es \<noteq> []" using assms by (cases "(newline, es)" rule: join_on.cases) auto
  with left right show ?thesis by (simp add: trimmed_def)
qed

lemma findSomeD: "find P xs = Some x \<Longrightarrow> P x" "find P xs = Some x \<Longrightarrow> x \<in> set xs"
  by (auto simp: find_Some_iff)

lemma trim_line: "trimmed x \<Longrightarrow> x \<noteq> [] \<Longrightarrow> trim_string (x @ [newline]) = x"
proof -
  assume x: "trimmed x" "x \<noteq> []"
  let ?qs = "map rev space_seqs"
  have left: "strip_seqs space_seqs (x @ [newline]) = x @ [newline]"
    using unstripped_line [OF space_newline(1), where e = x and s = "[]"] x trimmed_ends [OF x] by (simp add: strip_id trimmed_def)
  let ?P = "\<lambda>q. q \<noteq> [] \<and> take (length q) (newline # rev x) = q"
  have "[newline] \<in> set ?qs" "?P [newline]" using space_newline(2) by force+
  then have "find ?P ?qs \<noteq> None" unfolding find_None_iff by blast
  then obtain q where q: "find ?P ?qs = Some q" by blast
  have q1: "q \<in> set ?qs" by (rule findSomeD(2) [OF q])
  have "q \<noteq> []" "take (length q) (newline # rev x) = q" using findSomeD(1) [OF q] by simp_all
  then have "newline \<in> set q" by (cases q) auto
  with q1 rev_seqs have "q = [newline]" by blast
  then have "strip_seqs ?qs (newline # rev x) = strip_seqs ?qs (rev x)"
    using q by (subst strip_seqs.simps) simp
  also have "\<dots> = rev x" using x by (simp add: strip_id trimmed_def)
  finally show ?thesis by (simp add: trim_string_def left)
qed

lemma parse_items_bad:
  "x \<in> set xs \<Longrightarrow> trim_string x \<noteq> [] \<Longrightarrow> CHR ''@'' \<notin> set x \<Longrightarrow> \<exists>e. parse_items P xs = Inl e"
proof (induction xs)
  case (Cons y ys)
  have "cut (CHR ''@'') s = None" if "CHR ''@'' \<notin> set s" for s
    using that by (induction s) auto
  then have "cut (CHR ''@'') (trim_string y) = None" if "x = y"
    using Cons.prems(3) trim_subset [of y] that by blast
  with Cons show ?case by (cases "x = y") (auto simp: Let_def split: option.split)
qed simp

text \<open>
  C36. AddBootstrap accepts entries that stop the next start: if a separator, a
  comma or a line end, follows somewhere after an entry point, with more text after
  it that has no at sign, the whole is accepted, written and announced as added,
  because only the beginning is checked; from then on a node started without the
  flag stops with an error before it runs.
\<close>

theorem accepted_entry_stops_the_node:
  assumes add: "add_bootstrap P E dir s w = (Inr (), as, w')"
    and s: "trim_string s = u @ c # junk" "c = CHR '','' \<or> c = newline"
    and junk: "CHR ''@'' \<notin> set junk" "CHR '','' \<notin> set junk" "newline \<notin> set junk" "trim_string junk \<noteq> []"
    and new: "trim_string s \<notin> set (bootstrap_entries E dir w)" and disk: "v_disk E' (bootstrap_file dir)"
  shows "\<exists>item. start_contacts P E' dir [] w' = Inl item"
proof -
  let ?es = "bootstrap_entries E dir w @ [trim_string s]" and ?f = "\<lambda>c. if c = newline then CHR '','' else c"
  obtain a where a: "parse_bootstrap_entry P (trim_string s) = Inr a"
    and wr: "write_bootstrap E dir ?es w = (Inr (), w')" using add_bootstrap_Inr [OF add] new by metis
  have rd: "read_file E' (bootstrap_file dir) w' = Some (str_bytes (entries_text ?es))"
    by (rule written_elsewhere(1) [OF wr [unfolded write_bootstrap_Inr] disk])
  have "list_all (\<lambda>e. trimmed e \<and> e \<noteq> []) ?es"
    using entries_good [of E dir w] entry_nonempty [OF a] by (auto simp: list_all_iff good_entry_def trim_trimmed)
  from join_trimmed [OF this] have X: "trim_string (entries_text ?es) = join_on newline ?es"
    by (simp add: entries_text_def trim_line)
  obtain v where "join_on newline ?es = v @ u @ c # junk"
    by (cases "bootstrap_entries E dir w = []") (simp_all add: join_on_snoc s(1))
  moreover have "map ?f junk = junk" using junk(3) by (auto intro!: map_idI)
  ultimately have "bootstrap_arg E' dir [] w' = map ?f (v @ u) @ CHR '','' # junk"
    using s(2) by (auto simp: bootstrap_arg_def rd X)
  moreover have "junk \<in> set (split_on (CHR '','') (map ?f (v @ u) @ CHR '','' # junk))"
    unfolding split_on_append by (simp add: split_on_none [OF junk(2)])
  ultimately show ?thesis
    using parse_items_bad [OF _ junk(4,1)] by (auto simp: start_contacts_def parse_bootstrap_def)
qed

theorem accepted_entry_stops_the_node_witness:
  "\<exists>w' item. add_bootstrap demo_parse demo_env [47] ''a@h:1,b'' (new_world []) = (Inr (), [\<lparr>an_id = [10], an_addr = ''h:1,b''\<rparr>], w')
     \<and> start_contacts demo_parse demo_env [47] [] w' = Inl item"
proof -
  obtain w' where w': "add_bootstrap demo_parse demo_env [47] ''a@h:1,b'' (new_world []) = (Inr (), [\<lparr>an_id = [10], an_addr = ''h:1,b''\<rparr>], w')"
    by (simp add: add_bootstrap_def demo_trim parse_bootstrap_entry_def demo_parse_def unhex_def write_bootstrap_def
        write_file_def create_file_def bootstrap_entries_def read_file_def open_file_def demo_env_def new_world_def Let_def)
  have b: "trim_string ''b'' = ''b''" by (rule trim_id, rule trimmed_graphic) simp
  have "bootstrap_entries demo_env [47] (new_world []) = []"
    by (simp add: bootstrap_entries_def read_file_def open_file_def new_world_def)
  with accepted_entry_stops_the_node [OF w', of "''a@h:1''" "CHR '',''" "''b''" demo_env] w' show ?thesis
    by (auto simp: demo_trim b newline_def demo_env_def)
qed

section \<open>The backup phrase of a node\<close>

text \<open>What is documented of nodenet's proof of work: a solution is a seed that passes.\<close>

definition idlib_ok :: "idlib \<Rightarrow> bool" where
  "idlib_ok L \<longleftrightarrow> (\<forall>d s. il_solve L d = Some s \<longrightarrow> length s = SeedLen \<and> il_satisfies L (il_id L s) d)"

text \<open>
  C35. The phrase that a new node prints is enough to be the same node elsewhere:
  restoring from it, as the line it was printed on, in any directory without an
  identity, for a network whose proof of work the identity passes, prints the same
  identifier and stores the same seed, which the node then starts with and whose
  phrase is the same. Neither subcommand overwrites an identity that is there.
\<close>

theorem phrase_restores_the_node:
  assumes libs: "wordlist_ok wl" "idlib_ok L" "v_crypto E' = v_crypto E"
    and gen: "gen_identity L wl E dir dmin w = (Inr [idline, ''MNEMONIC='' @ phrase], w1)"
    and short: "length phrase < stdinMax"
    and other: "v_disk E' dir'" "v_disk E' (seed_path dir')" "open_file E' (seed_path dir') w' = None"
    and pow: "\<And>seed. il_solve L dmin = Some seed \<Longrightarrow> il_satisfies L (il_id L seed) dmin'"
  shows "\<exists>seed w2. il_solve L dmin = Some seed
    \<and> restore_identity L wl E' dir' dmin' (phrase @ [newline]) w' = (Inr [idline], w2)
    \<and> load_or_create_seed L E (seed_path dir) dmin w1 = (Inr seed, w1)
    \<and> load_or_create_seed L E' (seed_path dir') dmin' w2 = (Inr seed, w2)
    \<and> show_mnemonic wl E' dir' w2 = Inr [''MNEMONIC='' @ phrase]
    \<and> gen_identity L wl E' dir' dmin' w2 = (Inl SErrExists, w2)
    \<and> restore_identity L wl E' dir' dmin' other_phrase w2 = (Inl SErrExists, w2)"
proof -
  obtain seed where seed: "il_solve L dmin = Some seed" "write_file E (seed_path dir) seed w = Some w1"
    "idline = ''NODEID='' @ il_string L (il_id L seed)" "phrase = from_seed (v_crypto E) wl seed"
    using gen by (auto simp: gen_identity_def split: if_splits option.splits)
  have ok: "length seed = 32" "il_satisfies L (il_id L seed) dmin"
    using libs(2) seed(1) by (auto simp: idlib_ok_def SeedLen_def)
  obtain w2 where w2: "write_file E' (seed_path dir') seed w' = Some w2"
    using write_file_ok [OF other(2)] by blast
  have "to_seed (v_crypto E') wl (take stdinMax (phrase @ [newline])) = Inr seed"
    using phrase_parses [OF libs(1) ok(1), of "[newline]" "v_crypto E'"] short libs(3) seed(4)
    by (simp add: is_space_def newline_def)
  with other pow [OF seed(1)] w2 seed(3)
  have restored: "restore_identity L wl E' dir' dmin' (phrase @ [newline]) w' = (Inr [idline], w2)"
    by (simp add: restore_identity_def)
  note R1 = read_written [OF seed(2)] and R2 = read_written [OF w2]
  have "open_file E' (seed_path dir') w2 \<noteq> None" using written_elsewhere(2) [OF w2 other(2)] .
  with restored seed ok R1 R2 other pow [OF seed(1)] libs(3) show ?thesis
    by (auto simp: load_or_create_seed_def show_mnemonic_def gen_identity_def restore_identity_def SeedLen_def)
qed

definition demo_idlib :: idlib where
  "demo_idlib = \<lparr>il_solve = (\<lambda>_. Some (replicate 32 7)), il_satisfies = (\<lambda>_ _. True), il_id = (\<lambda>s. s), il_string = (\<lambda>_. ''id'')\<rparr>"

theorem phrase_restores_the_node_witness:
  "\<exists>w2. show_mnemonic demo_list demo_env [48] w2 = Inr [''MNEMONIC='' @ from_seed demo_crypto demo_list (replicate 32 7)]"
proof -
  have lib: "idlib_ok demo_idlib" by (simp add: idlib_ok_def demo_idlib_def SeedLen_def)
  obtain w1 where gen: "gen_identity demo_idlib demo_list demo_env [47] 0 (new_world [])
      = (Inr [''NODEID=id'', ''MNEMONIC='' @ from_seed demo_crypto demo_list (replicate 32 7)], w1)"
    by (simp add: gen_identity_def demo_idlib_def write_file_def create_file_def open_file_def demo_env_def new_world_def)
  have "length (from_seed demo_crypto demo_list (replicate 32 7)) < stdinMax"
  proof -
    have len: "length (join_words ws) \<le> 4 * length ws" if "\<forall>w \<in> set ws. length w = 3" for ws
      using that by (induction ws rule: join_words.induct) auto
    have "bits_idx (take 11 (drop (i * 11) (seed_bits demo_crypto (replicate 32 7)))) < 2048" for i
    proof -
      let ?c = "take 11 (drop (i * 11) (seed_bits demo_crypto (replicate 32 7)))"
      have "is_bits ?c" using is_bits_seed_bits by (auto simp: is_bits_def dest!: in_set_takeD in_set_dropD)
      then have "bits_idx ?c < 2 ^ length ?c" using bits_nat_less by (simp only: bits_idx_nat)
      also have "\<dots> \<le> 2 ^ 11" by (rule power_increasing) simp_all
      finally show ?thesis by simp
    qed
    then have "\<forall>w \<in> set (seed_words demo_crypto demo_list (replicate 32 7)). length w = 3"
      by (auto simp: seed_words_def demo_list_def demo_word_def)
    from len [OF this] show ?thesis by (simp add: from_seed_def seed_words_def Words_def stdinMax_def Let_def)
  qed
  from phrase_restores_the_node [OF demo_wordlist_ok lib refl gen this, of "[48]" "new_world []"] show ?thesis
    by (auto simp: demo_env_def demo_idlib_def open_file_def new_world_def)
qed

end
