(* ===== verification/Ipc.thy ===== *)
theory Ipc
  imports CallMedia Startup IpcCodec
begin

text \<open>
  Package ipc, the server of the local interface (ipc/server.go): one user
  interface at a time, over a websocket; the first frame must carry the token, then
  commands are queued and executed one after the other against the managers of the
  node, and what happens in the node is pushed as events through a bounded queue.
  A connection is a number; each turn of one of its three loops is one operation, as
  are its beginning and its end. The protobuf message is the argument \<open>F\<close>. Texts of
  errors are values here (\<open>ipc_fail\<close>).
\<close>

definition eventQueue :: nat where "eventQueue = 1024"
definition cmdQueue :: nat where "cmdQueue = 64"
definition listLimit :: int where "listLimit = 500"

section \<open>Messages\<close>

record pb_msg =
  im_id :: bytes
  im_peer :: bytes
  im_out :: bool
  im_text :: bytes
  im_deleted :: bool
  im_sent :: int
  im_status :: nat

record pb_chat =
  ic_peer :: bytes
  ic_alias :: bytes
  ic_online :: bool
  ic_last :: "pb_msg option"
  ic_state :: nat

datatype cmd_kind =
    CmdSendText bytes bytes | CmdBlock bytes | CmdUnblock bytes | CmdSetAlias bytes string
  | CmdDelete bytes bytes | CmdAddContact string | CmdListChats
  | CmdListMessages bytes u64 u32 \<comment> \<open>peer, before_seq, limit\<close>
  | CmdMyInvite string | CmdOfferFile bytes bytes | CmdCallStart bytes | CmdCallAccept bytes
  | CmdCallReject bytes | CmdCallHangup bytes | CmdMyIdentity | CmdListBootstrap
  | CmdAddBootstrap string | CmdRemoveBootstrap string

record ipc_command =
  cm_id :: u64
  cm_kind :: "cmd_kind option"

datatype ipc_fail = FailCore err | FailBoot boot_err | FailPeer | FailCall | FailMsg
  | FailNotFound | FailUnknown | FailBusy

datatype ipc_data = RChats "pb_chat list" | RMessages "pb_msg list" | RSent pb_msg | RInvite string
  | RIdentity string string | RBootstrap "string list"

record cmd_result =
  rs_id :: u64
  rs_error :: "ipc_fail option"
  rs_data :: "ipc_data option"

datatype ipc_event =
    EvResult cmd_result | EvMessage pb_msg | EvDelivered bytes bytes | EvPresence bytes bool
  | EvOffered bytes bytes bytes u64 | EvProgress bytes u32 u32 | EvDone bytes bytes
  | EvCall bytes bytes nat bool | EvPreset u32 | EvAdded bytes

datatype ipc_frame = FrHello bytes | FrCommand ipc_command | FrEvent ipc_event

definition to_pb_state :: "pstate \<Rightarrow> nat" where
  "to_pb_state s = (case s of PeerContact \<Rightarrow> 3 | PeerBlocked \<Rightarrow> 4 | PeerNone \<Rightarrow> 0)"

definition to_pb_message :: "smsg \<Rightarrow> pb_msg" where
  "to_pb_message m = \<lparr>im_id = sm_id m, im_peer = id_bytes (sm_peer m), im_out = sm_out m,
     im_text = (if sm_deleted m then [] else case sm_body m of None \<Rightarrow> [] | Some b \<Rightarrow> b),
     im_deleted = sm_deleted m, im_sent = sm_sent m, im_status = status_num (sm_status m)\<rparr>"

fun call_state_num :: "call_state \<Rightarrow> nat" where
  "call_state_num StateRingingOut = 1"
| "call_state_num StateRingingIn = 2"
| "call_state_num StateActive = 3"
| "call_state_num StateEnded = 4"

definition call_event :: "call \<Rightarrow> ipc_event" where
  "call_event c = EvCall (c_id c) (id_bytes (c_peer c)) (call_state_num (c_state c)) False"

text \<open>The callbacks that main wires to the server; group messages have none.\<close>

fun out_event :: "out \<Rightarrow> ipc_event option" where
  "out_event (out.OMessage m) = Some (EvMessage (to_pb_message m))"
| "out_event (ODelivered p mid) = Some (EvDelivered (id_bytes p) mid)"
| "out_event (OAdded p) = Some (EvAdded (id_bytes p))"
| "out_event (OPresence p on) = Some (EvPresence (id_bytes p) on)"
| "out_event (OFileOffered p m) = Some (EvOffered (id_bytes p) (mf_id m) (mf_name m) (mf_size m))"
| "out_event (OFileProgress fid k n) = Some (EvProgress fid (of_nat k) (of_nat n))"
| "out_event (OFileDone fid path) = Some (EvDone fid path)"
| "out_event (OCallIncoming c) = Some (call_event c)"
| "out_event (OCallState c) = Some (call_event c)"
| "out_event (OSend p b) = None"
| "out_event (OGroupMessage m) = None"

definition parse_peer :: "bytes \<Rightarrow> ipc_fail + peer_id" where
  "parse_peer b = (if length b \<noteq> IDLen then Inl FailPeer else Inr (PeerID b))"

definition parse_call_id :: "bytes \<Rightarrow> ipc_fail + bytes" where
  "parse_call_id b = (if length b \<noteq> 16 then Inl FailCall else Inr b)"

definition parse_msg_id :: "bytes \<Rightarrow> ipc_fail + msg_id" where
  "parse_msg_id b = (if length b \<noteq> MsgIDLen then Inl FailMsg else Inr b)"

section \<open>Commands\<close>

text \<open>GetMessage and LastMessage of store/db.go, outside a transaction.\<close>

definition find_message :: "env \<Rightarrow> peer_id \<Rightarrow> msg_id \<Rightarrow> bool \<Rightarrow> db \<Rightarrow> err + smsg option" where
  "find_message E p mid outgoing d = (case find (\<lambda>r. msg_key r = (p, outgoing, mid)) (d_msgs d) of
     None \<Rightarrow> Inr None | Some r \<Rightarrow> bindR (scan_message E r) (\<lambda>m. Inr (Some m)))"

definition last_message :: "env \<Rightarrow> peer_id \<Rightarrow> db \<Rightarrow> err + smsg option" where
  "last_message E p d = (let rows = sort_key (\<lambda>r. unat (sm_lam r)) (filter (\<lambda>r. sm_peer r = p) (d_msgs d))
     in if rows = [] then Inr None else bindR (scan_message E (last rows)) (\<lambda>m. Inr (Some m)))"

definition list_chats :: "env \<Rightarrow> world \<Rightarrow> err + pb_chat list" where
  "list_chats E w = bindR (peer_list E (w_db w)) (\<lambda>infos. Inr (map (\<lambda>info.
     \<lparr>ic_peer = id_bytes (p_peer info), ic_alias = (case p_alias info of None \<Rightarrow> [] | Some a \<Rightarrow> a),
      ic_online = online E w (p_peer info),
      ic_last = (case last_message E (p_peer info) (w_db w) of Inr (Some m) \<Rightarrow> Some (to_pb_message m) | _ \<Rightarrow> None),
      ic_state = to_pb_state (p_state info)\<rparr>) infos))"

text \<open>What the server is bound to: the entry points' parser and directory, the confirmed address.\<close>

record ipc_conf =
  cf_parse :: "string \<Rightarrow> bytes option"
  cf_dir :: bytes
  cf_reflexive :: string

type_synonym reply = "(ipc_fail + ipc_data option) \<times> world"

definition done_with :: "(err + 'a) \<times> world \<Rightarrow> reply" where
  "done_with q = (case fst q of Inl e \<Rightarrow> Inl (FailCore e) | Inr x \<Rightarrow> Inr None, snd q)"

definition with_id :: "(ipc_fail + 'a) \<Rightarrow> ('a \<Rightarrow> world \<Rightarrow> reply) \<Rightarrow> world \<Rightarrow> reply" where
  "with_id parsed k w = (case parsed of Inl e \<Rightarrow> (Inl e, w) | Inr x \<Rightarrow> k x w)"

definition boot_reply :: "ipc_conf \<Rightarrow> env \<Rightarrow> boot_err + unit \<Rightarrow> world \<Rightarrow> reply" where
  "boot_reply B E r w = (case r of Inl e \<Rightarrow> (Inl (FailBoot e), w)
     | Inr u \<Rightarrow> (Inr (Some (RBootstrap (bootstrap_entries E (cf_dir B) w))), w))"

text \<open>The goroutine that Start may leave behind is \<open>offer_when_ready\<close>; its turns are steps of the node.\<close>

fun dispatch :: "ipc_conf \<Rightarrow> env \<Rightarrow> cmd_kind option \<Rightarrow> world \<Rightarrow> reply" where
  "dispatch B E None w = (Inl FailUnknown, w)"
| "dispatch B E (Some (CmdSendText peer body)) w = with_id (parse_peer peer) (\<lambda>p w.
     case send_text E p body w of (Inl e, w') \<Rightarrow> (Inl (FailCore e), w')
     | (Inr mid, w') \<Rightarrow> (case find_message E p mid True (w_db w') of
          Inr (Some m) \<Rightarrow> (Inr (Some (RSent (to_pb_message m))), w') | _ \<Rightarrow> (Inl FailNotFound, w'))) w"
| "dispatch B E (Some (CmdBlock peer)) w = with_id (parse_peer peer) (\<lambda>p w. done_with (block E p w)) w"
| "dispatch B E (Some (CmdUnblock peer)) w = with_id (parse_peer peer) (\<lambda>p w. done_with (unblock E p w)) w"
| "dispatch B E (Some (CmdSetAlias peer alias)) w = with_id (parse_peer peer) (\<lambda>p w. done_with (set_alias E p alias w)) w"
| "dispatch B E (Some (CmdDelete peer mid)) w = with_id (parse_peer peer) (\<lambda>p. with_id (parse_msg_id mid) (\<lambda>m w.
     done_with (delete_text p m w))) w"
| "dispatch B E (Some (CmdAddContact invite)) w = done_with (add_by_invite E invite w)"
| "dispatch B E (Some CmdListChats) w = (case list_chats E w of Inl e \<Rightarrow> (Inl (FailCore e), w)
     | Inr cs \<Rightarrow> (Inr (Some (RChats cs)), w))"
| "dispatch B E (Some (CmdListMessages peer before_seq lim)) w = with_id (parse_peer peer) (\<lambda>p w.
     let limit = (if uint lim \<le> 0 \<or> listLimit < uint lim then listLimit else uint lim)
     in case list_messages E p limit (w_db w) of Inl e \<Rightarrow> (Inl (FailCore e), w)
        | Inr ms \<Rightarrow> (Inr (Some (RMessages (map to_pb_message ms))), w)) w"
| "dispatch B E (Some (CmdMyInvite alias)) w = (Inr (Some (RInvite (my_invite E alias))), w)"
| "dispatch B E (Some CmdMyIdentity) w = (Inr (Some (RIdentity (peer_string (v_self E)) (cf_reflexive B))), w)"
| "dispatch B E (Some CmdListBootstrap) w = boot_reply B E (Inr ()) w"
| "dispatch B E (Some (CmdAddBootstrap entry)) w = (let q = add_bootstrap (cf_parse B) E (cf_dir B) entry w
     in boot_reply B E (fst q) (snd (snd q)))"
| "dispatch B E (Some (CmdRemoveBootstrap entry)) w = (let q = remove_bootstrap E (cf_dir B) entry w
     in boot_reply B E (fst q) (snd q))"
| "dispatch B E (Some (CmdOfferFile peer path)) w = with_id (parse_peer peer) (\<lambda>p w. done_with (offer E p path w)) w"
| "dispatch B E (Some (CmdCallStart peer)) w = with_id (parse_peer peer) (\<lambda>p w.
     done_with (start_call E (\<lambda>w. w) p [''opus''] w)) w"
| "dispatch B E (Some (CmdCallAccept cid)) w = with_id (parse_call_id cid) (\<lambda>c w. done_with (accept_call E c w)) w"
| "dispatch B E (Some (CmdCallReject cid)) w = with_id (parse_call_id cid) (\<lambda>c w. done_with (reject_call E c w)) w"
| "dispatch B E (Some (CmdCallHangup cid)) w = with_id (parse_call_id cid) (\<lambda>c w. done_with (hangup_call E c w)) w"

definition handle_command :: "ipc_conf \<Rightarrow> env \<Rightarrow> ipc_command \<Rightarrow> world \<Rightarrow> cmd_result \<times> world" where
  "handle_command B E cmd w = (case dispatch B E (cm_kind cmd) w of
     (Inl e, w') \<Rightarrow> (\<lparr>rs_id = cm_id cmd, rs_error = Some e, rs_data = None\<rparr>, w')
   | (Inr d, w') \<Rightarrow> (\<lparr>rs_id = cm_id cmd, rs_error = None, rs_data = d\<rparr>, w'))"

section \<open>The server\<close>

record ipc_client =
  cl_send :: "bytes list" \<comment> \<open>the queue of outgoing frames\<close>
  cl_cmds :: "ipc_command list"
  cl_stopped :: bool \<comment> \<open>the channel stop is closed\<close>
  cl_open :: bool \<comment> \<open>the socket\<close>
  cl_executing :: bool
  cl_writing :: bool
  cl_sock :: "bytes list" \<comment> \<open>what the user interface has been sent\<close>

record ipc_server =
  sv_world :: world
  sv_token :: bytes
  sv_clients :: "ipc_client list"
  sv_active :: "nat option"
  sv_seen :: int
  sv_idle :: bool
  sv_auth_failures :: nat
  sv_malformed :: nat
  sv_dropped :: nat
  sv_media_dropped :: nat
  sv_media :: "(byte \<times> bytes) list" \<comment> \<open>frames handed to the media bridge\<close>

definition new_server :: "bytes \<Rightarrow> world \<Rightarrow> ipc_server" where
  "new_server token w = \<lparr>sv_world = w, sv_token = token, sv_clients = [], sv_active = None, sv_seen = 0,
     sv_idle = False, sv_auth_failures = 0, sv_malformed = 0, sv_dropped = 0, sv_media_dropped = 0, sv_media = []\<rparr>"

definition new_client :: ipc_client where
  "new_client = \<lparr>cl_send = [], cl_cmds = [], cl_stopped = False, cl_open = True, cl_executing = True,
     cl_writing = True, cl_sock = []\<rparr>"

definition upd_client :: "nat \<Rightarrow> (ipc_client \<Rightarrow> ipc_client) \<Rightarrow> ipc_server \<Rightarrow> ipc_server" where
  "upd_client k f sv = sv\<lparr>sv_clients := (sv_clients sv)[k := f (sv_clients sv ! k)]\<rparr>"

text \<open>A non-blocking send on a client's queue; False when it is full.\<close>

definition offer_frame :: "nat \<Rightarrow> bytes \<Rightarrow> ipc_server \<Rightarrow> bool \<times> ipc_server" where
  "offer_frame k b sv = (if length (cl_send (sv_clients sv ! k)) < eventQueue
     then (True, upd_client k (\<lambda>c. c\<lparr>cl_send := cl_send c @ [b]\<rparr>) sv) else (False, sv))"

definition push_event :: "ipc_frame option pb \<Rightarrow> nat \<Rightarrow> ipc_event \<Rightarrow> ipc_server \<Rightarrow> ipc_server" where
  "push_event F k ev sv = (case encode_frame F (Some (FrEvent ev)) of
       Inl e \<Rightarrow> sv\<lparr>sv_dropped := sv_dropped sv + 1\<rparr>
     | Inr b \<Rightarrow> (case offer_frame k b sv of (True, sv') \<Rightarrow> sv'
         | (False, sv') \<Rightarrow> sv'\<lparr>sv_dropped := sv_dropped sv' + 1\<rparr>))"

definition emit_event :: "ipc_frame option pb \<Rightarrow> ipc_event \<Rightarrow> ipc_server \<Rightarrow> ipc_server" where
  "emit_event F ev sv = (case sv_active sv of None \<Rightarrow> sv\<lparr>sv_dropped := sv_dropped sv + 1\<rparr>
     | Some k \<Rightarrow> push_event F k ev sv)"

text \<open>An operation of the node's managers, with the callbacks it makes.\<close>

definition core_do :: "ipc_frame option pb \<Rightarrow> (world \<Rightarrow> world) \<Rightarrow> ipc_server \<Rightarrow> ipc_server" where
  "core_do F f sv = (let w = f (sv_world sv)
     in fold (\<lambda>x sv. case out_event x of None \<Rightarrow> sv | Some ev \<Rightarrow> emit_event F ev sv)
          (drop (length (w_out (sv_world sv))) (w_out w)) (sv\<lparr>sv_world := w\<rparr>))"

section \<open>Connections\<close>

text \<open>The first message: its kind (binary or not) and its bytes; None when none came in time.\<close>

definition auth :: "ipc_frame option pb \<Rightarrow> bytes \<Rightarrow> (bool \<times> bytes) option \<Rightarrow> bool" where
  "auth F token first = (case first of None \<Rightarrow> False
     | Some (binary, data) \<Rightarrow> binary \<and> (case decode_frame F data of Inr (FrHello t) \<Rightarrow> t = token | _ \<Rightarrow> False))"

definition attach :: "ipc_frame option pb \<Rightarrow> env \<Rightarrow> ipc_server \<Rightarrow> ipc_server" where
  "attach F E sv =
     (let k = length (sv_clients sv);
          sv1 = sv\<lparr>sv_clients := sv_clients sv @ [new_client], sv_active := Some k, sv_seen := v_now E\<rparr>;
          sv2 = (case sv_active sv of None \<Rightarrow> sv1
            | Some old \<Rightarrow> upd_client old (\<lambda>c. c\<lparr>cl_stopped := True, cl_open := False\<rparr>) sv1)
      in case current_call (sv_world sv) of None \<Rightarrow> sv2 | Some c \<Rightarrow> push_event F k (call_event c) sv2)"

definition connect :: "ipc_frame option pb \<Rightarrow> env \<Rightarrow> (bool \<times> bytes) option \<Rightarrow> ipc_server \<Rightarrow> ipc_server" where
  "connect F E first sv = (if auth F (sv_token sv) first then attach F E sv
     else sv\<lparr>sv_auth_failures := sv_auth_failures sv + 1\<rparr>)"

text \<open>The read loop ends: the client is detached and its socket closed.\<close>

definition detach :: "env \<Rightarrow> nat \<Rightarrow> ipc_server \<Rightarrow> ipc_server" where
  "detach E k sv =
     (let sv1 = upd_client k (\<lambda>c. c\<lparr>cl_stopped := True, cl_open := False\<rparr>) sv
      in if sv_active sv = Some k then sv1\<lparr>sv_active := None, sv_seen := v_now E\<rparr> else sv1)"

definition malformed :: "ipc_server \<Rightarrow> ipc_server" where
  "malformed sv = sv\<lparr>sv_malformed := sv_malformed sv + 1\<rparr>"

text \<open>One turn of the read loop.\<close>

definition read_message :: "ipc_frame option pb \<Rightarrow> nat \<Rightarrow> bool \<Rightarrow> bytes \<Rightarrow> ipc_server \<Rightarrow> ipc_server" where
  "read_message F k binary data sv =
     (if \<not> binary then sv
      else if 0 < length data \<and> data ! 0 = TagMedia then
        (case decode_media_frame data of Inl e \<Rightarrow> malformed sv
         | Inr (ch, rx, payload) \<Rightarrow> sv\<lparr>sv_media := sv_media sv @ [(ch, payload)]\<rparr>)
      else case decode_frame F data of
        Inr (FrCommand cmd) \<Rightarrow>
          (if length (cl_cmds (sv_clients sv ! k)) < cmdQueue
           then upd_client k (\<lambda>c. c\<lparr>cl_cmds := cl_cmds c @ [cmd]\<rparr>) sv
           else push_event F k (EvResult \<lparr>rs_id = cm_id cmd, rs_error = Some FailBusy, rs_data = None\<rparr>) sv)
      | _ \<Rightarrow> malformed sv)"

text \<open>One turn of the command loop: the callbacks of the command come before its result.\<close>

definition exec_command :: "ipc_conf \<Rightarrow> ipc_frame option pb \<Rightarrow> env \<Rightarrow> nat \<Rightarrow> ipc_server \<Rightarrow> ipc_server" where
  "exec_command B F E k sv = (case cl_cmds (sv_clients sv ! k) of [] \<Rightarrow> sv
     | cmd # rest \<Rightarrow>
       (let r = fst (handle_command B E cmd (sv_world sv));
            sv1 = upd_client k (\<lambda>c. c\<lparr>cl_cmds := rest\<rparr>) sv
        in push_event F k (EvResult r) (core_do F (\<lambda>w. snd (handle_command B E cmd w)) sv1)))"

text \<open>One turn of the write loop; it ends with the first failure.\<close>

definition write_frame :: "nat \<Rightarrow> bool \<Rightarrow> ipc_server \<Rightarrow> ipc_server" where
  "write_frame k ok sv = (case cl_send (sv_clients sv ! k) of [] \<Rightarrow> sv
     | b # rest \<Rightarrow> upd_client k (\<lambda>c. if ok \<and> cl_open c then c\<lparr>cl_send := rest, cl_sock := cl_sock c @ [b]\<rparr>
         else c\<lparr>cl_send := rest, cl_writing := False\<rparr>) sv)"

definition push_media :: "byte \<Rightarrow> u64 \<Rightarrow> bytes \<Rightarrow> ipc_server \<Rightarrow> ipc_server" where
  "push_media ch rx payload sv =
     (let lost = sv\<lparr>sv_media_dropped := sv_media_dropped sv + 1\<rparr> in
      case sv_active sv of None \<Rightarrow> lost
      | Some k \<Rightarrow> (case encode_media_frame ch rx payload of Inl e \<Rightarrow> lost
          | Inr b \<Rightarrow> (case offer_frame k b sv of (True, sv') \<Rightarrow> sv' | (False, sv') \<Rightarrow> lost)))"

definition on_call_reconnecting :: "ipc_frame option pb \<Rightarrow> bytes \<Rightarrow> ipc_server \<Rightarrow> ipc_server" where
  "on_call_reconnecting F cid sv = emit_event F (EvCall cid (case current_call (sv_world sv) of None \<Rightarrow> []
       | Some c \<Rightarrow> if c_id c = cid then id_bytes (c_peer c) else []) 3 True) sv"

definition idle_check :: "env \<Rightarrow> int \<Rightarrow> ipc_server \<Rightarrow> ipc_server" where
  "idle_check E grace sv = (if sv_active sv = None \<and> grace < v_now E - sv_seen sv then sv\<lparr>sv_idle := True\<rparr> else sv)"

section \<open>Runs of the server\<close>

datatype server_op =
    SvConnect env "(bool \<times> bytes) option" | SvRead nat bool bytes | SvExec env nat | SvWrite nat bool
  | SvStop nat | SvGone env nat | SvCore "world \<Rightarrow> world" | SvMedia byte u64 bytes | SvPreset u32
  | SvReconnecting bytes | SvTick env int

text \<open>A loop takes a turn only while it runs, the read loop while its socket is open.\<close>

fun server_step :: "ipc_conf \<Rightarrow> ipc_frame option pb \<Rightarrow> server_op \<Rightarrow> ipc_server \<Rightarrow> ipc_server" where
  "server_step B F (SvConnect E first) sv = connect F E first sv"
| "server_step B F (SvRead k binary data) sv =
     (if k < length (sv_clients sv) \<and> cl_open (sv_clients sv ! k) then read_message F k binary data sv else sv)"
| "server_step B F (SvExec E k) sv =
     (if k < length (sv_clients sv) \<and> cl_executing (sv_clients sv ! k) then exec_command B F E k sv else sv)"
| "server_step B F (SvWrite k ok) sv =
     (if k < length (sv_clients sv) \<and> cl_writing (sv_clients sv ! k) then write_frame k ok sv else sv)"
| "server_step B F (SvStop k) sv = (if k < length (sv_clients sv) \<and> cl_stopped (sv_clients sv ! k)
     then upd_client k (\<lambda>c. c\<lparr>cl_executing := False, cl_writing := False\<rparr>) sv else sv)"
| "server_step B F (SvGone E k) sv = (if k < length (sv_clients sv) then detach E k sv else sv)"
| "server_step B F (SvCore f) sv = core_do F f sv"
| "server_step B F (SvMedia ch rx payload) sv = push_media ch rx payload sv"
| "server_step B F (SvPreset level) sv = emit_event F (EvPreset level) sv"
| "server_step B F (SvReconnecting cid) sv = on_call_reconnecting F cid sv"
| "server_step B F (SvTick E grace) sv = idle_check E grace sv"

definition server_run :: "ipc_conf \<Rightarrow> ipc_frame option pb \<Rightarrow> server_op list \<Rightarrow> ipc_server \<Rightarrow> ipc_server" where
  "server_run B F = fold (server_step B F)"

end
