(* ===== verification/IpcThms.thy ===== *)
theory IpcThms
  imports Ipc
begin

text \<open>
  What the local interface promises: nothing happens without the token, there is
  one user interface at a time behind bounded queues, commands are executed once
  and in order; and where a reply is lost.
\<close>

section \<open>Pushing\<close>

lemma upd_client_simps [simp]:
  "sv_world (upd_client k f sv) = sv_world sv" "sv_token (upd_client k f sv) = sv_token sv"
  "sv_active (upd_client k f sv) = sv_active sv" "sv_media (upd_client k f sv) = sv_media sv"
  "length (sv_clients (upd_client k f sv)) = length (sv_clients sv)"
  "sv_auth_failures (upd_client k f sv) = sv_auth_failures sv" "sv_dropped (upd_client k f sv) = sv_dropped sv"
  "k < length (sv_clients sv) \<Longrightarrow> sv_clients (upd_client k f sv) ! j
    = (if j = k then f (sv_clients sv ! k) else sv_clients sv ! j)"
  by (auto simp: upd_client_def nth_list_update)

text \<open>All that pushing changes: one client's queue, and counters.\<close>

definition pushes :: "ipc_server \<Rightarrow> ipc_server \<Rightarrow> bool" where
  "pushes sv sv' \<longleftrightarrow> sv_world sv' = sv_world sv \<and> sv_token sv' = sv_token sv \<and> sv_active sv' = sv_active sv
   \<and> sv_media sv' = sv_media sv \<and> sv_auth_failures sv' = sv_auth_failures sv
   \<and> length (sv_clients sv') = length (sv_clients sv)
   \<and> (\<forall>j < length (sv_clients sv). \<exists>q. sv_clients sv' ! j = (sv_clients sv ! j)\<lparr>cl_send := q\<rparr>)"

lemma queue_same [simp]: "\<exists>q. c = c\<lparr>cl_send := q\<rparr>"
  by (rule exI [of _ "cl_send c"]) simp

lemma pushes_refl [simp]: "pushes sv sv"
  by (simp add: pushes_def)

lemma pushes_trans: "pushes a b \<Longrightarrow> pushes b c \<Longrightarrow> pushes a c"
  unfolding pushes_def by fastforce

lemma pushes_counters [simp]: "pushes sv (sv\<lparr>sv_dropped := n\<rparr>)" "pushes sv (sv\<lparr>sv_media_dropped := n\<rparr>)"
  by (simp_all add: pushes_def)

lemma offer_pushes: "offer_frame k b sv = (ok, sv') \<Longrightarrow> pushes sv sv'"
proof -
  assume o: "offer_frame k b sv = (ok, sv')"
  show ?thesis
  proof (cases "k < length (sv_clients sv)")
    case True
    with o show ?thesis by (auto simp: offer_frame_def pushes_def split: if_splits)
  next
    case False
    then have "upd_client k f sv = sv" for f by (simp add: upd_client_def list_update_beyond)
    with o show ?thesis by (auto simp: offer_frame_def split: if_splits)
  qed
qed

lemma push_pushes: "pushes sv (push_event F k ev sv)"
  by (auto simp: push_event_def split: sum.split prod.split bool.split dest: offer_pushes intro: pushes_trans)

lemma emit_pushes: "pushes sv (emit_event F ev sv)"
  by (simp add: emit_event_def push_pushes split: option.split)

lemma media_pushes: "pushes sv (push_media ch rx p sv)"
  by (auto simp: push_media_def Let_def split: option.split sum.split prod.split bool.split dest: offer_pushes)

lemma core_pushes: "pushes (sv\<lparr>sv_world := f (sv_world sv)\<rparr>) (core_do F f sv)"
proof -
  have "pushes s (fold (\<lambda>x sv. case out_event x of None \<Rightarrow> sv | Some ev \<Rightarrow> emit_event F ev sv) outs s)" for outs s
  proof (induction outs arbitrary: s)
    case (Cons x outs)
    have "pushes s (case out_event x of None \<Rightarrow> s | Some ev \<Rightarrow> emit_event F ev s)"
      by (simp add: emit_pushes split: option.split)
    with Cons [of "case out_event x of None \<Rightarrow> s | Some ev \<Rightarrow> emit_event F ev s"] show ?case
      by (auto intro: pushes_trans)
  qed simp
  then show ?thesis by (simp add: core_do_def Let_def)
qed

lemma core_do_world [simp]: "sv_world (core_do F f sv) = f (sv_world sv)"
  using core_pushes [where f = f and sv = sv and F = F] by (simp add: pushes_def)

lemma core_do_idle: "f (sv_world sv) = sv_world sv \<Longrightarrow> core_do F f sv = sv"
  by (simp add: core_do_def Let_def)

section \<open>Commands are executed once and in order\<close>

definition unserved :: "nat \<Rightarrow> ipc_server \<Rightarrow> ipc_command list" where
  "unserved k sv = (if k < length (sv_clients sv) then cl_cmds (sv_clients sv ! k) else [])"

definition accepted :: "ipc_frame option pb \<Rightarrow> nat \<Rightarrow> server_op \<Rightarrow> ipc_server \<Rightarrow> ipc_command list" where
  "accepted F k op sv = (case op of
       SvRead j binary data \<Rightarrow> if j = k \<and> binary \<and> k < length (sv_clients sv) \<and> cl_open (sv_clients sv ! k)
           \<and> length (cl_cmds (sv_clients sv ! k)) < cmdQueue
         then (case decode_frame F data of Inr (FrCommand cmd) \<Rightarrow> [cmd] | _ \<Rightarrow> []) else []
     | _ \<Rightarrow> [])"

definition executed :: "nat \<Rightarrow> server_op \<Rightarrow> ipc_server \<Rightarrow> ipc_command list" where
  "executed k op sv = (case op of
       SvExec E j \<Rightarrow> if j = k \<and> k < length (sv_clients sv) \<and> cl_executing (sv_clients sv ! k)
         then take 1 (cl_cmds (sv_clients sv ! k)) else []
     | _ \<Rightarrow> [])"

text \<open>What \<open>g\<close> sees of the steps of a run.\<close>

fun along :: "(server_op \<Rightarrow> ipc_server \<Rightarrow> 'a list) \<Rightarrow> ipc_conf \<Rightarrow> ipc_frame option pb \<Rightarrow> server_op list
    \<Rightarrow> ipc_server \<Rightarrow> 'a list" where
  "along g B F [] sv = []"
| "along g B F (op # ops) sv = g op sv @ along g B F ops (server_step B F op sv)"

lemma unserved_pushes: "pushes sv sv' \<Longrightarrow> unserved k sv' = unserved k sv"
proof (cases "k < length (sv_clients sv)")
  case True
  assume p: "pushes sv sv'"
  then obtain q where "sv_clients sv' ! k = (sv_clients sv ! k)\<lparr>cl_send := q\<rparr>" "length (sv_clients sv') = length (sv_clients sv)"
    using True unfolding pushes_def by blast
  with True show ?thesis by (simp add: unserved_def)
qed (simp add: unserved_def pushes_def)

lemma unserved_upd: "(\<And>c. cl_cmds (f c) = cl_cmds c) \<Longrightarrow> unserved k (upd_client j f sv) = unserved k sv"
  by (cases "j < length (sv_clients sv)") (auto simp: unserved_def upd_client_def nth_list_update)

lemma unserved_counters [simp]: "unserved k (malformed sv) = unserved k sv" "unserved k (sv\<lparr>sv_media := m\<rparr>) = unserved k sv"
  "unserved k (sv\<lparr>sv_world := w\<rparr>) = unserved k sv" "unserved k (sv\<lparr>sv_idle := i\<rparr>) = unserved k sv"
  "unserved k (sv\<lparr>sv_active := a, sv_seen := t\<rparr>) = unserved k sv" "unserved k (sv\<lparr>sv_auth_failures := n\<rparr>) = unserved k sv"
  by (simp_all add: unserved_def malformed_def)

lemma unserved_attach: "unserved k (attach F E sv) = unserved k sv"
proof -
  let ?sv1 = "sv\<lparr>sv_clients := sv_clients sv @ [new_client], sv_active := Some (length (sv_clients sv)), sv_seen := v_now E\<rparr>"
  let ?sv2 = "case sv_active sv of None \<Rightarrow> ?sv1
            | Some old \<Rightarrow> upd_client old (\<lambda>c. c\<lparr>cl_stopped := True, cl_open := False\<rparr>) ?sv1"
  have "unserved k ?sv1 = unserved k sv" by (simp add: unserved_def nth_append new_client_def)
  moreover have "unserved k ?sv2 = unserved k ?sv1" by (cases "sv_active sv") (simp_all add: unserved_upd)
  moreover have "unserved k (attach F E sv) = unserved k ?sv2"
    by (simp add: attach_def Let_def unserved_pushes [OF push_pushes] split: option.split)
  ultimately show ?thesis by simp
qed

lemma unserved_step: "executed k op sv @ unserved k (server_step B F op sv) = unserved k sv @ accepted F k op sv"
proof (cases op)
  case (SvRead j binary data)
  show ?thesis
  proof (cases "j < length (sv_clients sv) \<and> cl_open (sv_clients sv ! j) \<and> binary")
    case True
    have media: "decode_frame F data \<noteq> Inr f" if "0 < length data \<and> data ! 0 = TagMedia" for f
      using that by (auto simp: decode_frame_def TagMedia_def TagProto_def)
    show ?thesis
    proof (cases "0 < length data \<and> data ! 0 = TagMedia")
      case m: True
      with media True show ?thesis
        by (auto simp: SvRead executed_def accepted_def read_message_def split: sum.split ipc_frame.split prod.split)
    next
      case False
      show ?thesis
      proof (cases "decode_frame F data")
        case (Inr f)
        have push: "unserved k (push_event F j ev sv) = unserved k sv" for ev by (rule unserved_pushes [OF push_pushes])
        have upd: "unserved k (upd_client j (\<lambda>c. c\<lparr>cl_cmds := cl_cmds c @ [cmd]\<rparr>) sv)
            = unserved k sv @ (if j = k then [cmd] else [])" for cmd
          using True by (auto simp: unserved_def)
        from Inr False True push upd show ?thesis
          by (cases f) (auto simp: SvRead executed_def accepted_def read_message_def)
      qed (use False True in \<open>auto simp: SvRead executed_def accepted_def read_message_def\<close>)
    qed
  qed (auto simp: SvRead executed_def accepted_def read_message_def)
next
  case (SvExec E j)
  show ?thesis
  proof (cases "j < length (sv_clients sv) \<and> cl_executing (sv_clients sv ! j) \<and> cl_cmds (sv_clients sv ! j) \<noteq> []")
    case True
    then obtain cmd rest where c: "cl_cmds (sv_clients sv ! j) = cmd # rest" by (meson list.exhaust)
    let ?sv1 = "upd_client j (\<lambda>c. c\<lparr>cl_cmds := rest\<rparr>) sv"
    have "unserved k (server_step B F op sv) = unserved k ?sv1"
      using True c by (simp add: SvExec exec_command_def Let_def unserved_pushes [OF push_pushes] unserved_pushes [OF core_pushes])
    moreover have "unserved k ?sv1 = (if j = k then rest else unserved k sv)" using True by (simp add: unserved_def)
    ultimately show ?thesis using True c by (auto simp: SvExec executed_def accepted_def unserved_def)
  qed (auto simp: SvExec executed_def accepted_def exec_command_def)
next
  case (SvWrite j ok)
  have "unserved k (write_frame j ok sv) = unserved k sv"
    by (auto simp: write_frame_def split: list.split intro!: unserved_upd)
  then show ?thesis by (simp add: SvWrite executed_def accepted_def)
qed (auto simp: executed_def accepted_def connect_def unserved_attach detach_def Let_def unserved_upd idle_check_def
    on_call_reconnecting_def unserved_pushes [OF core_pushes] unserved_pushes [OF media_pushes] unserved_pushes [OF emit_pushes])

text \<open>An execution changes the node as the command does and pushes one result with its identifier.\<close>

lemma exec_replies:
  assumes "executed k (SvExec E k) sv = [cmd]"
  shows "\<exists>r sv'. server_step B F (SvExec E k) sv = push_event F k (EvResult r) sv'
    \<and> rs_id r = cm_id cmd \<and> sv_world sv' = snd (dispatch B E (cm_kind cmd) (sv_world sv))"
proof -
  from assms obtain rest where k: "k < length (sv_clients sv)" "cl_executing (sv_clients sv ! k)"
    "cl_cmds (sv_clients sv ! k) = cmd # rest"
    by (cases "cl_cmds (sv_clients sv ! k)") (auto simp: executed_def split: if_splits)
  have "rs_id (fst (handle_command B E cmd v)) = cm_id cmd"
    "snd (handle_command B E cmd v) = snd (dispatch B E (cm_kind cmd) v)" for v
    by (auto simp: handle_command_def split: prod.split sum.split)
  with k show ?thesis by (simp add: exec_command_def Let_def) (intro exI conjI, rule refl, simp, simp)
qed


section \<open>The token\<close>

definition authentic :: "ipc_frame option pb \<Rightarrow> bytes \<Rightarrow> server_op \<Rightarrow> bool" where
  "authentic F token op \<longleftrightarrow> (\<exists>E data. op = SvConnect E (Some (True, data)) \<and> decode_frame F data = Inr (FrHello token))"

lemma auth_authentic: "auth F token first \<longleftrightarrow> authentic F token (SvConnect E first)"
  by (auto simp: auth_def authentic_def split: option.split sum.splits ipc_frame.splits)

text \<open>What happens in the node on its own account.\<close>

definition node_ops :: "server_op list \<Rightarrow> world \<Rightarrow> world" where
  "node_ops ops = fold (\<lambda>op w. case op of SvCore f \<Rightarrow> f w | _ \<Rightarrow> w) ops"

lemma attach_simps [simp]: "sv_token (attach F E sv) = sv_token sv" "sv_world (attach F E sv) = sv_world sv"
  "length (sv_clients (attach F E sv)) = Suc (length (sv_clients sv))"
  using push_pushes unfolding pushes_def
  by (simp_all add: attach_def Let_def split: option.split)

lemma pushesD: "pushes sv sv' \<Longrightarrow> sv_token sv' = sv_token sv \<and> sv_world sv' = sv_world sv \<and> sv_media sv' = sv_media sv
    \<and> length (sv_clients sv') = length (sv_clients sv) \<and> sv_active sv' = sv_active sv"
  by (simp add: pushes_def)

lemma step_token:
  "sv_token (server_step B F op sv) = sv_token sv
   \<and> length (sv_clients (server_step B F op sv)) = length (sv_clients sv) + (if authentic F (sv_token sv) op then 1 else 0)
   \<and> (sv_clients sv = [] \<longrightarrow> \<not> authentic F (sv_token sv) op \<longrightarrow> sv_world (server_step B F op sv) = node_ops [op] (sv_world sv)
        \<and> sv_media (server_step B F op sv) = sv_media sv \<and> sv_active (server_step B F op sv) = sv_active sv)"
proof (cases op)
  case (SvRead k binary data)
  then show ?thesis using pushesD [OF push_pushes]
    by (auto simp: read_message_def authentic_def node_ops_def malformed_def
        split: sum.split ipc_frame.split prod.split)
next
  case (SvExec E k)
  then show ?thesis using pushesD [OF push_pushes] pushesD [OF core_pushes]
    by (auto simp: exec_command_def authentic_def node_ops_def Let_def split: list.split)
next
  case (SvWrite k ok)
  then show ?thesis by (auto simp: write_frame_def authentic_def node_ops_def split: list.split)
qed (use pushesD [OF push_pushes] pushesD [OF core_pushes] pushesD [OF emit_pushes] pushesD [OF media_pushes]
  in \<open>auto simp: authentic_def node_ops_def connect_def auth_authentic [where E = demo_env] detach_def Let_def idle_check_def on_call_reconnecting_def\<close>)

text \<open>
  C37. Nothing without the token: the connections that the server ever serves are
  exactly those whose first message is a binary frame with a Hello that carries the
  token; as long as there was none, no command has been executed, so the node is as
  its own events left it, no media frame has been let in, nothing has been queued or
  sent to anybody and no user interface is active.
\<close>

theorem nothing_without_the_token:
  "length (sv_clients (server_run B F ops (new_server token w))) = length (filter (authentic F token) ops)
   \<and> (filter (authentic F token) ops = [] \<longrightarrow>
        sv_world (server_run B F ops (new_server token w)) = node_ops ops w
      \<and> sv_media (server_run B F ops (new_server token w)) = []
      \<and> sv_active (server_run B F ops (new_server token w)) = None)"
proof -
  have "length (sv_clients (server_run B F ops sv)) = length (sv_clients sv) + length (filter (authentic F (sv_token sv)) ops)" for sv
    using step_token by (induction ops arbitrary: sv) (simp_all add: server_run_def)
  moreover have "sv_world (server_run B F ops sv) = node_ops ops (sv_world sv) \<and> sv_media (server_run B F ops sv) = sv_media sv
      \<and> sv_active (server_run B F ops sv) = sv_active sv"
    if "sv_clients sv = []" "filter (authentic F (sv_token sv)) ops = []" for sv
    using that
  proof (induction ops arbitrary: sv)
    case (Cons op ops)
    from Cons.prems have no: "\<not> authentic F (sv_token sv) op" "filter (authentic F (sv_token sv)) ops = []"
      by (auto split: if_splits)
    with Cons.prems(1) step_token [where op = op and sv = sv and B = B and F = F] have "sv_clients (server_step B F op sv) = []"
      by (metis add_0_right length_0_conv)
    from Cons.IH [OF this] no Cons.prems(1) step_token [where op = op and sv = sv and B = B and F = F] show ?case
      by (simp add: server_run_def node_ops_def)
  qed (simp add: server_run_def node_ops_def)
  ultimately show ?thesis by (simp add: new_server_def)
qed

theorem nothing_without_the_token_witness:
  "sv_active (server_run \<lparr>cf_parse = demo_parse, cf_dir = [47], cf_reflexive = []\<rparr> (one_pb [7] (Some (FrHello [1])))
     [SvConnect demo_env (Some (True, [0, 7])), SvCore (mark_activity demo_env (PeerID [2]))] (new_server [2] (new_world []))) = None"
  using nothing_without_the_token [where F = "one_pb [7] (Some (FrHello [1]))" and token = "[2]"
      and ops = "[SvConnect demo_env (Some (True, [0, 7])), SvCore (mark_activity demo_env (PeerID [2]))]"]
  by (simp add: authentic_def auth_def decode_frame_def MaxFrameLen_def TagProto_def)

section \<open>One user interface\<close>

text \<open>A frame the server writes: an event below the limit of a frame, or a media frame.\<close>

definition written :: "ipc_frame option pb \<Rightarrow> bytes \<Rightarrow> bool" where
  "written F b \<longleftrightarrow> (\<exists>ev. encode_frame F (Some (FrEvent ev)) = Inr b)
     \<or> (\<exists>ch rx payload. encode_media_frame ch rx payload = Inr b)"

definition client_ok :: "ipc_frame option pb \<Rightarrow> bool \<Rightarrow> ipc_client \<Rightarrow> bool" where
  "client_ok F active c \<longleftrightarrow> cl_open c = active \<and> cl_stopped c = (\<not> active)
     \<and> length (cl_send c) \<le> eventQueue \<and> length (cl_cmds c) \<le> cmdQueue
     \<and> (\<forall>b \<in> set (cl_send c @ cl_sock c). written F b)"

definition one_ui :: "ipc_frame option pb \<Rightarrow> ipc_server \<Rightarrow> bool" where
  "one_ui F sv \<longleftrightarrow> (\<forall>k < length (sv_clients sv). client_ok F (sv_active sv = Some k) (sv_clients sv ! k))
     \<and> (case sv_active sv of None \<Rightarrow> True | Some k \<Rightarrow> length (sv_clients sv) = Suc k)"

lemma one_uiD: "one_ui F sv \<Longrightarrow> k < length (sv_clients sv) \<Longrightarrow> client_ok F (sv_active sv = Some k) (sv_clients sv ! k)"
  "one_ui F sv \<Longrightarrow> sv_active sv = Some k \<Longrightarrow> length (sv_clients sv) = Suc k"
  by (simp_all add: one_ui_def)

lemma one_ui_upd:
  "one_ui F sv \<Longrightarrow> k < length (sv_clients sv) \<Longrightarrow> client_ok F (sv_active sv = Some k) (f (sv_clients sv ! k))
    \<Longrightarrow> one_ui F (upd_client k f sv)"
  by (auto simp: one_ui_def split: option.split)

lemma one_ui_same: "one_ui F sv \<Longrightarrow> sv_clients sv' = sv_clients sv \<Longrightarrow> sv_active sv' = sv_active sv \<Longrightarrow> one_ui F sv'"
  by (simp add: one_ui_def cong: option.case_cong)

lemma one_ui_offer:
  assumes "one_ui F sv" "k < length (sv_clients sv)" "written F b" "offer_frame k b sv = (ok, sv')"
  shows "one_ui F sv'"
  using assms one_uiD(1) [OF assms(1,2)]
  by (auto simp: offer_frame_def client_ok_def split: if_splits intro!: one_ui_upd)

lemma one_ui_push:
  assumes "one_ui F sv" "k < length (sv_clients sv)"
  shows "one_ui F (push_event F k ev sv)"
proof (cases "encode_frame F (Some (FrEvent ev))")
  case (Inl e)
  then show ?thesis by (simp add: push_event_def one_ui_same [OF assms(1)])
next
  case (Inr b)
  then have "written F b" by (auto simp: written_def)
  obtain ok sv' where o: "offer_frame k b sv = (ok, sv')" by fastforce
  from one_ui_offer [OF assms \<open>written F b\<close> o] have "one_ui F sv'" .
  then show ?thesis by (cases ok) (simp_all add: push_event_def Inr o one_ui_same [OF \<open>one_ui F sv'\<close>])
qed

lemma one_ui_emit: "one_ui F sv \<Longrightarrow> one_ui F (emit_event F ev sv)"
proof (cases "sv_active sv")
  case (Some k)
  assume u: "one_ui F sv"
  then have "k < length (sv_clients sv)" using one_uiD(2) [OF u Some] by simp
  with u Some show ?thesis by (simp add: emit_event_def one_ui_push)
qed (simp add: emit_event_def one_ui_same)

lemma one_ui_core: "one_ui F sv \<Longrightarrow> one_ui F (core_do F f sv)"
proof -
  have "one_ui F s \<Longrightarrow> one_ui F (fold (\<lambda>x sv. case out_event x of None \<Rightarrow> sv | Some ev \<Rightarrow> emit_event F ev sv) outs s)" for outs s
    by (induction outs arbitrary: s) (simp_all add: one_ui_emit split: option.split)
  then show "one_ui F sv \<Longrightarrow> ?thesis" by (simp add: core_do_def Let_def one_ui_same [of F sv])
qed

lemma one_ui_attach:
  assumes u: "one_ui F sv"
  shows "one_ui F (attach F E sv)"
proof -
  let ?k = "length (sv_clients sv)"
  define sv1 where "sv1 = sv\<lparr>sv_clients := sv_clients sv @ [new_client], sv_active := Some ?k, sv_seen := v_now E\<rparr>"
  define sv2 where "sv2 = (case sv_active sv of None \<Rightarrow> sv1
    | Some old \<Rightarrow> upd_client old (\<lambda>c. c\<lparr>cl_stopped := True, cl_open := False\<rparr>) sv1)"
  have new: "client_ok F True new_client" by (simp add: client_ok_def new_client_def)
  have "client_ok F (j = ?k) (sv_clients sv2 ! j)" if "j < Suc ?k" for j
  proof (cases "sv_active sv")
    case None
    with that new one_uiD(1) [OF u, of j] show ?thesis
      by (auto simp: sv2_def sv1_def nth_append less_Suc_eq)
  next
    case (Some old)
    then have "?k = Suc old" using one_uiD(2) [OF u] by simp
    with Some that new one_uiD(1) [OF u, of j] show ?thesis
      by (auto simp: sv2_def sv1_def nth_append less_Suc_eq client_ok_def)
  qed
  moreover have "sv_active sv2 = Some ?k" "length (sv_clients sv2) = Suc ?k"
    by (simp_all add: sv2_def sv1_def split: option.split)
  ultimately have "one_ui F sv2" by (simp add: one_ui_def eq_commute [of ?k])
  then have "one_ui F (push_event F ?k ev sv2)" for ev
    by (rule one_ui_push) (simp add: \<open>length (sv_clients sv2) = Suc ?k\<close>)
  moreover have "attach F E sv = (case current_call (sv_world sv) of None \<Rightarrow> sv2
      | Some c \<Rightarrow> push_event F ?k (call_event c) sv2)"
    unfolding attach_def Let_def sv2_def sv1_def by (rule refl)
  ultimately show ?thesis using \<open>one_ui F sv2\<close> by (simp split: option.split)
qed

lemma one_ui_step: "one_ui F sv \<Longrightarrow> one_ui F (server_step B F op sv)"
proof (cases op)
  case (SvConnect E first)
  assume "one_ui F sv"
  with SvConnect show ?thesis by (simp add: connect_def one_ui_attach one_ui_same [of F sv])
next
  case (SvRead k binary data)
  assume u: "one_ui F sv"
  show ?thesis
  proof (cases "k < length (sv_clients sv)")
    case True
    have "one_ui F (upd_client k (\<lambda>c. c\<lparr>cl_cmds := cl_cmds c @ [cmd]\<rparr>) sv)" if "length (cl_cmds (sv_clients sv ! k)) < cmdQueue" for cmd
      using that one_uiD(1) [OF u True] by (intro one_ui_upd [OF u True]) (simp add: client_ok_def)
    with u SvRead one_ui_push [OF u True] show ?thesis
      by (auto simp: read_message_def malformed_def one_ui_same [OF u] split: sum.split ipc_frame.split prod.split)
  qed (use u SvRead in simp)
next
  case (SvExec E k)
  assume u: "one_ui F sv"
  show ?thesis
  proof (cases "k < length (sv_clients sv)")
    case True
    have "one_ui F (upd_client k (\<lambda>c. c\<lparr>cl_cmds := rest\<rparr>) sv)" if "cl_cmds (sv_clients sv ! k) = cmd # rest" for cmd rest
      using that one_uiD(1) [OF u True] by (intro one_ui_upd [OF u True]) (simp add: client_ok_def)
    moreover have "k < length (sv_clients (core_do F f (upd_client k g sv)))" for f g
      using True core_pushes [where f = f and F = F and sv = "upd_client k g sv"] by (simp add: pushes_def)
    ultimately show ?thesis using u SvExec
      by (auto simp: exec_command_def Let_def split: list.split intro!: one_ui_push one_ui_core)
  qed (use u SvExec in simp)
next
  case (SvWrite k ok)
  assume u: "one_ui F sv"
  show ?thesis
  proof (cases "k < length (sv_clients sv)")
    case True
    with u SvWrite one_uiD(1) [OF u True] show ?thesis
      by (auto simp: write_frame_def client_ok_def split: list.split intro!: one_ui_upd)
  qed (use u SvWrite in simp)
next
  case (SvStop k)
  assume u: "one_ui F sv"
  with SvStop one_uiD(1) [OF u, of k] show ?thesis by (auto simp: client_ok_def intro!: one_ui_upd)
next
  case (SvGone E k)
  assume u: "one_ui F sv"
  with SvGone show ?thesis
    by (auto simp: detach_def Let_def one_ui_def client_ok_def split: option.splits)
next
  case (SvMedia ch rx payload)
  assume u: "one_ui F sv"
  show ?thesis
  proof (cases "sv_active sv")
    case None
    with u SvMedia show ?thesis by (simp add: push_media_def Let_def one_ui_same [of F sv])
  next
    case (Some k)
    then have k: "k < length (sv_clients sv)" using one_uiD(2) [OF u] by simp
    have "one_ui F sv'" if "encode_media_frame ch rx payload = Inr b" "offer_frame k b sv = (ok, sv')" for b ok sv'
      using that by (intro one_ui_offer [OF u k]) (auto simp: written_def)
    with Some u SvMedia show ?thesis
      by (auto simp: push_media_def Let_def one_ui_same [of F sv] split: sum.split prod.split bool.split)
  qed
qed (auto simp: on_call_reconnecting_def idle_check_def one_ui_emit one_ui_core intro: one_ui_same)


section \<open>A reply that is lost\<close>

text \<open>The text of a reply, and that protobuf needs at least its bytes.\<close>

fun reply_text :: "ipc_frame option \<Rightarrow> nat" where
  "reply_text (Some (FrEvent (EvResult r))) = (case rs_data r of
     Some (RMessages ms) \<Rightarrow> sum_list (map (\<lambda>m. length (im_text m)) ms) | _ \<Rightarrow> 0)"
| "reply_text _ = 0"

definition holds_text :: "ipc_frame option pb \<Rightarrow> bool" where
  "holds_text F \<longleftrightarrow> (\<forall>f b. marshal F f = Some b \<longrightarrow> reply_text f \<le> length b)"

text \<open>
  C40. A dialog with long texts cannot be shown: when the newest messages that a
  request asks for hold 256 KiB of text or more (eight texts of the greatest length
  that SendText accepts), the reply is above the frame limit and is thrown away;
  the command is consumed, the user interface gets neither messages nor an error,
  and every repetition with this limit ends the same.
\<close>

theorem long_history_is_never_shown:
  assumes F: "holds_text F" and k: "k < length (sv_clients sv)" "cl_executing (sv_clients sv ! k)"
    and cmd: "cl_cmds (sv_clients sv ! k) = \<lparr>cm_id = i, cm_kind = Some (CmdListMessages (id_bytes p) before_seq lim)\<rparr> # rest"
    and peer: "wf_peer p"
    and ms: "list_messages E p (if uint lim \<le> 0 \<or> listLimit < uint lim then listLimit else uint lim) (w_db (sv_world sv)) = Inr ms"
    and long: "256 * 1024 \<le> sum_list (map (\<lambda>m. length (im_text (to_pb_message m))) ms)"
  shows "server_step B F (SvExec E k) sv
    = (upd_client k (\<lambda>c. c\<lparr>cl_cmds := rest\<rparr>) sv)\<lparr>sv_dropped := sv_dropped sv + 1\<rparr>"
proof -
  let ?cmd = "\<lparr>cm_id = i, cm_kind = Some (CmdListMessages (id_bytes p) before_seq lim)\<rparr>"
  let ?r = "\<lparr>rs_id = i, rs_error = None, rs_data = Some (RMessages (map to_pb_message ms))\<rparr>"
  have "PeerID (id_bytes p) = p" by (cases p) simp
  then have run: "handle_command B E ?cmd (sv_world sv) = (?r, sv_world sv)"
    using ms peer by (simp add: handle_command_def with_id_def parse_peer_def wf_peer_def Let_def)
  have "256 * 1024 \<le> reply_text (Some (FrEvent (EvResult ?r)))" using long by (simp add: comp_def)
  then have "MaxFrameLen < length b + 1" if "marshal F (Some (FrEvent (EvResult ?r))) = Some b" for b
  proof -
    have "reply_text (Some (FrEvent (EvResult ?r))) \<le> length b" using F that unfolding holds_text_def by blast
    then show ?thesis using \<open>256 * 1024 \<le> reply_text _\<close> by (simp only: MaxFrameLen_def)
  qed
  then have lost: "\<exists>e. encode_frame F (Some (FrEvent (EvResult ?r))) = Inl e"
    by (cases "marshal F (Some (FrEvent (EvResult ?r)))") (simp_all add: encode_frame_def)
  let ?sv1 = "upd_client k (\<lambda>c. c\<lparr>cl_cmds := rest\<rparr>) sv"
  have "core_do F (\<lambda>w. snd (handle_command B E ?cmd w)) ?sv1 = ?sv1"
    by (rule core_do_idle) (simp add: run)
  then show ?thesis using k cmd lost by (auto simp: exec_command_def Let_def run push_event_def)
qed

definition demo_holder :: "ipc_frame option pb" where
  "demo_holder = \<lparr>marshal = (\<lambda>f. Some (replicate (reply_text f) 0)), unmarshal = (\<lambda>_. None)\<rparr>"

definition demo_long :: smsg where
  "demo_long = \<lparr>sm_peer = PeerID (replicate 32 2), sm_id = replicate 16 7, sm_out = False, sm_seq = 1, sm_lam = 1,
     sm_sent = 0, sm_status = StatusDelivered, sm_deleted = False, sm_body = Some (replicate (256 * 1024) 65), sm_sender = None\<rparr>"

definition demo_history :: world where
  "demo_history = (new_world [])\<lparr>w_db := empty_db\<lparr>d_msgs := [demo_long\<lparr>sm_body := Some (replicate 24 0
     @ c_xseal demo_crypto (replicate 32 5) (replicate 24 0) (replicate (256 * 1024) 65)
         (aad_message (PeerID (replicate 32 2)) (replicate 16 7) False))\<rparr>]\<rparr>\<rparr>"

lemma demo_history_list: "list_messages demo_env (PeerID (replicate 32 2)) 1 (w_db demo_history) = Inr [demo_long]"
proof -
  have "box_open demo_env (replicate 24 0 @ c_xseal demo_crypto (replicate 32 5) (replicate 24 0) x a) a = Inr x" for x a
    using xaead_correctD [OF demo_laws(5)]
    by (simp add: box_open_def demo_env_def NonceSizeX_def Overhead_def)
  then show ?thesis
    by (simp add: list_messages_def demo_history_def demo_long_def last_n_def scan_message_def)
qed

definition demo_reader :: ipc_server where
  "demo_reader = (new_server [2] demo_history)\<lparr>sv_clients := [new_client\<lparr>cl_cmds :=
     [\<lparr>cm_id = 4, cm_kind = Some (CmdListMessages (id_bytes (PeerID (replicate 32 2))) 0 1)\<rparr>]\<rparr>], sv_active := Some 0\<rparr>"

theorem long_history_is_never_shown_witness:
  "sv_dropped (server_step \<lparr>cf_parse = demo_parse, cf_dir = [47], cf_reflexive = []\<rparr> demo_holder (SvExec demo_env 0) demo_reader) = 1
   \<and> cl_send (sv_clients (server_step \<lparr>cf_parse = demo_parse, cf_dir = [47], cf_reflexive = []\<rparr> demo_holder (SvExec demo_env 0) demo_reader) ! 0) = []"
proof -
  have F: "holds_text demo_holder" by (simp add: holds_text_def demo_holder_def)
  have sv: "0 < length (sv_clients demo_reader)" "cl_executing (sv_clients demo_reader ! 0)"
    "cl_cmds (sv_clients demo_reader ! 0) = \<lparr>cm_id = 4, cm_kind = Some (CmdListMessages (id_bytes (PeerID (replicate 32 2))) 0 1)\<rparr> # []"
    "cl_send (sv_clients demo_reader ! 0) = []" "sv_dropped demo_reader = 0" "sv_world demo_reader = demo_history"
    by (simp_all add: demo_reader_def new_server_def new_client_def)
  have p: "wf_peer (PeerID (replicate 32 2))" by (simp add: wf_peer_def IDLen_def)
  have "256 * 1024 \<le> sum_list (map (\<lambda>m. length (im_text (to_pb_message m))) [demo_long])"
    by (simp add: to_pb_message_def demo_long_def)
  from long_history_is_never_shown [OF F sv(1-3) p _ this, of demo_env \<open>\<lparr>cf_parse = demo_parse, cf_dir = [47], cf_reflexive = []\<rparr>\<close>] sv
  show ?thesis by (simp add: demo_history_list listLimit_def)
qed

end
