(* ===== verification/Spec2Isabelle.thy ===== *)
theory Spec2Isabelle
  imports Envelope RatchetSession SenderKeyThms Mnemonic Invite MediaReasmThms MediaAdapt
    MediaBridgeThms OutboxQueue Circle ChatThms CallsigThms IpcCodec GroupThms BlobRun IpcThms
begin

text \<open>
  molva is a peer-to-peer messenger: nodes exchange envelopes over an overlay
  network that may lose, repeat and reorder them; dialogs and groups are
  end-to-end encrypted; calls and files go over direct edges. This development
  models the program's packages as HOL functions over an explicit state and
  proves what makes each of them correct.

  \<^bold>\<open>How the code is modelled.\<close> A Go pair of value and error is a sum (\<open>Inl\<close> the
  error). Fixed-width integers are words, byte slices and arrays lists of bytes,
  maps are partial functions; SQL statements are written out over the tables of
  the record \<open>db\<close>. \<open>world\<close> (World) is one node: its database, what its managers keep
  in memory, its random source (a tape of bytes) and what it has emitted. Code
  inside a transaction is a state monad \<open>'a tx\<close> over the world and the list of
  AfterCommit closures; \<open>run_tx\<close> commits or rolls back the database (not the
  managers' memory, as in the code). The clock, the keys, the reachability of
  peers and the disk are fields of \<open>env\<close>, passed to every operation, so that every
  theorem holds for any clock and any network. Cryptography (\<open>crypto\<close>), the
  protobuf runtime (\<open>pb\<close>), the word list and the SQL engine are parameters; what the
  code relies on of them is stated as named laws, all satisfied by \<open>demo_crypto\<close>
  and \<open>one_pb\<close>, which the witnesses use.

  \<^bold>\<open>Pure packages.\<close> Peer (peer/id.go), Envelope (envelope/), RatchetKeys, RatchetState,
  RatchetHandshake, RatchetWire (ratchet/: the Double Ratchet), SenderKey
  (senderkey/), Mnemonic (mnemonic/), Invite and Utf8 (contact/invite.go),
  MediaReasm, MediaAdapt, MediaBridge (media/), Bitmap and BlobWire (blob/ without
  its manager), GroupWire (group/ without its manager), IpcCodec (ipc/codec.go).
  RatchetConv and RatchetSession show that a conversation of two ratchet sessions
  delivers in any order and survives storage; SenderKeyThms the same for groups.

  \<^bold>\<open>The node.\<close> Store, StoreGroups and StoreFiles (store/), Outbox (outbox/manager.go:
  retries, acknowledgements, deduplicated dispatch to the handlers registered in
  \<open>engine\<close>), Contact (contact/manager.go, presence.go), Chat (chat/manager.go), Group
  (group/manager.go), Callsig (callsig/manager.go), Blob with Paths (blob/manager.go
  and what it uses of path/filepath). Two relations are shared by all of them:
  \<open>sends\<close>, what code that only sends may change, and \<open>tame\<close> (Tame), what a handler of
  incoming envelopes must leave alone; every handler is shown tame in its theory, and
  OutboxOnce derives from that alone, in the locale \<open>tame_engine\<close>, that an envelope is
  handled at most once and that one peer's frames cannot harm another's data. The
  properties of each are in StoreProps, OutboxQueue, Circle, ChatThms, CallsigThms,
  GroupDocs (the signed documents of all groups), GroupThms (keys and messages),
  BlobPull (one transfer) and BlobRun (runs of the file engine).

  \<^bold>\<open>The whole program.\<close> App is app/core.go: \<open>core_engine\<close> is the dispatch table of the
  node, \<open>deliver_frame\<close> one turn of its delivery loop; App interprets \<open>tame_engine\<close> on it,
  so that delivery at most once and isolation of peers hold of the composed node, over
  runs of any frames. CallMedia joins the call with the media bridge through the
  callbacks of app.New. Startup is app/bootstrap.go and the start-up of cmd/molvad: entry
  points, seed file, identity subcommands, token. Ipc is ipc/server.go: a connection's
  authentication, its three loops, every command (\<open>dispatch\<close>) and every event, run as
  steps (\<open>server_step\<close>) that interleave freely with the node's own operations; IpcThms
  shows that nothing happens without the token, that there is one interface at a time
  and that commands are executed once and in order.

  \<^bold>\<open>Bounds and fuel.\<close> The ratchet's key skipping terminates by a measure; the flush
  loop of the outbox takes fuel, and \<open>flush_due_ends\<close> gives an amount that is enough;
  the loop resending a call offer runs over the turns it is given, and
  \<open>waiting_offer_ends\<close> bounds them. Parsers and trimmers terminate by the length of their
  input.

  \<^bold>\<open>Interfaces.\<close> \<open>step_order\<close> (relations kept by operations), \<open>tame_engine\<close>, \<open>codec\<close> (exact
  byte formats), \<open>tie_break\<close> (the order that resolves collisions), \<open>index_set\<close> (the
  chunk bitmap) and the chain and table interfaces of SkipChain and StoreProps are
  locales, interpreted on the model's definitions where these are provided.

  \<^bold>\<open>Not modelled.\<close> Opening and migrating the database file and SQL engine failures other
  than violated constraints and refused integers (the engine is a library), the
  overlay network itself (package nodenet: a node sees it as frames delivered, frames
  taken or refused, sessions of media), the websocket and its listener, flags, logging,
  signals and the wiring of the process in cmd/molvad/main.go, statistics snapshots,
  the test harness (apptest/) and generated protobuf code. Goroutines are modelled as
  interleaved operations; an operation that holds no lock while it sends takes what
  others do meanwhile as an argument.
\<close>

end
